(* ===== verification/Prelude.thy ===== *)
theory Prelude
  imports Complex_Main "HOL-Library.Log_Nat"
begin

text \<open>
  What every component shares: the types of identifiers, decimals and dates, the error
  values, the rounding modes of Python's \<^verbatim>\<open>decimal\<close> module and of the Postgres
  \<^verbatim>\<open>NUMERIC\<close> columns, document numbers, tables as lists of rows, and the interface of
  a state machine with an invariant.

  A Python \<^verbatim>\<open>Decimal\<close> is an exact rational here. Sums, differences and products of column
  values are exact in Python as well, because they need at most 28 significant digits
  (lemma \<open>ctx_exact\<close>); where the code divides or multiplies values that may already carry 28
  digits, the rounding of the decimal context is written out with \<open>ctx\<close>.
\<close>

named_theorems row_simps \<open>lookups and updates of rows in a table\<close>
named_theorems err_elims \<open>inversion of operations that may raise\<close>

type_synonym uuid = nat
type_synonym decimal = rat
type_synonym timestamp = int

section \<open>Errors\<close>

text \<open>
  The exceptions of \<^verbatim>\<open>app/exceptions.py\<close> the services raise, with the fixed part of their
  message, and the exceptions of the libraries the services run into.
\<close>

datatype error =
    AppValidationError string
  | InvoiceStateError string
  | NotFoundError string
  | ValueError string
  | LocationCodeTakenError string
  | IndexError
  | KeyError
  | DivisionByZero
  | MultipleResultsFound
  | DataError
  | IntegrityError string

definition bindE :: "error + 'a \<Rightarrow> ('a \<Rightarrow> error + 'b) \<Rightarrow> error + 'b" where
  "bindE m k = (case m of Inl e \<Rightarrow> Inl e | Inr x \<Rightarrow> k x)"

lemma bindE_simps [simp]: "bindE (Inl e) k = Inl e" "bindE (Inr x) k = k x"
  by (simp_all add: bindE_def)

lemma bindE_Inr_iff: "bindE m k = Inr y \<longleftrightarrow> (\<exists>x. m = Inr x \<and> k x = Inr y)"
  by (cases m) simp_all

lemma bindE_InrE [elim!, err_elims]:
  assumes "bindE m k = Inr y"
  obtains x where "m = Inr x" and "k x = Inr y"
  using assms by (auto simp: bindE_Inr_iff)

definition guardE :: "bool \<Rightarrow> error \<Rightarrow> error + unit" where
  "guardE b e = (if b then Inr () else Inl e)"

lemma guardE_Inr [simp]: "guardE b e = Inr u \<longleftrightarrow> b"
  by (simp add: guardE_def)

lemma guardE_True [simp]: "guardE True e = Inr ()"
  by (simp add: guardE_def)

lemma guardE_False [simp]: "guardE False e = Inl e"
  by (simp add: guardE_def)

fun foldE :: "('x \<Rightarrow> 's \<Rightarrow> error + 's) \<Rightarrow> 'x list \<Rightarrow> 's \<Rightarrow> error + 's" where
  "foldE f [] s = Inr s"
| "foldE f (x # xs) s = bindE (f x s) (foldE f xs)"

lemma foldE_invariant:
  assumes "foldE f xs s = Inr t" and "I s"
    and "\<And>x s t. x \<in> set xs \<Longrightarrow> f x s = Inr t \<Longrightarrow> I s \<Longrightarrow> I t"
  shows "I t"
  using assms by (induction xs arbitrary: s) auto

lemma foldE_append: "foldE f (xs @ ys) s = bindE (foldE f xs s) (foldE f ys)"
  by (induction xs arbitrary: s) (auto simp: bindE_def split: sum.splits)

fun mapE :: "('x \<Rightarrow> error + 'y) \<Rightarrow> 'x list \<Rightarrow> error + 'y list" where
  "mapE f [] = Inr []"
| "mapE f (x # xs) = bindE (f x) (\<lambda>y. bindE (mapE f xs) (\<lambda>ys. Inr (y # ys)))"

lemma mapE_Inr: "mapE f xs = Inr ys \<longleftrightarrow> list_all2 (\<lambda>x y. f x = Inr y) xs ys"
  by (induction xs arbitrary: ys) (auto simp: bindE_Inr_iff list_all2_Cons1)

lemma mapE_checks:
  fixes f :: "'x \<Rightarrow> error + unit"
  shows "mapE f xs = Inr us \<Longrightarrow> \<forall>x \<in> set xs. f x = Inr ()"
  by (induction xs arbitrary: us) auto

text \<open>\<^verbatim>\<open>Decimal(x or 0)\<close> on a nullable column.\<close>

definition or_zero :: "decimal option \<Rightarrow> decimal" where
  "or_zero x = (case x of None \<Rightarrow> 0 | Some v \<Rightarrow> v)"

section \<open>Calendar dates\<close>

text \<open>\<^verbatim>\<open>datetime.date\<close>, ordered by year, month, day as Python orders it.\<close>

datatype date = Date (year: int) (month: int) (day: int)

instantiation date :: linorder
begin

definition less_eq_date :: "date \<Rightarrow> date \<Rightarrow> bool" where
  "less_eq_date a b \<longleftrightarrow>
     year a < year b \<or> year a = year b \<and>
       (month a < month b \<or> month a = month b \<and> day a \<le> day b)"

definition less_date :: "date \<Rightarrow> date \<Rightarrow> bool" where
  "less_date a b \<longleftrightarrow>
     year a < year b \<or> year a = year b \<and>
       (month a < month b \<or> month a = month b \<and> day a < day b)"

instance
  by standard (auto simp: less_eq_date_def less_date_def date.expand)

end

section \<open>Rounding\<close>

text \<open>\<^verbatim>\<open>ROUND_HALF_EVEN\<close> and \<^verbatim>\<open>ROUND_HALF_UP\<close> (ties away from zero) of the
  \<^verbatim>\<open>decimal\<close> module, to an integer; \<open>quantize\<close> then keeps a number of places.\<close>

definition round_half_even :: "rat \<Rightarrow> int" where
  "round_half_even x =
     (let f = \<lfloor>x\<rfloor>; d = x - of_int f
      in if d < 1/2 then f else if 1/2 < d then f + 1 else if even f then f else f + 1)"

definition round_half_up :: "rat \<Rightarrow> int" where
  "round_half_up x = (if 0 \<le> x then \<lfloor>x + 1/2\<rfloor> else - \<lfloor>- x + 1/2\<rfloor>)"

definition quantize :: "(rat \<Rightarrow> int) \<Rightarrow> nat \<Rightarrow> decimal \<Rightarrow> decimal" where
  "quantize rnd k x = of_int (rnd (x * 10 ^ k)) / 10 ^ k"

abbreviation paise :: "decimal \<Rightarrow> decimal" where
  "paise \<equiv> quantize round_half_even 2"

text \<open>A value with at most \<open>k\<close> decimal places.\<close>

definition places :: "nat \<Rightarrow> decimal \<Rightarrow> bool" where
  "places k x \<longleftrightarrow> x * 10 ^ k \<in> \<int>"

lemma places_0 [simp]: "places k 0"
  by (simp add: places_def)

lemma places_int [simp]: "places k (numeral n)" "places k 1"
  by (simp_all add: places_def)

lemma places_add [intro]: "places k x \<Longrightarrow> places k y \<Longrightarrow> places k (x + y)"
  by (simp add: places_def distrib_right)

lemma places_diff [intro]: "places k x \<Longrightarrow> places k y \<Longrightarrow> places k (x - y)"
  by (simp add: places_def left_diff_distrib)

lemma places_mult: "places j x \<Longrightarrow> places k y \<Longrightarrow> places (j + k) (x * y)"
proof -
  assume "places j x" and "places k y"
  then have "(x * 10 ^ j) * (y * 10 ^ k) \<in> \<int>"
    unfolding places_def by (rule Ints_mult)
  then show ?thesis by (simp add: places_def power_add mult_ac)
qed

lemma places_mono: "places j x \<Longrightarrow> j \<le> k \<Longrightarrow> places k x"
proof -
  assume "places j x" and "j \<le> k"
  then have "(x * 10 ^ j) * 10 ^ (k - j) \<in> \<int>"
    unfolding places_def by (auto intro!: Ints_mult [of "x * 10 ^ j"])
  moreover from \<open>j \<le> k\<close> have "(x * 10 ^ j) * 10 ^ (k - j) = x * 10 ^ k"
    by (metis le_add_diff_inverse mult.assoc power_add)
  ultimately show ?thesis by (simp add: places_def)
qed

lemma round_half_even_of_int [simp]: "round_half_even (of_int n) = n"
  by (simp add: round_half_even_def)

lemma round_half_even_err: "\<bar>of_int (round_half_even x) - x\<bar> \<le> 1/2"
proof -
  have "of_int \<lfloor>x\<rfloor> \<le> x" and "x \<le> of_int \<lfloor>x\<rfloor> + 1"
    by linarith+
  then show ?thesis by (auto simp: round_half_even_def Let_def abs_le_iff)
qed

lemma round_half_even_ge: "\<lfloor>x\<rfloor> \<le> round_half_even x"
  and round_half_even_le: "round_half_even x \<le> \<lfloor>x\<rfloor> + 1"
  by (auto simp: round_half_even_def Let_def)

lemma round_half_even_mono: "x \<le> y \<Longrightarrow> round_half_even x \<le> round_half_even y"
proof (cases "\<lfloor>x\<rfloor> = \<lfloor>y\<rfloor>")
  case True
  assume "x \<le> y"
  with True show ?thesis by (auto simp: round_half_even_def Let_def)
next
  case False
  assume "x \<le> y"
  with False have "\<lfloor>x\<rfloor> + 1 \<le> \<lfloor>y\<rfloor>" using floor_mono [of x y] by linarith
  then show ?thesis using round_half_even_le [of x] round_half_even_ge [of y] by linarith
qed

lemma round_half_up_of_int [simp]: "round_half_up (of_int n) = n"
  by (auto simp: round_half_up_def floor_eq_iff)

lemma round_half_up_mono: "x \<le> y \<Longrightarrow> round_half_up x \<le> round_half_up y"
  unfolding round_half_up_def by (auto intro: floor_mono; linarith)

lemma round_half_up_nonneg: "0 \<le> x \<Longrightarrow> 0 \<le> round_half_up x"
  by (simp add: round_half_up_def)

lemma quantize_places [simp, intro]: "places k (quantize rnd k x)"
  by (simp add: quantize_def places_def)

lemma quantize_fix: "(\<And>n. rnd (of_int n) = n) \<Longrightarrow> places k x \<Longrightarrow> quantize rnd k x = x"
proof -
  assume fix_int: "\<And>n. rnd (of_int n) = n" and "places k x"
  then obtain z where z: "x * 10 ^ k = of_int z" by (auto simp: places_def elim!: Ints_cases)
  then have "x = of_int z / 10 ^ k" by (simp add: field_simps)
  then show ?thesis by (simp add: quantize_def z fix_int)
qed

lemma quantize_half_even_fix [simp]: "places k x \<Longrightarrow> quantize round_half_even k x = x"
  by (rule quantize_fix) simp_all

lemma quantize_half_up_fix [simp]: "places k x \<Longrightarrow> quantize round_half_up k x = x"
  by (rule quantize_fix) simp_all

lemma quantize_mono: "mono rnd \<Longrightarrow> x \<le> y \<Longrightarrow> quantize rnd k x \<le> quantize rnd k y"
  unfolding quantize_def
  by (intro divide_right_mono of_int_le_iff [THEN iffD2] monoD [of rnd] mult_right_mono) auto

lemma mono_round_half_even: "mono round_half_even"
  by (rule monoI) (rule round_half_even_mono)

lemma mono_round_half_up: "mono round_half_up"
  by (rule monoI) (rule round_half_up_mono)

lemma quantize_0 [simp]: "rnd 0 = 0 \<Longrightarrow> quantize rnd k 0 = 0"
  by (simp add: quantize_def)

lemma round_half_even_0 [simp]: "round_half_even 0 = 0"
  using round_half_even_of_int [of 0] by simp

lemma round_half_up_0 [simp]: "round_half_up 0 = 0"
  using round_half_up_of_int [of 0] by simp

lemma paise_nonneg: "0 \<le> x \<Longrightarrow> 0 \<le> paise x"
  using quantize_mono [OF mono_round_half_even, of 0 x 2] by simp

lemma paise_err: "\<bar>paise x - x\<bar> \<le> 1/200"
proof -
  have "\<bar>of_int (round_half_even (x * 100)) - x * 100\<bar> \<le> 1/2"
    by (rule round_half_even_err)
  then show ?thesis by (simp add: quantize_def abs_le_iff field_simps)
qed

section \<open>The decimal context\<close>

text \<open>
  Python's default context rounds every result to 28 significant digits, ties to even.
  \<open>dexp q\<close> is the exponent of the leading digit of \<open>q > 0\<close>, \<open>ctx\<close> the rounding.
\<close>

definition dexp :: "rat \<Rightarrow> int" where
  "dexp q = (if 1 \<le> q then int (floorlog 10 (nat \<lfloor>q\<rfloor>)) - 1
             else - int (floorlog 10 (nat (\<lceil>1 / q\<rceil> - 1))))"

definition sig28 :: "rat \<Rightarrow> rat" where
  "sig28 q = (let s = 27 - dexp q in of_int (round_half_even (q * 10 powi s)) / 10 powi s)"

definition ctx :: "rat \<Rightarrow> decimal" where
  "ctx q = (if q = 0 then 0 else if 0 < q then sig28 q else - sig28 (- q))"

lemma floorlog_bounds_rat:
  assumes "0 < n"
  shows "0 < floorlog 10 n" and "(10::rat) ^ (floorlog 10 n - 1) \<le> of_nat n"
    and "of_nat n + 1 \<le> (10::rat) ^ floorlog 10 n"
proof -
  have b: "10 ^ (floorlog 10 n - 1) \<le> n" "n + 1 \<le> 10 ^ floorlog 10 n"
    using floorlog_bounds [of n 10] assms by auto
  from b(1) have "of_nat (10 ^ (floorlog 10 n - 1)) \<le> (of_nat n :: rat)"
    by (simp only: of_nat_le_iff)
  then show "(10::rat) ^ (floorlog 10 n - 1) \<le> of_nat n" by simp
  from b(2) have "of_nat (n + 1) \<le> (of_nat (10 ^ floorlog 10 n) :: rat)"
    by (simp only: of_nat_le_iff)
  then show "of_nat n + 1 \<le> (10::rat) ^ floorlog 10 n" by (simp add: add.commute)
  show "0 < floorlog 10 n" using assms by (simp add: floorlog_def)
qed

lemma dexp_bounds_ge1:
  assumes "1 \<le> q"
  shows "10 powi dexp q \<le> q \<and> q < 10 powi (dexp q + 1)"
proof -
  define n where "n = nat \<lfloor>q\<rfloor>"
  have n: "0 < n" "of_nat n \<le> q" "q < of_nat n + 1"
    using assms unfolding n_def by (simp, simp, linarith)
  note b = floorlog_bounds_rat [OF n(1)]
  have "dexp q = int (floorlog 10 n - 1)" and "dexp q + 1 = int (floorlog 10 n)"
    using assms b(1) by (auto simp: dexp_def n_def)
  with b n show ?thesis by (simp only: power_int_of_nat) linarith
qed

lemma dexp_bounds_lt1:
  assumes "0 < q" and "q < 1"
  shows "10 powi dexp q \<le> q \<and> q < 10 powi (dexp q + 1)"
proof -
  define n where "n = nat (\<lceil>1 / q\<rceil> - 1)"
  from assms have y: "1 < 1 / q" by (simp add: field_simps)
  have n: "0 < n" "of_nat n < 1 / q" "1 / q \<le> of_nat n + 1"
    using y unfolding n_def by linarith+
  note b = floorlog_bounds_rat [OF n(1)]
  have d: "dexp q = - int (floorlog 10 n)" "dexp q + 1 = - int (floorlog 10 n - 1)"
    using assms b(1) by (auto simp: dexp_def n_def)
  from b n have "1 / q \<le> 10 ^ floorlog 10 n" "10 ^ (floorlog 10 n - 1) < 1 / q"
    by linarith+
  then have "1 / 10 ^ floorlog 10 n \<le> q" "q < 1 / 10 ^ (floorlog 10 n - 1)"
    using assms(1) by (auto simp: field_simps)
  then have "10 powi (- int (floorlog 10 n)) \<le> q"
    and "q < 10 powi (- int (floorlog 10 n - 1))"
    by (simp_all only: power_int_minus power_int_of_nat inverse_eq_divide)
  then show ?thesis by (simp only: d(2)) (simp only: d(1))
qed

lemma dexp_bounds:
  assumes "0 < q"
  shows "10 powi dexp q \<le> q" and "q < 10 powi (dexp q + 1)"
  using dexp_bounds_ge1 [of q] dexp_bounds_lt1 [of q] assms by linarith+

lemma dexp_mono: "0 < q \<Longrightarrow> q \<le> r \<Longrightarrow> dexp q \<le> dexp r"
proof (rule ccontr)
  assume "0 < q" "q \<le> r" "\<not> dexp q \<le> dexp r"
  then have "(10::rat) powi (dexp r + 1) \<le> 10 powi dexp q"
    by (intro power_int_increasing) auto
  with dexp_bounds [of q] dexp_bounds [of r] \<open>0 < q\<close> \<open>q \<le> r\<close> show False by linarith
qed

lemma sig28_bounds:
  assumes "0 < q"
  shows "10 powi dexp q \<le> sig28 q" and "sig28 q \<le> 10 powi (dexp q + 1)"
proof -
  let ?s = "27 - dexp q"
  have p: "(0::rat) < 10 powi ?s" by simp
  have "(10::rat) powi dexp q * 10 powi ?s = of_int (10 ^ 27)"
    by (simp flip: power_int_add)
  then have "of_int (10 ^ 27) \<le> q * 10 powi ?s"
    using dexp_bounds(1) [OF assms] p by (metis mult_le_cancel_right_pos)
  then have "(10::int) ^ 27 \<le> round_half_even (q * 10 powi ?s)"
    using round_half_even_mono round_half_even_of_int by metis
  then have "(of_int (10 ^ 27) :: rat) \<le> of_int (round_half_even (q * 10 powi ?s))"
    by (simp only: of_int_le_iff)
  moreover have "(of_int (10 ^ 27) :: rat) / 10 powi ?s = 10 powi dexp q"
    by (simp add: field_simps flip: power_int_add)
  ultimately show "10 powi dexp q \<le> sig28 q"
    unfolding sig28_def Let_def using p by (metis divide_right_mono less_imp_le)
  have "(10::rat) powi (dexp q + 1) * 10 powi ?s = of_int (10 ^ 28)"
    by (simp flip: power_int_add)
  then have "q * 10 powi ?s \<le> of_int (10 ^ 28)"
    using dexp_bounds(2) [OF assms] p by (metis mult_le_cancel_right_pos less_imp_le)
  then have "round_half_even (q * 10 powi ?s) \<le> (10::int) ^ 28"
    using round_half_even_mono round_half_even_of_int by metis
  then have "of_int (round_half_even (q * 10 powi ?s)) \<le> (of_int (10 ^ 28) :: rat)"
    by (simp only: of_int_le_iff)
  moreover have "(of_int (10 ^ 28) :: rat) / 10 powi ?s = 10 powi (dexp q + 1)"
    by (simp add: field_simps flip: power_int_add)
  ultimately show "sig28 q \<le> 10 powi (dexp q + 1)"
    unfolding sig28_def Let_def using p by (metis divide_right_mono less_imp_le)
qed

lemma sig28_mono: "0 < q \<Longrightarrow> q \<le> r \<Longrightarrow> sig28 q \<le> sig28 r"
proof (cases "dexp q = dexp r")
  case True
  assume "0 < q" "q \<le> r"
  with True show ?thesis
    by (auto simp: sig28_def Let_def intro!: divide_right_mono round_half_even_mono mult_right_mono)
next
  case False
  assume q: "0 < q" "q \<le> r"
  then have "dexp q + 1 \<le> dexp r" using False dexp_mono [of q r] by linarith
  then have "(10::rat) powi (dexp q + 1) \<le> 10 powi dexp r"
    by (intro power_int_increasing) auto
  with sig28_bounds(2) [of q] sig28_bounds(1) [of r] q show ?thesis by linarith
qed

lemma sig28_fix:
  assumes "0 < q" and "q * 10 ^ k \<in> \<int>" and "q < 10 ^ (28 - k)" and "k \<le> 28"
  shows "sig28 q = q"
proof -
  let ?s = "27 - dexp q"
  have "int k \<le> ?s"
  proof (rule ccontr)
    assume "\<not> int k \<le> ?s"
    then have "int (28 - k) \<le> dexp q" using assms(4) by simp
    then have "(10::rat) powi int (28 - k) \<le> 10 powi dexp q"
      by (intro power_int_increasing) auto
    with dexp_bounds(1) [OF assms(1)] assms(3) show False by simp
  qed
  then have "(10::rat) powi ?s = 10 ^ k * 10 ^ nat (?s - int k)"
    by (simp flip: power_int_of_nat power_int_add)
  then have "q * 10 powi ?s \<in> \<int>"
    using assms(2) by (auto simp: mult.assoc [symmetric] intro!: Ints_mult [of "q * 10 ^ k"])
  then obtain z where "q * 10 powi ?s = of_int z" by (auto elim: Ints_cases)
  then show ?thesis by (simp add: sig28_def Let_def field_simps)
qed

text \<open>Values of bounded scale and size pass through the context unchanged.\<close>

lemma ctx_exact:
  assumes "places k q" and "\<bar>q\<bar> < 10 ^ (28 - k)" and "k \<le> 28"
  shows "ctx q = q"
  using assms sig28_fix [of q k] sig28_fix [of "- q" k]
  by (auto simp: ctx_def places_def minus_in_Ints_iff)

lemma ctx_mono_pos: "0 < q \<Longrightarrow> q \<le> r \<Longrightarrow> ctx q \<le> ctx r"
  using sig28_mono [of q r] by (simp add: ctx_def)

lemma ctx_nonneg: "0 \<le> q \<Longrightarrow> 0 \<le> ctx q"
proof (cases "q = 0")
  case False
  assume "0 \<le> q"
  with False have "0 < q" by simp
  have "(0::rat) < 10 powi dexp q" by simp
  from less_le_trans [OF this sig28_bounds(1) [OF \<open>0 < q\<close>]] \<open>0 < q\<close>
  show ?thesis by (simp add: ctx_def)
qed (simp add: ctx_def)

lemma ctx_0 [simp]: "ctx 0 = 0"
  by (simp add: ctx_def)

lemma ctx_of_int: "\<bar>n\<bar> < 10 ^ 28 \<Longrightarrow> ctx (of_int n) = of_int n"
proof -
  assume n: "\<bar>n\<bar> < 10 ^ 28"
  then have "of_int \<bar>n\<bar> < (of_int (10 ^ 28) :: rat)" by (simp only: of_int_less_iff)
  then show ?thesis by (intro ctx_exact [of 0]) (simp_all add: places_def)
qed

lemma ctx_numeral [simp]: "numeral n < (10::int) ^ 28 \<Longrightarrow> ctx (numeral n) = numeral n"
  using ctx_of_int [of "numeral n"] by simp

lemma ctx_1 [simp]: "ctx 1 = 1"
  using ctx_of_int [of 1] by simp

section \<open>Document numbers\<close>

text \<open>
  \<^verbatim>\<open>f"{n:04d}"\<close> and its inverse. \<open>str_le\<close> is the order in which Postgres compares
  \<^verbatim>\<open>VARCHAR\<close> values made of digits, \<open>int_of_str\<close> Python's \<^verbatim>\<open>int(text)\<close> and the
  SQL cast to \<^verbatim>\<open>INTEGER\<close> on them; \<open>None\<close> is the conversion error.
\<close>

definition digit_char :: "nat \<Rightarrow> char" where
  "digit_char d = char_of (48 + d)"

definition digit_val :: "char \<Rightarrow> nat" where
  "digit_val c = of_char c - 48"

definition is_digit :: "char \<Rightarrow> bool" where
  "is_digit c \<longleftrightarrow> 48 \<le> (of_char c :: nat) \<and> (of_char c :: nat) \<le> 57"

fun dec_string :: "nat \<Rightarrow> string" where
  "dec_string n = (if n < 10 then [digit_char n]
                   else dec_string (n div 10) @ [digit_char (n mod 10)])"

declare dec_string.simps [simp del]

definition pad4 :: "nat \<Rightarrow> string" where
  "pad4 n = replicate (4 - length (dec_string n)) (digit_char 0) @ dec_string n"

definition str_val :: "string \<Rightarrow> nat" where
  "str_val s = foldl (\<lambda>a c. 10 * a + digit_val c) 0 s"

definition int_of_str :: "string \<Rightarrow> nat option" where
  "int_of_str s = (if s \<noteq> [] \<and> list_all is_digit s then Some (str_val s) else None)"

fun str_le :: "string \<Rightarrow> string \<Rightarrow> bool" where
  "str_le [] t = True"
| "str_le (c # s) [] = False"
| "str_le (c # s) (d # t) =
     ((of_char c :: nat) < of_char d \<or> c = d \<and> str_le s t)"

definition str_max :: "string \<Rightarrow> string \<Rightarrow> string" where
  "str_max s t = (if str_le s t then t else s)"

lemma digit_char_props [simp]:
  assumes "d < 10"
  shows "is_digit (digit_char d)" and "digit_val (digit_char d) = d"
  using assms by (auto simp: digit_char_def is_digit_def digit_val_def)

lemma str_val_snoc [simp]: "str_val (s @ [c]) = 10 * str_val s + digit_val c"
  by (simp add: str_val_def)

lemma str_val_Nil [simp]: "str_val [] = 0"
  by (simp add: str_val_def)

lemma dec_string_props: "dec_string n \<noteq> [] \<and> list_all is_digit (dec_string n) \<and> str_val (dec_string n) = n"
proof (induction n rule: dec_string.induct)
  case (1 n)
  show ?case
  proof (cases "n < 10")
    case True
    have "str_val [c] = digit_val c" for c by (simp add: str_val_def)
    with True show ?thesis by (simp add: dec_string.simps [of n])
  next
    case False
    with 1 show ?thesis by (simp add: dec_string.simps [of n])
  qed
qed

lemma str_val_replicate_zero: "str_val (replicate k (digit_char 0) @ s) = str_val s"
proof (induction s rule: rev_induct)
  case Nil
  have "str_val (replicate k (digit_char 0)) = 0"
    unfolding str_val_def by (induction k) simp_all
  then show ?case by simp
next
  case (snoc c s)
  then show ?case by (simp flip: append_assoc)
qed

lemma int_of_str_pad4 [simp]: "int_of_str (pad4 n) = Some n"
  using dec_string_props [of n]
  by (auto simp: int_of_str_def pad4_def str_val_replicate_zero list_all_iff)

lemma pad4_inj [simp]: "pad4 m = pad4 n \<longleftrightarrow> m = n"
  by (metis int_of_str_pad4 option.inject)

lemma length_dec_string: "n < 10 ^ k \<Longrightarrow> 0 < k \<Longrightarrow> length (dec_string n) \<le> k"
proof (induction n arbitrary: k rule: dec_string.induct)
  case (1 n)
  show ?case
  proof (cases "n < 10")
    case True
    with 1 show ?thesis by (simp add: dec_string.simps [of n])
  next
    case False
    with 1(2,3) obtain j where j: "k = Suc j" "0 < j" by (cases k; cases "k - 1") auto
    with 1(2) have "n div 10 < 10 ^ j" by (simp add: div_less_iff_less_mult mult.commute)
    with False 1(1) j show ?thesis by (simp add: dec_string.simps [of n])
  qed
qed

lemma length_pad4: "n < 10000 \<Longrightarrow> length (pad4 n) = 4"
  using length_dec_string [of n 4] by (simp add: pad4_def)

lemma foldl_digits:
  "foldl (\<lambda>a c. 10 * a + digit_val c) x s = x * 10 ^ length s + str_val s"
proof (induction s arbitrary: x)
  case (Cons c s)
  show ?case
    unfolding str_val_def using Cons [of "10 * x + digit_val c"] Cons [of "digit_val c"]
    by (simp add: algebra_simps)
qed simp

lemma str_val_Cons: "str_val (c # s) = digit_val c * 10 ^ length s + str_val s"
  using foldl_digits [of "digit_val c" s] by (simp add: str_val_def)

lemma digit_val_le: "is_digit c \<Longrightarrow> digit_val c \<le> 9"
  by (auto simp: is_digit_def digit_val_def)

lemma digit_val_eq: "is_digit c \<Longrightarrow> is_digit d \<Longrightarrow> digit_val c = digit_val d \<longleftrightarrow> c = d"
proof -
  assume "is_digit c" "is_digit d"
  then have "digit_val c = digit_val d \<longleftrightarrow> (of_char c :: nat) = of_char d"
    unfolding is_digit_def digit_val_def by arith
  then show ?thesis by simp
qed

lemma digit_val_less:
  "is_digit c \<Longrightarrow> is_digit d \<Longrightarrow> digit_val c < digit_val d \<longleftrightarrow> (of_char c :: nat) < of_char d"
  by (auto simp: is_digit_def digit_val_def)

lemma str_val_bound: "list_all is_digit s \<Longrightarrow> str_val s < 10 ^ length s"
proof (induction s)
  case (Cons c s)
  then have "digit_val c * 10 ^ length s \<le> 9 * 10 ^ length s"
    by (intro mult_right_mono) (auto intro: digit_val_le)
  moreover from Cons have "str_val s < 10 ^ length s" by simp
  ultimately have "digit_val c * 10 ^ length s + str_val s < 10 * 10 ^ length s" by linarith
  then show ?case by (simp add: str_val_Cons)
qed simp

lemma digits_less_iff:
  fixes a b x y m :: nat
  assumes "x < m" and "y < m"
  shows "a * m + x \<le> b * m + y \<longleftrightarrow> a < b \<or> a = b \<and> x \<le> y"
proof -
  have "a * m + x < b * m + y" if "a < b"
  proof -
    from that have "(a + 1) * m \<le> b * m" by (intro mult_right_mono) simp_all
    with assms show ?thesis by simp
  qed
  moreover have "b * m + y < a * m + x" if "b < a"
  proof -
    from that have "(b + 1) * m \<le> a * m" by (intro mult_right_mono) simp_all
    with assms show ?thesis by simp
  qed
  ultimately show ?thesis by (cases a b rule: linorder_cases) auto
qed

text \<open>On digit strings of one length the text order is the numeric order.\<close>

lemma str_le_iff_val:
  "length s = length t \<Longrightarrow> list_all is_digit s \<Longrightarrow> list_all is_digit t \<Longrightarrow>
   str_le s t \<longleftrightarrow> str_val s \<le> str_val t"
proof (induction s arbitrary: t)
  case (Cons c s)
  then obtain d u where t: "t = d # u" by (cases t) auto
  from Cons t have len: "length s = length u" and dig: "is_digit c" "is_digit d"
    and s: "str_val s < 10 ^ length u" and u: "str_val u < 10 ^ length u"
    using str_val_bound [of s] str_val_bound [of u] by auto
  have "str_val (c # s) \<le> str_val t
      \<longleftrightarrow> digit_val c < digit_val d \<or> digit_val c = digit_val d \<and> str_val s \<le> str_val u"
    using digits_less_iff [OF s u] by (simp add: t str_val_Cons len)
  also have "\<dots> \<longleftrightarrow> str_le (c # s) t"
    using Cons.IH [of u] Cons.prems dig by (simp add: t digit_val_less digit_val_eq)
  finally show ?case by simp
qed simp

lemma list_all_digit_pad4 [simp]: "list_all is_digit (pad4 n)"
  using dec_string_props [of n] by (auto simp: pad4_def list_all_iff)

lemma str_val_pad4 [simp]: "str_val (pad4 n) = n"
  using int_of_str_pad4 [of n] by (auto simp: int_of_str_def split: if_splits)

lemma str_max_pad4:
  "m < 10000 \<Longrightarrow> n < 10000 \<Longrightarrow> str_max (pad4 m) (pad4 n) = pad4 (max m n)"
  by (simp add: str_max_def str_le_iff_val length_pad4 max_def)

section \<open>Tables\<close>

text \<open>
  A table is the list of its rows. \<open>update_where p f\<close> is an \<^verbatim>\<open>UPDATE\<close> of the rows that
  satisfy \<open>p\<close>; \<open>scalar_one_or_none\<close> is SQLAlchemy's: no row is \<open>None\<close>, more than one
  row raises.
\<close>

definition update_where :: "('r \<Rightarrow> bool) \<Rightarrow> ('r \<Rightarrow> 'r) \<Rightarrow> 'r list \<Rightarrow> 'r list" where
  "update_where p f rs = map (\<lambda>r. if p r then f r else r) rs"

definition scalar_one_or_none :: "'r list \<Rightarrow> error + 'r option" where
  "scalar_one_or_none rs = (case rs of [] \<Rightarrow> Inr None | [r] \<Rightarrow> Inr (Some r)
                              | _ \<Rightarrow> Inl MultipleResultsFound)"

lemma scalar_one_or_none_Some [row_simps]:
  "scalar_one_or_none rs = Inr (Some r) \<longleftrightarrow> rs = [r]"
  by (auto simp: scalar_one_or_none_def split: list.splits)

lemma scalar_one_or_none_None [row_simps]: "scalar_one_or_none rs = Inr None \<longleftrightarrow> rs = []"
  by (auto simp: scalar_one_or_none_def split: list.splits)

lemma filter_oneD: "filter p rs = [r] \<Longrightarrow> r \<in> set rs \<and> p r"
  by (drule arg_cong [of _ _ "\<lambda>xs. r \<in> set xs"]) simp

lemma scalar_one_or_none_mem:
  "scalar_one_or_none (filter p rs) = Inr (Some r) \<Longrightarrow> r \<in> set rs \<and> p r"
  by (rule filter_oneD) (simp add: scalar_one_or_none_Some)

lemma length_update_where [simp]: "length (update_where p f rs) = length rs"
  by (simp add: update_where_def)

lemma set_update_where: "set (update_where p f rs) = f ` {r \<in> set rs. p r} \<union> {r \<in> set rs. \<not> p r}"
  by (auto simp: update_where_def)

lemma map_update_where:
  "(\<And>r. r \<in> set rs \<Longrightarrow> p r \<Longrightarrow> g (f r) = g r) \<Longrightarrow> map g (update_where p f rs) = map g rs"
  by (induction rs) (auto simp: update_where_def)

lemma update_where_hit:
  assumes "y \<in> set (update_where p g xs)" and "\<And>x. p (g x) = p x" and "p y"
  shows "\<exists>x \<in> set xs. y = g x"
  using assms unfolding update_where_def by (auto simp: image_iff split: if_splits)

lemma update_where_none: "(\<And>r. r \<in> set rs \<Longrightarrow> \<not> p r) \<Longrightarrow> update_where p f rs = rs"
  by (induction rs) (auto simp: update_where_def)

lemma filter_update_where:
  "(\<And>r. r \<in> set rs \<Longrightarrow> p r \<Longrightarrow> q (f r) = q r) \<Longrightarrow>
   filter q (update_where p f rs) = update_where p f (filter q rs)"
  by (induction rs) (auto simp: update_where_def)

section \<open>State machines with an invariant\<close>

text \<open>
  The interface between a component's operations and the arguments about whole runs: every
  operation that returns keeps the invariant. A request that raises is rolled back: the next
  one starts from the state before it (\<open>commit\<close>).
\<close>

definition commit :: "('op \<Rightarrow> 's \<Rightarrow> error + 's) \<Rightarrow> 'op \<Rightarrow> 's \<Rightarrow> 's" where
  "commit step op s = (case step op s of Inl _ \<Rightarrow> s | Inr t \<Rightarrow> t)"

locale transactional =
  fixes step :: "'op \<Rightarrow> 's \<Rightarrow> error + 's"
    and inv :: "'s \<Rightarrow> bool"
  assumes step_inv: "step op s = Inr t \<Longrightarrow> inv s \<Longrightarrow> inv t"
begin

lemma commit_inv: "inv s \<Longrightarrow> inv (commit step op s)"
  by (auto simp: commit_def intro: step_inv split: sum.splits)

lemma run_inv: "inv s \<Longrightarrow> inv (fold (commit step) ops s)"
  by (induction ops arbitrary: s) (auto intro: commit_inv)

lemma foldE_inv: "foldE step ops s = Inr t \<Longrightarrow> inv s \<Longrightarrow> inv t"
  by (erule foldE_invariant) (auto intro: step_inv)

end

end
