(* ===== verification/GstStates.thy ===== *)
theory GstStates
  imports Prelude
begin

text \<open>
  The Indian GST state codes and GSTINs of \<^verbatim>\<open>app/utils/gst_states.py\<close>: the code table,
  normalisation to the two-letter form, and the validation of a taxpayer number with its
  mod-36 check digit. Strings are ASCII; \<^verbatim>\<open>str.strip\<close>, \<^verbatim>\<open>str.upper\<close> and the regular
  expression classes are modelled on that range.
\<close>

section \<open>String operations\<close>

definition is_space :: "char \<Rightarrow> bool" where
  "is_space c \<longleftrightarrow> (let n = (of_char c :: nat) in n = 32 \<or> 9 \<le> n \<and> n \<le> 13 \<or> 28 \<le> n \<and> n \<le> 31)"

definition is_upper :: "char \<Rightarrow> bool" where
  "is_upper c \<longleftrightarrow> 65 \<le> (of_char c :: nat) \<and> (of_char c :: nat) \<le> 90"

definition upper_char :: "char \<Rightarrow> char" where
  "upper_char c = (if 97 \<le> (of_char c :: nat) \<and> (of_char c :: nat) \<le> 122
                   then char_of ((of_char c :: nat) - 32) else c)"

definition upper :: "string \<Rightarrow> string" where
  "upper s = map upper_char s"

definition strip :: "string \<Rightarrow> string" where
  "strip s = rev (dropWhile is_space (rev (dropWhile is_space s)))"

fun index_of :: "'a \<Rightarrow> 'a list \<Rightarrow> nat option" where
  "index_of x [] = None"
| "index_of x (y # ys) = (if x = y then Some 0 else map_option Suc (index_of x ys))"

section \<open>State codes\<close>

definition NUMERIC_TO_ALPHA :: "(string \<times> string) list" where
  "NUMERIC_TO_ALPHA =
    [(''01'', ''JK''), (''02'', ''HP''), (''03'', ''PB''), (''04'', ''CH''), (''05'', ''UK''),
     (''06'', ''HR''), (''07'', ''DL''), (''08'', ''RJ''), (''09'', ''UP''), (''10'', ''BR''),
     (''11'', ''SK''), (''12'', ''AR''), (''13'', ''NL''), (''14'', ''MN''), (''15'', ''MZ''),
     (''16'', ''TR''), (''17'', ''ML''), (''18'', ''AS''), (''19'', ''WB''), (''20'', ''JH''),
     (''21'', ''OD''), (''22'', ''CT''), (''23'', ''MP''), (''24'', ''GJ''), (''25'', ''DN''),
     (''26'', ''DN''), (''27'', ''MH''), (''28'', ''AP''), (''29'', ''KA''), (''30'', ''GA''),
     (''31'', ''LD''), (''32'', ''KL''), (''33'', ''TN''), (''34'', ''PY''), (''35'', ''AN''),
     (''36'', ''TG''), (''37'', ''AP''), (''38'', ''LA''), (''97'', ''OT'')]"

definition VALID_ALPHA :: "string list" where
  "VALID_ALPHA = map snd NUMERIC_TO_ALPHA @ [''OR'']"

definition VALID_GST_STATE_CODES :: "string list" where
  "VALID_GST_STATE_CODES = map fst NUMERIC_TO_ALPHA @ VALID_ALPHA"

definition normalize_state_code :: "string option \<Rightarrow> string option" where
  "normalize_state_code raw =
     (case raw of None \<Rightarrow> None
      | Some r \<Rightarrow>
          (let stripped = upper (strip r)
           in if stripped = [] then None
              else case map_of NUMERIC_TO_ALPHA stripped of
                     Some alpha \<Rightarrow> Some alpha
                   | None \<Rightarrow> if stripped \<in> set VALID_ALPHA then Some stripped else None))"

definition is_valid_state_code :: "string \<Rightarrow> bool" where
  "is_valid_state_code code \<longleftrightarrow> normalize_state_code (Some code) \<noteq> None"

definition validate_state_code :: "string option \<Rightarrow> error + string option" where
  "validate_state_code v =
     (case v of None \<Rightarrow> Inr None
      | Some s \<Rightarrow>
          if strip s = [] then Inr None
          else case normalize_state_code v of
                 None \<Rightarrow> Inl (ValueError ''Invalid Indian GST state code'')
               | Some n \<Rightarrow> Inr (Some n))"

section \<open>GSTINs\<close>

text \<open>The character classes of \<^verbatim>\<open>GSTIN_FORMAT_RE\<close>, one per position.\<close>

definition gstin_pattern :: "(char \<Rightarrow> bool) list" where
  "gstin_pattern =
     replicate 2 is_digit @ replicate 5 is_upper @ replicate 4 is_digit @
     [is_upper, \<lambda>c. is_digit c \<and> c \<noteq> CHR ''0'' \<or> is_upper c, \<lambda>c. c = CHR ''Z'',
      \<lambda>c. is_upper c \<or> is_digit c]"

definition gstin_format :: "string \<Rightarrow> bool" where
  "gstin_format g \<longleftrightarrow> list_all2 (\<lambda>p c. p c) gstin_pattern g"

definition normalize_gstin :: "string option \<Rightarrow> string option" where
  "normalize_gstin raw =
     (case raw of None \<Rightarrow> None
      | Some r \<Rightarrow> (let cleaned = upper (strip r) in if cleaned = [] then None else Some cleaned))"

definition GSTIN_ALPHABET :: string where
  "GSTIN_ALPHABET = ''0123456789ABCDEFGHIJKLMNOPQRSTUVWXYZ''"

fun check_total :: "nat \<Rightarrow> nat \<Rightarrow> string \<Rightarrow> error + nat" where
  "check_total i tot [] = Inr tot"
| "check_total i tot (ch # cs) =
     (case index_of ch GSTIN_ALPHABET of
        None \<Rightarrow> Inl (ValueError ''substring not found'')
      | Some v \<Rightarrow>
          (let product = v * (if odd i then 2 else 1)
           in check_total (Suc i) (tot + (product div 36 + product mod 36)) cs))"

definition gstin_check_digit :: "string \<Rightarrow> error + char" where
  "gstin_check_digit first14 =
     bindE (check_total 0 0 first14)
       (\<lambda>tot. Inr (GSTIN_ALPHABET ! ((36 - tot mod 36) mod 36)))"

datatype gstin_error = InvalidFormat | BadStatePrefix | CheckDigitMismatch

definition gstin_validation_error :: "string \<Rightarrow> error + gstin_error option" where
  "gstin_validation_error gstin =
     (if \<not> gstin_format gstin then Inr (Some InvalidFormat)
      else if take 2 gstin \<notin> set (map fst NUMERIC_TO_ALPHA) then Inr (Some BadStatePrefix)
      else bindE (gstin_check_digit (take 14 gstin))
             (\<lambda>d. Inr (if d \<noteq> gstin ! 14 then Some CheckDigitMismatch else None)))"

section \<open>Normalisation\<close>

lemma index_of_Some: "index_of x xs = Some i \<Longrightarrow> i < length xs \<and> xs ! i = x"
  by (induction xs arbitrary: i) (auto split: if_splits)

lemma index_of_None: "index_of x xs = None \<longleftrightarrow> x \<notin> set xs"
  by (induction xs) auto

lemma VALID_ALPHA_normal:
  "\<forall>c \<in> set VALID_ALPHA. upper (strip c) = c \<and> map_of NUMERIC_TO_ALPHA c = None \<and> length c = 2"
  by code_simp

lemma map_of_NUMERIC_TO_ALPHA: "map_of NUMERIC_TO_ALPHA s = Some a \<Longrightarrow> a \<in> set VALID_ALPHA"
  by (force simp: VALID_ALPHA_def dest: map_of_SomeD)

lemma normalize_state_code_valid: "normalize_state_code raw = Some c \<Longrightarrow> c \<in> set VALID_ALPHA"
  by (auto simp: normalize_state_code_def Let_def map_of_NUMERIC_TO_ALPHA
           split: option.splits if_splits)

lemma normalize_VALID_ALPHA [simp]:
  "c \<in> set VALID_ALPHA \<Longrightarrow> normalize_state_code (Some c) = Some c"
  using VALID_ALPHA_normal by (force simp: normalize_state_code_def Let_def)

lemma normalize_None [simp]: "normalize_state_code None = None"
  by (simp add: normalize_state_code_def)

lemma normalize_state_code_idem [simp]:
  "normalize_state_code (normalize_state_code raw) = normalize_state_code raw"
  by (cases "normalize_state_code raw")
     (simp_all add: normalize_state_code_valid)

section \<open>The check digit\<close>

text \<open>The contribution of one character, and the sum over a string from position \<open>i\<close>.\<close>

definition char_index :: "char \<Rightarrow> nat" where
  "char_index c = the (index_of c GSTIN_ALPHABET)"

definition luhn :: "nat \<Rightarrow> nat \<Rightarrow> nat" where
  "luhn i v = (let p = v * (if odd i then 2 else 1) in p div 36 + p mod 36)"

fun luhn_sum :: "nat \<Rightarrow> string \<Rightarrow> nat" where
  "luhn_sum i [] = 0"
| "luhn_sum i (c # cs) = luhn i (char_index c) + luhn_sum (Suc i) cs"

abbreviation alnum :: "char \<Rightarrow> bool" where
  "alnum c \<equiv> c \<in> set GSTIN_ALPHABET"

lemma alnum_range: "set GSTIN_ALPHABET = char_of ` ({48..<58} \<union> {65..<(91::nat)})"
  by code_simp

lemma alnum_iff: "alnum c \<longleftrightarrow> is_digit c \<or> is_upper c"
proof
  show "alnum c \<Longrightarrow> is_digit c \<or> is_upper c"
    by (auto simp: alnum_range is_digit_def is_upper_def of_char_of)
next
  assume "is_digit c \<or> is_upper c"
  then have "of_char c \<in> {48..<58} \<union> {65..<(91::nat)}"
    by (auto simp: is_digit_def is_upper_def)
  then have "char_of (of_char c :: nat) \<in> set GSTIN_ALPHABET"
    unfolding alnum_range by (rule imageI)
  then show "alnum c" by simp
qed

lemma index_of_alnum:
  assumes "alnum c"
  shows "index_of c GSTIN_ALPHABET = Some (char_index c)" and "char_index c < 36"
    and "GSTIN_ALPHABET ! char_index c = c"
proof -
  from assms obtain i where i: "index_of c GSTIN_ALPHABET = Some i"
    by (metis index_of_None not_Some_eq)
  have "length GSTIN_ALPHABET = 36" by code_simp
  with index_of_Some [OF i] i
  show "index_of c GSTIN_ALPHABET = Some (char_index c)" and "char_index c < 36"
    and "GSTIN_ALPHABET ! char_index c = c"
    by (auto simp: char_index_def)
qed

lemma char_index_inj: "alnum c \<Longrightarrow> alnum d \<Longrightarrow> char_index c = char_index d \<longleftrightarrow> c = d"
  by (metis index_of_alnum(3))

lemma nth_GSTIN_ALPHABET_inj:
  "i < 36 \<Longrightarrow> j < 36 \<Longrightarrow> GSTIN_ALPHABET ! i = GSTIN_ALPHABET ! j \<longleftrightarrow> i = j"
proof -
  have "distinct GSTIN_ALPHABET" "length GSTIN_ALPHABET = 36" by code_simp+
  then show "i < 36 \<Longrightarrow> j < 36 \<Longrightarrow> GSTIN_ALPHABET ! i = GSTIN_ALPHABET ! j \<longleftrightarrow> i = j"
    by (simp add: nth_eq_iff_index_eq)
qed

lemma mod_close:
  fixes a b :: nat
  assumes "a mod m = b mod m" and "a < b + m" and "b < a + m"
  shows "a = b"
proof -
  have "a = b" if "a \<le> b" "b mod m = a mod m" "b < a + m" for a b
    using that mod_eq_dvd_iff_nat [of a b m] by (auto dest: dvd_imp_le)
  from this [of a b] this [of b a] assms show ?thesis by linarith
qed

text \<open>The doubled positions permute the 36 values.\<close>

lemma luhn_even: "even i \<Longrightarrow> v < 36 \<Longrightarrow> luhn i v = v"
  by (simp add: luhn_def)

lemma luhn_odd_table: "\<forall>v \<in> set [0..<36]. luhn 1 v = (if v < 18 then 2 * v else 2 * v - 35)"
  by code_simp

lemma luhn_odd: "odd i \<Longrightarrow> v < 36 \<Longrightarrow> luhn i v = (if v < 18 then 2 * v else 2 * v - 35)"
  using luhn_odd_table by (simp add: luhn_def)

lemma luhn_less: "v < 36 \<Longrightarrow> luhn i v < 36"
  by (cases "even i") (auto simp: luhn_even luhn_odd)

lemma luhn_inj: "v < 36 \<Longrightarrow> w < 36 \<Longrightarrow> luhn i v = luhn i w \<longleftrightarrow> v = w"
proof (cases "even i")
  case False
  moreover assume "v < 36" "w < 36"
  ultimately show ?thesis by (auto simp: luhn_odd split: if_splits; presburger)
qed (simp add: luhn_even)

lemma luhn_swap_arith:
  fixes v w :: nat
  assumes "v < 36" and "w < 36"
    and "(v + (if w < 18 then 2 * w else 2 * w - 35)) mod 36 =
         (w + (if v < 18 then 2 * v else 2 * v - 35)) mod 36"
  shows "v = w \<or> v = 0 \<and> w = 35 \<or> v = 35 \<and> w = 0"
proof -
  have "v + (if w < 18 then 2 * w else 2 * w - 35) = w + (if v < 18 then 2 * v else 2 * v - 35)"
    by (rule mod_close [OF assms(3)]) (use assms(1,2) in \<open>auto split: if_splits\<close>)
  with assms(1,2) show ?thesis by (auto split: if_splits)
qed

lemma luhn_swap:
  assumes "v < 36" and "w < 36"
    and "(luhn i v + luhn (Suc i) w) mod 36 = (luhn i w + luhn (Suc i) v) mod 36"
  shows "v = w \<or> v = 0 \<and> w = 35 \<or> v = 35 \<and> w = 0"
proof (cases "even i")
  case True
  with assms show ?thesis by (intro luhn_swap_arith) (simp_all add: luhn_even luhn_odd)
next
  case False
  with assms have "w = v \<or> w = 0 \<and> v = 35 \<or> w = 35 \<and> v = 0"
    by (intro luhn_swap_arith) (simp_all add: luhn_even luhn_odd add.commute)
  then show ?thesis by blast
qed

lemma check_total_luhn:
  "list_all alnum s \<Longrightarrow> check_total i t s = Inr (t + luhn_sum i s)"
  by (induction s arbitrary: i t)
     (auto simp: index_of_alnum luhn_def Let_def)

lemma luhn_sum_append: "luhn_sum i (s @ t) = luhn_sum i s + luhn_sum (i + length s) t"
  by (induction s arbitrary: i) auto

lemma gstin_check_digit_alnum:
  "list_all alnum s \<Longrightarrow>
   gstin_check_digit s = Inr (GSTIN_ALPHABET ! ((36 - luhn_sum 0 s mod 36) mod 36))"
  by (simp add: gstin_check_digit_def check_total_luhn)

lemma check_digit_eq_iff:
  assumes "list_all alnum s" and "list_all alnum t"
  shows "gstin_check_digit s = gstin_check_digit t \<longleftrightarrow>
         luhn_sum 0 s mod 36 = luhn_sum 0 t mod 36"
proof -
  have "(36 - m) mod 36 = (36 - n) mod 36 \<longleftrightarrow> m = n" if "m < 36" "n < 36" for m n :: nat
    using that by (cases "m = 0"; cases "n = 0") auto
  then show ?thesis
    using assms by (simp add: gstin_check_digit_alnum nth_GSTIN_ALPHABET_inj)
qed

lemma mod_less_eq: "(a + x) mod m = (a + y) mod m \<Longrightarrow> x < m \<Longrightarrow> y < m \<Longrightarrow> x = (y::nat)"
  using mod_close [of "a + x" m "a + y"] by simp

section \<open>What an accepted GSTIN guarantees\<close>

lemma gstin_format_nth:
  assumes "gstin_format g"
  shows "length g = 15" and "i < 15 \<Longrightarrow> (gstin_pattern ! i) (g ! i)"
  using assms by (auto simp: gstin_format_def gstin_pattern_def list_all2_conv_all_nth)

lemma gstin_pattern_alnum: "(\<forall>p \<in> set gstin_pattern. p c \<longrightarrow> alnum c)"
  by (auto simp: gstin_pattern_def alnum_iff is_upper_def)

lemma gstin_format_alnum: "gstin_format g \<Longrightarrow> list_all alnum g"
proof -
  assume fmt: "gstin_format g"
  have len: "length gstin_pattern = 15" by (simp add: gstin_pattern_def)
  have "alnum x" if x: "x \<in> set g" for x
  proof -
    from x obtain i where i: "i < 15" "x = g ! i"
      by (metis gstin_format_nth(1) [OF fmt] in_set_conv_nth)
    then have "(gstin_pattern ! i) x" using gstin_format_nth(2) [OF fmt] by simp
    with i(1) len gstin_pattern_alnum show ?thesis by (metis nth_mem)
  qed
  then show ?thesis by (simp add: list_all_iff)
qed

lemma gstin_pattern_excludes:
  "\<forall>i \<in> set [0..<14]. \<not> ((gstin_pattern ! i) CHR ''0'' \<and> (gstin_pattern ! i) CHR ''Z'')"
  by code_simp

lemma gstin_pattern_13: "(gstin_pattern ! 13) c \<longleftrightarrow> c = CHR ''Z''"
  by (simp add: gstin_pattern_def numeral_eq_Suc)

lemma gstin_check_digit_total:
  "gstin_format g \<Longrightarrow> \<exists>d. gstin_check_digit (take 14 g) = Inr d"
proof -
  assume "gstin_format g"
  then have "list_all alnum (take 14 g)"
    using gstin_format_alnum [of g] by (metis in_set_takeD list_all_iff)
  then show ?thesis by (simp add: gstin_check_digit_alnum)
qed

text \<open>Once the format holds, the check digit is computed without an exception.\<close>

lemma gstin_accepted_iff:
  "gstin_validation_error g = Inr None \<longleftrightarrow>
     gstin_format g \<and> take 2 g \<in> set (map fst NUMERIC_TO_ALPHA) \<and>
     gstin_check_digit (take 14 g) = Inr (g ! 14)"
  using gstin_check_digit_total [of g]
  by (auto simp: gstin_validation_error_def bindE_def split: sum.splits)

lemma gstin_accepted_snoc:
  assumes "gstin_validation_error g = Inr None"
  obtains f d where "g = f @ [d]" and "length f = 14" and "list_all alnum f"
    and "gstin_check_digit f = Inr d"
proof
  from assms have fmt: "gstin_format g" and chk: "gstin_check_digit (take 14 g) = Inr (g ! 14)"
    by (simp_all add: gstin_accepted_iff)
  then show "g = take 14 g @ [g ! 14]" and "length (take 14 g) = 14"
    using gstin_format_nth(1) [OF fmt] take_Suc_conv_app_nth [of 14 g] by auto
  show "list_all alnum (take 14 g)"
    using gstin_format_alnum [OF fmt] by (metis in_set_takeD list_all_iff)
  show "gstin_check_digit (take 14 g) = Inr (g ! 14)" by (rule chk)
qed

lemma luhn_sum_subst:
  assumes "alnum a" and "alnum b"
    and "luhn_sum 0 (xs @ a # ys) mod 36 = luhn_sum 0 (xs @ b # ys) mod 36"
  shows "a = b"
proof -
  let ?i = "length xs" and ?r = "luhn_sum 0 xs + luhn_sum (Suc (length xs)) ys"
  from assms(3) have "(?r + luhn ?i (char_index a)) mod 36 = (?r + luhn ?i (char_index b)) mod 36"
    by (simp add: luhn_sum_append ac_simps)
  then have "luhn ?i (char_index a) = luhn ?i (char_index b)"
    by (rule mod_less_eq) (simp_all add: luhn_less index_of_alnum assms)
  then show ?thesis
    by (simp add: luhn_inj index_of_alnum assms char_index_inj)
qed

lemma luhn_sum_swap:
  assumes "alnum a" and "alnum b"
    and "luhn_sum 0 (xs @ a # b # ys) mod 36 = luhn_sum 0 (xs @ b # a # ys) mod 36"
  shows "a = b \<or> {a, b} = {CHR ''0'', CHR ''Z''}"
proof -
  let ?i = "length xs"
  let ?r = "luhn_sum 0 xs + luhn_sum (Suc (Suc (length xs))) ys"
  let ?f = "\<lambda>a b. luhn ?i (char_index a) + luhn (Suc ?i) (char_index b)"
  from assms(3) have "(?r + ?f a b) mod 36 = (?r + ?f b a) mod 36"
    by (simp add: luhn_sum_append ac_simps)
  then have "(?r + ?f a b mod 36) mod 36 = (?r + ?f b a mod 36) mod 36"
    by (simp only: mod_add_right_eq)
  then have "?f a b mod 36 = ?f b a mod 36"
    by (rule mod_less_eq) simp_all
  from luhn_swap [OF _ _ this]
  have "char_index a = char_index b \<or> char_index a = 0 \<and> char_index b = 35
      \<or> char_index a = 35 \<and> char_index b = 0"
    by (simp add: index_of_alnum assms)
  moreover have "GSTIN_ALPHABET ! 0 = CHR ''0''" and "GSTIN_ALPHABET ! 35 = CHR ''Z''"
    by code_simp+
  ultimately show ?thesis
    using assms(1,2) index_of_alnum(3) [of a] index_of_alnum(3) [of b]
    by (auto simp: char_index_inj)
qed

lemma gstin_swap_detected:
  assumes g: "gstin_validation_error (xs @ a # b # ys) = Inr None"
    and h: "gstin_validation_error (xs @ b # a # ys) = Inr None"
  shows "a = b"
proof -
  from g h have fmt: "gstin_format (xs @ a # b # ys)" "gstin_format (xs @ b # a # ys)"
    by (simp_all add: gstin_accepted_iff)
  note len = gstin_format_nth(1) [OF fmt(1)]
  have p: "(gstin_pattern ! length xs) a" "(gstin_pattern ! length xs) b"
    using gstin_format_nth(2) [OF fmt(1), of "length xs"]
      gstin_format_nth(2) [OF fmt(2), of "length xs"] len by auto
  have al: "alnum a" "alnum b" using gstin_format_alnum [OF fmt(1)] by auto
  show ?thesis
  proof (cases ys rule: rev_cases)
    case Nil
    with len p show ?thesis by (simp add: gstin_pattern_13)
  next
    case (snoc zs d)
    from gstin_accepted_snoc [OF g] snoc
    have c: "gstin_check_digit (xs @ a # b # zs) = Inr d" "list_all alnum (xs @ a # b # zs)"
      by auto
    from gstin_accepted_snoc [OF h] snoc
    have c': "gstin_check_digit (xs @ b # a # zs) = Inr d" "list_all alnum (xs @ b # a # zs)"
      by auto
    from c c' have "luhn_sum 0 (xs @ a # b # zs) mod 36 = luhn_sum 0 (xs @ b # a # zs) mod 36"
      using check_digit_eq_iff [OF c(2) c'(2)] by simp
    note swap = luhn_sum_swap [OF al this]
    from len snoc have "length xs \<in> set [0..<14]" by simp
    from bspec [OF gstin_pattern_excludes this] p have "{a, b} \<noteq> {CHR ''0'', CHR ''Z''}"
      by (metis doubleton_eq_iff)
    with swap show ?thesis by blast
  qed
qed

lemma gstin_subst_detected:
  assumes g: "gstin_validation_error (xs @ a # ys) = Inr None"
    and h: "gstin_validation_error (xs @ b # ys) = Inr None"
  shows "a = b"
proof (cases ys rule: rev_cases)
  case Nil
  from gstin_accepted_snoc [OF g] Nil have "gstin_check_digit xs = Inr a" by auto
  moreover from gstin_accepted_snoc [OF h] Nil have "gstin_check_digit xs = Inr b" by auto
  ultimately show ?thesis by simp
next
  case (snoc zs d)
  from gstin_accepted_snoc [OF g] snoc
  have c: "gstin_check_digit (xs @ a # zs) = Inr d" "list_all alnum (xs @ a # zs)" by auto
  from gstin_accepted_snoc [OF h] snoc
  have c': "gstin_check_digit (xs @ b # zs) = Inr d" "list_all alnum (xs @ b # zs)" by auto
  from c c' have "luhn_sum 0 (xs @ a # zs) mod 36 = luhn_sum 0 (xs @ b # zs) mod 36"
    using check_digit_eq_iff [OF c(2) c'(2)] by simp
  with c(2) c'(2) show ?thesis by (auto intro: luhn_sum_subst)
qed

lemma gstin_state:
  assumes "gstin_validation_error g = Inr None"
  shows "\<exists>c. normalize_state_code (Some (take 2 g)) = Some c"
proof -
  have keys: "\<forall>k \<in> set (map fst NUMERIC_TO_ALPHA). upper (strip k) = k \<and> length k = 2"
    by code_simp
  from assms have "take 2 g \<in> set (map fst NUMERIC_TO_ALPHA)"
    by (simp add: gstin_accepted_iff)
  with keys have k: "upper (strip (take 2 g)) = take 2 g" "take 2 g \<noteq> []"
    and "map_of NUMERIC_TO_ALPHA (take 2 g) \<noteq> None"
    by (auto simp: map_of_eq_None_iff simp del: length_take)
  then show ?thesis by (auto simp: normalize_state_code_def Let_def)
qed

section \<open>Properties\<close>

text \<open>\<open>h\<close> is \<open>g\<close> with one character mistyped or two neighbours exchanged.\<close>

definition one_typo :: "string \<Rightarrow> string \<Rightarrow> bool" where
  "one_typo g h \<longleftrightarrow>
     (\<exists>xs a b ys. a \<noteq> b \<and> g = xs @ a # ys \<and> h = xs @ b # ys) \<or>
     (\<exists>xs a b ys. a \<noteq> b \<and> g = xs @ a # b # ys \<and> h = xs @ b # a # ys)"

lemma gstin_validation_total: "\<exists>r. gstin_validation_error g = Inr r"
  using gstin_check_digit_total [of g] by (auto simp: gstin_validation_error_def)

text \<open>C18: Validation of a GSTIN never raises, and it catches every single mistyped character
  and every exchange of two neighbouring characters of an accepted number.\<close>

theorem gstin_typo_detected:
  assumes "gstin_validation_error g = Inr None" and "one_typo g h"
  shows "\<exists>e. gstin_validation_error h = Inr (Some e)"
proof -
  obtain r where r: "gstin_validation_error h = Inr r" using gstin_validation_total by blast
  have "gstin_validation_error h \<noteq> Inr None"
    using assms gstin_subst_detected gstin_swap_detected unfolding one_typo_def by metis
  with r show ?thesis by (cases r) auto
qed

theorem gstin_typo_detected_witness:
  "gstin_validation_error ''27AAPFU0939F1ZV'' = Inr None \<and>
   (\<exists>e. gstin_validation_error ''27AAPFU0993F1ZV'' = Inr (Some e))"
proof -
  have ok: "gstin_validation_error ''27AAPFU0939F1ZV'' = Inr None" by code_simp
  have "one_typo ''27AAPFU0939F1ZV'' ''27AAPFU0993F1ZV''"
    unfolding one_typo_def
    by (rule disjI2, rule exI [of _ "''27AAPFU09''"], rule exI [of _ "CHR ''3''"],
        rule exI [of _ "CHR ''9''"], rule exI [of _ "''F1ZV''"]) simp
  from gstin_typo_detected [OF ok this] ok show ?thesis by simp
qed

lemma normalized_is_canonical:
  "normalize_state_code raw = Some c \<Longrightarrow>
   c \<in> set VALID_ALPHA \<and> length c = 2 \<and> normalize_state_code (Some c) = Some c"
  using VALID_ALPHA_normal by (auto simp: normalize_state_code_valid)

lemma listed_code_accepted:
  assumes "code \<in> set VALID_GST_STATE_CODES" and "upper (strip r) = code"
  shows "is_valid_state_code r \<and> validate_state_code (Some r) = Inr (normalize_state_code (Some r))"
proof -
  have "\<forall>k \<in> set (map fst NUMERIC_TO_ALPHA) \<union> set VALID_ALPHA. k \<noteq> []"
    by code_simp
  with assms have "upper (strip r) \<noteq> []"
    and "map_of NUMERIC_TO_ALPHA code = None \<Longrightarrow> code \<in> set VALID_ALPHA"
    by (auto simp: VALID_GST_STATE_CODES_def map_of_eq_None_iff)
  with assms show ?thesis
    by (auto simp: is_valid_state_code_def validate_state_code_def normalize_state_code_def
        Let_def upper_def split: option.splits)
qed

text \<open>Normalisation yields only two-letter codes of the canonical set, is idempotent, accepts
  every listed numeric and alphabetic code whatever its case and surrounding blanks, and the
  first two digits of an accepted GSTIN always name a state.\<close>

theorem state_codes_canonical:
  "(normalize_state_code raw = Some c \<longrightarrow>
      c \<in> set VALID_ALPHA \<and> length c = 2 \<and> normalize_state_code (Some c) = Some c) \<and>
   (upper (strip r) \<in> set VALID_GST_STATE_CODES \<longrightarrow>
      is_valid_state_code r \<and> validate_state_code (Some r) = Inr (normalize_state_code (Some r))) \<and>
   (gstin_validation_error g = Inr None \<longrightarrow> (\<exists>c. normalize_state_code (Some (take 2 g)) = Some c))"
  using normalized_is_canonical [of raw c] listed_code_accepted [of _ r] gstin_state [of g] by blast

theorem state_codes_canonical_witness:
  "normalize_state_code (Some '' 27 '') = Some ''MH'' \<and> normalize_state_code (Some ''MH'') = Some ''MH'' \<and>
   is_valid_state_code ''mh'' \<and> (\<exists>c. normalize_state_code (Some (take 2 ''27AAPFU0939F1ZV'')) = Some c)"
proof -
  have a: "normalize_state_code (Some '' 27 '') = Some ''MH''" by code_simp
  have b: "upper (strip ''mh'') \<in> set VALID_GST_STATE_CODES" by code_simp
  have c: "gstin_validation_error ''27AAPFU0939F1ZV'' = Inr None" by code_simp
  from state_codes_canonical [of "Some '' 27 ''" "''MH''" "''mh''" "''27AAPFU0939F1ZV''"] a b c
  show ?thesis by blast
qed

end
