(* ===== verification/Gst.thy ===== *)
theory Gst
  imports GstStates
begin

text \<open>
  The place-of-supply engine and the tax arithmetic of \<^verbatim>\<open>app/service/gst_service.py\<close>,
  and the magnitude guard of \<^verbatim>\<open>app/utils/money.py\<close>: which tax a sale bears, how a line's tax
  splits into CGST, SGST and IGST, and the GST periods and document series of credit notes.
\<close>

section \<open>Money guard\<close>

definition MAX_MONEY :: decimal where
  "MAX_MONEY = 1000000000"

definition ensure_money_in_range :: "decimal \<Rightarrow> error + decimal" where
  "ensure_money_in_range value =
     (if \<bar>value\<bar> > MAX_MONEY then Inl (AppValidationError ''exceeds the supported maximum'')
      else Inr value)"

section \<open>Enumerations\<close>

datatype TaxType = CGST_SGST | IGST | NIL_LUT | NIL_NOT_A_SUPPLY | NIL

datatype DocumentType = TAX_INVOICE | BILL_OF_SUPPLY | DELIVERY_CHALLAN | CREDIT_NOTE

datatype BuyerStatus = REGISTERED | CONSUMER | UNREGISTERED | SEZ | EXPORT | EOU

section \<open>GSTR-1 threshold, GST periods, financial years\<close>

definition B2CL_THRESHOLD_BEFORE_AUG_2024 :: decimal where
  "B2CL_THRESHOLD_BEFORE_AUG_2024 = 250000"

definition B2CL_THRESHOLD_FROM_AUG_2024 :: decimal where
  "B2CL_THRESHOLD_FROM_AUG_2024 = 100000"

definition B2CL_THRESHOLD_CUTOVER_DATE :: date where
  "B2CL_THRESHOLD_CUTOVER_DATE = Date 2024 8 1"

definition b2cl_threshold :: "date option \<Rightarrow> decimal" where
  "b2cl_threshold invoice_date =
     (case invoice_date of
        Some d \<Rightarrow> if d < B2CL_THRESHOLD_CUTOVER_DATE then B2CL_THRESHOLD_BEFORE_AUG_2024
                  else B2CL_THRESHOLD_FROM_AUG_2024
      | None \<Rightarrow> B2CL_THRESHOLD_FROM_AUG_2024)"

definition is_b2cl_value :: "decimal \<Rightarrow> date option \<Rightarrow> bool" where
  "is_b2cl_value invoice_value invoice_date \<longleftrightarrow> invoice_value > b2cl_threshold invoice_date"

text \<open>
  A UTC time stamp is a date and the seconds since midnight; India Standard Time is five and a
  half hours ahead, so the local date is the next day from 18:30 UTC on.
\<close>

definition is_leap :: "int \<Rightarrow> bool" where
  "is_leap y \<longleftrightarrow> 4 dvd y \<and> (\<not> 100 dvd y \<or> 400 dvd y)"

definition days_in_month :: "int \<Rightarrow> int \<Rightarrow> int" where
  "days_in_month y m = (if m = 2 then if is_leap y then 29 else 28
                        else if m \<in> {4, 6, 9, 11} then 30 else 31)"

definition next_day :: "date \<Rightarrow> date" where
  "next_day d =
     (if day d < days_in_month (year d) (month d) then Date (year d) (month d) (day d + 1)
      else if month d < 12 then Date (year d) (month d + 1) 1 else Date (year d + 1) 1 1)"

definition gst_local_date :: "date \<times> int \<Rightarrow> date" where
  "gst_local_date ts = (case ts of (d, secs) \<Rightarrow> if secs + 19800 \<ge> 86400 then next_day d else d)"

definition gst_period :: "date \<Rightarrow> int \<times> int" where
  "gst_period d = (year d, month d)"

definition is_later_gst_period :: "date \<Rightarrow> date \<Rightarrow> bool" where
  "is_later_gst_period d than =
     (case (gst_period d, gst_period than) of
        ((y, m), (y', m')) \<Rightarrow> y > y' \<or> y = y' \<and> m > m')"

definition credit_note_deadline :: "date \<Rightarrow> date" where
  "credit_note_deadline invoice_date =
     (let fy_end_year = (if month invoice_date \<ge> 4 then year invoice_date + 1
                         else year invoice_date)
      in Date fy_end_year 11 30)"

definition pad2 :: "nat \<Rightarrow> string" where
  "pad2 n = [digit_char (n div 10), digit_char (n mod 10)]"

definition indian_fy_label :: "date \<Rightarrow> string" where
  "indian_fy_label d =
     (let start = (if month d \<ge> 4 then year d else year d - 1)
      in pad2 (nat (start mod 100)) @ ''-'' @ pad2 (nat ((start + 1) mod 100)))"

definition CREDIT_NOTE_SERIES_PREFIX :: string where
  "CREDIT_NOTE_SERIES_PREFIX = ''CN''"

definition CANCELLATION_REVERSAL_SERIES_PREFIX :: string where
  "CANCELLATION_REVERSAL_SERIES_PREFIX = ''CXL''"

definition credit_note_series :: "date \<Rightarrow> string" where
  "credit_note_series note_date = CREDIT_NOTE_SERIES_PREFIX @ ''/'' @ indian_fy_label note_date"

definition cancellation_reversal_series :: "date \<Rightarrow> string" where
  "cancellation_reversal_series reversal_date =
     CANCELLATION_REVERSAL_SERIES_PREFIX @ ''/'' @ indian_fy_label reversal_date"

definition VALID_GST_SLAB_RATES :: "decimal list" where
  "VALID_GST_SLAB_RATES = [0, 25/100, 3, 5, 12, 18, 28]"

definition is_valid_gst_rate :: "decimal option \<Rightarrow> bool" where
  "is_valid_gst_rate rate = (case rate of None \<Rightarrow> True | Some r \<Rightarrow> r \<in> set VALID_GST_SLAB_RATES)"

section \<open>Place of supply\<close>

record PlaceOfSupply =
  ps_tax_type :: TaxType
  ps_pos_state :: "string option"
  ps_document_type :: DocumentType
  ps_gstr1_section :: string

definition or_else :: "'a option \<Rightarrow> 'a option \<Rightarrow> 'a option" where
  "or_else a b = (case a of None \<Rightarrow> b | Some _ \<Rightarrow> a)"

definition zero_rated :: "bool \<Rightarrow> string \<Rightarrow> PlaceOfSupply" where
  "zero_rated lut_active dest =
     \<lparr>ps_tax_type = (if lut_active then NIL_LUT else IGST), ps_pos_state = Some dest,
      ps_document_type = TAX_INVOICE, ps_gstr1_section = ''EXPORT''\<rparr>"

definition determine_place_of_supply ::
  "string \<Rightarrow> string option \<Rightarrow> string option \<Rightarrow> string option \<Rightarrow> BuyerStatus \<Rightarrow> string option
   \<Rightarrow> decimal \<Rightarrow> bool \<Rightarrow> bool \<Rightarrow> date option \<Rightarrow> PlaceOfSupply" where
  "determine_place_of_supply seller_state0 seller_gstin buyer_state0 buyer_gstin buyer_status
     ship_to_state0 invoice_value lut_active seller_has_gst invoice_date =
   (let seller_state = (case normalize_state_code (Some seller_state0) of
                          Some s \<Rightarrow> s | None \<Rightarrow> seller_state0);
        buyer_state = normalize_state_code buyer_state0;
        ship_to_state = normalize_state_code ship_to_state0
    in if \<not> seller_has_gst then
         \<lparr>ps_tax_type = NIL, ps_pos_state = or_else ship_to_state buyer_state,
          ps_document_type = BILL_OF_SUPPLY, ps_gstr1_section = ''NIL''\<rparr>
       else if seller_gstin \<noteq> None \<and> buyer_gstin \<noteq> None \<and> seller_gstin = buyer_gstin then
         \<lparr>ps_tax_type = NIL_NOT_A_SUPPLY, ps_pos_state = None,
          ps_document_type = DELIVERY_CHALLAN, ps_gstr1_section = ''NIL''\<rparr>
       else if buyer_status = SEZ then zero_rated lut_active ''SEZ''
       else if buyer_status = EXPORT then zero_rated lut_active ''EXPORT''
       else if buyer_status = EOU then zero_rated lut_active ''EOU''
       else
         let is_b2c_unregistered = buyer_status \<in> {CONSUMER, UNREGISTERED};
             pos0 = or_else ship_to_state buyer_state;
             pos1 = (if pos0 = None \<and> is_b2c_unregistered \<and> seller_state \<noteq> []
                     then Some seller_state else pos0)
         in case pos1 of
              None \<Rightarrow>
                \<lparr>ps_tax_type = NIL_NOT_A_SUPPLY, ps_pos_state = None,
                 ps_document_type = TAX_INVOICE, ps_gstr1_section = ''NIL''\<rparr>
            | Some pos \<Rightarrow>
                if pos \<noteq> seller_state then
                  \<lparr>ps_tax_type = IGST, ps_pos_state = Some pos, ps_document_type = TAX_INVOICE,
                   ps_gstr1_section =
                     (if is_b2c_unregistered
                      then if is_b2cl_value invoice_value invoice_date then ''B2CL'' else ''B2CS''
                      else ''B2B'')\<rparr>
                else
                  \<lparr>ps_tax_type = CGST_SGST, ps_pos_state = Some seller_state,
                   ps_document_type = TAX_INVOICE,
                   ps_gstr1_section = (if is_b2c_unregistered then ''B2CS'' else ''B2B'')\<rparr>)"

section \<open>Tax amounts\<close>

record GstSplit =
  cgst :: decimal
  sgst :: decimal
  igst :: decimal

abbreviation no_tax :: GstSplit where
  "no_tax \<equiv> \<lparr>cgst = 0, sgst = 0, igst = 0\<rparr>"

definition compute_line_gst :: "decimal \<Rightarrow> decimal \<Rightarrow> TaxType \<Rightarrow> error + GstSplit" where
  "compute_line_gst line_amount gst_rate tax_type =
     (if line_amount < 0 then Inl (AppValidationError ''line_amount cannot be negative'')
      else if gst_rate < 0 then Inl (AppValidationError ''gst_rate cannot be negative'')
      else if tax_type = IGST then
        Inr \<lparr>cgst = 0, sgst = 0, igst = paise (line_amount * gst_rate / 100)\<rparr>
      else if tax_type = CGST_SGST then
        (let half = paise (line_amount * gst_rate / 200)
         in Inr \<lparr>cgst = half, sgst = half, igst = 0\<rparr>)
      else Inr no_tax)"

definition split_tax :: "TaxType \<Rightarrow> decimal \<Rightarrow> error + GstSplit" where
  "split_tax tax_type gst_amount =
     (if gst_amount < 0 then Inl (AppValidationError ''gst_amount cannot be negative'')
      else if tax_type = IGST then Inr \<lparr>cgst = 0, sgst = 0, igst = gst_amount\<rparr>
      else if tax_type = CGST_SGST then
        (let half = paise (gst_amount / 2) in Inr \<lparr>cgst = half, sgst = half, igst = 0\<rparr>)
      else Inr no_tax)"

definition tax_total :: "GstSplit \<Rightarrow> decimal" where
  "tax_total s = cgst s + sgst s + igst s"

section \<open>Lemmas\<close>

lemma compute_line_gst_Inr:
  "compute_line_gst a r t = Inr s \<longleftrightarrow>
     0 \<le> a \<and> 0 \<le> r \<and>
     s = (if t = IGST then \<lparr>cgst = 0, sgst = 0, igst = paise (a * r / 100)\<rparr>
          else if t = CGST_SGST
          then \<lparr>cgst = paise (a * r / 200), sgst = paise (a * r / 200), igst = 0\<rparr>
          else no_tax)"
  by (auto simp: compute_line_gst_def Let_def)

lemma compute_line_gst_nonneg:
  "compute_line_gst a r t = Inr s \<Longrightarrow> 0 \<le> cgst s \<and> 0 \<le> sgst s \<and> 0 \<le> igst s"
  by (auto simp: compute_line_gst_Inr intro!: paise_nonneg)

lemma compute_line_gst_places:
  "compute_line_gst a r t = Inr s \<Longrightarrow> places 2 (cgst s) \<and> places 2 (sgst s) \<and> places 2 (igst s)"
  by (auto simp: compute_line_gst_Inr)

lemma twice_half_err: "\<bar>2 * paise (x / 2) - x\<bar> \<le> 1/100"
  using paise_err [of "x / 2"] by linarith

lemma compute_line_gst_err:
  assumes "compute_line_gst a r t = Inr s" and "t \<in> {IGST, CGST_SGST}"
  shows "\<bar>tax_total s - a * r / 100\<bar> \<le> 1/100"
proof (cases "t = IGST")
  case True
  with assms(1) paise_err [of "a * r / 100"] show ?thesis
    by (simp add: compute_line_gst_Inr tax_total_def)
next
  case False
  with assms twice_half_err [of "a * r / 100"] show ?thesis
    by (simp add: compute_line_gst_Inr tax_total_def)
qed

lemma compute_line_gst_NIL:
  "compute_line_gst a r t = Inr s \<Longrightarrow> t \<notin> {IGST, CGST_SGST} \<Longrightarrow> s = no_tax"
  by (auto simp: compute_line_gst_Inr)

lemma split_tax_compute:
  assumes "compute_line_gst a r t = Inr s"
  shows "split_tax t (tax_total s) = Inr s"
  using assms compute_line_gst_nonneg [OF assms] compute_line_gst_places [OF assms]
  by (auto simp: compute_line_gst_Inr split_tax_def tax_total_def Let_def)

lemma split_tax_err:
  assumes "split_tax t g = Inr s" and "t \<in> {IGST, CGST_SGST}"
  shows "cgst s = sgst s \<and> \<bar>tax_total s - g\<bar> \<le> 1/100"
  using assms twice_half_err [of g]
  by (auto simp: split_tax_def tax_total_def Let_def split: if_splits)

text \<open>The exact destination: where the goods go, else where the buyer is.\<close>

definition destination :: "string option \<Rightarrow> string option \<Rightarrow> string option" where
  "destination ship buyer = or_else (normalize_state_code ship) (normalize_state_code buyer)"

lemma or_else_None [simp]: "or_else a b = None \<longleftrightarrow> a = None \<and> b = None"
  by (cases a) (auto simp: or_else_def)

lemma pos_taxed:
  assumes "ps_tax_type (determine_place_of_supply s sg b bg st sh v lut reg d) \<in> {CGST_SGST, IGST}"
  shows "reg" and "\<not> (sg \<noteq> None \<and> sg = bg)" and "st \<in> {SEZ, EXPORT, EOU} \<Longrightarrow> \<not> lut"
    and "st \<in> {SEZ, EXPORT, EOU} \<Longrightarrow>
         ps_tax_type (determine_place_of_supply s sg b bg st sh v lut reg d) = IGST"
  using assms
  by (auto simp: determine_place_of_supply_def zero_rated_def Let_def split: if_splits)

lemma pos_domestic:
  assumes "normalize_state_code (Some s) = Some home" and "st \<in> {REGISTERED, CONSUMER, UNREGISTERED}"
    and "\<not> (sg \<noteq> None \<and> sg = bg)"
  shows "ps_tax_type (determine_place_of_supply s sg b bg st sh v lut True d) =
     (case destination sh b of
        Some dest \<Rightarrow> if dest = home then CGST_SGST else IGST
      | None \<Rightarrow> if st = REGISTERED then NIL_NOT_A_SUPPLY else CGST_SGST)"
proof -
  have "home \<noteq> []"
    using normalize_state_code_valid [OF assms(1)] VALID_ALPHA_normal by force
  moreover have "st \<noteq> SEZ" "st \<noteq> EXPORT" "st \<noteq> EOU" "st = REGISTERED \<longleftrightarrow> st \<notin> {CONSUMER, UNREGISTERED}"
    using assms(2) by auto
  moreover have "(sg \<noteq> None \<and> bg \<noteq> None \<and> sg = bg) = False" using assms(3) by auto
  ultimately show ?thesis
    using assms(1)
    by (cases "destination sh b")
       (simp_all add: determine_place_of_supply_def destination_def [symmetric] Let_def
                 del: not_None_eq, auto)
qed

lemma fy_deadline:
  assumes "1 \<le> month d" and "month d \<le> 12"
  shows "d < credit_note_deadline d"
  using assms by (auto simp: credit_note_deadline_def less_date_def Let_def)

lemma digit_char_inj: "a < 10 \<Longrightarrow> b < 10 \<Longrightarrow> digit_char a = digit_char b \<longleftrightarrow> a = b"
  by (metis digit_char_props(2))

lemma pad2_inj: "m < 100 \<Longrightarrow> n < 100 \<Longrightarrow> pad2 m = pad2 n \<longleftrightarrow> m = n"
  by (auto simp: pad2_def digit_char_inj) (metis div_mult_mod_eq)

text \<open>The first year of the Indian financial year (April to March) a date lies in.\<close>

definition fy_start :: "date \<Rightarrow> int" where
  "fy_start d = (if month d \<ge> 4 then year d else year d - 1)"

lemma fy_label_eq_iff: "indian_fy_label d = indian_fy_label e \<longleftrightarrow> fy_start d mod 100 = fy_start e mod 100"
proof -
  have lab: "indian_fy_label d =
      pad2 (nat (fy_start d mod 100)) @ ''-'' @ pad2 (nat ((fy_start d + 1) mod 100))" for d
    by (cases "4 \<le> month d") (simp_all add: indian_fy_label_def fy_start_def Let_def)
  have len: "length (pad2 n) = 2" for n by (simp add: pad2_def)
  have "(fy_start d + 1) mod 100 = (fy_start e + 1) mod 100" if "fy_start d mod 100 = fy_start e mod 100"
    using that by (metis mod_add_left_eq)
  then show ?thesis
    unfolding lab by (auto simp: pad2_inj len nat_eq_iff)
qed

section \<open>Properties\<close>

text \<open>C17: For a GST-registered seller with a recorded state and an ordinary buyer, the tax is
  decided by the destination alone, however the state codes are spelled: CGST+SGST when the goods
  stay in the seller's state, IGST otherwise; with no destination a registered buyer's sale is
  refused (not a supply) and an unregistered buyer's sale is intra-state.\<close>

theorem domestic_tax_by_destination:
  assumes "normalize_state_code (Some s) = Some home"
    and "st \<in> {REGISTERED, CONSUMER, UNREGISTERED}"
    and "\<not> (sg \<noteq> None \<and> sg = bg)"
  shows "ps_tax_type (determine_place_of_supply s sg b bg st sh v lut True d) =
     (case destination sh b of
        Some dest \<Rightarrow> if dest = home then CGST_SGST else IGST
      | None \<Rightarrow> if st = REGISTERED then NIL_NOT_A_SUPPLY else CGST_SGST)"
  by (rule pos_domestic [OF assms])

theorem domestic_tax_by_destination_witness:
  "ps_tax_type (determine_place_of_supply ''MH'' (Some ''S'') None None CONSUMER (Some ''27'')
     1000 False True None) = CGST_SGST"
proof -
  have n: "normalize_state_code (Some ''MH'') = Some ''MH''"
    and d: "destination (Some ''27'') None = Some ''MH''"
    by code_simp+
  show ?thesis
    by (simp add: domestic_tax_by_destination [OF n] d)
qed

text \<open>Whatever the buyer, no line is taxed unless the seller is GST-registered and the parties
  are distinct registrations, and a zero-rated destination is taxed only without an LUT and then
  only as IGST.\<close>

theorem taxed_only_when_due:
  assumes "compute_line_gst a r
             (ps_tax_type (determine_place_of_supply s sg b bg st sh v lut reg d)) = Inr split"
    and "tax_total split \<noteq> 0"
  shows "reg \<and> \<not> (sg \<noteq> None \<and> sg = bg) \<and>
         (st \<in> {SEZ, EXPORT, EOU} \<longrightarrow> \<not> lut \<and> cgst split = 0 \<and> sgst split = 0)"
proof -
  let ?t = "ps_tax_type (determine_place_of_supply s sg b bg st sh v lut reg d)"
  have t: "?t \<in> {CGST_SGST, IGST}"
  proof (rule ccontr)
    assume "?t \<notin> {CGST_SGST, IGST}"
    then have "split = no_tax" using compute_line_gst_NIL [OF assms(1)] by blast
    with assms(2) show False by (simp add: tax_total_def)
  qed
  show ?thesis
    using pos_taxed [OF t] assms(1) by (auto simp: compute_line_gst_Inr)
qed

theorem taxed_only_when_due_witness:
  "\<exists>split. compute_line_gst 100 18
      (ps_tax_type (determine_place_of_supply ''MH'' None None None EXPORT None 0 False True None))
      = Inr split \<and> cgst split = 0 \<and> sgst split = 0"
proof -
  let ?t = "ps_tax_type (determine_place_of_supply ''MH'' None None None EXPORT None 0 False True None)"
  have t: "?t = IGST" by (simp add: determine_place_of_supply_def zero_rated_def Let_def)
  have c: "compute_line_gst 100 18 ?t = Inr \<lparr>cgst = 0, sgst = 0, igst = 18\<rparr>"
    unfolding t by code_simp
  have "tax_total \<lparr>cgst = 0, sgst = 0, igst = 18\<rparr> \<noteq> 0" by (simp add: tax_total_def)
  from taxed_only_when_due [OF c this] c show ?thesis by simp
qed

text \<open>A line's tax has whole-paise, non-negative components, CGST equal to SGST, and for a
  taxable type a total within one paisa of amount times rate; splitting the stored total again, as
  the PDF and GSTR-1 do, returns exactly the same components.\<close>

theorem line_gst_statutory:
  assumes "compute_line_gst a r t = Inr s"
  shows "cgst s = sgst s \<and> 0 \<le> cgst s \<and> 0 \<le> igst s \<and> places 2 (cgst s) \<and> places 2 (igst s) \<and>
         (t \<in> {IGST, CGST_SGST} \<longrightarrow> \<bar>tax_total s - a * r / 100\<bar> \<le> 1/100) \<and>
         split_tax t (tax_total s) = Inr s"
  using assms compute_line_gst_nonneg [OF assms] compute_line_gst_places [OF assms]
    compute_line_gst_err [OF assms] split_tax_compute [OF assms]
  by (auto simp: compute_line_gst_Inr)

theorem line_gst_statutory_witness:
  "compute_line_gst (23333/100) 5 CGST_SGST = Inr \<lparr>cgst = 583/100, sgst = 583/100, igst = 0\<rparr> \<and>
   split_tax CGST_SGST (1166/100) = Inr \<lparr>cgst = 583/100, sgst = 583/100, igst = 0\<rparr>"
proof -
  have c: "compute_line_gst (23333/100) 5 CGST_SGST =
      Inr \<lparr>cgst = 583/100, sgst = 583/100, igst = 0\<rparr>" by code_simp
  from line_gst_statutory [OF c] c show ?thesis by (simp add: tax_total_def)
qed

text \<open>Splitting any stored, non-negative tax total succeeds with equal CGST and SGST halves
  that differ from the total by at most one paisa (the legacy odd-paise case).\<close>

theorem split_tax_legacy:
  assumes "0 \<le> g" and "t \<in> {IGST, CGST_SGST}"
  shows "\<exists>s. split_tax t g = Inr s \<and> cgst s = sgst s \<and> \<bar>tax_total s - g\<bar> \<le> 1/100"
proof -
  from assms obtain s where s: "split_tax t g = Inr s" by (auto simp: split_tax_def Let_def)
  from split_tax_err [OF s assms(2)] s show ?thesis by blast
qed

theorem split_tax_legacy_witness:
  "\<exists>s. split_tax CGST_SGST (1167/100) = Inr s \<and> cgst s = sgst s \<and> \<bar>tax_total s - 1167/100\<bar> \<le> 1/100"
  by (rule split_tax_legacy) simp_all

text \<open>Within a century the credit-note series name identifies the Indian financial year, every
  invoice of one financial year has the same section 34 deadline, and the deadline lies after
  the invoice.\<close>

theorem credit_note_series_per_fy:
  assumes "1 \<le> month d" and "month d \<le> 12" and "\<bar>fy_start d - fy_start e\<bar> < 100"
  shows "(credit_note_series d = credit_note_series e \<longleftrightarrow> fy_start d = fy_start e) \<and>
         (fy_start d = fy_start e \<longrightarrow> credit_note_deadline d = credit_note_deadline e) \<and>
         d < credit_note_deadline d"
proof -
  have "fy_start d mod 100 = fy_start e mod 100 \<longleftrightarrow> fy_start d = fy_start e"
    using assms(3) dvd_imp_le_int [of "fy_start d - fy_start e" 100]
    by (auto simp: mod_eq_dvd_iff)
  moreover have "credit_note_deadline x = Date (fy_start x + 1) 11 30" for x
    by (simp add: credit_note_deadline_def fy_start_def)
  ultimately show ?thesis
    using fy_deadline [OF assms(1,2)]
    by (simp add: credit_note_series_def fy_label_eq_iff)
qed

theorem credit_note_series_per_fy_witness:
  "credit_note_series (Date 2027 3 31) = credit_note_series (Date 2026 10 10) \<and>
   credit_note_series (Date 2027 4 1) \<noteq> credit_note_series (Date 2027 3 31) \<and>
   credit_note_series (Date 2026 10 10) = ''CN/26-27''"
proof -
  have "credit_note_series (Date 2026 10 10) = ''CN/26-27''" by code_simp
  then show ?thesis
    using credit_note_series_per_fy [of "Date 2027 3 31" "Date 2026 10 10"]
      credit_note_series_per_fy [of "Date 2027 4 1" "Date 2027 3 31"]
    by (simp add: fy_start_def)
qed

end
