(* ===== verification/Numbering.thy ===== *)
theory Numbering
  imports Prelude
begin

text \<open>
  How the services allocate document numbers within a (firm, type, series): the next number is
  one more than the largest number in use, padded to four digits. Two variants exist. The
  general ledger takes the largest number as an integer
  (\<^verbatim>\<open>max(cast(number, Integer))\<close>); orders, challans, invoices and stock-adjustment vouchers
  take the largest as text (\<^verbatim>\<open>max(number)\<close>) and convert that to an integer.

  The locale \<open>numbering\<close> is what a caller needs of an allocator, a number nobody has yet;
  \<open>endless_numbering\<close> adds that this stays so after every allocation. The integer variant is
  an interpretation of both without a condition; the text variant of the first only, as long as
  the numbers in use have four digits.
\<close>

section \<open>Allocators\<close>

text \<open>The cast of a \<^verbatim>\<open>VARCHAR\<close> to \<^verbatim>\<open>INTEGER\<close>: an error outside the digits or the range.\<close>

definition cast_integer :: "string \<Rightarrow> error + nat" where
  "cast_integer s =
     (case int_of_str s of
        None \<Rightarrow> Inl DataError
      | Some n \<Rightarrow> if int n \<le> 2147483647 then Inr n else Inl DataError)"

definition next_by_int :: "string list \<Rightarrow> error + string" where
  "next_by_int used =
     bindE (mapE cast_integer used) (\<lambda>ks. Inr (pad4 (fold max ks 0 + 1)))"

definition text_max :: "string list \<Rightarrow> string" where
  "text_max used = (case used of [] \<Rightarrow> ''0'' | n # ns \<Rightarrow> fold str_max ns n)"

definition next_by_text :: "string list \<Rightarrow> string" where
  "next_by_text used =
     (let last_int = (case int_of_str (text_max used) of Some k \<Rightarrow> k | None \<Rightarrow> 0)
      in pad4 (last_int + 1))"

section \<open>What callers rely on\<close>

fun issue :: "(string list \<Rightarrow> error + string) \<Rightarrow> nat \<Rightarrow> string list \<Rightarrow> error + string list" where
  "issue next 0 used = Inr used"
| "issue next (Suc k) used = bindE (next used) (\<lambda>n. issue next k (n # used))"

locale numbering =
  fixes "next" :: "string list \<Rightarrow> error + string"
    and ok :: "string list \<Rightarrow> bool"
  assumes fresh: "ok used \<Longrightarrow> next used = Inr n \<Longrightarrow> n \<notin> set used"

locale endless_numbering = numbering +
  assumes ok_next: "ok used \<Longrightarrow> next used = Inr n \<Longrightarrow> ok (n # used)"
begin

lemma issue_distinct:
  "\<lbrakk>issue next k used = Inr used'; ok used; distinct used\<rbrakk> \<Longrightarrow> distinct used' \<and> set used \<subseteq> set used'"
proof (induction k arbitrary: used)
  case (Suc k)
  then obtain n where n: "next used = Inr n" and rest: "issue next k (n # used) = Inr used'" by auto
  have "ok (n # used)" and "distinct (n # used)"
    using ok_next [OF Suc.prems(2) n] fresh [OF Suc.prems(2) n] Suc.prems(3) by simp_all
  from Suc.IH [OF rest this] show ?case by simp
qed simp

end

section \<open>The integer variant\<close>

lemma fold_max_ge: "x \<in> set ks \<or> x \<le> a \<Longrightarrow> (x::nat) \<le> fold max ks a"
proof (induction ks arbitrary: a)
  case (Cons k ks)
  have "x \<in> set ks \<or> x \<le> max k a" using Cons.prems by auto
  from Cons.IH [OF this] show ?case by simp
qed simp

lemma cast_integer_Inr: "cast_integer s = Inr k \<Longrightarrow> int_of_str s = Some k"
  by (auto simp: cast_integer_def split: option.splits if_splits)

lemma next_by_int_fresh: "next_by_int used = Inr n \<Longrightarrow> n \<notin> set used"
proof
  assume "next_by_int used = Inr n" and n: "n \<in> set used"
  then obtain ks where ks: "list_all2 (\<lambda>x y. cast_integer x = Inr y) used ks"
    and m: "n = pad4 (fold max ks 0 + 1)"
    by (auto simp: next_by_int_def mapE_Inr)
  from ks n have "\<exists>k \<in> set ks. cast_integer n = Inr k"
    by (induction used ks rule: list_all2_induct) auto
  then obtain k where "k \<in> set ks" "cast_integer n = Inr k" by blast
  moreover from this have "k = fold max ks 0 + 1"
    using cast_integer_Inr [of n k] by (simp add: m)
  ultimately show False using fold_max_ge [of k ks 0] by simp
qed

interpretation by_int: endless_numbering next_by_int "\<lambda>_. True"
  by unfold_locales (auto dest: next_by_int_fresh)

section \<open>The text variant\<close>

definition four_digits :: "string list \<Rightarrow> bool" where
  "four_digits used \<longleftrightarrow> (\<forall>n \<in> set used. n \<in> pad4 ` {..9999})"

lemma fold_str_max_pad4:
  "k < 10000 \<Longrightarrow> \<forall>n \<in> set ns. n < 10000 \<Longrightarrow> fold str_max (map pad4 ns) (pad4 k) = pad4 (fold max ns k)"
  by (induction ns arbitrary: k) (auto simp: str_max_pad4 max.commute)

lemma text_max_pad4:
  "\<forall>n \<in> set ns. n < 10000 \<Longrightarrow> ns \<noteq> [] \<Longrightarrow> text_max (map pad4 ns) = pad4 (fold max (tl ns) (hd ns))"
  by (cases ns) (auto simp: text_max_def fold_str_max_pad4)

lemma four_digits_obtain:
  assumes "four_digits used"
  obtains ns where "used = map pad4 ns" and "\<forall>n \<in> set ns. n < 10000"
proof -
  have "\<exists>ns. used = map pad4 ns \<and> (\<forall>n \<in> set ns. n < 10000)"
    using assms unfolding four_digits_def
  proof (induction used)
    case (Cons u used)
    then obtain ns k where "used = map pad4 ns" "\<forall>n \<in> set ns. n < 10000" "u = pad4 k" "k \<le> 9999"
      by auto
    then show ?case by (intro exI [of _ "k # ns"]) simp
  qed simp
  with that show ?thesis by blast
qed

lemma next_by_text_four_digits:
  assumes "\<forall>n \<in> set ns. n < 10000"
  shows "next_by_text (map pad4 ns) = pad4 (fold max ns 0 + 1)"
proof (cases ns)
  case Nil
  have "int_of_str ''0'' = Some 0" by code_simp
  then show ?thesis by (simp add: Nil next_by_text_def text_max_def)
next
  case (Cons n ns')
  then show ?thesis using assms text_max_pad4 [of ns] by (simp add: next_by_text_def)
qed

lemma next_by_text_fresh: "four_digits used \<Longrightarrow> next_by_text used \<notin> set used"
proof
  assume "four_digits used" and u: "next_by_text used \<in> set used"
  then obtain ns where ns: "used = map pad4 ns" "\<forall>n \<in> set ns. n < 10000"
    by (auto elim: four_digits_obtain)
  with u have "fold max ns 0 + 1 \<in> set ns" by (auto simp: next_by_text_four_digits)
  then show False using fold_max_ge [of "fold max ns 0 + 1" ns 0] by simp
qed

interpretation by_text: numbering "\<lambda>used. Inr (next_by_text used)" four_digits
  by unfold_locales (auto dest: next_by_text_fresh)

text \<open>Past four digits the text order puts \<^verbatim>\<open>9999\<close> above \<^verbatim>\<open>10000\<close>.\<close>

lemma pad4_values: "pad4 9999 = ''9999''" "pad4 10000 = ''10000''"
  by (simp_all add: pad4_def dec_string.simps digit_char_def char_of_def bit_iff_odd)

lemma str_max_9999:
  "str_max (pad4 10000) (pad4 9999) = pad4 9999" "str_max (pad4 9999) (pad4 10000) = pad4 9999"
  by (simp_all add: pad4_values str_max_def)

lemma str_max_9999_le: "k \<le> 10000 \<Longrightarrow> str_max (pad4 k) (pad4 9999) = pad4 9999 \<and>
    str_max (pad4 9999) (pad4 k) = pad4 9999"
  using str_max_9999 by (cases "k = 10000") (auto simp: str_max_pad4)

lemma str_max_either: "str_max s t = s \<or> str_max s t = t"
  by (simp add: str_max_def)

lemma fold_str_max_9999:
  "\<lbrakk>\<forall>n \<in> set ns. n \<le> 10000; k \<le> 10000; k = 9999 \<or> 9999 \<in> set ns\<rbrakk> \<Longrightarrow>
   fold str_max (map pad4 ns) (pad4 k) = pad4 9999"
proof (induction ns arbitrary: k)
  case (Cons n ns)
  consider "n = 9999 \<or> k = 9999" | "n \<noteq> 9999" "k \<noteq> 9999" "9999 \<in> set ns" using Cons.prems by auto
  then show ?case
  proof cases
    case 1
    with Cons.prems have "str_max (pad4 n) (pad4 k) = pad4 9999" by (auto simp: str_max_9999_le)
    with Cons show ?thesis by simp
  next
    case 2
    with Cons str_max_either [of "pad4 n" "pad4 k"] show ?thesis by auto
  qed
qed auto

lemma next_by_text_stuck:
  assumes "set used \<subseteq> pad4 ` {..10000}" and "pad4 9999 \<in> set used"
  shows "next_by_text used = pad4 10000"
proof -
  have "\<exists>ns. used = map pad4 ns \<and> (\<forall>n \<in> set ns. n \<le> 10000)"
    using assms(1)
  proof (induction used)
    case (Cons u used)
    then obtain ns k where "used = map pad4 ns" "\<forall>n \<in> set ns. n \<le> 10000" "u = pad4 k" "k \<le> 10000"
      by auto
    then show ?case by (intro exI [of _ "k # ns"]) simp
  qed simp
  then obtain ns where ns: "used = map pad4 ns" "\<forall>n \<in> set ns. n \<le> 10000" by blast
  with assms(2) have "9999 \<in> set ns" by auto
  with ns have "text_max used = pad4 9999"
    using fold_str_max_9999 [of "tl ns" "hd ns"] by (cases ns) (auto simp: text_max_def)
  then show ?thesis by (simp add: next_by_text_def)
qed

end
