(* ===== verification/Inventory.thy ===== *)
theory Inventory
  imports Prelude "HOL-Library.Product_Lexorder" "HOL-Library.Multiset"
begin

text \<open>
  The stock engine of \<^verbatim>\<open>app/service/inventory_service.py\<close>: an append-only ledger of
  movements, one position row per (org, firm, item, location, lot), weighted-average cost,
  FIFO consumption across lots and sales-order reservations.

  The state \<open>inv\<close> is the tables the service reads and writes. A call of a service function
  runs in one transaction: it returns the new tables or raises, and a raise leaves the tables as
  they were. Row locks (\<^verbatim>\<open>FOR UPDATE\<close>) serialise calls, so runs are sequences of calls.
  Server-generated UUIDs come from an arbitrary supply in the state. The columns
  \<^verbatim>\<open>updated_at\<close>, \<^verbatim>\<open>created_by\<close> and \<^verbatim>\<open>updated_by\<close> are not modelled.
\<close>

section \<open>Rows\<close>

datatype ItemType = RAW | SEMI_FINISHED | FINISHED | SERVICE | CONSUMABLE | BY_PRODUCT | SCRAP

datatype LocationType =
  WAREHOUSE | GODOWN | SHELF | BIN | IN_TRANSIT | STAGING | SCRAP_LOCATION

record firm_row =
  firm_id :: uuid
  firm_org :: uuid
  fy_start_month :: "int option"
  firm_deleted :: bool

record item_row =
  item_id :: uuid
  item_org :: uuid
  item_firm :: "uuid option"
  item_type :: ItemType
  item_deleted :: bool

record location_row =
  location_id :: uuid
  location_org :: uuid
  location_firm :: uuid
  location_code :: string
  location_name :: string
  location_type :: LocationType
  location_active :: bool
  location_deleted :: bool

record lot_row =
  lot_id :: uuid
  lot_org :: uuid
  received_date :: "date option"
  lot_created_at :: "timestamp option"
  lot_deleted :: bool

record stock_key =
  k_org :: uuid
  k_firm :: uuid
  k_item :: uuid
  k_location :: uuid
  k_lot :: "uuid option"

record stock_position =
  stock_position_id :: uuid
  pos_key :: stock_key
  on_hand_qty :: decimal
  reserved_qty_mo :: decimal
  reserved_qty_so :: decimal
  in_transit_qty :: decimal
  current_cost :: "decimal option"
  as_of_date :: date

record ledger_row =
  sl_key :: stock_key
  txn_type :: string
  txn_date :: date
  reference_type :: string
  reference_id :: uuid
  qty_in :: decimal
  qty_out :: decimal
  unit_cost :: "decimal option"
  sl_notes :: "string option"

record inv =
  firms :: "firm_row list"
  items :: "item_row list"
  locations :: "location_row list"
  lots :: "lot_row list"
  positions :: "stock_position list"
  stock_ledger :: "ledger_row list"
  uuid_supply :: "nat \<Rightarrow> uuid"
  minted :: nat

definition mint :: "inv \<Rightarrow> inv \<times> uuid" where
  "mint s = (s\<lparr>minted := Suc (minted s)\<rparr>, uuid_supply s (minted s))"

text \<open>What a movement is booked against: its origin, date and note.\<close>

record movement_ref =
  mv_type :: string
  mv_id :: uuid
  mv_date :: "date option"
  mv_notes :: "string option"

section \<open>Guards\<close>

definition assert_firm_in_org :: "uuid \<Rightarrow> uuid \<Rightarrow> inv \<Rightarrow> error + unit" where
  "assert_firm_in_org org firm s =
     bindE (scalar_one_or_none
              (filter (\<lambda>f. firm_id f = firm \<and> firm_org f = org \<and> \<not> firm_deleted f) (firms s)))
       (\<lambda>r. guardE (r \<noteq> None) (AppValidationError ''Firm not found in this org''))"

definition validate_qty :: "decimal \<Rightarrow> error + unit" where
  "validate_qty qty = (if qty \<le> 0 then Inl (AppValidationError ''qty must be positive'') else Inr ())"

definition ensure_item_in_org :: "uuid \<Rightarrow> uuid \<Rightarrow> inv \<Rightarrow> error + unit" where
  "ensure_item_in_org org item s =
     bindE (scalar_one_or_none
              (filter (\<lambda>i. item_id i = item \<and> item_org i = org \<and> \<not> item_deleted i) (items s)))
       (\<lambda>r. guardE (r \<noteq> None) (AppValidationError ''Item not found in this org''))"

definition ensure_location_in_firm :: "uuid \<Rightarrow> uuid \<Rightarrow> uuid \<Rightarrow> inv \<Rightarrow> error + unit" where
  "ensure_location_in_firm org firm loc s =
     bindE (scalar_one_or_none
              (filter (\<lambda>l. location_id l = loc \<and> location_org l = org \<and> location_firm l = firm)
                 (locations s)))
       (\<lambda>r. guardE (r \<noteq> None) (AppValidationError ''Location not found in this firm''))"

definition ensure_lot_in_org :: "uuid \<Rightarrow> uuid \<Rightarrow> inv \<Rightarrow> error + unit" where
  "ensure_lot_in_org org lot s =
     bindE (scalar_one_or_none
              (filter (\<lambda>l. lot_id l = lot \<and> lot_org l = org \<and> \<not> lot_deleted l) (lots s)))
       (\<lambda>r. guardE (r \<noteq> None) (AppValidationError ''Lot not found in this org''))"

text \<open>The checks \<^verbatim>\<open>add_stock\<close> and \<^verbatim>\<open>remove_stock\<close> share.\<close>

definition check_movement :: "stock_key \<Rightarrow> inv \<Rightarrow> error + unit" where
  "check_movement k s =
     bindE (ensure_item_in_org (k_org k) (k_item k) s) (\<lambda>_.
     bindE (ensure_location_in_firm (k_org k) (k_firm k) (k_location k) s) (\<lambda>_.
       case k_lot k of None \<Rightarrow> Inr () | Some l \<Rightarrow> ensure_lot_in_org (k_org k) l s))"

section \<open>Locations\<close>

definition new_location ::
  "uuid \<Rightarrow> uuid \<Rightarrow> string \<Rightarrow> string \<Rightarrow> LocationType \<Rightarrow> inv \<Rightarrow> inv \<times> location_row" where
  "new_location org firm code name ty s =
     (case mint s of (s', i) \<Rightarrow>
       let l = \<lparr>location_id = i, location_org = org, location_firm = firm, location_code = code,
                location_name = name, location_type = ty, location_active = True,
                location_deleted = False\<rparr>
       in (s'\<lparr>locations := locations s' @ [l]\<rparr>, l))"

definition find_location_by_code ::
  "uuid \<Rightarrow> uuid \<Rightarrow> string \<Rightarrow> inv \<Rightarrow> error + location_row option" where
  "find_location_by_code org firm code s =
     scalar_one_or_none
       (filter (\<lambda>l. location_org l = org \<and> location_firm l = firm \<and> location_code l = code)
          (locations s))"

definition get_or_create_default_location ::
  "uuid \<Rightarrow> uuid \<Rightarrow> inv \<Rightarrow> error + inv \<times> location_row" where
  "get_or_create_default_location org firm s =
     bindE (find_location_by_code org firm ''MAIN'' s) (\<lambda>existing.
       case existing of
         Some l \<Rightarrow> Inr (s, l)
       | None \<Rightarrow> Inr (new_location org firm ''MAIN'' ''Main Warehouse'' WAREHOUSE s))"

definition create_location ::
  "uuid \<Rightarrow> uuid \<Rightarrow> string \<Rightarrow> string \<Rightarrow> LocationType \<Rightarrow> inv \<Rightarrow> error + inv \<times> location_row" where
  "create_location org firm code name ty s =
     bindE (assert_firm_in_org org firm s) (\<lambda>_.
     bindE (find_location_by_code org firm code s) (\<lambda>existing.
       case existing of
         Some _ \<Rightarrow> Inl (LocationCodeTakenError ''Location code already exists for this firm'')
       | None \<Rightarrow> Inr (new_location org firm code name ty s)))"

text \<open>Rows ordered by code; \<open>str_le\<close> is the column's order on ASCII codes.\<close>

fun insert_by_code :: "location_row \<Rightarrow> location_row list \<Rightarrow> location_row list" where
  "insert_by_code l [] = [l]"
| "insert_by_code l (m # ms) =
     (if str_le (location_code l) (location_code m) then l # m # ms
      else m # insert_by_code l ms)"

definition list_locations :: "uuid \<Rightarrow> uuid option \<Rightarrow> bool \<Rightarrow> inv \<Rightarrow> location_row list" where
  "list_locations org firm include_inactive s =
     foldr insert_by_code
       (filter (\<lambda>l. location_org l = org \<and> (firm = None \<or> firm = Some (location_firm l)) \<and>
                    (include_inactive \<or> location_active l) \<and> \<not> location_deleted l)
          (locations s)) []"

section \<open>Positions\<close>

definition position_rows :: "stock_key \<Rightarrow> inv \<Rightarrow> stock_position list" where
  "position_rows k s = filter (\<lambda>p. pos_key p = k) (positions s)"

definition update_position ::
  "stock_key \<Rightarrow> (stock_position \<Rightarrow> stock_position) \<Rightarrow> inv \<Rightarrow> inv" where
  "update_position k f s = s\<lparr>positions := update_where (\<lambda>p. pos_key p = k) f (positions s)\<rparr>"

definition insert_ledger :: "ledger_row \<Rightarrow> inv \<Rightarrow> inv" where
  "insert_ledger r s = s\<lparr>stock_ledger := stock_ledger s @ [r]\<rparr>"

definition lock_or_create_position ::
  "date \<Rightarrow> stock_key \<Rightarrow> inv \<Rightarrow> error + inv \<times> stock_position" where
  "lock_or_create_position today k s =
     bindE (scalar_one_or_none (position_rows k s)) (\<lambda>row.
       case row of
         Some p \<Rightarrow> Inr (s, p)
       | None \<Rightarrow>
           (case mint s of (s', i) \<Rightarrow>
             let p = \<lparr>stock_position_id = i, pos_key = k, on_hand_qty = 0, reserved_qty_mo = 0,
                      reserved_qty_so = 0, in_transit_qty = 0, current_cost = None,
                      as_of_date = today\<rparr>
             in Inr (s'\<lparr>positions := positions s' @ [p]\<rparr>, p)))"

definition weighted_cost :: "decimal \<Rightarrow> decimal \<Rightarrow> decimal \<Rightarrow> decimal \<Rightarrow> decimal" where
  "weighted_cost old_qty old_cost qty cost =
     (if old_qty + qty > 0
      then ctx (ctx (ctx (old_qty * old_cost) + ctx (qty * cost)) / (old_qty + qty))
      else cost)"

definition add_stock ::
  "date \<Rightarrow> stock_key \<Rightarrow> decimal \<Rightarrow> decimal \<Rightarrow> movement_ref \<Rightarrow> inv \<Rightarrow> error + inv \<times> ledger_row" where
  "add_stock today k qty cost ref s =
     bindE (validate_qty qty) (\<lambda>_.
     bindE (guardE (\<not> cost < 0) (AppValidationError ''unit_cost must be >= 0'')) (\<lambda>_.
     bindE (check_movement k s) (\<lambda>_.
     let d = (case mv_date ref of Some x \<Rightarrow> x | None \<Rightarrow> today) in
     bindE (lock_or_create_position today k s) (\<lambda>(s1, pos).
     let old_qty = on_hand_qty pos;
         old_cost = (case current_cost pos of Some c \<Rightarrow> c | None \<Rightarrow> 0);
         new_cost = weighted_cost old_qty old_cost qty cost;
         row = \<lparr>sl_key = k, txn_type = ''IN'', txn_date = d, reference_type = mv_type ref,
                reference_id = mv_id ref, qty_in = qty, qty_out = 0, unit_cost = Some cost,
                sl_notes = mv_notes ref\<rparr>
     in Inr (insert_ledger row
               (update_position k
                  (\<lambda>p. p\<lparr>on_hand_qty := old_qty + qty, current_cost := Some new_cost,
                         as_of_date := d\<rparr>) s1),
             row)))))"

definition remove_stock ::
  "date \<Rightarrow> stock_key \<Rightarrow> decimal \<Rightarrow> movement_ref \<Rightarrow> inv \<Rightarrow> error + inv \<times> ledger_row" where
  "remove_stock today k qty ref s =
     bindE (validate_qty qty) (\<lambda>_.
     bindE (check_movement k s) (\<lambda>_.
     let d = (case mv_date ref of Some x \<Rightarrow> x | None \<Rightarrow> today) in
     bindE (scalar_one_or_none (position_rows k s)) (\<lambda>found.
       case found of
         None \<Rightarrow> Inl (AppValidationError ''No stock'')
       | Some pos \<Rightarrow>
           let on_hand = on_hand_qty pos in
           if on_hand < qty then Inl (AppValidationError ''Insufficient stock'')
           else
             let row = \<lparr>sl_key = k, txn_type = ''OUT'', txn_date = d,
                        reference_type = mv_type ref, reference_id = mv_id ref, qty_in = 0,
                        qty_out = qty, unit_cost = current_cost pos, sl_notes = mv_notes ref\<rparr>
             in Inr (insert_ledger row
                       (update_position k
                          (\<lambda>p. p\<lparr>on_hand_qty := on_hand - qty, as_of_date := d\<rparr>) s),
                     row))))"

section \<open>FIFO consumption across lots\<close>

definition at_location :: "uuid \<Rightarrow> uuid \<Rightarrow> uuid \<Rightarrow> uuid \<Rightarrow> stock_position \<Rightarrow> bool" where
  "at_location org firm item loc p \<longleftrightarrow>
     k_org (pos_key p) = org \<and> k_firm (pos_key p) = firm \<and> k_item (pos_key p) = item \<and>
     k_location (pos_key p) = loc"

definition get_total_on_hand :: "uuid \<Rightarrow> uuid \<Rightarrow> uuid \<Rightarrow> uuid \<Rightarrow> inv \<Rightarrow> decimal" where
  "get_total_on_hand org firm item loc s =
     sum_list (map on_hand_qty (filter (at_location org firm item loc) (positions s)))"

definition DATE_MIN :: date where "DATE_MIN = Date 1 1 1"
definition DATE_MAX :: date where "DATE_MAX = Date 9999 12 31"
definition DATETIME_MIN :: timestamp where "DATETIME_MIN = -62135596800000000"
definition DATETIME_MAX :: timestamp where "DATETIME_MAX = 253402300799999999"

definition lot_order :: "inv \<Rightarrow> uuid \<Rightarrow> date \<times> timestamp" where
  "lot_order s l =
     (case find (\<lambda>r. lot_id r = l) (lots s) of
        None \<Rightarrow> (DATE_MAX, DATETIME_MAX)
      | Some r \<Rightarrow> (case received_date r of Some d \<Rightarrow> d | None \<Rightarrow> DATE_MAX,
                   case lot_created_at r of Some t \<Rightarrow> t | None \<Rightarrow> DATETIME_MAX))"

definition fifo_key :: "inv \<Rightarrow> stock_position \<Rightarrow> nat \<times> date \<times> timestamp" where
  "fifo_key s p = (case k_lot (pos_key p) of
                     None \<Rightarrow> (0, DATE_MIN, DATETIME_MIN) | Some l \<Rightarrow> (1, lot_order s l))"

definition fifo_order :: "uuid \<Rightarrow> uuid \<Rightarrow> uuid \<Rightarrow> uuid \<Rightarrow> inv \<Rightarrow> stock_position list" where
  "fifo_order org firm item loc s =
     sort_key (fifo_key s)
       (sort_key stock_position_id (filter (at_location org firm item loc) (positions s)))"

fun fifo_loop ::
  "date \<Rightarrow> movement_ref \<Rightarrow> stock_position list \<Rightarrow> decimal \<Rightarrow> inv \<Rightarrow> ledger_row list
   \<Rightarrow> inv \<times> ledger_row list" where
  "fifo_loop d ref [] remaining s rows = (s, rows)"
| "fifo_loop d ref (pos # rest) remaining s rows =
     (if remaining \<le> 0 then (s, rows)
      else
        let available = on_hand_qty pos in
        if available \<le> 0 then fifo_loop d ref rest remaining s rows
        else
          let taken = min available remaining;
              row = \<lparr>sl_key = pos_key pos, txn_type = ''OUT'', txn_date = d,
                     reference_type = mv_type ref, reference_id = mv_id ref, qty_in = 0,
                     qty_out = taken, unit_cost = current_cost pos, sl_notes = mv_notes ref\<rparr>
          in fifo_loop d ref rest (remaining - taken)
               (insert_ledger row
                  (update_position (pos_key pos)
                     (\<lambda>p. p\<lparr>on_hand_qty := available - taken, as_of_date := d\<rparr>) s))
               (rows @ [row]))"

definition remove_stock_fifo ::
  "date \<Rightarrow> uuid \<Rightarrow> uuid \<Rightarrow> uuid \<Rightarrow> uuid \<Rightarrow> decimal \<Rightarrow> movement_ref \<Rightarrow> inv
   \<Rightarrow> error + inv \<times> ledger_row list" where
  "remove_stock_fifo today org firm item loc qty ref s =
     bindE (validate_qty qty) (\<lambda>_.
     bindE (ensure_item_in_org org item s) (\<lambda>_.
     bindE (ensure_location_in_firm org firm loc s) (\<lambda>_.
     let d = (case mv_date ref of Some x \<Rightarrow> x | None \<Rightarrow> today);
         ordered = fifo_order org firm item loc s;
         total_on_hand = sum_list (map on_hand_qty ordered)
     in if total_on_hand < qty then Inl (AppValidationError ''Insufficient stock'')
        else Inr (fifo_loop d ref ordered qty s []))))"

section \<open>Queries and reservations\<close>

definition get_position :: "stock_key \<Rightarrow> inv \<Rightarrow> error + stock_position option" where
  "get_position k s = scalar_one_or_none (position_rows k s)"

text \<open>The cost a caller carries over from a position: 0 when there is none.\<close>

definition position_cost :: "stock_position option \<Rightarrow> decimal" where
  "position_cost p =
     (case p of None \<Rightarrow> 0 | Some q \<Rightarrow> (case current_cost q of Some c \<Rightarrow> c | None \<Rightarrow> 0))"

definition list_positions ::
  "uuid \<Rightarrow> uuid option \<Rightarrow> uuid option \<Rightarrow> uuid option \<Rightarrow> inv \<Rightarrow> stock_position list" where
  "list_positions org firm item loc s =
     sort_key (\<lambda>p. (k_item (pos_key p), k_location (pos_key p)))
       (filter (\<lambda>p. k_org (pos_key p) = org \<and>
                    (firm = None \<or> firm = Some (k_firm (pos_key p))) \<and>
                    (item = None \<or> item = Some (k_item (pos_key p))) \<and>
                    (loc = None \<or> loc = Some (k_location (pos_key p))))
          (positions s))"

definition atp :: "stock_position \<Rightarrow> decimal" where
  "atp p = on_hand_qty p - reserved_qty_mo p - reserved_qty_so p - in_transit_qty p"

definition reserve_for_so ::
  "date \<Rightarrow> stock_key \<Rightarrow> decimal \<Rightarrow> inv \<Rightarrow> error + inv \<times> stock_position" where
  "reserve_for_so today k qty s =
     bindE (validate_qty qty) (\<lambda>_.
     bindE (lock_or_create_position today k s) (\<lambda>(s1, pos).
     if atp pos < qty then Inl (AppValidationError ''Cannot reserve'')
     else let f = (\<lambda>p. p\<lparr>reserved_qty_so := reserved_qty_so pos + qty\<rparr>)
          in Inr (update_position k f s1, f pos)))"

definition unreserve_for_so ::
  "stock_key \<Rightarrow> decimal \<Rightarrow> inv \<Rightarrow> error + inv \<times> stock_position" where
  "unreserve_for_so k qty s =
     bindE (validate_qty qty) (\<lambda>_.
     bindE (scalar_one_or_none (position_rows k s)) (\<lambda>found.
       case found of
         None \<Rightarrow> Inl (AppValidationError ''No position'')
       | Some pos \<Rightarrow>
           let f = (\<lambda>p. p\<lparr>reserved_qty_so := max 0 (reserved_qty_so pos - qty)\<rparr>)
           in Inr (update_position k f s, f pos)))"

text \<open>
  Between transactions the rows are read back from the database, whose cost columns are
  \<^verbatim>\<open>NUMERIC(15,6)\<close> (ties away from zero).
\<close>

definition stored_cost :: "decimal \<Rightarrow> decimal" where
  "stored_cost c = quantize round_half_up 6 c"

definition reload :: "inv \<Rightarrow> inv" where
  "reload s =
     s\<lparr>positions := map (\<lambda>p. p\<lparr>current_cost := map_option stored_cost (current_cost p)\<rparr>)
         (positions s),
       stock_ledger := map (\<lambda>r. r\<lparr>unit_cost := map_option stored_cost (unit_cost r)\<rparr>)
         (stock_ledger s)\<rparr>"

section \<open>The books: what positions hold and what the ledger says\<close>

definition on_hand :: "inv \<Rightarrow> stock_key \<Rightarrow> decimal" where
  "on_hand s k = sum_list (map on_hand_qty (position_rows k s))"

definition moved :: "inv \<Rightarrow> stock_key \<Rightarrow> decimal" where
  "moved s k = (\<Sum>r\<leftarrow>filter (\<lambda>r. sl_key r = k) (stock_ledger s). qty_in r - qty_out r)"

abbreviation keyed :: "inv \<Rightarrow> bool" where
  "keyed s \<equiv> distinct (map pos_key (positions s))"

definition inv_ok :: "inv \<Rightarrow> bool" where
  "inv_ok s \<longleftrightarrow> keyed s \<and> (\<forall>k. on_hand s k = moved s k) \<and>
     (\<forall>p \<in> set (positions s). 0 \<le> on_hand_qty p)"

lemma position_rows_keyed: "keyed s \<Longrightarrow> p \<in> set (positions s) \<Longrightarrow> position_rows (pos_key p) s = [p]"
proof -
  assume "keyed s" and "p \<in> set (positions s)"
  moreover have "filter (\<lambda>q. pos_key q = pos_key p) ps = [p]"
    if "distinct (map pos_key ps)" "p \<in> set ps" for ps
    using that by (induction ps) (auto simp: filter_empty_conv intro: rev_image_eqI)
  ultimately show ?thesis by (simp add: position_rows_def)
qed

lemma position_rows_cases:
  assumes "keyed s"
  obtains "position_rows k s = []" | p where "position_rows k s = [p]" "p \<in> set (positions s)" "pos_key p = k"
proof (cases "position_rows k s")
  case Nil
  with that show ?thesis by blast
next
  case (Cons p ps)
  then have "p \<in> set (position_rows k s)" by simp
  then have p: "p \<in> set (positions s)" "pos_key p = k" by (simp_all add: position_rows_def)
  with position_rows_keyed [OF assms p(1)] that show ?thesis by simp
qed

lemma position_rows_mem [row_simps]:
  "position_rows k s = [p] \<Longrightarrow> p \<in> set (positions s) \<and> pos_key p = k"
  by (drule arg_cong [of _ _ set]) (auto simp: position_rows_def)

lemma on_hand_row [row_simps]: "position_rows k s = [p] \<Longrightarrow> on_hand s k = on_hand_qty p"
  by (simp add: on_hand_def)

lemma on_hand_no_row [row_simps]: "position_rows k s = [] \<Longrightarrow> on_hand s k = 0"
  by (simp add: on_hand_def)

lemma position_rows_other [row_simps]:
  "\<lbrakk>\<And>p. pos_key (f p) = pos_key p; k' \<noteq> k\<rbrakk> \<Longrightarrow>
   position_rows k' (update_position k f s) = position_rows k' s"
  by (auto simp: position_rows_def update_position_def update_where_def filter_map o_def
        intro!: map_idI [THEN trans] filter_cong)

lemma position_rows_same [row_simps]:
  "(\<And>p. pos_key (f p) = pos_key p) \<Longrightarrow>
   position_rows k (update_position k f s) = map f (position_rows k s)"
  by (auto simp: position_rows_def update_position_def update_where_def filter_map o_def
        intro!: map_cong filter_cong)

lemma keyed_update [row_simps]:
  "(\<And>p. pos_key (f p) = pos_key p) \<Longrightarrow> keyed (update_position k f s) \<longleftrightarrow> keyed s"
  by (simp add: update_position_def map_update_where)

lemma update_position_frame [simp]:
  "stock_ledger (update_position k f s) = stock_ledger s"
  "items (update_position k f s) = items s"
  "locations (update_position k f s) = locations s"
  "lots (update_position k f s) = lots s"
  "firms (update_position k f s) = firms s"
  by (simp_all add: update_position_def)

lemma insert_ledger_frame [simp]:
  "positions (insert_ledger r s) = positions s"
  "position_rows k (insert_ledger r s) = position_rows k s"
  "on_hand (insert_ledger r s) k = on_hand s k"
  "items (insert_ledger r s) = items s"
  "locations (insert_ledger r s) = locations s"
  "lots (insert_ledger r s) = lots s"
  "firms (insert_ledger r s) = firms s"
  "stock_ledger (insert_ledger r s) = stock_ledger s @ [r]"
  by (simp_all add: insert_ledger_def position_rows_def on_hand_def)

lemma moved_insert [row_simps]:
  "moved (insert_ledger r s) k = moved s k + (if sl_key r = k then qty_in r - qty_out r else 0)"
  by (simp add: moved_def)

lemma moved_update [simp]: "moved (update_position k f s) k' = moved s k'"
  by (simp add: moved_def)

text \<open>
  \<open>booked s s' k d\<close>: one movement of \<open>d\<close> at key \<open>k\<close> took \<open>s\<close> to \<open>s'\<close>, on the position and
  on the ledger alike. This is the abstract effect of every stock operation.
\<close>

definition booked :: "inv \<Rightarrow> inv \<Rightarrow> stock_key \<Rightarrow> decimal \<Rightarrow> bool" where
  "booked s s' k d \<longleftrightarrow> keyed s' \<and>
     on_hand s' = (on_hand s)(k := on_hand s k + d) \<and> moved s' = (moved s)(k := moved s k + d)"

lemma booked_row:
  assumes "keyed s" and "position_rows k s = [p]"
    and "\<And>q. pos_key (f q) = pos_key q" and "on_hand_qty (f p) = on_hand_qty p + d"
    and "sl_key r = k" and "qty_in r - qty_out r = d"
  shows "booked s (insert_ledger r (update_position k f s)) k d"
proof -
  have "on_hand (update_position k f s) k' = ((on_hand s)(k := on_hand s k + d)) k'" for k'
    using assms(2,4) by (cases "k' = k") (simp_all add: on_hand_def row_simps assms(3))
  then have "on_hand (update_position k f s) = (on_hand s)(k := on_hand s k + d)" by (rule ext)
  moreover have "keyed (update_position k f s)" using assms(1,3) by (simp add: keyed_update)
  moreover have "moved (insert_ledger r (update_position k f s)) = (moved s)(k := moved s k + d)"
    by (rule ext) (simp add: moved_insert assms(5,6))
  moreover have "on_hand (insert_ledger r t) = on_hand t" for t by (rule ext) simp
  ultimately show ?thesis by (simp add: booked_def)
qed

lemma inv_ok_parts:
  assumes "inv_ok s"
  shows "keyed s" and "p \<in> set (positions s) \<Longrightarrow> 0 \<le> on_hand_qty p" and "on_hand s k = moved s k"
  using assms by (simp_all add: inv_ok_def)

lemma inv_ok_nonneg:
  assumes "inv_ok s"
  shows "0 \<le> on_hand s k"
  using inv_ok_parts(2) [OF assms]
  by (cases rule: position_rows_cases [OF inv_ok_parts(1) [OF assms], of k])
    (simp_all add: on_hand_row on_hand_no_row)

lemma booked_ok:
  assumes "inv_ok s" and "booked s s' k d" and "0 \<le> on_hand s k + d"
  shows "inv_ok s'"
proof -
  from assms(2) have k: "keyed s'" and o: "on_hand s' = (on_hand s)(k := on_hand s k + d)"
    and m: "moved s' = (moved s)(k := moved s k + d)"
    by (simp_all add: booked_def)
  have "0 \<le> on_hand s' k'" for k'
    using inv_ok_nonneg [OF assms(1)] assms(3) by (simp add: o)
  then have "0 \<le> on_hand_qty p" if p: "p \<in> set (positions s')" for p
    using on_hand_row [OF position_rows_keyed [OF k p]] by (metis)
  moreover have "on_hand s' k' = moved s' k'" for k'
    using inv_ok_parts(3) [OF assms(1)] by (simp add: o m)
  ultimately show ?thesis using k by (simp add: inv_ok_def)
qed

section \<open>Movements\<close>

text \<open>Creating an empty position is not a movement.\<close>

definition new_position :: "date \<Rightarrow> stock_key \<Rightarrow> inv \<Rightarrow> stock_position" where
  "new_position today k s =
     \<lparr>stock_position_id = uuid_supply s (minted s), pos_key = k, on_hand_qty = 0,
      reserved_qty_mo = 0, reserved_qty_so = 0, in_transit_qty = 0, current_cost = None,
      as_of_date = today\<rparr>"

lemma lock_or_create_cases:
  assumes "lock_or_create_position today k s = Inr (s1, pos)"
  obtains (old) "position_rows k s = [pos]" and "s1 = s"
    | (new) "position_rows k s = []" and "pos = new_position today k s"
        and "s1 = s\<lparr>minted := Suc (minted s), positions := positions s @ [pos]\<rparr>"
proof (cases "scalar_one_or_none (position_rows k s)")
  case (Inl e)
  with assms show ?thesis by (simp add: lock_or_create_position_def)
next
  case (Inr r)
  show ?thesis
  proof (cases r)
    case None
    with Inr assms have "pos = new_position today k s"
      "s1 = s\<lparr>minted := Suc (minted s), positions := positions s @ [pos]\<rparr>"
      by (auto simp: lock_or_create_position_def mint_def Let_def new_position_def)
    with None Inr show ?thesis by (intro new) (simp_all add: scalar_one_or_none_None)
  next
    case (Some p)
    with Inr assms have "s1 = s" "p = pos" by (auto simp: lock_or_create_position_def)
    with Some Inr show ?thesis by (intro old) (simp_all add: scalar_one_or_none_Some)
  qed
qed

lemma lock_or_create_effect:
  assumes "lock_or_create_position today k s = Inr (s1, pos)"
  shows "position_rows k' s1 = (if k' = k then [pos] else position_rows k' s)"
    and "on_hand s1 = on_hand s"
    and "moved s1 = moved s" and "on_hand_qty pos = on_hand s k"
    and "stock_ledger s1 = stock_ledger s"
    and "keyed s \<Longrightarrow> keyed s1"
    and "items s1 = items s" and "locations s1 = locations s" and "lots s1 = lots s"
    and "firms s1 = firms s"
proof -
  note cases = lock_or_create_cases [OF assms]
  show rows: "position_rows k' s1 = (if k' = k then [pos] else position_rows k' s)" for k'
    by (rule cases) (auto simp: position_rows_def new_position_def)
  show sum: "on_hand_qty pos = on_hand s k"
    by (rule cases) (simp_all add: on_hand_row on_hand_no_row new_position_def)
  show "on_hand s1 = on_hand s"
    using sum by (intro ext) (simp add: on_hand_def rows)
  show "keyed s1" if "keyed s"
    by (rule cases) (use that in \<open>auto simp: position_rows_def filter_empty_conv new_position_def\<close>)
  show "stock_ledger s1 = stock_ledger s" and "items s1 = items s"
    and "locations s1 = locations s" and "lots s1 = lots s" and "firms s1 = firms s"
    by (rule cases; simp)+
  then show "moved s1 = moved s" by (simp add: moved_def fun_eq_iff)
qed

lemma validate_qty_Inr [simp]: "validate_qty q = Inr u \<longleftrightarrow> 0 < q"
  by (auto simp: validate_qty_def)

lemma booked_update:
  assumes "keyed s" and "position_rows k s = [p]"
    and "on_hand_qty (f p) = q" and "\<And>q. pos_key (f q) = pos_key q"
    and "sl_key r = k" and "qty_in r - qty_out r = q - on_hand s k"
  shows "booked s (insert_ledger r (update_position k f s)) k (q - on_hand s k)"
  using assms by (intro booked_row) (auto simp: on_hand_row)

lemma add_stock_effect:
  assumes "add_stock today k qty cost ref s = Inr (s', row)" and "keyed s"
  shows "booked s s' k qty" and "0 < qty" and "0 \<le> cost"
    and "stock_ledger s' = stock_ledger s @ [row]"
proof -
  from assms(1) obtain s1 pos where lock: "lock_or_create_position today k s = Inr (s1, pos)"
    and pos: "0 < qty" "\<not> cost < 0"
    and row: "sl_key row = k" "qty_in row = qty" "qty_out row = 0"
    and s': "s' = insert_ledger row (update_position k
        (\<lambda>p. p\<lparr>on_hand_qty := on_hand_qty pos + qty,
          current_cost := Some (weighted_cost (on_hand_qty pos)
            (case current_cost pos of None \<Rightarrow> 0 | Some c \<Rightarrow> c) qty cost),
          as_of_date := (case mv_date ref of Some x \<Rightarrow> x | None \<Rightarrow> today)\<rparr>) s1)"
    by (auto simp: add_stock_def Let_def)
  note eff = lock_or_create_effect [OF lock]
  have "booked s1 s' k qty"
    unfolding s' by (rule booked_row [of _ _ pos]) (use eff assms(2) row in simp_all)
  then show "booked s s' k qty" by (simp add: booked_def eff)
  show "0 < qty" and "0 \<le> cost" using pos by simp_all
  show "stock_ledger s' = stock_ledger s @ [row]" by (simp add: s' eff)
qed

lemma remove_stock_effect:
  assumes "remove_stock today k qty ref s = Inr (s', row)" and "keyed s"
  shows "booked s s' k (- qty)" and "0 < qty" and "qty \<le> on_hand s k"
    and "stock_ledger s' = stock_ledger s @ [row]"
    and "\<exists>p. position_rows k s = [p] \<and> unit_cost row = current_cost p"
proof -
  from assms(1) obtain pos where rows: "position_rows k s = [pos]" and qty: "0 < qty" "qty \<le> on_hand_qty pos"
    and row: "sl_key row = k" "qty_in row = 0" "qty_out row = qty" "unit_cost row = current_cost pos"
    and s': "s' = insert_ledger row (update_position k
        (\<lambda>p. p\<lparr>on_hand_qty := on_hand_qty pos - qty,
          as_of_date := (case mv_date ref of Some x \<Rightarrow> x | None \<Rightarrow> today)\<rparr>) s)"
    by (auto simp: remove_stock_def Let_def row_simps split: option.splits if_splits)
  show "booked s s' k (- qty)"
    unfolding s' by (rule booked_row [of _ _ pos]) (use rows row assms(2) in simp_all)
  show "0 < qty" by (rule qty)
  show "qty \<le> on_hand s k" using qty by (simp add: on_hand_row [OF rows])
  show "stock_ledger s' = stock_ledger s @ [row]" by (simp add: s')
  show "\<exists>p. position_rows k s = [p] \<and> unit_cost row = current_cost p" using rows row by blast
qed

lemma add_stock_ok: "add_stock today k qty cost ref s = Inr (s', row) \<Longrightarrow> inv_ok s \<Longrightarrow> inv_ok s'"
  using add_stock_effect [of today k qty cost ref s s' row] inv_ok_nonneg [of s k]
  by (intro booked_ok [of s s' k qty]) (auto simp: inv_ok_parts)

lemma remove_stock_ok: "remove_stock today k qty ref s = Inr (s', row) \<Longrightarrow> inv_ok s \<Longrightarrow> inv_ok s'"
  using remove_stock_effect [of today k qty ref s s' row]
  by (intro booked_ok [of s s' k "- qty"]) (auto simp: inv_ok_parts)

section \<open>FIFO consumption\<close>

text \<open>What FIFO takes from a queue of available quantities.\<close>

fun fifo_takes :: "decimal \<Rightarrow> decimal list \<Rightarrow> decimal list" where
  "fifo_takes remaining [] = []"
| "fifo_takes remaining (a # as) =
     (let t = max 0 (min a remaining) in t # fifo_takes (remaining - t) as)"

lemma length_fifo_takes [simp]: "length (fifo_takes rem as) = length as"
  by (induction as arbitrary: rem) (simp_all add: Let_def)

lemma fifo_takes_nth:
  "\<lbrakk>0 \<le> rem; \<forall>a \<in> set as. 0 \<le> a; i < length as\<rbrakk> \<Longrightarrow>
   fifo_takes rem as ! i = min (as ! i) (max 0 (rem - sum_list (take i as)))"
proof (induction as arbitrary: rem i)
  case (Cons a as)
  show ?case
  proof (cases i)
    case 0
    with Cons.prems show ?thesis by (simp add: Let_def)
  next
    case (Suc j)
    let ?t = "max 0 (min a rem)"
    have "0 \<le> as ! j" using Cons.prems Suc by simp
    moreover have "0 \<le> sum_list (take j as)"
      by (rule sum_list_nonneg) (use Cons.prems in \<open>auto dest: in_set_takeD\<close>)
    moreover have "fifo_takes (rem - ?t) as ! j = min (as ! j) (max 0 (rem - ?t - sum_list (take j as)))"
      using Cons Suc by (intro Cons.IH) auto
    ultimately show ?thesis
      using Cons.prems Suc by (auto simp: Let_def min_def max_def)
  qed
qed simp

lemma sum_fifo_takes:
  "\<lbrakk>0 \<le> rem; \<forall>a \<in> set as. 0 \<le> a\<rbrakk> \<Longrightarrow> sum_list (fifo_takes rem as) = min rem (sum_list as)"
proof (induction as arbitrary: rem)
  case (Cons a as)
  have "0 \<le> sum_list as" by (rule sum_list_nonneg) (use Cons.prems in auto)
  with Cons show ?case by (auto simp: Let_def min_def max_def)
qed simp

lemma fifo_takes_done: "rem \<le> 0 \<Longrightarrow> fifo_takes rem as = replicate (length as) 0"
  by (induction as arbitrary: rem) (auto simp: Let_def min_def max_def)

definition fifo_row :: "date \<Rightarrow> movement_ref \<Rightarrow> stock_position \<Rightarrow> decimal \<Rightarrow> ledger_row" where
  "fifo_row d ref p t =
     \<lparr>sl_key = pos_key p, txn_type = ''OUT'', txn_date = d, reference_type = mv_type ref,
      reference_id = mv_id ref, qty_in = 0, qty_out = t, unit_cost = current_cost p,
      sl_notes = mv_notes ref\<rparr>"

definition fifo_rows ::
  "date \<Rightarrow> movement_ref \<Rightarrow> decimal \<Rightarrow> stock_position list \<Rightarrow> ledger_row list" where
  "fifo_rows d ref rem ps =
     map (\<lambda>(p, t). fifo_row d ref p t)
       (filter (\<lambda>(p, t). 0 < t) (zip ps (fifo_takes rem (map on_hand_qty ps))))"

lemma fifo_rows_simps [simp]:
  "fifo_rows d ref rem [] = []"
  "fifo_rows d ref rem (p # ps) =
     (let t = max 0 (min (on_hand_qty p) rem)
      in (if 0 < t then [fifo_row d ref p t] else []) @ fifo_rows d ref (rem - t) ps)"
  by (simp_all add: fifo_rows_def Let_def)

lemma fifo_rows_done: "rem \<le> 0 \<Longrightarrow> fifo_rows d ref rem ps = []"
  by (induction ps arbitrary: rem) (auto simp: Let_def)

lemma fifo_loop_rows:
  "fifo_loop d ref ps rem s rows = (s', rows') \<Longrightarrow>
   rows' = rows @ fifo_rows d ref rem ps \<and> stock_ledger s' = stock_ledger s @ fifo_rows d ref rem ps"
proof (induction ps arbitrary: rem s rows)
  case (Cons p ps)
  consider "rem \<le> 0" | "0 < rem" "on_hand_qty p \<le> 0" | "0 < rem" "0 < on_hand_qty p" by linarith
  then show ?case
  proof cases
    case 1
    with Cons.prems show ?thesis
      by (auto simp: Let_def fifo_rows_done)
  next
    case 2
    with Cons.prems Cons.IH show ?thesis by (auto simp: Let_def)
  next
    case 3
    then have t: "max 0 (min (on_hand_qty p) rem) = min (on_hand_qty p) rem"
      "0 < min (on_hand_qty p) rem" by auto
    show ?thesis
      using Cons.prems Cons.IH t 3 by (force simp: Let_def fifo_row_def)
  qed
qed simp

text \<open>What a list of ledger rows moves at a key.\<close>

definition net :: "ledger_row list \<Rightarrow> stock_key \<Rightarrow> decimal" where
  "net rs k = (\<Sum>r\<leftarrow>filter (\<lambda>r. sl_key r = k) rs. qty_in r - qty_out r)"

lemma moved_net: "stock_ledger s' = stock_ledger s @ rs \<Longrightarrow> moved s' k = moved s k + net rs k"
  by (simp add: moved_def net_def)

lemma net_simps [simp]:
  "net [] k = 0" "net (r # rs) k = (if sl_key r = k then qty_in r - qty_out r else 0) + net rs k"
  by (simp_all add: net_def)

lemma fifo_row_fields [simp]:
  "sl_key (fifo_row d ref p t) = pos_key p" "qty_in (fifo_row d ref p t) = 0"
  "qty_out (fifo_row d ref p t) = t" "unit_cost (fifo_row d ref p t) = current_cost p"
  by (simp_all add: fifo_row_def)

lemma net_fifo_rows_other: "k \<notin> pos_key ` set ps \<Longrightarrow> net (fifo_rows d ref rem ps) k = 0"
  by (induction ps arbitrary: rem) (auto simp: Let_def)

lemma net_fifo_rows_nth:
  "\<lbrakk>distinct (map pos_key ps); i < length ps\<rbrakk> \<Longrightarrow>
   net (fifo_rows d ref rem ps) (pos_key (ps ! i)) = - (fifo_takes rem (map on_hand_qty ps) ! i)"
proof (induction ps arbitrary: rem i)
  case (Cons p ps)
  show ?case
  proof (cases i)
    case 0
    with Cons.prems net_fifo_rows_other [of "pos_key p" ps] show ?thesis
      by (auto simp: Let_def max_def)
  next
    case (Suc j)
    with Cons.prems have "pos_key (ps ! j) \<noteq> pos_key p" by (metis Suc_less_eq distinct.simps(2) imageI length_Cons list.set_map list.simps(9) nth_mem)
    with Cons Suc show ?thesis by (auto simp: Let_def)
  qed
qed simp

lemma sum_fifo_rows:
  "(\<Sum>r\<leftarrow>fifo_rows d ref rem ps. qty_out r) = sum_list (fifo_takes rem (map on_hand_qty ps))"
  by (induction ps arbitrary: rem) (auto simp: Let_def)

lemma fifo_loop_effect:
  assumes "fifo_loop d ref ps rem s rows = (s', rows')" and "keyed s"
    and "distinct (map pos_key ps)" and "\<And>p. p \<in> set ps \<Longrightarrow> position_rows (pos_key p) s = [p]"
  shows "keyed s' \<and> (\<forall>k. on_hand s' k = on_hand s k + net (fifo_rows d ref rem ps) k)"
  using assms
proof (induction ps arbitrary: rem s rows)
  case (Cons p ps)
  consider "rem \<le> 0" | "0 < rem" "on_hand_qty p \<le> 0" | "0 < rem" "0 < on_hand_qty p" by linarith
  then show ?case
  proof cases
    case 1
    with Cons.prems show ?thesis by (auto simp: Let_def fifo_rows_done)
  next
    case 2
    with Cons.prems Cons.IH [of rem s rows] show ?thesis by (auto simp: Let_def)
  next
    case 3
    let ?t = "min (on_hand_qty p) rem"
    from 3 have t: "max 0 ?t = ?t" "0 < ?t" by auto
    let ?f = "\<lambda>q. q\<lparr>on_hand_qty := on_hand_qty p - ?t, as_of_date := d\<rparr>"
    define s1 where "s1 = insert_ledger (fifo_row d ref p ?t) (update_position (pos_key p) ?f s)"
    have loop: "fifo_loop d ref ps (rem - ?t) s1 (rows @ [fifo_row d ref p ?t]) = (s', rows')"
      using Cons.prems(1) 3 by (simp add: Let_def fifo_row_def s1_def)
    have booked: "booked s s1 (pos_key p) (- ?t)"
      unfolding s1_def by (rule booked_row [of _ _ p]) (use Cons.prems in simp_all)
    have "position_rows (pos_key q) s1 = [q]" if "q \<in> set ps" for q
    proof -
      from that Cons.prems(3) have "pos_key q \<noteq> pos_key p"
        by (metis distinct.simps(2) imageI list.set_map list.simps(9))
      with Cons.prems(4) [of q] that show ?thesis by (simp add: position_rows_other s1_def)
    qed
    with Cons.IH [OF loop] Cons.prems(3) booked
    have "keyed s' \<and> (\<forall>k. on_hand s' k = on_hand s1 k + net (fifo_rows d ref (rem - ?t) ps) k)"
      by (auto simp: booked_def)
    moreover have "on_hand s1 k = on_hand s k + (if pos_key p = k then - ?t else 0)" for k
      using booked by (simp add: booked_def)
    ultimately show ?thesis using t by (auto simp: Let_def)
  qed
qed simp

lemma fifo_order_props:
  shows "set (fifo_order org firm item loc s) = {p \<in> set (positions s). at_location org firm item loc p}"
    and "keyed s \<Longrightarrow> distinct (map pos_key (fifo_order org firm item loc s))"
    and "sorted (map (fifo_key s) (fifo_order org firm item loc s))"
    and "sum_list (map on_hand_qty (fifo_order org firm item loc s)) = get_total_on_hand org firm item loc s"
proof -
  have m: "mset (fifo_order org firm item loc s) = mset (filter (at_location org firm item loc) (positions s))"
    by (simp add: fifo_order_def)
  show "set (fifo_order org firm item loc s) = {p \<in> set (positions s). at_location org firm item loc p}"
    using mset_eq_setD [OF m] by simp
  have "mset (map pos_key (fifo_order org firm item loc s))
      = mset (map pos_key (filter (at_location org firm item loc) (positions s)))"
    using m by simp
  then show "keyed s \<Longrightarrow> distinct (map pos_key (fifo_order org firm item loc s))"
    by (metis distinct_map_filter mset_eq_imp_distinct_iff)
  show "sorted (map (fifo_key s) (fifo_order org firm item loc s))"
    by (simp add: fifo_order_def)
  have "mset (map on_hand_qty (fifo_order org firm item loc s))
      = mset (map on_hand_qty (filter (at_location org firm item loc) (positions s)))"
    using m by simp
  then show "sum_list (map on_hand_qty (fifo_order org firm item loc s)) = get_total_on_hand org firm item loc s"
    unfolding get_total_on_hand_def by (metis sum_mset_sum_list)
qed

lemma remove_stock_fifo_Inr:
  "remove_stock_fifo today org firm item loc qty ref s = Inr (s', rows) \<longleftrightarrow>
     0 < qty \<and> ensure_item_in_org org item s = Inr () \<and> ensure_location_in_firm org firm loc s = Inr () \<and>
     qty \<le> get_total_on_hand org firm item loc s \<and>
     fifo_loop (case mv_date ref of Some x \<Rightarrow> x | None \<Rightarrow> today) ref
       (fifo_order org firm item loc s) qty s [] = (s', rows)"
  by (auto simp: remove_stock_fifo_def bindE_Inr_iff Let_def fifo_order_props(4))

lemma fifo_effect:
  assumes "remove_stock_fifo today org firm item loc qty ref s = Inr (s', rows)" and ok: "inv_ok s"
  defines "ps \<equiv> fifo_order org firm item loc s"
  shows "keyed s'" and "stock_ledger s' = stock_ledger s @ rows"
    and "on_hand s' k = on_hand s k + net rows k" and "moved s' k = moved s k + net rows k"
    and "(\<Sum>r\<leftarrow>rows. qty_out r) = qty"
    and "i < length ps \<Longrightarrow> net rows (pos_key (ps ! i))
      = - min (on_hand_qty (ps ! i)) (max 0 (qty - (\<Sum>p\<leftarrow>take i ps. on_hand_qty p)))"
    and "k \<notin> pos_key ` set ps \<Longrightarrow> net rows k = 0"
proof -
  from assms(1) obtain d where q: "0 < qty" "qty \<le> sum_list (map on_hand_qty ps)"
    and loop: "fifo_loop d ref ps qty s [] = (s', rows)"
    by (auto simp: remove_stock_fifo_Inr fifo_order_props(4) ps_def)
  have dist: "distinct (map pos_key ps)"
    using fifo_order_props(2) inv_ok_parts(1) [OF ok] by (simp add: ps_def)
  have mem: "p \<in> set (positions s)" if "p \<in> set ps" for p
    using that by (simp add: ps_def fifo_order_props(1))
  have nonneg: "\<forall>a \<in> set (map on_hand_qty ps). 0 \<le> a"
    using mem inv_ok_parts(2) [OF ok] by auto
  have rows: "rows = fifo_rows d ref qty ps" and led: "stock_ledger s' = stock_ledger s @ rows"
    using fifo_loop_rows [OF loop] by simp_all
  have eff: "keyed s' \<and> (\<forall>k. on_hand s' k = on_hand s k + net (fifo_rows d ref qty ps) k)"
    by (rule fifo_loop_effect [OF loop inv_ok_parts(1) [OF ok] dist])
      (use mem position_rows_keyed [OF inv_ok_parts(1) [OF ok]] in blast)
  then show "keyed s'" and "on_hand s' k = on_hand s k + net rows k" by (simp_all add: rows)
  show "stock_ledger s' = stock_ledger s @ rows" by (rule led)
  show "moved s' k = moved s k + net rows k" by (rule moved_net [OF led])
  show "(\<Sum>r\<leftarrow>rows. qty_out r) = qty"
    unfolding rows sum_fifo_rows using q nonneg by (subst sum_fifo_takes) simp_all
  show "net rows (pos_key (ps ! i))
      = - min (on_hand_qty (ps ! i)) (max 0 (qty - (\<Sum>p\<leftarrow>take i ps. on_hand_qty p)))"
    if "i < length ps"
    using that q nonneg dist fifo_takes_nth [of qty "map on_hand_qty ps" i]
    by (simp add: rows net_fifo_rows_nth take_map)
  show "net rows k = 0" if "k \<notin> pos_key ` set ps"
    unfolding rows by (rule net_fifo_rows_other [OF that])
qed

lemma fifo_nonneg:
  assumes "remove_stock_fifo today org firm item loc qty ref s = Inr (s', rows)" and ok: "inv_ok s"
  shows "0 \<le> on_hand s' k"
proof (cases "k \<in> pos_key ` set (fifo_order org firm item loc s)")
  case True
  let ?ps = "fifo_order org firm item loc s"
  from True obtain i where i: "i < length ?ps" "k = pos_key (?ps ! i)"
    by (auto simp: in_set_conv_nth)
  have "?ps ! i \<in> set (positions s)" using fifo_order_props(1) nth_mem [OF i(1)] by blast
  from on_hand_row [OF position_rows_keyed [OF inv_ok_parts(1) [OF ok] this]]
  have "on_hand s k = on_hand_qty (?ps ! i)" by (simp add: i)
  with fifo_effect(3) [OF assms, of k] fifo_effect(6) [OF assms i(1)] i(2) show ?thesis by simp
next
  case False
  with fifo_effect(3) [OF assms, of k] fifo_effect(7) [OF assms False] inv_ok_nonneg [OF ok, of k]
  show ?thesis by simp
qed

lemma inv_okI:
  assumes "keyed s" and "\<And>k. 0 \<le> on_hand s k" and "\<And>k. on_hand s k = moved s k"
  shows "inv_ok s"
proof -
  have "0 \<le> on_hand_qty p" if "p \<in> set (positions s)" for p
    using assms(2) on_hand_row [OF position_rows_keyed [OF assms(1) that]] by metis
  with assms(1,3) show ?thesis by (simp add: inv_ok_def)
qed

lemma remove_stock_fifo_ok:
  "remove_stock_fifo today org firm item loc qty ref s = Inr (s', rows) \<Longrightarrow> inv_ok s \<Longrightarrow> inv_ok s'"
  by (rule inv_okI, erule (1) fifo_effect(1), erule (1) fifo_nonneg)
    (simp add: fifo_effect(3,4) inv_ok_parts(3))

lemma sum_map2_minus:
  fixes f :: "'a \<Rightarrow> decimal"
  shows "length ps = length ts \<Longrightarrow>
    sum_list (map2 (\<lambda>p. (-) (f p)) ps ts) = sum_list (map f ps) - sum_list ts"
  by (induction ps ts rule: list_induct2) auto

lemma fifo_total:
  assumes r: "remove_stock_fifo today org firm item loc qty ref s = Inr (s', rows)" and ok: "inv_ok s"
  shows "(\<Sum>p\<leftarrow>fifo_order org firm item loc s. on_hand s' (pos_key p))
    = get_total_on_hand org firm item loc s - qty"
proof -
  let ?ps = "fifo_order org firm item loc s"
  have dist: "distinct (map pos_key ?ps)"
    by (rule fifo_order_props(2) [OF inv_ok_parts(1) [OF ok]])
  have oh: "on_hand s (pos_key p) = on_hand_qty p" if "p \<in> set ?ps" for p
    using that on_hand_row [OF position_rows_keyed [OF inv_ok_parts(1) [OF ok]]]
    by (auto simp: fifo_order_props(1))
  from r obtain d where loop: "fifo_loop d ref ?ps qty s [] = (s', rows)"
    by (auto simp: remove_stock_fifo_Inr)
  have net: "net rows (pos_key (?ps ! i)) = - (fifo_takes qty (map on_hand_qty ?ps) ! i)"
    if "i < length ?ps" for i
    using net_fifo_rows_nth [OF dist that] fifo_loop_rows [OF loop] by simp
  have "map (\<lambda>p. on_hand s' (pos_key p)) ?ps
      = map2 (\<lambda>p t. on_hand_qty p - t) ?ps (fifo_takes qty (map on_hand_qty ?ps))"
    by (rule nth_equalityI)
      (use net oh fifo_effect(3) [OF r ok] in \<open>simp_all add: nth_mem\<close>)
  moreover have "sum_list (fifo_takes qty (map on_hand_qty ?ps)) = qty"
    using fifo_effect(5) [OF r ok] fifo_loop_rows [OF loop] sum_fifo_rows by simp
  ultimately show ?thesis by (simp add: fifo_order_props(4) sum_map2_minus)
qed

text \<open>The total at a location is the sum over the keys there.\<close>

definition key_at :: "uuid \<Rightarrow> uuid \<Rightarrow> uuid \<Rightarrow> uuid \<Rightarrow> stock_key \<Rightarrow> bool" where
  "key_at org firm item loc k \<longleftrightarrow> k_org k = org \<and> k_firm k = firm \<and> k_item k = item \<and> k_location k = loc"

lemma filter_key_at:
  "filter (key_at org firm item loc) (map pos_key ps) = map pos_key (filter (at_location org firm item loc) ps)"
  by (induction ps) (auto simp: key_at_def at_location_def)

lemma total_on_hand_keys:
  assumes "keyed s"
  shows "get_total_on_hand org firm item loc s
    = (\<Sum>k\<leftarrow>filter (key_at org firm item loc) (map pos_key (positions s)). on_hand s k)"
proof -
  have "map on_hand_qty (filter (at_location org firm item loc) (positions s))
      = map (\<lambda>p. on_hand s (pos_key p)) (filter (at_location org firm item loc) (positions s))"
    using on_hand_row [OF position_rows_keyed [OF assms]] by (intro map_cong) auto
  then show ?thesis unfolding get_total_on_hand_def filter_key_at map_map o_def by (rule arg_cong)
qed

lemma positions_keys_update [simp]:
  "(\<And>p. pos_key (f p) = pos_key p) \<Longrightarrow> map pos_key (positions (update_position k f s)) = map pos_key (positions s)"
  by (simp add: update_position_def map_update_where)

lemma fifo_loop_keys:
  "fifo_loop d ref ps rem s rows = (s', rows') \<Longrightarrow> map pos_key (positions s') = map pos_key (positions s)"
proof (induction ps arbitrary: rem s rows)
  case (Cons p ps)
  show ?case using Cons.prems by (auto simp: Let_def split: if_splits dest!: Cons.IH)
qed simp

lemma fifo_total_on_hand:
  assumes r: "remove_stock_fifo today org firm item loc qty ref s = Inr (s', rows)" and ok: "inv_ok s"
  shows "get_total_on_hand org firm item loc s' = get_total_on_hand org firm item loc s - qty"
proof -
  let ?f = "filter (at_location org firm item loc)"
  from r have keys: "map pos_key (positions s') = map pos_key (positions s)"
    by (auto simp: remove_stock_fifo_Inr dest: fifo_loop_keys)
  have "get_total_on_hand org firm item loc s'
      = (\<Sum>p\<leftarrow>?f (positions s). on_hand s' (pos_key p))"
    unfolding total_on_hand_keys [OF fifo_effect(1) [OF r ok]] keys filter_key_at
    by (simp add: o_def)
  also have "\<dots> = (\<Sum>p\<leftarrow>fifo_order org firm item loc s. on_hand s' (pos_key p))"
  proof -
    have "mset (map (\<lambda>p. on_hand s' (pos_key p)) (fifo_order org firm item loc s))
        = mset (map (\<lambda>p. on_hand s' (pos_key p)) (?f (positions s)))"
      by (simp add: fifo_order_def)
    then show ?thesis by (metis sum_mset_sum_list)
  qed
  finally show ?thesis by (simp add: fifo_total [OF r ok])
qed

lemma add_stock_total:
  assumes "add_stock today k qty cost ref s = Inr (s', row)" and "inv_ok s" and "position_rows k s = [p]"
  shows "get_total_on_hand (k_org k) (k_firm k) (k_item k) (k_location k) s'
    = get_total_on_hand (k_org k) (k_firm k) (k_item k) (k_location k) s + qty"
proof -
  let ?at = "key_at (k_org k) (k_firm k) (k_item k) (k_location k)"
  note eff = add_stock_effect [OF assms(1) inv_ok_parts(1) [OF assms(2)]]
  from eff(1) have b: "keyed s'" "on_hand s' = (on_hand s)(k := on_hand s k + qty)"
    by (simp_all add: booked_def)
  have keys: "map pos_key (positions s') = map pos_key (positions s)"
    using assms(1,3) by (auto simp: add_stock_def lock_or_create_position_def Let_def scalar_one_or_none_def)
  have "k \<in> set (filter ?at (map pos_key (positions s)))"
    using position_rows_mem [OF assms(3)] by (auto simp: key_at_def)
  moreover have "distinct (filter ?at (map pos_key (positions s)))"
    using inv_ok_parts(1) [OF assms(2)] by simp
  ultimately have "(\<Sum>j\<leftarrow>filter ?at (map pos_key (positions s)). ((on_hand s)(k := on_hand s k + qty)) j)
      = (\<Sum>j\<leftarrow>filter ?at (map pos_key (positions s)). on_hand s j) + qty"
    by (simp add: sum_list_distinct_conv_sum_set sum.remove)
  then show ?thesis
    unfolding total_on_hand_keys [OF b(1)] total_on_hand_keys [OF inv_ok_parts(1) [OF assms(2)]] keys b(2) .
qed

section \<open>Reservations\<close>

lemma same_books_ok:
  "\<lbrakk>keyed s'; on_hand s' = on_hand s; moved s' = moved s; inv_ok s\<rbrakk> \<Longrightarrow> inv_ok s'"
  by (rule inv_okI) (assumption, metis inv_ok_nonneg, metis inv_ok_parts(3))

lemma on_hand_update_other [row_simps]:
  assumes "\<And>q. pos_key (f q) = pos_key q" and "\<And>q. on_hand_qty (f q) = on_hand_qty q"
  shows "on_hand (update_position k f s) = on_hand s"
proof
  show "on_hand (update_position k f s) k' = on_hand s k'" for k'
    using assms by (cases "k' = k")
      (simp_all add: on_hand_def position_rows_other position_rows_same o_def)
qed

lemma reserve_effect:
  assumes "reserve_for_so today k qty s = Inr (s', p')" and "keyed s"
  shows "keyed s'" and "on_hand s' = on_hand s" and "moved s' = moved s" and "0 < qty"
    and "position_rows k s' = [p']"
    and "reserved_qty_so p' = (\<Sum>p\<leftarrow>position_rows k s. reserved_qty_so p) + qty"
    and "atp p' = (\<Sum>p\<leftarrow>position_rows k s. atp p) - qty" and "0 \<le> atp p'"
    and "k' \<noteq> k \<Longrightarrow> position_rows k' s' = position_rows k' s"
proof -
  from assms(1) obtain s1 pos where lock: "lock_or_create_position today k s = Inr (s1, pos)"
    and q: "0 < qty" "\<not> atp pos < qty"
    and p': "p' = pos\<lparr>reserved_qty_so := reserved_qty_so pos + qty\<rparr>"
    and s': "s' = update_position k (\<lambda>p. p\<lparr>reserved_qty_so := reserved_qty_so pos + qty\<rparr>) s1"
    by (auto simp: reserve_for_so_def Let_def split: if_splits)
  note eff = lock_or_create_effect [OF lock]
  show "keyed s'" and "on_hand s' = on_hand s" and "moved s' = moved s"
    using eff assms(2) by (simp_all add: s' keyed_update on_hand_update_other fun_eq_iff)
  show "position_rows k s' = [p']" by (simp add: s' p' position_rows_same eff)
  show "position_rows k' s' = position_rows k' s" if "k' \<noteq> k"
    using that by (simp add: s' position_rows_other eff)
  have "(\<Sum>p\<leftarrow>position_rows k s. reserved_qty_so p) = reserved_qty_so pos
      \<and> (\<Sum>p\<leftarrow>position_rows k s. atp p) = atp pos"
    by (rule lock_or_create_cases [OF lock]) (simp_all add: new_position_def atp_def)
  then show "reserved_qty_so p' = (\<Sum>p\<leftarrow>position_rows k s. reserved_qty_so p) + qty"
    and "atp p' = (\<Sum>p\<leftarrow>position_rows k s. atp p) - qty"
    by (simp_all add: p' atp_def)
  show "0 < qty" and "0 \<le> atp p'" using q by (simp_all add: p' atp_def)
qed

lemma unreserve_effect:
  assumes "unreserve_for_so k qty s = Inr (s', p')" and "keyed s"
  shows "keyed s'" and "on_hand s' = on_hand s" and "moved s' = moved s" and "0 < qty"
    and "\<exists>p. position_rows k s = [p] \<and> p' = p\<lparr>reserved_qty_so := max 0 (reserved_qty_so p - qty)\<rparr>"
    and "position_rows k s' = [p']"
    and "k' \<noteq> k \<Longrightarrow> position_rows k' s' = position_rows k' s"
proof -
  from assms(1) obtain pos where rows: "position_rows k s = [pos]" and q: "0 < qty"
    and p': "p' = pos\<lparr>reserved_qty_so := max 0 (reserved_qty_so pos - qty)\<rparr>"
    and s': "s' = update_position k (\<lambda>p. p\<lparr>reserved_qty_so := max 0 (reserved_qty_so pos - qty)\<rparr>) s"
    by (auto simp: unreserve_for_so_def Let_def row_simps split: option.splits)
  show "keyed s'" and "on_hand s' = on_hand s" and "moved s' = moved s"
    using assms(2) by (simp_all add: s' keyed_update on_hand_update_other fun_eq_iff)
  show "\<exists>p. position_rows k s = [p] \<and> p' = p\<lparr>reserved_qty_so := max 0 (reserved_qty_so p - qty)\<rparr>"
    using rows p' by blast
  show "position_rows k s' = [p']" by (simp add: s' p' position_rows_same rows)
  show "position_rows k' s' = position_rows k' s" if "k' \<noteq> k"
    using that by (simp add: s' position_rows_other)
  show "0 < qty" by (rule q)
qed

section \<open>Weighted-average cost\<close>

lemma ctx_le:
  assumes "0 \<le> x" and "x \<le> hi" and "places 6 hi" and "hi < 10 ^ 9"
  shows "ctx x \<le> hi"
proof -
  have hi: "ctx hi = hi" using assms by (intro ctx_exact [of 6]) (auto simp: abs_if)
  show ?thesis
  proof (cases "x = 0")
    case False
    with assms ctx_mono_pos [of x hi] hi show ?thesis by simp
  qed (use assms in simp)
qed

lemma ctx_ge:
  assumes "0 \<le> lo" and "lo \<le> x" and "places 6 lo" and "lo < 10 ^ 9"
  shows "lo \<le> ctx x"
proof -
  have lo: "ctx lo = lo" using assms by (intro ctx_exact [of 6]) (auto simp: abs_if)
  show ?thesis
  proof (cases "lo = 0")
    case True
    with assms ctx_nonneg [of x] show ?thesis by simp
  next
    case False
    with assms ctx_mono_pos [of lo x] lo show ?thesis by simp
  qed
qed

lemma mean_between:
  fixes q r a b :: rat
  assumes "0 \<le> q" and "0 < r"
  shows "min a b \<le> (q * a + r * b) / (q + r)" and "(q * a + r * b) / (q + r) \<le> max a b"
proof -
  have "min a b * (q + r) = q * min a b + r * min a b"
    and "max a b * (q + r) = q * max a b + r * max a b" by (simp_all add: algebra_simps)
  moreover have "q * min a b \<le> q * a" "r * min a b \<le> r * b" "q * a \<le> q * max a b" "r * b \<le> r * max a b"
    using assms by (simp_all add: mult_left_mono)
  ultimately have "min a b * (q + r) \<le> q * a + r * b" "q * a + r * b \<le> max a b * (q + r)"
    by linarith+
  then show "min a b \<le> (q * a + r * b) / (q + r)" and "(q * a + r * b) / (q + r) \<le> max a b"
    using assms by (simp_all add: pos_le_divide_eq pos_divide_le_eq)
qed

text \<open>Below \<open>10 ^ 9\<close> on both sides the products and their sum need no rounding.\<close>

lemma weighted_cost_exact:
  assumes "0 \<le> q" and "0 < r" and "q + r < 10 ^ 9" and "places 4 q" and "places 4 r"
    and "0 \<le> a" and "a < 10 ^ 9" and "places 6 a" and "0 \<le> b" and "b < 10 ^ 9" and "places 6 b"
  shows "weighted_cost q a r b = ctx ((q * a + r * b) / (q + r))"
proof -
  have exact: "ctx x = x" if "places 10 x" "0 \<le> x" "x < 10 ^ 18" for x
    using that by (intro ctx_exact [of 10]) (auto simp: abs_if)
  have "q * a \<le> q * 10 ^ 9" "r * b \<le> r * 10 ^ 9" using assms by (simp_all add: mult_left_mono)
  then have "q * a + r * b \<le> (q + r) * 10 ^ 9" by (simp add: algebra_simps)
  also have "\<dots> < 10 ^ 9 * 10 ^ 9" using assms by (intro mult_strict_right_mono) auto
  finally have sum: "q * a + r * b < 10 ^ 18" by simp
  have nonneg: "0 \<le> q * a" "0 \<le> r * b" using assms by simp_all
  have p: "places 10 (q * a)" "places 10 (r * b)"
    using places_mult [of 4 q 6 a] places_mult [of 4 r 6 b] assms by simp_all
  have "ctx (q * a) = q * a" and "ctx (r * b) = r * b" and "ctx (q * a + r * b) = q * a + r * b"
    using p nonneg sum by (auto intro!: exact)
  with assms(1,2) show ?thesis by (simp add: weighted_cost_def)
qed

section \<open>Requests\<close>

text \<open>The calls that change stock, as requests of one transaction each.\<close>

datatype stock_op =
    AddStock date stock_key decimal decimal movement_ref
  | RemoveStock date stock_key decimal movement_ref
  | RemoveFifo date uuid uuid uuid uuid decimal movement_ref
  | ReserveForSo date stock_key decimal
  | UnreserveForSo stock_key decimal
  | DefaultLocation uuid uuid
  | CreateLocation uuid uuid string string LocationType
  | Reload

definition state_of :: "error + inv \<times> 'r \<Rightarrow> error + inv" where
  "state_of r = bindE r (\<lambda>(s, _). Inr s)"

lemma state_of_Inr [simp]: "state_of r = Inr s \<longleftrightarrow> (\<exists>x. r = Inr (s, x))"
  by (auto simp: state_of_def bindE_Inr_iff)

fun stock_step :: "stock_op \<Rightarrow> inv \<Rightarrow> error + inv" where
  "stock_step (AddStock today k qty cost ref) s = state_of (add_stock today k qty cost ref s)"
| "stock_step (RemoveStock today k qty ref) s = state_of (remove_stock today k qty ref s)"
| "stock_step (RemoveFifo today org firm item loc qty ref) s =
     state_of (remove_stock_fifo today org firm item loc qty ref s)"
| "stock_step (ReserveForSo today k qty) s = state_of (reserve_for_so today k qty s)"
| "stock_step (UnreserveForSo k qty) s = state_of (unreserve_for_so k qty s)"
| "stock_step (DefaultLocation org firm) s = state_of (get_or_create_default_location org firm s)"
| "stock_step (CreateLocation org firm code name ty) s = state_of (create_location org firm code name ty s)"
| "stock_step Reload s = Inr (reload s)"

lemma new_location_frame:
  "new_location org firm code name ty s = (s', l) \<Longrightarrow>
   positions s' = positions s \<and> stock_ledger s' = stock_ledger s \<and> locations s' = locations s @ [l]"
  by (auto simp: new_location_def mint_def Let_def)

lemma same_tables_ok:
  "\<lbrakk>positions s' = positions s; stock_ledger s' = stock_ledger s; inv_ok s\<rbrakk> \<Longrightarrow> inv_ok s'"
  by (rule same_books_ok) (auto simp: inv_ok_parts fun_eq_iff on_hand_def moved_def position_rows_def)

lemma default_location_ok:
  "get_or_create_default_location org firm s = Inr (s', l) \<Longrightarrow> inv_ok s \<Longrightarrow> inv_ok s'"
  by (auto simp: get_or_create_default_location_def split: option.splits
        dest!: new_location_frame intro: same_tables_ok)

lemma create_location_ok:
  "create_location org firm code name ty s = Inr (s', l) \<Longrightarrow> inv_ok s \<Longrightarrow> inv_ok s'"
  by (auto simp: create_location_def split: option.splits
        dest!: new_location_frame intro: same_tables_ok)

lemma reload_books:
  "on_hand (reload s) = on_hand s" "moved (reload s) = moved s" "keyed (reload s) = keyed s"
  by (auto simp: reload_def on_hand_def moved_def position_rows_def filter_map o_def fun_eq_iff
        intro!: arg_cong [of _ _ sum_list])

lemma reload_ok: "inv_ok s \<Longrightarrow> inv_ok (reload s)"
  by (rule same_books_ok) (simp_all add: reload_books inv_ok_parts)

lemma reserve_ok:
  assumes "reserve_for_so today k qty s = Inr (s', p)" and "inv_ok s"
  shows "inv_ok s'"
  using reserve_effect(1-3) [OF assms(1) inv_ok_parts(1) [OF assms(2)]] assms(2) by (rule same_books_ok)

lemma unreserve_ok:
  assumes "unreserve_for_so k qty s = Inr (s', p)" and "inv_ok s"
  shows "inv_ok s'"
  using unreserve_effect(1-3) [OF assms(1) inv_ok_parts(1) [OF assms(2)]] assms(2) by (rule same_books_ok)

lemma stock_step_ok: "stock_step op s = Inr s' \<Longrightarrow> inv_ok s \<Longrightarrow> inv_ok s'"
  by (cases op) (auto intro: add_stock_ok remove_stock_ok remove_stock_fifo_ok reserve_ok unreserve_ok
        default_location_ok create_location_ok reload_ok)

interpretation stock: transactional stock_step inv_ok
  by unfold_locales (rule stock_step_ok)

section \<open>Properties\<close>

text \<open>An example: one item at one location, in two lots and a lot-less bucket.\<close>

definition demo_key :: "uuid option \<Rightarrow> stock_key" where
  "demo_key lot = \<lparr>k_org = 1, k_firm = 2, k_item = 3, k_location = 4, k_lot = lot\<rparr>"

definition demo_ref :: movement_ref where
  "demo_ref = \<lparr>mv_type = ''GRN'', mv_id = 77, mv_date = Some (Date 2026 5 1), mv_notes = None\<rparr>"

definition demo_lot :: "uuid \<Rightarrow> date \<Rightarrow> lot_row" where
  "demo_lot i d = \<lparr>lot_id = i, lot_org = 1, received_date = Some d, lot_created_at = Some 0,
                   lot_deleted = False\<rparr>"

definition demo_empty :: inv where
  "demo_empty =
     \<lparr>firms = [\<lparr>firm_id = 2, firm_org = 1, fy_start_month = Some 4, firm_deleted = False\<rparr>],
      items = [\<lparr>item_id = 3, item_org = 1, item_firm = None, item_type = FINISHED,
        item_deleted = False\<rparr>],
      locations = [\<lparr>location_id = 4, location_org = 1, location_firm = 2, location_code = ''MAIN'',
                    location_name = ''Main Warehouse'', location_type = WAREHOUSE,
                    location_active = True, location_deleted = False\<rparr>],
      lots = [demo_lot 11 (Date 2026 3 1), demo_lot 12 (Date 2026 2 1)],
      positions = [], stock_ledger = [], uuid_supply = (\<lambda>n. 100 + n), minted = 0\<rparr>"

definition demo_ops :: "stock_op list" where
  "demo_ops = [AddStock (Date 2026 5 1) (demo_key (Some 11)) 10 50 demo_ref,
               AddStock (Date 2026 5 1) (demo_key (Some 12)) 4 40 demo_ref,
               AddStock (Date 2026 5 1) (demo_key None) 3 30 demo_ref]"

definition demo_inv :: inv where
  "demo_inv = fold (commit stock_step) demo_ops demo_empty"

lemma demo_ok: "inv_ok demo_inv"
proof -
  have "inv_ok demo_empty"
    by (rule inv_okI) (simp_all add: demo_empty_def on_hand_def moved_def position_rows_def)
  then show ?thesis unfolding demo_inv_def by (rule stock.run_inv)
qed

text \<open>C1: Whatever calls the stock engine serves after an empty start, in whatever order and
  with whatever failures, every (org, firm, item, location, lot) keeps one position row, no
  position goes negative, and each position holds exactly what the ledger says moved.\<close>

theorem positions_match_ledger:
  assumes "positions s = []" and "stock_ledger s = []"
  defines "t ops \<equiv> fold (commit stock_step) ops s"
  shows "distinct (map pos_key (positions (t ops))) \<and>
    (\<forall>p \<in> set (positions (t ops)). 0 \<le> on_hand_qty p \<and>
       on_hand_qty p = (\<Sum>r\<leftarrow>filter (\<lambda>r. sl_key r = pos_key p) (stock_ledger (t ops)). qty_in r - qty_out r))"
proof -
  have "inv_ok s"
    using assms(1,2) by (intro inv_okI) (simp_all add: on_hand_def moved_def position_rows_def)
  then have ok: "inv_ok (t ops)" unfolding t_def by (rule stock.run_inv)
  have "on_hand_qty p = moved (t ops) (pos_key p)" if "p \<in> set (positions (t ops))" for p
    using on_hand_row [OF position_rows_keyed [OF inv_ok_parts(1) [OF ok] that]]
      inv_ok_parts(3) [OF ok, of "pos_key p"] by simp
  with inv_ok_parts(1,2) [OF ok] show ?thesis by (simp add: moved_def)
qed

lemma positions_match_ledger_witness:
  "distinct (map pos_key (positions demo_inv)) \<and> length (stock_ledger demo_inv) = 3"
proof -
  have "positions demo_empty = []" "stock_ledger demo_empty = []" by (simp_all add: demo_empty_def)
  from positions_match_ledger [OF this, of demo_ops]
  have "distinct (map pos_key (positions demo_inv))" by (simp add: demo_inv_def)
  moreover have "length (stock_ledger demo_inv) = 3" by code_simp
  ultimately show ?thesis ..
qed

text \<open>C9: FIFO removal is conserving and oldest first. It reads the positions of the item at
  the location in the order lot-less stock, then lots by received date and creation time; from
  the i-th one it takes what is left of the request after all earlier ones, at most what is
  there; nothing else changes, and the ledger rows it returns sum to the request.\<close>

theorem fifo_takes_oldest_first:
  assumes "remove_stock_fifo today org firm item loc qty ref s = Inr (s', rows)" and "inv_ok s"
  defines "ps \<equiv> fifo_order org firm item loc s"
  shows "sorted (map (fifo_key s) ps) \<and>
    (\<forall>i < length ps. on_hand s' (pos_key (ps ! i)) =
       on_hand_qty (ps ! i)
         - min (on_hand_qty (ps ! i)) (max 0 (qty - (\<Sum>p\<leftarrow>take i ps. on_hand_qty p)))) \<and>
    (\<forall>k. k \<notin> pos_key ` set ps \<longrightarrow> on_hand s' k = on_hand s k) \<and>
    stock_ledger s' = stock_ledger s @ rows \<and> (\<Sum>r\<leftarrow>rows. qty_out r) = qty"
proof -
  have "on_hand s (pos_key (ps ! i)) = on_hand_qty (ps ! i)" if "i < length ps" for i
  proof -
    have "ps ! i \<in> set (positions s)"
      using nth_mem [OF that] by (simp add: ps_def fifo_order_props(1))
    then show ?thesis
      using on_hand_row position_rows_keyed [OF inv_ok_parts(1) [OF assms(2)]] by blast
  qed
  then show ?thesis
    using fifo_effect(2,5) [OF assms(1,2)] fifo_effect(3,6,7) [OF assms(1,2)] fifo_order_props(3)
    unfolding ps_def by simp
qed

lemma fifo_takes_oldest_first_witness:
  "\<exists>s' rows. remove_stock_fifo (Date 2026 5 2) 1 2 3 4 6 demo_ref demo_inv = Inr (s', rows) \<and>
     map (\<lambda>r. (k_lot (sl_key r), qty_out r, unit_cost r)) rows = [(None, 3, Some 30), (Some 12, 3, Some 40)] \<and>
     on_hand s' (demo_key (Some 11)) = 10 \<and> (\<Sum>r\<leftarrow>rows. qty_out r) = 6"
proof -
  let ?r = "remove_stock_fifo (Date 2026 5 2) 1 2 3 4 6 demo_ref demo_inv"
  have "case ?r of Inl _ \<Rightarrow> False | Inr (s', rows) \<Rightarrow>
      map (\<lambda>r. (k_lot (sl_key r), qty_out r, unit_cost r)) rows
        = [(None, 3, Some 30), (Some 12, 3, Some 40)] \<and> on_hand s' (demo_key (Some 11)) = 10"
    by code_simp
  then obtain s' rows where r: "?r = Inr (s', rows)"
    and v: "map (\<lambda>r. (k_lot (sl_key r), qty_out r, unit_cost r)) rows
        = [(None, 3, Some 30), (Some 12, 3, Some 40)]" "on_hand s' (demo_key (Some 11)) = 10"
    by (auto split: sum.splits)
  from fifo_takes_oldest_first [OF r demo_ok] r v show ?thesis by auto
qed

text \<open>C30: For a known item and location, a FIFO removal of a positive quantity succeeds exactly
  when the location holds that much in all lots together, and afterwards holds that much less;
  otherwise it raises the error the caller shows and changes nothing.\<close>

theorem fifo_succeeds_iff_enough:
  assumes "inv_ok s" and "ensure_item_in_org org item s = Inr ()"
    and "ensure_location_in_firm org firm loc s = Inr ()"
  shows "case remove_stock_fifo today org firm item loc qty ref s of
      Inl e \<Rightarrow> (e = AppValidationError ''qty must be positive'' \<and> qty \<le> 0) \<or>
        (e = AppValidationError ''Insufficient stock'' \<and> get_total_on_hand org firm item loc s < qty)
    | Inr (s', rows) \<Rightarrow> 0 < qty \<and> qty \<le> get_total_on_hand org firm item loc s \<and>
        (\<Sum>p\<leftarrow>fifo_order org firm item loc s. on_hand s' (pos_key p))
          = get_total_on_hand org firm item loc s - qty"
proof (cases "remove_stock_fifo today org firm item loc qty ref s")
  case (Inl e)
  with assms(2,3) show ?thesis
    by (auto simp: remove_stock_fifo_def validate_qty_def Let_def fifo_order_props(4) split: if_splits)
next
  case (Inr r)
  then obtain s' rows where r: "remove_stock_fifo today org firm item loc qty ref s = Inr (s', rows)"
    by (cases r) auto
  then have "0 < qty" "qty \<le> get_total_on_hand org firm item loc s"
    by (simp_all add: remove_stock_fifo_Inr)
  with r fifo_total [OF r assms(1)] show ?thesis by simp
qed

lemma fifo_succeeds_iff_enough_witness:
  "remove_stock_fifo (Date 2026 5 2) 1 2 3 4 18 demo_ref demo_inv
     = Inl (AppValidationError ''Insufficient stock'') \<and>
   \<not> isl (remove_stock_fifo (Date 2026 5 2) 1 2 3 4 17 demo_ref demo_inv) \<and>
   get_total_on_hand 1 2 3 4 demo_inv = 17"
proof -
  have e: "ensure_item_in_org 1 3 demo_inv = Inr ()" "ensure_location_in_firm 1 2 4 demo_inv = Inr ()"
    by code_simp+
  have t: "get_total_on_hand 1 2 3 4 demo_inv = 17" by code_simp
  note r = fifo_succeeds_iff_enough [OF demo_ok e, where today = "Date 2026 5 2" and ref = demo_ref]
  from r [where qty = 18] r [where qty = 17] t show ?thesis by (auto split: sum.splits)
qed

text \<open>C29: A receipt re-averages the cost. If quantities stay below a thousand million, have at
  most four places and costs six, the position's new cost is the quantity-weighted mean of the
  old cost and the receipt's cost, rounded once to 28 significant digits; it lies between the
  two costs, and equals the receipt's cost when the position was empty.\<close>

theorem add_stock_weighted_average:
  assumes "add_stock today k qty cost ref s = Inr (s', row)" and "inv_ok s"
    and "places 4 qty" and "places 6 cost" and "cost < 10 ^ 9" and "on_hand s k + qty < 10 ^ 9"
    and "position_rows k s = [p]" and "places 4 (on_hand_qty p)"
    and "current_cost p = Some c" and "places 6 c" and "0 \<le> c" and "c < 10 ^ 9"
  shows "\<exists>p'. position_rows k s' = [p'] \<and> on_hand_qty p' = on_hand_qty p + qty \<and>
    current_cost p' = Some (ctx ((on_hand_qty p * c + qty * cost) / (on_hand_qty p + qty))) \<and>
    min c cost \<le> the (current_cost p') \<and> the (current_cost p') \<le> max c cost \<and>
    (on_hand_qty p = 0 \<longrightarrow> the (current_cost p') = cost)"
proof -
  let ?q = "on_hand_qty p"
  let ?v = "(?q * c + qty * cost) / (?q + qty)"
  have pos: "0 < qty" "0 \<le> cost"
    using add_stock_effect(2,3) [OF assms(1) inv_ok_parts(1) [OF assms(2)]] .
  have q: "0 \<le> ?q" "?q + qty < 10 ^ 9"
    using inv_ok_nonneg [OF assms(2), of k] assms(6) by (simp_all add: on_hand_row [OF assms(7)])
  have w: "weighted_cost ?q c qty cost = ctx ?v"
    by (rule weighted_cost_exact) (use assms pos q in simp_all)
  obtain p' where p': "position_rows k s' = [p']" "on_hand_qty p' = ?q + qty" "current_cost p' = Some (ctx ?v)"
    using assms(1,7,9) w
    by (auto simp: add_stock_def lock_or_create_position_def Let_def scalar_one_or_none_def
        position_rows_same)
  have v: "0 \<le> ?v" using q pos assms(11) by simp
  have "ctx ?v \<le> max c cost"
    by (rule ctx_le) (use v mean_between(2) [OF q(1) pos(1)] assms in \<open>auto simp: max_def\<close>)
  moreover have "min c cost \<le> ctx ?v"
    by (rule ctx_ge) (use pos mean_between(1) [OF q(1) pos(1)] assms in \<open>auto simp: min_def\<close>)
  moreover have "ctx ?v = cost" if "?q = 0"
    using that pos assms(4,5) by (auto simp: intro!: ctx_exact [of 6])
  ultimately show ?thesis using p' by auto
qed

lemma add_stock_weighted_average_witness:
  "\<exists>s' row p'. add_stock (Date 2026 5 3) (demo_key (Some 11)) 20 80 demo_ref demo_inv = Inr (s', row) \<and>
     position_rows (demo_key (Some 11)) s' = [p'] \<and> current_cost p' = Some 70 \<and>
     min 50 80 \<le> the (current_cost p')"
proof -
  let ?k = "demo_key (Some 11)"
  let ?r = "add_stock (Date 2026 5 3) ?k 20 80 demo_ref demo_inv"
  have "\<not> isl ?r" by code_simp
  then obtain s' row where r: "?r = Inr (s', row)" by (cases ?r) auto
  have "map (\<lambda>p. (on_hand_qty p, current_cost p)) (position_rows ?k demo_inv) = [(10, Some 50)]"
    by code_simp
  then obtain p where p: "position_rows ?k demo_inv = [p]" "on_hand_qty p = 10" "current_cost p = Some 50"
    by (auto simp: map_eq_Cons_conv)
  have pl: "places 4 (of_int n)" "places 6 (of_int n)" for n by (simp_all add: places_def)
  have "ctx ((10 * 50 + 20 * 80) / (10 + 20)) = 70" by code_simp
  with add_stock_weighted_average [OF r demo_ok _ _ _ _ p(1) _ p(3)] r p(2)
    pl(1) [of 20] pl(2) [of 80] pl(1) [of 10] pl(2) [of 50] show ?thesis
    by (simp add: on_hand_row [OF p(1)]) blast
qed

text \<open>A sales-order reservation that returns leaves the available-to-promise quantity
  non-negative and lowers it by exactly the reserved quantity; releasing the same quantity
  restores the position, and neither moves any stock.\<close>

theorem reserve_unreserve_roundtrip:
  assumes "inv_ok s" and "position_rows k s = [p]" and "0 \<le> reserved_qty_so p"
    and "reserve_for_so today k qty s = Inr (s1, p1)"
  shows "0 \<le> atp p1 \<and> atp p1 = atp p - qty \<and> position_rows k s1 = [p1] \<and> on_hand s1 = on_hand s \<and>
    (\<exists>s2. unreserve_for_so k qty s1 = Inr (s2, p) \<and> position_rows k s2 = [p] \<and>
       (\<forall>k'. on_hand s2 k' = on_hand s k' \<and> moved s2 k' = moved s k'))"
proof -
  note keyed = inv_ok_parts(1) [OF assms(1)]
  note eff = reserve_effect [OF assms(4) keyed]
  from assms(2,4) have p1: "p1 = p\<lparr>reserved_qty_so := reserved_qty_so p + qty\<rparr>"
    by (auto simp: reserve_for_so_def lock_or_create_position_def Let_def scalar_one_or_none_def
        split: if_splits)
  then have "p1\<lparr>reserved_qty_so := max 0 (reserved_qty_so p1 - qty)\<rparr> = p"
    using assms(3) by simp
  then obtain s2 where un: "unreserve_for_so k qty s1 = Inr (s2, p)"
    using eff(4,5) by (auto simp: unreserve_for_so_def Let_def scalar_one_or_none_def validate_qty_def)
  note eff2 = unreserve_effect [OF un eff(1)]
  have "on_hand s2 k' = on_hand s k' \<and> moved s2 k' = moved s k'" for k'
    by (simp add: eff eff2)
  with un eff2(6) eff(2,5,7,8) assms(2) show ?thesis by auto
qed

lemma reserve_unreserve_roundtrip_witness:
  "\<exists>s1 p1. reserve_for_so (Date 2026 5 2) (demo_key None) 2 demo_inv = Inr (s1, p1) \<and>
     0 \<le> atp p1 \<and> atp p1 = 1"
proof -
  let ?r = "reserve_for_so (Date 2026 5 2) (demo_key None) 2 demo_inv"
  have "\<not> isl ?r" by code_simp
  then obtain s1 p1 where r: "?r = Inr (s1, p1)" by (cases ?r) auto
  have "map (\<lambda>p. (atp p, reserved_qty_so p)) (position_rows (demo_key None) demo_inv) = [(3, 0)]"
    by code_simp
  then obtain p where p: "position_rows (demo_key None) demo_inv = [p]" "atp p = 3" "reserved_qty_so p = 0"
    by (auto simp: map_eq_Cons_conv)
  from reserve_unreserve_roundtrip [OF demo_ok p(1) _ r] p r show ?thesis by auto
qed

text \<open>Removing stock takes it from the position and leaves the sales-order reservation as
  it was, so the available-to-promise quantity falls by the removed quantity, below zero when
  reserved stock is removed; the removal is valued at the position's average cost.\<close>

theorem remove_stock_keeps_reservation:
  assumes "remove_stock today k qty ref s = Inr (s', row)"
  shows "\<exists>p p'. position_rows k s = [p] \<and> position_rows k s' = [p'] \<and>
    on_hand_qty p' = on_hand_qty p - qty \<and> reserved_qty_so p' = reserved_qty_so p \<and>
    current_cost p' = current_cost p \<and> atp p' = atp p - qty \<and>
    unit_cost row = current_cost p \<and> 0 < qty \<and> qty \<le> on_hand_qty p"
  using assms
  by (auto simp: remove_stock_def Let_def row_simps position_rows_same atp_def
      split: option.splits if_splits)

lemma remove_stock_keeps_reservation_witness:
  "\<exists>s1 p1 s' row p'. reserve_for_so (Date 2026 5 2) (demo_key None) 3 demo_inv = Inr (s1, p1) \<and>
     remove_stock (Date 2026 5 3) (demo_key None) 3 demo_ref s1 = Inr (s', row) \<and>
     position_rows (demo_key None) s' = [p'] \<and> reserved_qty_so p' = 3 \<and> atp p' = - 3"
proof -
  let ?s1 = "bindE (reserve_for_so (Date 2026 5 2) (demo_key None) 3 demo_inv) (\<lambda>(s, _). Inr s)"
  let ?r = "\<lambda>s. remove_stock (Date 2026 5 3) (demo_key None) 3 demo_ref s"
  have "case reserve_for_so (Date 2026 5 2) (demo_key None) 3 demo_inv of Inl _ \<Rightarrow> False
      | Inr (s1, p1) \<Rightarrow> \<not> isl (?r s1) \<and>
          map (\<lambda>p. (reserved_qty_so p, atp p)) (position_rows (demo_key None) s1) = [(3, 0)]"
    by code_simp
  then obtain s1 p1 where s1: "reserve_for_so (Date 2026 5 2) (demo_key None) 3 demo_inv = Inr (s1, p1)"
    and ok: "\<not> isl (?r s1)"
    and p: "map (\<lambda>p. (reserved_qty_so p, atp p)) (position_rows (demo_key None) s1) = [(3, 0)]"
    by (auto split: sum.splits)
  from ok obtain s' row where r: "?r s1 = Inr (s', row)" by (cases "?r s1") auto
  from remove_stock_keeps_reservation [OF r] r s1 p show ?thesis by auto
qed

text \<open>The default location is created at most once: asking again returns the same row and
  changes nothing, whatever the first call found.\<close>

theorem default_location_idempotent:
  assumes "get_or_create_default_location org firm s = Inr (s', l)"
  shows "get_or_create_default_location org firm s' = Inr (s', l) \<and> location_code l = ''MAIN'' \<and>
    location_org l = org \<and> location_firm l = firm \<and> positions s' = positions s \<and>
    stock_ledger s' = stock_ledger s \<and>
    (locations s' = locations s \<or> locations s' = locations s @ [l])"
proof (cases "find_location_by_code org firm ''MAIN'' s")
  case (Inr r)
  show ?thesis
  proof (cases r)
    case None
    with Inr have no: "filter (\<lambda>l. location_org l = org \<and> location_firm l = firm \<and>
          location_code l = ''MAIN'') (locations s) = []"
      by (simp add: find_location_by_code_def scalar_one_or_none_None)
    from None Inr assms have new: "new_location org firm ''MAIN'' ''Main Warehouse'' WAREHOUSE s = (s', l)"
      by (simp add: get_or_create_default_location_def)
    then have l: "location_org l = org" "location_firm l = firm" "location_code l = ''MAIN''"
      by (auto simp: new_location_def mint_def Let_def)
    with no new_location_frame [OF new] show ?thesis
      by (simp add: get_or_create_default_location_def find_location_by_code_def scalar_one_or_none_def)
  next
    case (Some x)
    with Inr assms have "s' = s" "x = l" by (simp_all add: get_or_create_default_location_def)
    moreover from Inr Some have "x \<in> set (filter (\<lambda>l. location_org l = org \<and> location_firm l = firm
        \<and> location_code l = ''MAIN'') (locations s))"
      by (simp add: find_location_by_code_def scalar_one_or_none_Some)
    ultimately show ?thesis using assms by auto
  qed
qed (use assms in \<open>simp add: get_or_create_default_location_def\<close>)

lemma default_location_idempotent_witness:
  "\<exists>s' l. get_or_create_default_location 1 9 demo_inv = Inr (s', l) \<and>
     get_or_create_default_location 1 9 s' = Inr (s', l) \<and> length (locations s') = 2"
proof -
  have "case get_or_create_default_location 1 9 demo_inv of Inl _ \<Rightarrow> False
      | Inr (s', l) \<Rightarrow> length (locations s') = 2" by code_simp
  then obtain s' l where r: "get_or_create_default_location 1 9 demo_inv = Inr (s', l)"
    and n: "length (locations s') = 2"
    by (auto split: sum.splits)
  from default_location_idempotent [OF r] r n show ?thesis by blast
qed

end
