(* ===== verification/Ledgers.thy ===== *)
theory Ledgers
  imports Gst Numbering
begin

text \<open>
  The general ledger of \<^verbatim>\<open>app/models/accounting.py\<close>: voucher headers, their debit and credit
  lines, and the sequence every posting function follows, that is insert the header, insert the
  lines, read them back and refuse an unbalanced voucher.

  \<open>books\<close> is the part of the database the postings read and write. \<open>gl_ok\<close> is the invariant:
  every voucher's lines balance and add up to its header totals. Narrations keep the fixed words
  the code reads back, not the display names inside them; line descriptions, cost centres and audit columns are not
  modelled.
\<close>

section \<open>Tables\<close>

datatype VoucherType =
    SALES_INVOICE | PURCHASE_INVOICE | PAYMENT | RECEIPT | JOURNAL | CONTRA | DEBIT_NOTE
  | CREDIT_NOTE_VOUCHER | OPENING_BAL | MATERIAL_ISSUE | MANUFACTURING_COMPLETION
  | STOCK_ADJUSTMENT | COGS_SALE | GRN_ACCRUAL

datatype JournalLineType = DR | CR

datatype VoucherStatus = DRAFT | POSTED | RECONCILED | VOIDED

record ledger_account =
  ledger_id :: uuid
  ledger_org :: uuid
  ledger_firm :: "uuid option"
  ledger_code :: string
  ledger_party :: "uuid option"
  is_active :: "bool option"
  is_control_account :: "bool option"
  ledger_deleted :: bool

record voucher =
  voucher_id :: uuid
  v_org :: uuid
  v_firm :: uuid
  voucher_type :: VoucherType
  v_series :: string
  v_number :: string
  voucher_date :: date
  reference_type :: "string option"
  v_reference_id :: "uuid option"
  narration :: "string option"
  v_status :: VoucherStatus
  v_party :: "uuid option"
  total_debit :: decimal
  total_credit :: decimal
  v_deleted :: bool
  v_created_at :: "date \<times> int"

record voucher_line =
  vl_org :: uuid
  vl_voucher :: uuid
  vl_ledger :: uuid
  line_type :: JournalLineType
  amount :: decimal
  line_sequence :: nat

record grn_line =
  gl_org :: uuid
  gl_grn :: uuid
  gl_item :: uuid
  qty_received :: decimal
  gl_rate :: "decimal option"
  gl_deleted :: bool

record pi_line =
  pl_invoice :: uuid
  pl_item :: uuid
  pl_qty :: "decimal option"
  pl_deleted :: bool

record purchase_invoice =
  purchase_invoice_id :: uuid
  pi_org :: uuid
  pi_firm :: uuid
  pi_grn :: "uuid option"
  pi_series :: string
  pi_date :: date
  pi_status :: "VoucherStatus option"
  pi_invoice_amount :: "decimal option"
  pi_gst_amount :: "decimal option"
  rcm_applicable :: bool
  rcm_gst_deferred :: "decimal option"
  pi_deleted :: bool

record books =
  ledger_accounts :: "ledger_account list"
  vouchers :: "voucher list"
  voucher_lines :: "voucher_line list"
  purchase_invoices :: "purchase_invoice list"
  pi_lines :: "pi_line list"
  grn_lines :: "grn_line list"
  voucher_supply :: "nat \<Rightarrow> uuid"
  voucher_count :: nat

text \<open>The clock: the UTC date and the seconds since midnight.\<close>

type_synonym clock = "date \<times> int"

section \<open>Unique indexes and the insertion of a header\<close>

definition same_number :: "voucher \<Rightarrow> voucher \<Rightarrow> bool" where
  "same_number v w \<longleftrightarrow> v_org v = v_org w \<and> v_firm v = v_firm w \<and> voucher_type v = voucher_type w \<and>
     v_series v = v_series w \<and> v_number v = v_number w"

definition same_posting :: "voucher \<Rightarrow> voucher \<Rightarrow> bool" where
  "same_posting v w \<longleftrightarrow> \<not> v_deleted v \<and> \<not> v_deleted w \<and> v_reference_id v \<noteq> None \<and>
     voucher_type v \<in> {SALES_INVOICE, COGS_SALE} \<and> voucher_type v = voucher_type w \<and>
     v_org v = v_org w \<and> reference_type v \<noteq> None \<and> reference_type v = reference_type w \<and>
     v_reference_id v = v_reference_id w"

definition same_accrual :: "voucher \<Rightarrow> voucher \<Rightarrow> bool" where
  "same_accrual v w \<longleftrightarrow> \<not> v_deleted v \<and> \<not> v_deleted w \<and> v_reference_id v \<noteq> None \<and>
     voucher_type v = GRN_ACCRUAL \<and> voucher_type w = GRN_ACCRUAL \<and> v_org v = v_org w \<and>
     v_reference_id v = v_reference_id w"

definition same_reversal :: "voucher \<Rightarrow> voucher \<Rightarrow> bool" where
  "same_reversal v w \<longleftrightarrow> \<not> v_deleted v \<and> \<not> v_deleted w \<and> v_reference_id v \<noteq> None \<and>
     reference_type v = Some ''sales_invoice_reversal'' \<and>
     reference_type w = Some ''sales_invoice_reversal'' \<and> v_org v = v_org w \<and>
     v_reference_id v = v_reference_id w"

definition NUMBER_KEY :: string where
  "NUMBER_KEY = ''voucher_org_id_firm_id_voucher_type_series_number_key''"
definition ONE_POSTING_PER_REF_INDEX :: string where
  "ONE_POSTING_PER_REF_INDEX = ''uq_voucher_one_posting_per_ref''"
definition GRN_ACCRUAL_INDEX :: string where
  "GRN_ACCRUAL_INDEX = ''uq_voucher_grn_accrual''"
definition REVERSAL_INDEX :: string where
  "REVERSAL_INDEX = ''uq_voucher_sales_invoice_reversal''"

text \<open>The flush of a new header: its id is minted and the unique indexes are checked.\<close>

definition insert_voucher :: "voucher \<Rightarrow> books \<Rightarrow> error + books \<times> voucher" where
  "insert_voucher v s =
     (if \<exists>w \<in> set (vouchers s). same_number v w then Inl (IntegrityError NUMBER_KEY)
      else if \<exists>w \<in> set (vouchers s). same_posting v w then Inl (IntegrityError ONE_POSTING_PER_REF_INDEX)
      else if \<exists>w \<in> set (vouchers s). same_accrual v w then Inl (IntegrityError GRN_ACCRUAL_INDEX)
      else if \<exists>w \<in> set (vouchers s). same_reversal v w then Inl (IntegrityError REVERSAL_INDEX)
      else
        let v' = v\<lparr>voucher_id := voucher_supply s (voucher_count s)\<rparr>
        in Inr (s\<lparr>voucher_count := Suc (voucher_count s), vouchers := vouchers s @ [v']\<rparr>, v'))"

text \<open>The \<^verbatim>\<open>except IntegrityError\<close> clauses: one index becomes an error of the application.\<close>

definition translate :: "string \<Rightarrow> error \<Rightarrow> error + 'a \<Rightarrow> error + 'a" where
  "translate index e m =
     (case m of
        Inl x \<Rightarrow> (case x of IntegrityError i \<Rightarrow> if i = index then Inl e else Inl x | _ \<Rightarrow> Inl x)
      | Inr y \<Rightarrow> Inr y)"

section \<open>Lines\<close>

type_synonym leg = "uuid \<times> JournalLineType \<times> decimal"

definition lines_of :: "uuid \<Rightarrow> books \<Rightarrow> voucher_line list" where
  "lines_of vid s = filter (\<lambda>l. vl_voucher l = vid) (voucher_lines s)"

fun add_lines :: "uuid \<Rightarrow> uuid \<Rightarrow> nat \<Rightarrow> leg list \<Rightarrow> voucher_line list" where
  "add_lines org vid seq [] = []"
| "add_lines org vid seq ((l, t, a) # legs) =
     \<lparr>vl_org = org, vl_voucher = vid, vl_ledger = l, line_type = t, amount = a,
      line_sequence = seq\<rparr> # add_lines org vid (Suc seq) legs"

definition debits :: "voucher_line list \<Rightarrow> decimal" where
  "debits ls = (\<Sum>l\<leftarrow>filter (\<lambda>l. line_type l = DR) ls. amount l)"

definition credits :: "voucher_line list \<Rightarrow> decimal" where
  "credits ls = (\<Sum>l\<leftarrow>filter (\<lambda>l. line_type l = CR) ls. amount l)"

text \<open>Insert the lines, read the voucher's lines back and compare.\<close>

definition post_lines :: "voucher \<Rightarrow> leg list \<Rightarrow> books \<Rightarrow> error + books \<times> voucher" where
  "post_lines v legs s =
     (let s' = s\<lparr>voucher_lines := voucher_lines s @ add_lines (v_org v) (voucher_id v) 1 legs\<rparr>;
          ls = lines_of (voucher_id v) s'
      in if debits ls \<noteq> credits ls then Inl (AppValidationError ''unbalanced'') else Inr (s', v))"

section \<open>Lookups the postings share\<close>

definition resolve_ledger :: "uuid \<Rightarrow> string \<Rightarrow> books \<Rightarrow> error + ledger_account" where
  "resolve_ledger org code s =
     bindE (scalar_one_or_none
              (filter (\<lambda>l. ledger_org l = org \<and> ledger_code l = code \<and> ledger_firm l = None \<and>
                           \<not> ledger_deleted l) (ledger_accounts s)))
       (\<lambda>r. case r of None \<Rightarrow> Inl (AppValidationError ''System ledger missing'') | Some l \<Rightarrow> Inr l)"

definition numbers_in_use :: "uuid \<Rightarrow> uuid \<Rightarrow> VoucherType \<Rightarrow> string \<Rightarrow> books \<Rightarrow> string list" where
  "numbers_in_use org firm ty series s =
     map v_number (filter (\<lambda>v. v_org v = org \<and> v_firm v = firm \<and> voucher_type v = ty \<and>
                               v_series v = series) (vouchers s))"

definition allocate_voucher_number ::
  "uuid \<Rightarrow> uuid \<Rightarrow> VoucherType \<Rightarrow> string \<Rightarrow> books \<Rightarrow> error + string" where
  "allocate_voucher_number org firm ty series s =
     next_by_int (numbers_in_use org firm ty series s)"

section \<open>Balances and the invariant\<close>

definition signed :: "voucher_line \<Rightarrow> decimal" where
  "signed l = (case line_type l of DR \<Rightarrow> amount l | CR \<Rightarrow> - amount l)"

definition account_balance :: "books \<Rightarrow> uuid \<Rightarrow> decimal" where
  "account_balance s a = (\<Sum>l\<leftarrow>filter (\<lambda>l. vl_ledger l = a) (voucher_lines s). signed l)"

definition voucher_ok :: "books \<Rightarrow> voucher \<Rightarrow> bool" where
  "voucher_ok s v \<longleftrightarrow> debits (lines_of (voucher_id v) s) = total_debit v \<and>
     credits (lines_of (voucher_id v) s) = total_credit v \<and> total_debit v = total_credit v"

definition gl_ok :: "books \<Rightarrow> bool" where
  "gl_ok s \<longleftrightarrow> inj (voucher_supply s) \<and>
     (\<forall>v \<in> set (vouchers s). voucher_id v \<in> voucher_supply s ` {..<voucher_count s}) \<and>
     distinct (map voucher_id (vouchers s)) \<and>
     (\<forall>l \<in> set (voucher_lines s). vl_voucher l \<in> voucher_id ` set (vouchers s)) \<and>
     (\<forall>v \<in> set (vouchers s). voucher_ok s v) \<and>
     (\<forall>i j. i < j \<longrightarrow> j < length (vouchers s) \<longrightarrow> \<not> same_number (vouchers s ! j) (vouchers s ! i))"

definition leg_signed :: "leg \<Rightarrow> decimal" where
  "leg_signed g = (case g of (_, DR, a) \<Rightarrow> a | (_, CR, a) \<Rightarrow> - a)"

definition leg_debits :: "leg list \<Rightarrow> decimal" where
  "leg_debits legs = (\<Sum>(l, t, a)\<leftarrow>filter (\<lambda>(l, t, a). t = DR) legs. a)"

definition leg_credits :: "leg list \<Rightarrow> decimal" where
  "leg_credits legs = (\<Sum>(l, t, a)\<leftarrow>filter (\<lambda>(l, t, a). t = CR) legs. a)"

definition legs_on :: "uuid \<Rightarrow> leg list \<Rightarrow> decimal" where
  "legs_on a legs = (\<Sum>g\<leftarrow>filter (\<lambda>g. fst g = a) legs. leg_signed g)"

lemma debits_simps [simp]:
  "debits [] = 0" "debits (l # ls) = (if line_type l = DR then amount l else 0) + debits ls"
  "debits (ls @ ms) = debits ls + debits ms"
  by (simp_all add: debits_def)

lemma credits_simps [simp]:
  "credits [] = 0" "credits (l # ls) = (if line_type l = CR then amount l else 0) + credits ls"
  "credits (ls @ ms) = credits ls + credits ms"
  by (simp_all add: credits_def)

lemma leg_totals_simps [simp]:
  "leg_debits [] = 0" "leg_credits [] = 0"
  "leg_debits ((l, t, a) # gs) = (if t = DR then a else 0) + leg_debits gs"
  "leg_credits ((l, t, a) # gs) = (if t = CR then a else 0) + leg_credits gs"
  by (simp_all add: leg_debits_def leg_credits_def)

lemma leg_totals_append [simp]:
  "leg_debits (gs @ hs) = leg_debits gs + leg_debits hs"
  "leg_credits (gs @ hs) = leg_credits gs + leg_credits hs"
  "leg_debits (if b then [(l, t, a)] else []) = (if b \<and> t = DR then a else 0)"
  "leg_credits (if b then [(l, t, a)] else []) = (if b \<and> t = CR then a else 0)"
  by (simp_all add: leg_debits_def leg_credits_def)

lemma legs_on_simps [simp]:
  "legs_on a [] = 0"
  "legs_on a ((l, t, x) # gs) = (if l = a then case t of DR \<Rightarrow> x | CR \<Rightarrow> - x else 0) + legs_on a gs"
  "legs_on a (gs @ hs) = legs_on a gs + legs_on a hs"
  by (simp_all add: legs_on_def leg_signed_def)

lemma add_lines_totals [simp]:
  "debits (add_lines org vid n legs) = leg_debits legs"
  "credits (add_lines org vid n legs) = leg_credits legs"
  by (induction legs arbitrary: n) auto

lemma add_lines_voucher [simp]: "l \<in> set (add_lines org vid n legs) \<Longrightarrow> vl_voucher l = vid"
  by (induction org vid n legs rule: add_lines.induct) auto

lemma filter_add_lines [simp]:
  "filter (\<lambda>l. vl_voucher l = w) (add_lines org vid n legs)
     = (if w = vid then add_lines org vid n legs else [])"
  by (induction legs arbitrary: n) auto

lemma add_lines_on:
  "(\<Sum>l\<leftarrow>filter (\<lambda>l. vl_ledger l = a) (add_lines org vid n legs). signed l) = legs_on a legs"
  by (induction legs arbitrary: n) (auto simp: signed_def split: JournalLineType.split)

section \<open>Posting one voucher\<close>

text \<open>Header, then lines: what every posting function does last.\<close>

definition post_voucher ::
  "(string \<times> error) option \<Rightarrow> voucher \<Rightarrow> leg list \<Rightarrow> books \<Rightarrow> error + books \<times> voucher" where
  "post_voucher tr v legs s =
     bindE (case tr of None \<Rightarrow> insert_voucher v s | Some (i, e) \<Rightarrow> translate i e (insert_voucher v s))
       (\<lambda>(s1, v1). post_lines v1 legs s1)"

text \<open>
  \<open>posted s s' v legs\<close>: the books \<open>s'\<close> are \<open>s\<close> with the voucher \<open>v\<close> and its \<open>legs\<close> added
  and nothing else changed. Every posting function refines this.
\<close>

definition posted :: "books \<Rightarrow> books \<Rightarrow> voucher \<Rightarrow> leg list \<Rightarrow> bool" where
  "posted s s' v legs \<longleftrightarrow>
     voucher_id v = voucher_supply s (voucher_count s) \<and>
     vouchers s' = vouchers s @ [v] \<and> voucher_count s' = Suc (voucher_count s) \<and>
     voucher_lines s' = voucher_lines s @ add_lines (v_org v) (voucher_id v) 1 legs \<and>
     voucher_supply s' = voucher_supply s \<and> ledger_accounts s' = ledger_accounts s \<and>
     pi_lines s' = pi_lines s \<and> grn_lines s' = grn_lines s \<and>
     debits (lines_of (voucher_id v) s') = credits (lines_of (voucher_id v) s') \<and>
     (\<forall>w \<in> set (vouchers s). \<not> same_number v w)"

lemma insert_voucher_Inr:
  assumes "insert_voucher v s = Inr (s1, v1)"
  shows "v1 = v\<lparr>voucher_id := voucher_supply s (voucher_count s)\<rparr>"
    and "s1 = s\<lparr>voucher_count := Suc (voucher_count s), vouchers := vouchers s @ [v1]\<rparr>"
    and "\<forall>w \<in> set (vouchers s). \<not> same_number v w"
    and "\<forall>w \<in> set (vouchers s). \<not> same_posting v w \<and> \<not> same_accrual v w \<and> \<not> same_reversal v w"
  using assms by (auto simp: insert_voucher_def Let_def split: if_splits)

lemma translate_Inr [simp]: "translate i e m = Inr x \<longleftrightarrow> m = Inr x"
  by (auto simp: translate_def split: sum.splits error.splits)

lemma post_lines_Inr:
  "post_lines v legs s = Inr (s', v') \<longleftrightarrow> v' = v \<and>
     s' = s\<lparr>voucher_lines := voucher_lines s @ add_lines (v_org v) (voucher_id v) 1 legs\<rparr> \<and>
     debits (lines_of (voucher_id v) s') = credits (lines_of (voucher_id v) s')"
  by (auto simp: post_lines_def Let_def)

lemma post_voucher_Inr:
  assumes "post_voucher tr v legs s = Inr (s', v')"
  shows "posted s s' v' legs" and "v' = v\<lparr>voucher_id := voucher_supply s (voucher_count s)\<rparr>"
    and "purchase_invoices s' = purchase_invoices s"
    and "\<forall>w \<in> set (vouchers s). \<not> same_posting v w \<and> \<not> same_accrual v w \<and> \<not> same_reversal v w"
proof -
  from assms obtain s1 v1 where ins: "insert_voucher v s = Inr (s1, v1)"
    and lines: "post_lines v1 legs s1 = Inr (s', v')"
    by (auto simp: post_voucher_def split: option.splits prod.splits)
  note i = insert_voucher_Inr [OF ins]
  from lines have l: "v' = v1"
    "s' = s1\<lparr>voucher_lines := voucher_lines s1 @ add_lines (v_org v1) (voucher_id v1) 1 legs\<rparr>"
    "debits (lines_of (voucher_id v1) s') = credits (lines_of (voucher_id v1) s')"
    unfolding post_lines_Inr by blast+
  have "\<not> same_number v1 w" if "w \<in> set (vouchers s)" for w
    using i(3) that by (simp add: i(1) same_number_def)
  then show "posted s s' v' legs"
    using l(3) unfolding l(1) by (simp add: posted_def l(2) i(2)) (simp add: i(1))
  show "v' = v\<lparr>voucher_id := voucher_supply s (voucher_count s)\<rparr>" by (simp add: l i)
  show "purchase_invoices s' = purchase_invoices s" by (simp add: l i)
  show "\<forall>w \<in> set (vouchers s). \<not> same_posting v w \<and> \<not> same_accrual v w \<and> \<not> same_reversal v w"
    by (rule i(4))
qed

lemma fresh_id:
  assumes "gl_ok s"
  shows "voucher_supply s (voucher_count s) \<notin> voucher_id ` set (vouchers s)"
proof
  assume "voucher_supply s (voucher_count s) \<in> voucher_id ` set (vouchers s)"
  then obtain n where "n < voucher_count s" "voucher_supply s (voucher_count s) = voucher_supply s n"
    using assms by (auto simp: gl_ok_def)
  with assms show False by (auto simp: gl_ok_def dest: injD)
qed

lemma lines_of_posted:
  assumes "gl_ok s" and "posted s s' v legs"
  shows "lines_of (voucher_id v) s' = add_lines (v_org v) (voucher_id v) 1 legs"
    and "w \<in> set (vouchers s) \<Longrightarrow> lines_of (voucher_id w) s' = lines_of (voucher_id w) s"
proof -
  have "voucher_id v \<notin> voucher_id ` set (vouchers s)"
    using fresh_id [OF assms(1)] assms(2) by (simp add: posted_def)
  moreover have "\<forall>l \<in> set (voucher_lines s). vl_voucher l \<in> voucher_id ` set (vouchers s)"
    using assms(1) by (simp add: gl_ok_def)
  ultimately have "lines_of (voucher_id v) s = []" and ne: "\<And>w. w \<in> set (vouchers s) \<Longrightarrow> voucher_id w \<noteq> voucher_id v"
    unfolding lines_of_def filter_empty_conv by (metis, metis imageI)
  then show "lines_of (voucher_id v) s' = add_lines (v_org v) (voucher_id v) 1 legs"
    using assms(2) by (simp add: posted_def lines_of_def)
  show "lines_of (voucher_id w) s' = lines_of (voucher_id w) s" if "w \<in> set (vouchers s)"
    using assms(2) ne [OF that] by (simp add: posted_def lines_of_def)
qed

lemma posted_balanced:
  assumes "gl_ok s" and "posted s s' v legs"
  shows "leg_debits legs = leg_credits legs"
  using assms(2) lines_of_posted(1) [OF assms] by (simp add: posted_def)

text \<open>Posting balanced legs under their own total keeps the books in order.\<close>

lemma posted_ok:
  assumes ok: "gl_ok s" and p: "posted s s' v legs"
    and totals: "total_debit v = leg_debits legs" "total_credit v = leg_credits legs"
  shows "gl_ok s'"
proof -
  have id: "voucher_id v = voucher_supply s (voucher_count s)"
    and vs: "vouchers s' = vouchers s @ [v]" and ls: "voucher_lines s' = voucher_lines s @ add_lines (v_org v) (voucher_id v) 1 legs"
    and cnt: "voucher_count s' = Suc (voucher_count s)" and sup: "voucher_supply s' = voucher_supply s"
    and num: "\<forall>w \<in> set (vouchers s). \<not> same_number v w"
    using p by (simp_all add: posted_def)
  have "voucher_ok s' w" if "w \<in> set (vouchers s')" for w
  proof (cases "w \<in> set (vouchers s)")
    case True
    then show ?thesis
      using ok lines_of_posted(2) [OF ok p] by (simp add: gl_ok_def voucher_ok_def)
  next
    case False
    with that vs have "w = v" by simp
    then show ?thesis
      using totals posted_balanced [OF ok p] lines_of_posted(1) [OF ok p] by (simp add: voucher_ok_def)
  qed
  moreover have "\<not> same_number (vouchers s' ! j) (vouchers s' ! i)" if "i < j" "j < length (vouchers s')" for i j
    using that num ok by (auto simp: vs nth_append gl_ok_def less_Suc_eq)
  ultimately show ?thesis
    using ok fresh_id [OF ok] by (auto simp: gl_ok_def vs ls cnt sup id less_Suc_eq)
qed

lemma posted_balance: "posted s s' v legs \<Longrightarrow> account_balance s' a = account_balance s a + legs_on a legs"
  by (simp add: posted_def account_balance_def add_lines_on)

lemma signed_sum: "(\<Sum>l\<leftarrow>ls. signed l) = debits ls - credits ls"
  by (induction ls) (auto simp: signed_def split: JournalLineType.split)

lemma sum_by_voucher:
  "distinct ids \<Longrightarrow>
   (\<Sum>l\<leftarrow>filter (\<lambda>l. vl_voucher l \<in> set ids) ls. signed l)
     = (\<Sum>i\<leftarrow>ids. \<Sum>l\<leftarrow>filter (\<lambda>l. vl_voucher l = i) ls. signed l)"
proof (induction ids)
  case (Cons i ids)
  have "(\<Sum>l\<leftarrow>filter (\<lambda>l. vl_voucher l \<in> set (i # ids)) ls. signed l)
      = (\<Sum>l\<leftarrow>filter (\<lambda>l. vl_voucher l = i) ls. signed l)
        + (\<Sum>l\<leftarrow>filter (\<lambda>l. vl_voucher l \<in> set ids) ls. signed l)"
    using Cons.prems by (induction ls) auto
  with Cons show ?case by simp
qed simp

lemma sum_list_all_zero: "\<forall>x \<in> set xs. x = (0::decimal) \<Longrightarrow> sum_list xs = 0"
  by (induction xs) auto

text \<open>The trial balance of any selection of vouchers is zero.\<close>

lemma trial_balance_zero:
  assumes "gl_ok s"
  shows "(\<Sum>l\<leftarrow>filter (\<lambda>l. vl_voucher l \<in> voucher_id ` {v \<in> set (vouchers s). P v}) (voucher_lines s). signed l) = 0"
proof -
  let ?vs = "filter P (vouchers s)"
  have d: "distinct (map voucher_id ?vs)" using assms by (simp add: gl_ok_def distinct_map_filter)
  have "(\<Sum>l\<leftarrow>lines_of (voucher_id v) s. signed l) = 0" if "v \<in> set ?vs" for v
    using that assms by (simp add: signed_sum gl_ok_def voucher_ok_def)
  then have "\<forall>x \<in> set (map (\<lambda>v. \<Sum>l\<leftarrow>lines_of (voucher_id v) s. signed l) ?vs). x = 0" by auto
  then have "(\<Sum>v\<leftarrow>?vs. \<Sum>l\<leftarrow>lines_of (voucher_id v) s. signed l) = 0"
    by (rule sum_list_all_zero)
  then have "(\<Sum>i\<leftarrow>map voucher_id ?vs. \<Sum>l\<leftarrow>filter (\<lambda>l. vl_voucher l = i) (voucher_lines s). signed l) = 0"
    by (simp add: lines_of_def o_def)
  with sum_by_voucher [OF d, of "voucher_lines s"] show ?thesis by simp
qed

section \<open>Numbers\<close>

lemma resolve_ledger_Inr:
  "resolve_ledger org code s = Inr l \<Longrightarrow>
   l \<in> set (ledger_accounts s) \<and> ledger_org l = org \<and> ledger_code l = code \<and> ledger_firm l = None"
  by (auto simp: resolve_ledger_def dest!: scalar_one_or_none_mem split: option.splits)

lemma allocate_voucher_number_fresh:
  assumes "allocate_voucher_number org firm ty series s = Inr n"
    and "w \<in> set (vouchers s)" and "v_org w = org" and "v_firm w = firm" and "voucher_type w = ty"
    and "v_series w = series"
  shows "v_number w \<noteq> n"
proof -
  have "n \<notin> set (numbers_in_use org firm ty series s)"
    using by_int.fresh [of "numbers_in_use org firm ty series s" n] assms(1)
    by (simp add: allocate_voucher_number_def)
  moreover have "v_number w \<in> set (numbers_in_use org firm ty series s)"
    using assms(2-) by (auto simp: numbers_in_use_def)
  ultimately show ?thesis by metis
qed

end
