(* ===== verification/Accounting.thy ===== *)
theory Accounting
  imports Ledgers "HOL-Library.Product_Lexorder" "HOL-Library.Multiset"
begin

text \<open>
  The postings of \<^verbatim>\<open>app/service/accounting_service.py\<close>: sales invoices, cost of goods
  sold, goods-receipt accruals and their clearing by purchase invoices, reversals, section 34
  credit notes and manual journals. Each posting function returns the new books and the voucher,
  or raises.
\<close>

section \<open>Documents\<close>

datatype LifecycleStatus = LC_DRAFT | CONFIRMED | FINALIZED | LC_POSTED | PARTIALLY_PAID | PAID
  | OVERDUE | CANCELLED | DISCARDED

record sales_invoice =
  sales_invoice_id :: uuid
  si_org :: uuid
  si_firm :: uuid
  si_party :: uuid
  si_series :: string
  si_number :: string
  invoice_date :: date
  invoice_type :: "string option"
  tax_type :: "string option"
  si_invoice_amount :: "decimal option"
  si_gst_amount :: "decimal option"
  lifecycle_status :: LifecycleStatus

record grn =
  grn_id :: uuid
  grn_org :: uuid
  grn_firm :: uuid
  grn_date :: date

definition AR_LEDGER_CODE :: string where "AR_LEDGER_CODE = ''1200''"
definition SALES_LEDGER_CODE :: string where "SALES_LEDGER_CODE = ''4000''"
definition GST_PAYABLE_LEDGER_CODE :: string where "GST_PAYABLE_LEDGER_CODE = ''2100''"
definition INVENTORY_LEDGER_CODE :: string where "INVENTORY_LEDGER_CODE = ''1300''"
definition ITC_RECEIVABLE_LEDGER_CODE :: string where "ITC_RECEIVABLE_LEDGER_CODE = ''1400''"
definition AP_LEDGER_CODE :: string where "AP_LEDGER_CODE = ''2000''"
definition COGS_LEDGER_CODE :: string where "COGS_LEDGER_CODE = ''5000''"
definition COGS_SERIES :: string where "COGS_SERIES = ''COGS''"
definition GRNI_LEDGER_CODE :: string where "GRNI_LEDGER_CODE = ''2010''"
definition PPV_LEDGER_CODE :: string where "PPV_LEDGER_CODE = ''5360''"
definition GRNI_SERIES :: string where "GRNI_SERIES = ''GRNI''"
definition JOURNAL_SERIES :: string where "JOURNAL_SERIES = ''JV''"
definition NIL_TAX_TYPES :: "string list" where
  "NIL_TAX_TYPES = [''NIL_NOT_A_SUPPLY'', ''NIL_LUT'', ''NIL'']"
definition SALES_REVERSAL_REF_TYPE :: string where
  "SALES_REVERSAL_REF_TYPE = ''sales_invoice_reversal''"

text \<open>A POSTED voucher with equal totals; the id is minted at the flush.\<close>

definition new_voucher ::
  "uuid \<Rightarrow> uuid \<Rightarrow> VoucherType \<Rightarrow> string \<Rightarrow> string \<Rightarrow> date \<Rightarrow> string \<Rightarrow> uuid option \<Rightarrow> string option
   \<Rightarrow> uuid option \<Rightarrow> decimal \<Rightarrow> decimal \<Rightarrow> clock \<Rightarrow> voucher" where
  "new_voucher org firm ty series number d ref_type ref narr party dr cr now =
     \<lparr>voucher_id = 0, v_org = org, v_firm = firm, voucher_type = ty, v_series = series,
      v_number = number, voucher_date = d, reference_type = Some ref_type, v_reference_id = ref,
      narration = narr, v_status = POSTED, v_party = party, total_debit = dr, total_credit = cr,
      v_deleted = False, v_created_at = now\<rparr>"

section \<open>Sales invoices\<close>

definition optional_ledger :: "bool \<Rightarrow> uuid \<Rightarrow> string \<Rightarrow> books \<Rightarrow> error + ledger_account option" where
  "optional_ledger b org code s =
     (if b then bindE (resolve_ledger org code s) (\<lambda>l. Inr (Some l)) else Inr None)"

definition leg_if :: "ledger_account option \<Rightarrow> JournalLineType \<Rightarrow> decimal \<Rightarrow> leg list" where
  "leg_if l t a = (case l of None \<Rightarrow> [] | Some l \<Rightarrow> [(ledger_id l, t, a)])"

definition post_invoice_to_gl :: "clock \<Rightarrow> sales_invoice \<Rightarrow> books \<Rightarrow> error + books \<times> voucher" where
  "post_invoice_to_gl now si s =
     (let total = or_zero (si_invoice_amount si);
          gst_total = or_zero (si_gst_amount si);
          subtotal = total - gst_total
      in if total \<le> 0 then Inl (AppValidationError ''Cannot post zero-amount invoice'')
         else if tax_type si \<in> Some ` set NIL_TAX_TYPES \<and> gst_total > 0
              then Inl (AppValidationError ''NIL invoice carries non-zero GST'')
         else
           bindE (resolve_ledger (si_org si) AR_LEDGER_CODE s) (\<lambda>ar.
           bindE (resolve_ledger (si_org si) SALES_LEDGER_CODE s) (\<lambda>sales.
           bindE (optional_ledger (gst_total > 0) (si_org si) GST_PAYABLE_LEDGER_CODE s) (\<lambda>gst.
           bindE (allocate_voucher_number (si_org si) (si_firm si) SALES_INVOICE (si_series si) s) (\<lambda>n.
             post_voucher
               (Some (ONE_POSTING_PER_REF_INDEX, InvoiceStateError ''Invoice already finalized''))
               (new_voucher (si_org si) (si_firm si) SALES_INVOICE (si_series si) n (invoice_date si)
                  ''sales_invoice'' (Some (sales_invoice_id si)) (Some ''Sale to '') None total total now)
               ([(ledger_id ar, DR, total), (ledger_id sales, CR, subtotal)]
                  @ leg_if gst CR gst_total)
               s)))))"

section \<open>Cost of goods sold\<close>

text \<open>A Python sum of decimals: every addition rounds to the context.\<close>

definition ctx_sum :: "decimal list \<Rightarrow> decimal" where
  "ctx_sum xs = foldl (\<lambda>a x. ctx (a + x)) 0 xs"

definition cogs_total :: "(uuid \<times> decimal \<times> decimal option) list \<Rightarrow> decimal" where
  "cogs_total consumed =
     quantize round_half_even 2
       (ctx_sum (map (\<lambda>(_, qty, unit_cost). ctx (qty * or_zero unit_cost)) consumed))"

definition live_posting :: "uuid \<Rightarrow> VoucherType \<Rightarrow> uuid \<Rightarrow> books \<Rightarrow> error + voucher option" where
  "live_posting org ty ref s =
     scalar_one_or_none
       (filter (\<lambda>v. v_org v = org \<and> voucher_type v = ty \<and> v_reference_id v = Some ref \<and>
                    \<not> v_deleted v) (vouchers s))"

definition post_cogs_voucher ::
  "clock \<Rightarrow> uuid \<Rightarrow> uuid \<Rightarrow> string \<Rightarrow> uuid \<Rightarrow> (uuid \<times> decimal \<times> decimal option) list \<Rightarrow> date option
   \<Rightarrow> books \<Rightarrow> error + books \<times> voucher option" where
  "post_cogs_voucher now org firm ref_type ref consumed vdate s =
     (let total = cogs_total consumed in
      if total \<le> 0 then Inr (s, None)
      else
        bindE (live_posting org COGS_SALE ref s) (\<lambda>existing.
        case existing of
          Some v \<Rightarrow> Inr (s, Some v)
        | None \<Rightarrow>
            bindE (resolve_ledger org COGS_LEDGER_CODE s) (\<lambda>cogs.
            bindE (resolve_ledger org INVENTORY_LEDGER_CODE s) (\<lambda>stock.
            bindE (allocate_voucher_number org firm COGS_SALE COGS_SERIES s) (\<lambda>n.
            bindE (post_voucher
                     (Some (ONE_POSTING_PER_REF_INDEX, InvoiceStateError ''Invoice already finalized''))
                     (new_voucher org firm COGS_SALE COGS_SERIES n
                        (case vdate of Some d \<Rightarrow> d | None \<Rightarrow> fst now)
                        ref_type (Some ref) (Some ''COGS'') None total total now)
                     [(ledger_id cogs, DR, total), (ledger_id stock, CR, total)] s)
              (\<lambda>(s', v). Inr (s', Some v)))))))"

section \<open>Goods-receipt accruals\<close>

definition grn_total :: "uuid \<Rightarrow> books \<Rightarrow> decimal" where
  "grn_total gid s =
     quantize round_half_up 2
       (ctx_sum (map (\<lambda>l. ctx (qty_received l * or_zero (gl_rate l)))
          (filter (\<lambda>l. gl_grn l = gid \<and> \<not> gl_deleted l) (grn_lines s))))"

definition post_grn_accrual_voucher :: "clock \<Rightarrow> grn \<Rightarrow> books \<Rightarrow> error + books \<times> voucher option" where
  "post_grn_accrual_voucher now g s =
     (let total = grn_total (grn_id g) s in
      if total \<le> 0 then Inr (s, None)
      else
        bindE (live_posting (grn_org g) GRN_ACCRUAL (grn_id g) s) (\<lambda>existing.
        case existing of
          Some v \<Rightarrow> Inr (s, Some v)
        | None \<Rightarrow>
            bindE (resolve_ledger (grn_org g) INVENTORY_LEDGER_CODE s) (\<lambda>stock.
            bindE (resolve_ledger (grn_org g) GRNI_LEDGER_CODE s) (\<lambda>grni.
            bindE (allocate_voucher_number (grn_org g) (grn_firm g) GRN_ACCRUAL GRNI_SERIES s) (\<lambda>n.
            bindE (post_voucher
                     (Some (GRN_ACCRUAL_INDEX, InvoiceStateError ''GRN already received''))
                     (new_voucher (grn_org g) (grn_firm g) GRN_ACCRUAL GRNI_SERIES n (grn_date g)
                        ''GRN'' (Some (grn_id g)) (Some ''GRN accrual'') None total total now)
                     [(ledger_id stock, DR, total), (ledger_id grni, CR, total)] s)
              (\<lambda>(s', v). Inr (s', Some v)))))))"

section \<open>Partial billing against a receipt\<close>

text \<open>A Python dict of decimals, in insertion order; a missing key reads as zero.\<close>

type_synonym qty_by_item = "(uuid \<times> decimal) list"

definition get_qty :: "qty_by_item \<Rightarrow> uuid \<Rightarrow> decimal" where
  "get_qty m i = or_zero (map_of m i)"

fun upsert :: "'k \<Rightarrow> ('v option \<Rightarrow> 'v) \<Rightarrow> ('k \<times> 'v) list \<Rightarrow> ('k \<times> 'v) list" where
  "upsert k f [] = [(k, f None)]"
| "upsert k f ((k', v) # m) = (if k' = k then (k, f (Some v)) # m else (k', v) # upsert k f m)"

definition grn_billed_qty_by_item ::
  "uuid \<Rightarrow> uuid \<Rightarrow> uuid option \<Rightarrow> bool \<Rightarrow> books \<Rightarrow> qty_by_item" where
  "grn_billed_qty_by_item org gid exclude include_drafts s =
     (let statuses = [POSTED, RECONCILED] @ (if include_drafts then [DRAFT] else []);
          pis = filter (\<lambda>p. pi_org p = org \<and> pi_grn p = Some gid \<and> \<not> pi_deleted p \<and>
                            pi_status p \<in> Some ` set statuses \<and>
                            exclude \<noteq> Some (purchase_invoice_id p)) (purchase_invoices s);
          rows = filter (\<lambda>l. pl_invoice l \<in> purchase_invoice_id ` set pis \<and> \<not> pl_deleted l) (pi_lines s)
      in map (\<lambda>i. (i, \<Sum>l\<leftarrow>filter (\<lambda>l. pl_item l = i) rows. or_zero (pl_qty l)))
           (remdups (map pl_item rows)))"

definition grn_receipt_by_item :: "uuid \<Rightarrow> uuid \<Rightarrow> books \<Rightarrow> (uuid \<times> decimal \<times> decimal) list" where
  "grn_receipt_by_item org gid s =
     foldl (\<lambda>out l. let q = qty_received l; v = ctx (q * or_zero (gl_rate l)) in
              upsert (gl_item l)
                (\<lambda>prev. case prev of None \<Rightarrow> (q, v) | Some (q0, v0) \<Rightarrow> (ctx (q0 + q), ctx (v0 + v))) out)
       [] (filter (\<lambda>l. gl_org l = org \<and> gl_grn l = gid \<and> \<not> gl_deleted l) (grn_lines s))"

definition grn_value_of_billed_qty :: "(uuid \<times> decimal \<times> decimal) list \<Rightarrow> qty_by_item \<Rightarrow> decimal" where
  "grn_value_of_billed_qty receipt billed =
     quantize round_half_up 2
       (foldl (\<lambda>total (i, qty).
           case map_of receipt i of
             None \<Rightarrow> total
           | Some (recv_qty, recv_value) \<Rightarrow>
               if recv_qty > 0 then ctx (total + ctx (ctx (qty * recv_value) / recv_qty)) else total)
         0 billed)"

definition grn_open_grni_balance :: "uuid \<Rightarrow> uuid \<Rightarrow> uuid \<Rightarrow> books \<Rightarrow> decimal" where
  "grn_open_grni_balance org gid grni s =
     (let pi_ids = map purchase_invoice_id
            (filter (\<lambda>p. pi_org p = org \<and> pi_grn p = Some gid) (purchase_invoices s));
          vs = filter (\<lambda>v. v_org v = org \<and> \<not> v_deleted v \<and>
                 (voucher_type v = GRN_ACCRUAL \<and> v_reference_id v = Some gid \<or>
                  voucher_type v = PURCHASE_INVOICE \<and> v_reference_id v \<in> Some ` set pi_ids))
               (vouchers s)
      in (\<Sum>l\<leftarrow>filter (\<lambda>l. vl_org l = org \<and> vl_ledger l = grni \<and> vl_voucher l \<in> voucher_id ` set vs)
            (voucher_lines s). - signed l))"

definition this_billed :: "purchase_invoice \<Rightarrow> books \<Rightarrow> qty_by_item" where
  "this_billed pinv s =
     foldl (\<lambda>m l. case pl_qty l of
                None \<Rightarrow> m | Some q \<Rightarrow> upsert (pl_item l) (\<lambda>prev. ctx (or_zero prev + q)) m)
       [] (filter (\<lambda>l. pl_invoice l = purchase_invoice_id pinv \<and> \<not> pl_deleted l) (pi_lines s))"

definition completes_grn :: "purchase_invoice \<Rightarrow> uuid \<Rightarrow> books \<Rightarrow> bool" where
  "completes_grn pinv gid s =
     (let prior = grn_billed_qty_by_item (pi_org pinv) gid (Some (purchase_invoice_id pinv)) False s;
          now_billed = this_billed pinv s
      in list_all (\<lambda>(i, recv_qty, _). recv_qty > 0 \<longrightarrow>
                     recv_qty \<le> ctx (get_qty prior i + get_qty now_billed i))
           (grn_receipt_by_item (pi_org pinv) gid s))"

definition grni_clearing_amount :: "purchase_invoice \<Rightarrow> uuid \<Rightarrow> uuid \<Rightarrow> books \<Rightarrow> decimal" where
  "grni_clearing_amount pinv gid grni s =
     (let open_balance = max (grn_open_grni_balance (pi_org pinv) gid grni s) 0
      in if completes_grn pinv gid s then open_balance
         else min (grn_value_of_billed_qty (grn_receipt_by_item (pi_org pinv) gid s) (this_billed pinv s))
                open_balance)"

section \<open>Purchase invoices\<close>

text \<open>
  The accrual a purchase invoice clears: the ledger 2010 and the amount, or \<open>None\<close> for a direct
  invoice and for a receipt that has no accrual voucher.
\<close>

definition grni_side :: "purchase_invoice \<Rightarrow> books \<Rightarrow> error + (ledger_account \<times> decimal) option" where
  "grni_side pinv s =
     (case pi_grn pinv of
        None \<Rightarrow> Inr None
      | Some gid \<Rightarrow>
          bindE (live_posting (pi_org pinv) GRN_ACCRUAL gid s) (\<lambda>accrual.
          case accrual of
            None \<Rightarrow> Inr None
          | Some _ \<Rightarrow>
              bindE (resolve_ledger (pi_org pinv) GRNI_LEDGER_CODE s) (\<lambda>grni.
                Inr (Some (grni, grni_clearing_amount pinv gid (ledger_id grni) s)))))"

definition inventory_legs ::
  "ledger_account \<Rightarrow> (ledger_account \<times> decimal) option \<Rightarrow> ledger_account option \<Rightarrow> decimal \<Rightarrow> leg list" where
  "inventory_legs stock side ppv net =
     (case side of
        None \<Rightarrow> [(ledger_id stock, DR, net)]
      | Some (grni, accrued) \<Rightarrow>
          let variance = net - accrued in
          (if accrued > 0 then [(ledger_id grni, DR, accrued)] else []) @
          leg_if ppv (if variance > 0 then DR else CR) \<bar>variance\<bar>)"

definition pi_net :: "purchase_invoice \<Rightarrow> decimal" where
  "pi_net pinv = quantize round_half_up 2 (or_zero (pi_invoice_amount pinv))"

definition note_rcm :: "purchase_invoice \<Rightarrow> books \<Rightarrow> books" where
  "note_rcm pinv s =
     (let gst_total = or_zero (pi_gst_amount pinv) in
      if rcm_applicable pinv \<and> gst_total > 0
      then s\<lparr>purchase_invoices :=
               update_where (\<lambda>p. purchase_invoice_id p = purchase_invoice_id pinv)
                 (\<lambda>p. p\<lparr>rcm_gst_deferred := Some (quantize round_half_even 2 gst_total)\<rparr>)
                 (purchase_invoices s)\<rparr>
      else s)"

definition post_pi_legs ::
  "clock \<Rightarrow> purchase_invoice \<Rightarrow> (ledger_account \<times> decimal) option \<Rightarrow> books \<Rightarrow> error + books \<times> voucher" where
  "post_pi_legs now pinv side s =
     (let net = pi_net pinv;
          gst_total = or_zero (pi_gst_amount pinv);
          ap_amount = (if rcm_applicable pinv then net else net + gst_total);
          include_itc = (\<not> rcm_applicable pinv \<and> gst_total > 0);
          variance = (case side of None \<Rightarrow> 0 | Some (_, accrued) \<Rightarrow> net - accrued);
          bundle_total = ap_amount + (if variance < 0 then \<bar>variance\<bar> else 0)
      in bindE (resolve_ledger (pi_org pinv) INVENTORY_LEDGER_CODE s) (\<lambda>stock.
         bindE (optional_ledger (variance \<noteq> 0) (pi_org pinv) PPV_LEDGER_CODE s) (\<lambda>ppv.
         bindE (optional_ledger include_itc (pi_org pinv) ITC_RECEIVABLE_LEDGER_CODE s) (\<lambda>itc.
         bindE (resolve_ledger (pi_org pinv) AP_LEDGER_CODE s) (\<lambda>ap.
         bindE (allocate_voucher_number (pi_org pinv) (pi_firm pinv) PURCHASE_INVOICE (pi_series pinv) s) (\<lambda>n.
           post_voucher None
             (new_voucher (pi_org pinv) (pi_firm pinv) PURCHASE_INVOICE (pi_series pinv) n (pi_date pinv)
                ''purchase_invoice'' (Some (purchase_invoice_id pinv)) (Some ''Purchase from '') None
                bundle_total bundle_total now)
             (inventory_legs stock side ppv net @ leg_if itc DR gst_total @
              (if ap_amount > 0 then [(ledger_id ap, CR, ap_amount)] else []))
             s))))))"

definition post_purchase_invoice_to_gl ::
  "clock \<Rightarrow> purchase_invoice \<Rightarrow> books \<Rightarrow> error + books \<times> voucher option" where
  "post_purchase_invoice_to_gl now pinv s =
     bindE (live_posting (pi_org pinv) PURCHASE_INVOICE (purchase_invoice_id pinv) s) (\<lambda>existing.
     case existing of
       Some v \<Rightarrow> Inr (s, Some v)
     | None \<Rightarrow>
         bindE (grni_side pinv s) (\<lambda>side.
         let accrued = (case side of None \<Rightarrow> 0 | Some (_, a) \<Rightarrow> a) in
         if pi_net pinv \<le> 0 \<and> accrued \<le> 0 then Inr (s, None)
         else bindE (post_pi_legs now pinv side (note_rcm pinv s)) (\<lambda>(s', v). Inr (s', Some v))))"

section \<open>Reversals\<close>

definition swap :: "JournalLineType \<Rightarrow> JournalLineType" where
  "swap t = (case t of DR \<Rightarrow> CR | CR \<Rightarrow> DR)"

definition mirror_legs :: "uuid \<Rightarrow> books \<Rightarrow> leg list" where
  "mirror_legs vid s =
     map (\<lambda>l. (vl_ledger l, swap (line_type l), amount l)) (sort_key line_sequence (lines_of vid s))"

definition is_reversal_narration :: "string option \<Rightarrow> bool" where
  "is_reversal_narration n = (case n of None \<Rightarrow> True | Some t \<Rightarrow> take 11 t = ''Reversal of'')"

definition reverse_purchase_invoice_gl ::
  "clock \<Rightarrow> purchase_invoice \<Rightarrow> books \<Rightarrow> error + books \<times> voucher option" where
  "reverse_purchase_invoice_gl now pinv s =
     bindE (scalar_one_or_none
              (filter (\<lambda>v. v_org v = pi_org pinv \<and> voucher_type v = PURCHASE_INVOICE \<and>
                           v_reference_id v = Some (purchase_invoice_id pinv) \<and> \<not> v_deleted v \<and>
                           \<not> is_reversal_narration (narration v)) (vouchers s)))
       (\<lambda>found. case found of
          None \<Rightarrow> Inr (s, None)
        | Some original \<Rightarrow>
            bindE (allocate_voucher_number (pi_org pinv) (pi_firm pinv) PURCHASE_INVOICE (pi_series pinv) s) (\<lambda>n.
            bindE (post_voucher None
                     (new_voucher (pi_org pinv) (pi_firm pinv) PURCHASE_INVOICE (pi_series pinv) n (fst now)
                        ''purchase_invoice'' (Some (purchase_invoice_id pinv))
                        (Some ''Reversal of purchase from '') None
                        (total_debit original) (total_credit original) now)
                     (mirror_legs (voucher_id original) s) s)
              (\<lambda>(s', v). Inr (s', Some v))))"

definition find_existing_reversal :: "uuid \<Rightarrow> uuid \<Rightarrow> books \<Rightarrow> error + voucher option" where
  "find_existing_reversal org vid s =
     scalar_one_or_none
       (filter (\<lambda>v. v_org v = org \<and> reference_type v = Some SALES_REVERSAL_REF_TYPE \<and>
                    v_reference_id v = Some vid \<and> \<not> v_deleted v) (vouchers s))"

definition post_reversal_of ::
  "clock \<Rightarrow> voucher \<Rightarrow> VoucherType \<Rightarrow> string \<Rightarrow> uuid option \<Rightarrow> string \<Rightarrow> date option \<Rightarrow> books
   \<Rightarrow> error + books \<times> voucher" where
  "post_reversal_of now original ty series party narr vdate s =
     bindE (find_existing_reversal (v_org original) (voucher_id original) s) (\<lambda>existing.
     case existing of
       Some v \<Rightarrow> Inr (s, v)
     | None \<Rightarrow>
         bindE (allocate_voucher_number (v_org original) (v_firm original) ty series s) (\<lambda>n.
           post_voucher
             (Some (REVERSAL_INDEX, InvoiceStateError ''Invoice already cancelled''))
             (new_voucher (v_org original) (v_firm original) ty series n
                (case vdate of Some d \<Rightarrow> d | None \<Rightarrow> fst now)
                SALES_REVERSAL_REF_TYPE (Some (voucher_id original)) (Some narr) party
                (total_debit original) (total_credit original) now)
             (mirror_legs (voucher_id original) s) s))"

section \<open>Section 34 credit notes\<close>

definition CXL_SERIES_PREFIX :: string where
  "CXL_SERIES_PREFIX = CANCELLATION_REVERSAL_SERIES_PREFIX @ ''/''"

definition starts_with :: "string \<Rightarrow> string \<Rightarrow> bool" where
  "starts_with t p \<longleftrightarrow> take (length p) t = p"

definition is_gstr1_reportable_supply :: "string option \<Rightarrow> string option \<Rightarrow> bool" where
  "is_gstr1_reportable_supply inv_type tax =
     (if inv_type \<noteq> None \<and> inv_type \<noteq> Some ''TAX_INVOICE'' then False else tax \<noteq> Some ''NIL'')"

definition invoice_supports_s34_note :: "string option \<Rightarrow> string option \<Rightarrow> bool" where
  "invoice_supports_s34_note inv_type tax = is_gstr1_reportable_supply inv_type tax"

definition is_s34_credit_note ::
  "string \<Rightarrow> date \<Rightarrow> date \<Rightarrow> string option \<Rightarrow> string option \<Rightarrow> bool" where
  "is_s34_credit_note series note_date inv_date inv_type tax =
     (if starts_with series CXL_SERIES_PREFIX then False
      else if \<not> is_later_gst_period note_date inv_date then False
      else invoice_supports_s34_note inv_type tax)"

text \<open>
  The same predicate as the database evaluates it, in three-valued logic: \<open>None\<close> is
  \<^verbatim>\<open>NULL\<close>, and a \<^verbatim>\<open>WHERE\<close> clause keeps a row only if it is \<open>Some True\<close>.
\<close>

type_synonym tri = "bool option"

definition sql_and :: "tri \<Rightarrow> tri \<Rightarrow> tri" where
  "sql_and a b = (if a = Some False \<or> b = Some False then Some False
                  else if a = None \<or> b = None then None else Some True)"

definition sql_or :: "tri \<Rightarrow> tri \<Rightarrow> tri" where
  "sql_or a b = (if a = Some True \<or> b = Some True then Some True
                 else if a = None \<or> b = None then None else Some False)"

definition sql_eq :: "'a option \<Rightarrow> 'a \<Rightarrow> tri" where
  "sql_eq a v = map_option (\<lambda>x. x = v) a"

definition sql_is_null :: "'a option \<Rightarrow> tri" where
  "sql_is_null a = Some (a = None)"

definition sql_is_distinct_from :: "'a option \<Rightarrow> 'a \<Rightarrow> tri" where
  "sql_is_distinct_from a v = Some (a \<noteq> Some v)"

text \<open>\<^verbatim>\<open>date_trunc('month', d)\<close>: the first of the month.\<close>

definition date_trunc_month :: "date \<Rightarrow> date" where
  "date_trunc_month d = Date (year d) (month d) 1"

definition gstr1_reportable_supply_clause :: "string option \<Rightarrow> string option \<Rightarrow> tri" where
  "gstr1_reportable_supply_clause inv_type tax =
     sql_and (sql_or (sql_is_null inv_type) (sql_eq inv_type ''TAX_INVOICE''))
       (sql_is_distinct_from tax ''NIL'')"

definition s34_credit_note_clause ::
  "string \<Rightarrow> date \<Rightarrow> date \<Rightarrow> string option \<Rightarrow> string option \<Rightarrow> tri" where
  "s34_credit_note_clause series note_date inv_date inv_type tax =
     sql_and (Some (\<not> starts_with series CXL_SERIES_PREFIX))
       (sql_and (Some (date_trunc_month note_date > date_trunc_month inv_date))
          (gstr1_reportable_supply_clause inv_type tax))"

section \<open>Cancelling a sales invoice\<close>

definition sales_vouchers_of :: "sales_invoice \<Rightarrow> books \<Rightarrow> voucher list" where
  "sales_vouchers_of si s =
     sort_key voucher_date (sort_key v_created_at (sort_key voucher_id
       (filter (\<lambda>v. v_org v = si_org si \<and> voucher_type v = SALES_INVOICE \<and>
                    reference_type v = Some ''sales_invoice'' \<and>
                    v_reference_id v = Some (sales_invoice_id si) \<and> \<not> v_deleted v) (vouchers s))))"

fun reverse_each ::
  "clock \<Rightarrow> sales_invoice \<Rightarrow> date \<Rightarrow> bool \<Rightarrow> voucher list \<Rightarrow> bool \<Rightarrow> books
   \<Rightarrow> error + books \<times> voucher list" where
  "reverse_each now si note_date issues_note [] cn_taken s = Inr (s, [])"
| "reverse_each now si note_date issues_note (original # rest) cn_taken s =
     (let (series, narr) =
        (if issues_note \<and> \<not> cn_taken then (credit_note_series note_date, ''Credit note'')
         else (cancellation_reversal_series note_date, ''Cancellation reversal''))
      in bindE (post_reversal_of now original CREDIT_NOTE_VOUCHER series (Some (si_party si)) narr
                  (Some note_date) s) (\<lambda>(s1, r).
         bindE (reverse_each now si note_date issues_note rest
                  (cn_taken \<or> \<not> starts_with (v_series r) CXL_SERIES_PREFIX) s1) (\<lambda>(s2, rs).
           Inr (s2, r # rs))))"

definition reverse_sales_invoice_gl ::
  "clock \<Rightarrow> sales_invoice \<Rightarrow> date option \<Rightarrow> books \<Rightarrow> error + books \<times> voucher list" where
  "reverse_sales_invoice_gl now si vdate s =
     (let note_date = (case vdate of Some d \<Rightarrow> d | None \<Rightarrow> gst_local_date now);
          issues_note = (is_later_gst_period note_date (invoice_date si) \<and>
                         invoice_supports_s34_note (invoice_type si) (tax_type si))
      in reverse_each now si note_date issues_note (sales_vouchers_of si s) False s)"

text \<open>
  The credit note of an invoice: the join of the reversals with the vouchers they reverse and
  with the invoice, filtered by the SQL clause, the earliest first.
\<close>

definition find_sales_credit_note :: "sales_invoice \<Rightarrow> books \<Rightarrow> voucher option" where
  "find_sales_credit_note si s =
     (if lifecycle_status si \<noteq> CANCELLED then None
      else
        let rows = filter (\<lambda>v. v_org v = si_org si \<and> v_firm v = si_firm si \<and>
              voucher_type v = CREDIT_NOTE_VOUCHER \<and>
              reference_type v = Some SALES_REVERSAL_REF_TYPE \<and> \<not> v_deleted v \<and>
              v_reference_id v \<in> Some ` voucher_id ` set (sales_vouchers_of si s) \<and>
              s34_credit_note_clause (v_series v) (voucher_date v) (invoice_date si)
                (invoice_type si) (tax_type si) = Some True) (vouchers s);
            before = (\<lambda>v w. voucher_date v < voucher_date w \<or> voucher_date v = voucher_date w \<and>
              (v_number v \<noteq> v_number w \<and> str_le (v_number v) (v_number w) \<or>
               v_number v = v_number w \<and> voucher_id v < voucher_id w))
        in fold (\<lambda>v best. case best of None \<Rightarrow> Some v
                                  | Some b \<Rightarrow> if before v b then Some v else Some b) rows None)"

definition reverse_cogs_sale_gl ::
  "clock \<Rightarrow> sales_invoice \<Rightarrow> date option \<Rightarrow> books \<Rightarrow> error + books \<times> voucher option" where
  "reverse_cogs_sale_gl now si vdate s =
     bindE (scalar_one_or_none
              (filter (\<lambda>v. v_org v = si_org si \<and> voucher_type v = COGS_SALE \<and>
                           reference_type v = Some ''sales_invoice'' \<and>
                           v_reference_id v = Some (sales_invoice_id si) \<and> \<not> v_deleted v) (vouchers s)))
       (\<lambda>found. case found of
          None \<Rightarrow> Inr (s, None)
        | Some original \<Rightarrow>
            bindE (post_reversal_of now original COGS_SALE (v_series original) None
                     ''Reversal of COGS for invoice '' vdate s)
              (\<lambda>(s', v). Inr (s', Some v)))"

section \<open>Manual journal vouchers\<close>

record journal_line =
  jl_ledger :: uuid
  jl_type :: JournalLineType
  jl_amount :: decimal

fun validate_lines_from :: "journal_line list \<Rightarrow> decimal \<Rightarrow> decimal \<Rightarrow> error + decimal \<times> decimal" where
  "validate_lines_from [] drs crs =
     (if drs \<noteq> crs then Inl (AppValidationError ''Journal voucher is not balanced'')
      else Inr (drs, crs))"
| "validate_lines_from (l # ls) drs crs =
     (if jl_amount l \<le> 0 then Inl (AppValidationError ''amount must be positive'')
      else case jl_type l of
             DR \<Rightarrow> validate_lines_from ls (drs + jl_amount l) crs
           | CR \<Rightarrow> validate_lines_from ls drs (crs + jl_amount l))"

definition validate_journal_lines :: "journal_line list \<Rightarrow> error + decimal \<times> decimal" where
  "validate_journal_lines lines =
     (if length lines < 2
      then Inl (AppValidationError ''A journal voucher must have at least 2 lines'')
      else validate_lines_from lines 0 0)"

definition check_journal_ledger :: "uuid \<Rightarrow> ledger_account list \<Rightarrow> uuid \<Rightarrow> error + unit" where
  "check_journal_ledger firm rows lid =
     (case find (\<lambda>l. ledger_id l = lid) rows of
        None \<Rightarrow> Inl (AppValidationError ''Unknown ledger'')
      | Some l \<Rightarrow>
          if ledger_firm l \<noteq> None \<and> ledger_firm l \<noteq> Some firm
          then Inl (AppValidationError ''belongs to a different firm'')
          else if is_active l = Some False then Inl (AppValidationError ''is_active=False'')
          else if is_control_account l = Some True
          then Inl (AppValidationError ''is a control account'')
          else Inr ())"

definition resolve_journal_ledgers :: "uuid \<Rightarrow> uuid \<Rightarrow> uuid list \<Rightarrow> books \<Rightarrow> error + unit" where
  "resolve_journal_ledgers org firm ids s =
     (let rows = filter (\<lambda>l. ledger_org l = org \<and> ledger_id l \<in> set ids \<and> \<not> ledger_deleted l)
                   (ledger_accounts s)
      in bindE (mapE (check_journal_ledger firm rows) ids) (\<lambda>_. Inr ()))"

definition post_journal_voucher ::
  "clock \<Rightarrow> uuid \<Rightarrow> uuid \<Rightarrow> date \<Rightarrow> string option \<Rightarrow> journal_line list \<Rightarrow> books
   \<Rightarrow> error + books \<times> voucher" where
  "post_journal_voucher now org firm vdate narr lines s =
     bindE (validate_journal_lines lines) (\<lambda>(drs, crs).
     bindE (resolve_journal_ledgers org firm (map jl_ledger lines) s) (\<lambda>_.
     bindE (allocate_voucher_number org firm JOURNAL JOURNAL_SERIES s) (\<lambda>n.
       post_voucher
         (Some (NUMBER_KEY, AppValidationError ''Voucher number race detected''))
         (new_voucher org firm JOURNAL JOURNAL_SERIES n vdate ''journal_voucher'' None narr None
            drs crs now)
         (map (\<lambda>l. (jl_ledger l, jl_type l, jl_amount l)) lines) s)))"

section \<open>Every posting is one balanced voucher\<close>

definition posts_balanced :: "books \<Rightarrow> books \<Rightarrow> voucher \<Rightarrow> leg list \<Rightarrow> bool" where
  "posts_balanced s s' v legs \<longleftrightarrow>
     posted s s' v legs \<and> total_debit v = leg_debits legs \<and> total_credit v = leg_credits legs"

lemma posts_balanced_ok: "posts_balanced s s' v legs \<Longrightarrow> gl_ok s \<Longrightarrow> gl_ok s'"
  by (auto simp: posts_balanced_def intro: posted_ok)

lemma new_voucher_fields [simp]:
  "total_debit (new_voucher org firm ty series n d rt ref narr party dr cr now) = dr"
  "total_credit (new_voucher org firm ty series n d rt ref narr party dr cr now) = cr"
  "v_org (new_voucher org firm ty series n d rt ref narr party dr cr now) = org"
  "v_firm (new_voucher org firm ty series n d rt ref narr party dr cr now) = firm"
  "voucher_type (new_voucher org firm ty series n d rt ref narr party dr cr now) = ty"
  "v_series (new_voucher org firm ty series n d rt ref narr party dr cr now) = series"
  "v_number (new_voucher org firm ty series n d rt ref narr party dr cr now) = n"
  "voucher_date (new_voucher org firm ty series n d rt ref narr party dr cr now) = d"
  "reference_type (new_voucher org firm ty series n d rt ref narr party dr cr now) = Some rt"
  "v_reference_id (new_voucher org firm ty series n d rt ref narr party dr cr now) = ref"
  "narration (new_voucher org firm ty series n d rt ref narr party dr cr now) = narr"
  "v_deleted (new_voucher org firm ty series n d rt ref narr party dr cr now) = False"
  "v_created_at (new_voucher org firm ty series n d rt ref narr party dr cr now) = now"
  by (simp_all add: new_voucher_def)

lemma post_voucher_balanced:
  assumes "post_voucher tr (new_voucher org firm ty series n d rt ref narr party dr cr now) legs s = Inr (s', v)"
    and "gl_ok s" and "dr = leg_debits legs" and "cr = leg_credits legs"
  shows "posts_balanced s s' v legs"
  using post_voucher_Inr(1,2) [OF assms(1)] assms(3,4) by (simp add: posts_balanced_def)

lemma post_voucher_fields:
  assumes "post_voucher tr w legs s = Inr (s', v)"
  shows "v_org v = v_org w" and "v_firm v = v_firm w" and "voucher_type v = voucher_type w"
    and "v_series v = v_series w" and "v_number v = v_number w" and "voucher_date v = voucher_date w"
    and "reference_type v = reference_type w" and "v_reference_id v = v_reference_id w"
    and "narration v = narration w" and "v_deleted v = v_deleted w"
    and "total_debit v = total_debit w" and "total_credit v = total_credit w"
  by (simp_all add: post_voucher_Inr(2) [OF assms])

lemma leg_if_totals [simp]:
  "leg_debits (leg_if l t a) = (if l \<noteq> None \<and> t = DR then a else 0)"
  "leg_credits (leg_if l t a) = (if l \<noteq> None \<and> t = CR then a else 0)"
  by (cases l; simp add: leg_if_def)+

lemma optional_ledger_Inr:
  "optional_ledger b org code s = Inr l \<longleftrightarrow> (if b then \<exists>x. l = Some x \<and> resolve_ledger org code s = Inr x else l = None)"
  by (auto simp: optional_ledger_def bindE_Inr_iff)

lemma post_invoice_posts:
  assumes "post_invoice_to_gl now si s = Inr (s', v)" and "gl_ok s"
  obtains ar sales gst where
    "resolve_ledger (si_org si) AR_LEDGER_CODE s = Inr ar"
    and "resolve_ledger (si_org si) SALES_LEDGER_CODE s = Inr sales"
    and "optional_ledger (or_zero (si_gst_amount si) > 0) (si_org si) GST_PAYABLE_LEDGER_CODE s = Inr gst"
    and "posts_balanced s s' v
      ([(ledger_id ar, DR, or_zero (si_invoice_amount si)),
        (ledger_id sales, CR, or_zero (si_invoice_amount si) - or_zero (si_gst_amount si))]
       @ leg_if gst CR (or_zero (si_gst_amount si)))"
    and "v_reference_id v = Some (sales_invoice_id si)" and "voucher_type v = SALES_INVOICE"
    and "v_org v = si_org si" and "reference_type v = Some ''sales_invoice''" and "\<not> v_deleted v"
    and "\<forall>w \<in> set (vouchers s). \<not> same_posting v w"
proof -
  let ?t = "or_zero (si_invoice_amount si)"
  let ?g = "or_zero (si_gst_amount si)"
  from assms(1) obtain ar sales gst n where r: "resolve_ledger (si_org si) AR_LEDGER_CODE s = Inr ar"
    "resolve_ledger (si_org si) SALES_LEDGER_CODE s = Inr sales"
    "optional_ledger (?g > 0) (si_org si) GST_PAYABLE_LEDGER_CODE s = Inr gst"
    and p: "post_voucher (Some (ONE_POSTING_PER_REF_INDEX, InvoiceStateError ''Invoice already finalized''))
      (new_voucher (si_org si) (si_firm si) SALES_INVOICE (si_series si) n (invoice_date si)
        ''sales_invoice'' (Some (sales_invoice_id si)) (Some ''Sale to '') None ?t ?t now)
      ([(ledger_id ar, DR, ?t), (ledger_id sales, CR, ?t - ?g)] @ leg_if gst CR ?g) s = Inr (s', v)"
    unfolding post_invoice_to_gl_def Let_def by (auto split: if_splits)
  note pv = post_voucher_Inr [OF p]
  have b: "leg_debits ([(ledger_id ar, DR, ?t), (ledger_id sales, CR, ?t - ?g)] @ leg_if gst CR ?g) = ?t"
    by simp
  have "posts_balanced s s' v ([(ledger_id ar, DR, ?t), (ledger_id sales, CR, ?t - ?g)] @ leg_if gst CR ?g)"
    using pv(1,2) b posted_balanced [OF assms(2) pv(1)] by (simp add: posts_balanced_def)
  moreover have "\<not> same_posting v w" if "w \<in> set (vouchers s)" for w
    using pv(4) that unfolding pv(2) by (simp add: same_posting_def)
  ultimately show thesis using r pv(2) by (intro that) simp_all
qed

text \<open>
  \<open>one_posting s s' r\<close>: the outcome of the optional postings, either nothing was posted and \<open>r\<close>
  is what was found, or one balanced voucher \<open>r\<close> was.
\<close>

definition one_posting :: "books \<Rightarrow> books \<Rightarrow> voucher option \<Rightarrow> bool" where
  "one_posting s s' r \<longleftrightarrow> s' = s \<or> (\<exists>v legs. r = Some v \<and> posts_balanced s s' v legs)"

lemma one_posting_ok: "one_posting s s' r \<Longrightarrow> gl_ok s \<Longrightarrow> gl_ok s'"
  by (auto simp: one_posting_def intro: posts_balanced_ok)

lemma live_posting_Some:
  "live_posting org ty ref s = Inr (Some v) \<Longrightarrow>
   v \<in> set (vouchers s) \<and> v_org v = org \<and> voucher_type v = ty \<and> v_reference_id v = Some ref \<and> \<not> v_deleted v"
  unfolding live_posting_def by (drule scalar_one_or_none_mem) simp

lemma post_cogs_cases:
  assumes "post_cogs_voucher now org firm rt ref consumed vdate s = Inr (s', r)" and "gl_ok s"
  obtains (nothing) "cogs_total consumed \<le> 0" and "s' = s" and "r = None"
    | (existing) v where "0 < cogs_total consumed" and "live_posting org COGS_SALE ref s = Inr (Some v)"
        and "s' = s" and "r = Some v"
    | (new) v cogs stock where "0 < cogs_total consumed" and "live_posting org COGS_SALE ref s = Inr None"
        and "r = Some v" and "resolve_ledger org COGS_LEDGER_CODE s = Inr cogs"
        and "resolve_ledger org INVENTORY_LEDGER_CODE s = Inr stock"
        and "posts_balanced s s' v [(ledger_id cogs, DR, cogs_total consumed), (ledger_id stock, CR, cogs_total consumed)]"
        and "v_org v = org" and "voucher_type v = COGS_SALE" and "v_reference_id v = Some ref" and "\<not> v_deleted v"
        and "reference_type v = Some rt"
proof (cases "cogs_total consumed \<le> 0")
  case True
  show ?thesis by (rule nothing) (use assms(1) True in \<open>simp_all add: post_cogs_voucher_def\<close>)
next
  case False
  with assms(1) obtain ex where ex: "live_posting org COGS_SALE ref s = Inr ex"
    by (auto simp: post_cogs_voucher_def Let_def)
  show ?thesis
  proof (cases ex)
    case (Some v)
    from assms(1) False ex Some have "s' = s" "r = Some v" by (simp_all add: post_cogs_voucher_def Let_def)
    with False ex Some show ?thesis by (intro existing) simp_all
  next
    case None
    with assms(1) False ex obtain cogs stock n v where
      r: "resolve_ledger org COGS_LEDGER_CODE s = Inr cogs" "resolve_ledger org INVENTORY_LEDGER_CODE s = Inr stock"
      and p: "post_voucher (Some (ONE_POSTING_PER_REF_INDEX, InvoiceStateError ''Invoice already finalized''))
         (new_voucher org firm COGS_SALE COGS_SERIES n (case vdate of Some d \<Rightarrow> d | None \<Rightarrow> fst now)
            rt (Some ref) (Some ''COGS'') None (cogs_total consumed) (cogs_total consumed) now)
         [(ledger_id cogs, DR, cogs_total consumed), (ledger_id stock, CR, cogs_total consumed)] s = Inr (s', v)"
      and v: "r = Some v"
      unfolding post_cogs_voucher_def Let_def by auto
    have "posts_balanced s s' v [(ledger_id cogs, DR, cogs_total consumed), (ledger_id stock, CR, cogs_total consumed)]"
      by (rule post_voucher_balanced [OF p assms(2)]) simp_all
    with False ex None r v post_voucher_fields [OF p] show ?thesis by (intro new) simp_all
  qed
qed

lemma post_grn_accrual_cases:
  assumes "post_grn_accrual_voucher now g s = Inr (s', r)" and "gl_ok s"
  obtains (nothing) "grn_total (grn_id g) s \<le> 0" and "s' = s" and "r = None"
    | (existing) v where "0 < grn_total (grn_id g) s"
        and "live_posting (grn_org g) GRN_ACCRUAL (grn_id g) s = Inr (Some v)" and "s' = s" and "r = Some v"
    | (new) v stock grni where "0 < grn_total (grn_id g) s" and "live_posting (grn_org g) GRN_ACCRUAL (grn_id g) s = Inr None"
        and "r = Some v" and "resolve_ledger (grn_org g) INVENTORY_LEDGER_CODE s = Inr stock"
        and "resolve_ledger (grn_org g) GRNI_LEDGER_CODE s = Inr grni"
        and "posts_balanced s s' v [(ledger_id stock, DR, grn_total (grn_id g) s), (ledger_id grni, CR, grn_total (grn_id g) s)]"
proof (cases "grn_total (grn_id g) s \<le> 0")
  case True
  show ?thesis by (rule nothing) (use assms(1) True in \<open>simp_all add: post_grn_accrual_voucher_def\<close>)
next
  case False
  let ?t = "grn_total (grn_id g) s"
  from False assms(1) obtain ex where ex: "live_posting (grn_org g) GRN_ACCRUAL (grn_id g) s = Inr ex"
    by (auto simp: post_grn_accrual_voucher_def Let_def)
  show ?thesis
  proof (cases ex)
    case (Some v)
    from assms(1) False ex Some have "s' = s" "r = Some v" by (simp_all add: post_grn_accrual_voucher_def Let_def)
    with False ex Some show ?thesis by (intro existing) simp_all
  next
    case None
    with assms(1) False ex obtain stock grni n v where
      r: "resolve_ledger (grn_org g) INVENTORY_LEDGER_CODE s = Inr stock"
         "resolve_ledger (grn_org g) GRNI_LEDGER_CODE s = Inr grni"
      and p: "post_voucher (Some (GRN_ACCRUAL_INDEX, InvoiceStateError ''GRN already received''))
         (new_voucher (grn_org g) (grn_firm g) GRN_ACCRUAL GRNI_SERIES n (grn_date g)
            ''GRN'' (Some (grn_id g)) (Some ''GRN accrual'') None ?t ?t now)
         [(ledger_id stock, DR, ?t), (ledger_id grni, CR, ?t)] s = Inr (s', v)"
      and v: "r = Some v"
      unfolding post_grn_accrual_voucher_def Let_def by auto
    have "posts_balanced s s' v [(ledger_id stock, DR, ?t), (ledger_id grni, CR, ?t)]"
      by (rule post_voucher_balanced [OF p assms(2)]) simp_all
    with False ex None r v show ?thesis by (intro new) simp_all
  qed
qed

section \<open>Reversals mirror\<close>

lemma sum_list_sort_key [simp]:
  fixes f :: "'a \<Rightarrow> decimal"
  shows "sum_list (map f (sort_key k xs)) = sum_list (map f xs)"
proof -
  have "mset (map f (sort_key k xs)) = mset (map f xs)" by simp
  then show ?thesis by (metis sum_mset_sum_list)
qed

lemma swap_simps [simp]: "swap DR = CR" "swap CR = DR" "swap t = DR \<longleftrightarrow> t = CR" "swap t = CR \<longleftrightarrow> t = DR"
  by (simp_all add: swap_def split: JournalLineType.split)

lemma mirror_totals:
  "leg_debits (mirror_legs vid s) = credits (lines_of vid s)"
  "leg_credits (mirror_legs vid s) = debits (lines_of vid s)"
  by (simp_all add: leg_debits_def leg_credits_def mirror_legs_def filter_map o_def filter_sort
      credits_def debits_def)

lemma mirror_on: "legs_on a (mirror_legs vid s) = - (\<Sum>l\<leftarrow>filter (\<lambda>l. vl_ledger l = a) (lines_of vid s). signed l)"
proof -
  have neg: "(\<Sum>l\<leftarrow>ls. leg_signed (vl_ledger l, swap (line_type l), amount l)) = - (\<Sum>l\<leftarrow>ls. signed l)" for ls
    by (induction ls) (auto simp: leg_signed_def signed_def swap_def split: JournalLineType.split)
  show ?thesis
    by (simp add: legs_on_def mirror_legs_def filter_map o_def filter_sort neg)
qed

lemma mirror_balanced:
  assumes "gl_ok s" and "v \<in> set (vouchers s)"
  shows "leg_debits (mirror_legs (voucher_id v) s) = total_debit v"
    and "leg_credits (mirror_legs (voucher_id v) s) = total_credit v"
  using assms by (auto simp: mirror_totals gl_ok_def voucher_ok_def)

lemma post_reversal_cases:
  assumes "post_reversal_of now original ty series party narr vdate s = Inr (s', v)"
    and "gl_ok s" and "original \<in> set (vouchers s)"
  obtains (existing) "find_existing_reversal (v_org original) (voucher_id original) s = Inr (Some v)" and "s' = s"
    | (new) "find_existing_reversal (v_org original) (voucher_id original) s = Inr None"
        and "posts_balanced s s' v (mirror_legs (voucher_id original) s)"
        and "v_org v = v_org original" and "reference_type v = Some SALES_REVERSAL_REF_TYPE"
        and "v_reference_id v = Some (voucher_id original)" and "\<not> v_deleted v"
        and "voucher_type v = ty" and "v_series v = series"
proof -
  from assms(1) obtain ex where ex: "find_existing_reversal (v_org original) (voucher_id original) s = Inr ex"
    by (auto simp: post_reversal_of_def)
  show ?thesis
  proof (cases ex)
    case (Some w)
    from assms(1) ex Some have "s' = s" "v = w" by (simp_all add: post_reversal_of_def)
    with ex Some show ?thesis by (intro existing) simp_all
  next
    case None
    with assms(1) ex obtain n where
      p: "post_voucher (Some (REVERSAL_INDEX, InvoiceStateError ''Invoice already cancelled''))
         (new_voucher (v_org original) (v_firm original) ty series n
            (case vdate of Some d \<Rightarrow> d | None \<Rightarrow> fst now) SALES_REVERSAL_REF_TYPE
            (Some (voucher_id original)) (Some narr) party
            (total_debit original) (total_credit original) now)
         (mirror_legs (voucher_id original) s) s = Inr (s', v)"
      by (auto simp: post_reversal_of_def)
    have "posts_balanced s s' v (mirror_legs (voucher_id original) s)"
      by (rule post_voucher_balanced [OF p assms(2)]) (simp_all add: mirror_balanced assms)
    with ex None post_voucher_fields [OF p] show ?thesis by (intro new) simp_all
  qed
qed

lemma posts_vouchers: "posts_balanced s s' v legs \<Longrightarrow> vouchers s' = vouchers s @ [v]"
  by (simp add: posts_balanced_def posted_def)

lemma post_reversal_ok:
  assumes "post_reversal_of now original ty series party narr vdate s = Inr (s', v)"
    and "gl_ok s" and "original \<in> set (vouchers s)"
  shows "gl_ok s' \<and> set (vouchers s) \<subseteq> set (vouchers s') \<and> purchase_invoices s' = purchase_invoices s"
proof -
  have "purchase_invoices s' = purchase_invoices s"
    using assms(1) by (auto simp: post_reversal_of_def dest: post_voucher_Inr(3) split: option.splits)
  moreover have "gl_ok s' \<and> set (vouchers s) \<subseteq> set (vouchers s')"
    by (rule post_reversal_cases [OF assms])
      (use assms(2) posts_balanced_ok posts_vouchers in \<open>auto\<close>)
  ultimately show ?thesis by blast
qed

lemma reverse_each_ok:
  "\<lbrakk>reverse_each now si d b os taken s = Inr (s', rs); gl_ok s; set os \<subseteq> set (vouchers s)\<rbrakk> \<Longrightarrow>
   gl_ok s' \<and> purchase_invoices s' = purchase_invoices s"
proof (induction os arbitrary: taken s rs)
  case (Cons original rest)
  from Cons.prems(1) obtain series narr s1 r rs' where
    p: "post_reversal_of now original CREDIT_NOTE_VOUCHER series (Some (si_party si)) narr (Some d) s = Inr (s1, r)"
    and rest: "reverse_each now si d b rest (taken \<or> \<not> starts_with (v_series r) CXL_SERIES_PREFIX) s1 = Inr (s', rs')"
    by (auto split: prod.splits)
  have "gl_ok s1 \<and> set (vouchers s) \<subseteq> set (vouchers s1) \<and> purchase_invoices s1 = purchase_invoices s"
    using post_reversal_ok [OF p Cons.prems(2)] Cons.prems(3) by simp
  with Cons.IH [OF rest] Cons.prems(3) show ?case by auto
qed simp

lemma sales_vouchers_mem: "set (sales_vouchers_of si s) \<subseteq> set (vouchers s)"
  by (auto simp: sales_vouchers_of_def)

lemma reverse_sales_ok:
  "reverse_sales_invoice_gl now si vdate s = Inr (s', rs) \<Longrightarrow> gl_ok s \<Longrightarrow>
   gl_ok s' \<and> purchase_invoices s' = purchase_invoices s"
  unfolding reverse_sales_invoice_gl_def Let_def
  by (rule reverse_each_ok) (assumption, assumption, rule sales_vouchers_mem)

lemma reverse_cogs_ok:
  assumes "reverse_cogs_sale_gl now si vdate s = Inr (s', r)" and "gl_ok s"
  shows "gl_ok s' \<and> purchase_invoices s' = purchase_invoices s"
proof -
  from assms(1) obtain f where f: "scalar_one_or_none
      (filter (\<lambda>v. v_org v = si_org si \<and> voucher_type v = COGS_SALE \<and>
          reference_type v = Some ''sales_invoice'' \<and>
          v_reference_id v = Some (sales_invoice_id si) \<and> \<not> v_deleted v) (vouchers s)) = Inr f"
    by (auto simp: reverse_cogs_sale_gl_def)
  show ?thesis
  proof (cases f)
    case None
    with f assms show ?thesis by (simp add: reverse_cogs_sale_gl_def)
  next
    case (Some original)
    then have "original \<in> set (vouchers s)" using scalar_one_or_none_mem [OF f [unfolded Some]] by simp
    moreover from f Some assms(1) obtain v where "post_reversal_of now original COGS_SALE (v_series original)
        None ''Reversal of COGS for invoice '' vdate s = Inr (s', v)"
      by (auto simp: reverse_cogs_sale_gl_def)
    ultimately show ?thesis using post_reversal_ok assms(2) by blast
  qed
qed

lemma reverse_pi_cases:
  assumes "reverse_purchase_invoice_gl now pinv s = Inr (s', r)" and "gl_ok s"
  obtains (nothing) "s' = s" and "r = None"
    | (new) original v where "original \<in> set (vouchers s)" and "r = Some v"
        and "v_reference_id original = Some (purchase_invoice_id pinv)" and "voucher_type original = PURCHASE_INVOICE"
        and "v_org original = pi_org pinv" and "\<not> v_deleted original"
        and "\<not> is_reversal_narration (narration original)"
        and "posts_balanced s s' v (mirror_legs (voucher_id original) s)"
        and "is_reversal_narration (narration v)"
        and "purchase_invoices s' = purchase_invoices s"
proof -
  let ?q = "filter (\<lambda>v. v_org v = pi_org pinv \<and> voucher_type v = PURCHASE_INVOICE \<and>
      v_reference_id v = Some (purchase_invoice_id pinv) \<and> \<not> v_deleted v \<and>
      \<not> is_reversal_narration (narration v)) (vouchers s)"
  from assms(1) obtain f where f: "scalar_one_or_none ?q = Inr f"
    by (auto simp: reverse_purchase_invoice_gl_def)
  show ?thesis
  proof (cases f)
    case None
    from f None assms have "s' = s" "r = None" by (simp_all add: reverse_purchase_invoice_gl_def)
    then show ?thesis by (rule nothing)
  next
    case (Some original)
    with f have o: "original \<in> set ?q" by (simp add: scalar_one_or_none_Some)
    from f Some assms(1) obtain n v where
      p: "post_voucher None
         (new_voucher (pi_org pinv) (pi_firm pinv) PURCHASE_INVOICE (pi_series pinv) n (fst now)
            ''purchase_invoice'' (Some (purchase_invoice_id pinv)) (Some ''Reversal of purchase from '')
            None (total_debit original) (total_credit original) now)
         (mirror_legs (voucher_id original) s) s = Inr (s', v)" and v: "r = Some v"
      by (auto simp: reverse_purchase_invoice_gl_def)
    have "posts_balanced s s' v (mirror_legs (voucher_id original) s)"
      by (rule post_voucher_balanced [OF p assms(2)]) (use o assms(2) in \<open>simp_all add: mirror_balanced\<close>)
    with o v post_voucher_fields [OF p] post_voucher_Inr(3) [OF p] show ?thesis
      by (intro new [of original v]) (simp_all add: is_reversal_narration_def)
  qed
qed

section \<open>Purchase postings balance\<close>

abbreviation pi_gst :: "purchase_invoice \<Rightarrow> decimal" where
  "pi_gst pinv \<equiv> or_zero (pi_gst_amount pinv)"

definition accrued_of :: "(ledger_account \<times> decimal) option \<Rightarrow> decimal" where
  "accrued_of side = (case side of None \<Rightarrow> 0 | Some (_, a) \<Rightarrow> a)"

definition pi_ap_amount :: "purchase_invoice \<Rightarrow> decimal" where
  "pi_ap_amount pinv = (if rcm_applicable pinv then pi_net pinv else pi_net pinv + pi_gst pinv)"

definition pi_variance :: "purchase_invoice \<Rightarrow> (ledger_account \<times> decimal) option \<Rightarrow> decimal" where
  "pi_variance pinv side = (if side = None then 0 else pi_net pinv - accrued_of side)"

definition pi_legs ::
  "purchase_invoice \<Rightarrow> (ledger_account \<times> decimal) option \<Rightarrow> ledger_account \<Rightarrow> ledger_account option
   \<Rightarrow> ledger_account option \<Rightarrow> ledger_account \<Rightarrow> leg list" where
  "pi_legs pinv side stock ppv itc ap =
     inventory_legs stock side ppv (pi_net pinv) @ leg_if itc DR (pi_gst pinv) @
     (if pi_ap_amount pinv > 0 then [(ledger_id ap, CR, pi_ap_amount pinv)] else [])"

lemma pi_bundle:
  assumes "leg_debits (pi_legs pinv side stock ppv itc ap) = leg_credits (pi_legs pinv side stock ppv itc ap)"
    and "ppv \<noteq> None \<longleftrightarrow> pi_variance pinv side \<noteq> 0"
    and "itc \<noteq> None \<longleftrightarrow> \<not> rcm_applicable pinv \<and> pi_gst pinv > 0"
    and "0 \<le> pi_gst pinv" and "0 < pi_net pinv \<or> 0 < accrued_of side"
  shows "pi_ap_amount pinv + (if pi_variance pinv side < 0 then \<bar>pi_variance pinv side\<bar> else 0)
    = leg_credits (pi_legs pinv side stock ppv itc ap)"
proof (cases side)
  case None
  then have "pi_variance pinv side = 0" "0 < pi_net pinv"
    using assms(5) by (simp_all add: pi_variance_def accrued_of_def)
  with None assms(2,4) show ?thesis
    by (simp add: pi_legs_def inventory_legs_def pi_ap_amount_def)
next
  case (Some x)
  obtain grni a where x: "x = (grni, a)" by (cases x)
  with Some have v: "pi_variance pinv side = pi_net pinv - a" "accrued_of side = a"
    by (simp_all add: pi_variance_def accrued_of_def)
  define ap_amt where "ap_amt = pi_ap_amount pinv"
  have eq: "(if 0 < a then a else 0) + (if a < pi_net pinv then pi_net pinv - a else 0)
        + (if itc \<noteq> None then pi_gst pinv else 0)
      = (if pi_net pinv < a then a - pi_net pinv else 0) + (if 0 < ap_amt then ap_amt else 0)"
    using assms(1,2) Some x v
    by (auto simp: pi_legs_def inventory_legs_def Let_def ap_amt_def split: if_splits)
  have "0 \<le> ap_amt"
  proof (rule ccontr)
    assume neg: "\<not> 0 \<le> ap_amt"
    then have "pi_net pinv < 0" using assms(4) by (auto simp: ap_amt_def pi_ap_amount_def split: if_splits)
    moreover from this assms(5) v have "0 < a" by simp
    ultimately show False
      using eq neg assms(3,4) by (auto simp: ap_amt_def pi_ap_amount_def split: if_splits)
  qed
  with assms(1,2) Some x v show ?thesis
    by (auto simp: pi_legs_def inventory_legs_def Let_def ap_amt_def split: if_splits)
qed

lemma post_pi_legs_posts:
  assumes "post_pi_legs now pinv side s = Inr (s', v)" and "gl_ok s"
    and "0 \<le> pi_gst pinv" and "0 < pi_net pinv \<or> 0 < accrued_of side"
  obtains stock ppv itc ap where "posts_balanced s s' v (pi_legs pinv side stock ppv itc ap)"
    and "resolve_ledger (pi_org pinv) INVENTORY_LEDGER_CODE s = Inr stock"
    and "optional_ledger (pi_variance pinv side \<noteq> 0) (pi_org pinv) PPV_LEDGER_CODE s = Inr ppv"
    and "optional_ledger (\<not> rcm_applicable pinv \<and> pi_gst pinv > 0) (pi_org pinv) ITC_RECEIVABLE_LEDGER_CODE s = Inr itc"
    and "resolve_ledger (pi_org pinv) AP_LEDGER_CODE s = Inr ap"
    and "v_org v = pi_org pinv" and "voucher_type v = PURCHASE_INVOICE"
    and "v_reference_id v = Some (purchase_invoice_id pinv)" and "\<not> v_deleted v"
    and "\<not> is_reversal_narration (narration v)" and "purchase_invoices s' = purchase_invoices s"
proof -
  have var: "(case side of None \<Rightarrow> 0 | Some (_, accrued) \<Rightarrow> pi_net pinv - accrued) = pi_variance pinv side"
    by (simp add: pi_variance_def accrued_of_def split: option.split prod.split)
  let ?total = "pi_ap_amount pinv + (if pi_variance pinv side < 0 then \<bar>pi_variance pinv side\<bar> else 0)"
  from assms(1) obtain stock ppv itc ap n where
    r: "resolve_ledger (pi_org pinv) INVENTORY_LEDGER_CODE s = Inr stock"
      "optional_ledger (pi_variance pinv side \<noteq> 0) (pi_org pinv) PPV_LEDGER_CODE s = Inr ppv"
      "optional_ledger (\<not> rcm_applicable pinv \<and> pi_gst pinv > 0) (pi_org pinv) ITC_RECEIVABLE_LEDGER_CODE s = Inr itc"
      "resolve_ledger (pi_org pinv) AP_LEDGER_CODE s = Inr ap"
    and p: "post_voucher None
        (new_voucher (pi_org pinv) (pi_firm pinv) PURCHASE_INVOICE (pi_series pinv) n (pi_date pinv)
           ''purchase_invoice'' (Some (purchase_invoice_id pinv)) (Some ''Purchase from '') None
           ?total ?total now) (pi_legs pinv side stock ppv itc ap) s = Inr (s', v)"
    unfolding post_pi_legs_def Let_def var pi_legs_def pi_ap_amount_def by (auto simp: append_assoc)
  note bal = posted_balanced [OF assms(2) post_voucher_Inr(1) [OF p]]
  have "?total = leg_credits (pi_legs pinv side stock ppv itc ap)"
    by (rule pi_bundle [OF bal _ _ assms(3,4)]) (use r in \<open>auto simp: optional_ledger_Inr split: if_splits\<close>)
  then have "posts_balanced s s' v (pi_legs pinv side stock ppv itc ap)"
    using bal by (intro post_voucher_balanced [OF p assms(2)]) simp_all
  with r post_voucher_fields [OF p] post_voucher_Inr(3) [OF p] show thesis
    by (intro that) (simp_all add: is_reversal_narration_def)
qed

lemma note_rcm_frame [simp]:
  "vouchers (note_rcm pinv s) = vouchers s" "voucher_lines (note_rcm pinv s) = voucher_lines s"
  "voucher_supply (note_rcm pinv s) = voucher_supply s" "voucher_count (note_rcm pinv s) = voucher_count s"
  "ledger_accounts (note_rcm pinv s) = ledger_accounts s" "pi_lines (note_rcm pinv s) = pi_lines s"
  "grn_lines (note_rcm pinv s) = grn_lines s"
  by (simp_all add: note_rcm_def Let_def)

lemma gl_ok_note_rcm [simp]: "gl_ok (note_rcm pinv s) = gl_ok s"
  by (simp add: gl_ok_def voucher_ok_def lines_of_def)

lemma resolve_note_rcm [simp]:
  "resolve_ledger org code (note_rcm pinv s) = resolve_ledger org code s"
  "optional_ledger b org code (note_rcm pinv s) = optional_ledger b org code s"
  by (simp_all add: resolve_ledger_def optional_ledger_def)

lemma post_pi_cases:
  assumes "post_purchase_invoice_to_gl now pinv s = Inr (s', r)" and "gl_ok s" and "0 \<le> pi_gst pinv"
  obtains (existing) v where "s' = s" and "r = Some v"
        and "live_posting (pi_org pinv) PURCHASE_INVOICE (purchase_invoice_id pinv) s = Inr (Some v)"
    | (nothing) side where "s' = s" and "r = None" and "grni_side pinv s = Inr side"
        and "pi_net pinv \<le> 0" and "accrued_of side \<le> 0"
    | (new) side v where "live_posting (pi_org pinv) PURCHASE_INVOICE (purchase_invoice_id pinv) s = Inr None"
        and "grni_side pinv s = Inr side" and "0 < pi_net pinv \<or> 0 < accrued_of side"
        and "post_pi_legs now pinv side (note_rcm pinv s) = Inr (s', v)" and "r = Some v"
proof -
  from assms(1) obtain ex where ex: "live_posting (pi_org pinv) PURCHASE_INVOICE (purchase_invoice_id pinv) s = Inr ex"
    by (auto simp: post_purchase_invoice_to_gl_def)
  show ?thesis
  proof (cases ex)
    case (Some v)
    from assms(1) ex Some have "s' = s" "r = Some v" by (simp_all add: post_purchase_invoice_to_gl_def)
    with ex Some show ?thesis by (intro existing) simp_all
  next
    case None
    with assms(1) ex obtain side where side: "grni_side pinv s = Inr side"
      by (auto simp: post_purchase_invoice_to_gl_def)
    show ?thesis
    proof (cases "pi_net pinv \<le> 0 \<and> accrued_of side \<le> 0")
      case True
      with assms(1) ex None side have r: "s' = s" "r = None"
        by (simp_all add: post_purchase_invoice_to_gl_def accrued_of_def)
      from True have "pi_net pinv \<le> 0" "accrued_of side \<le> 0" by blast+
      with r side show ?thesis by (rule nothing)
    next
      case False
      with assms(1) ex None side obtain v where "post_pi_legs now pinv side (note_rcm pinv s) = Inr (s', v)" "r = Some v"
        by (auto simp: post_purchase_invoice_to_gl_def accrued_of_def)
      moreover from False have "0 < pi_net pinv \<or> 0 < accrued_of side" by auto
      ultimately show ?thesis using ex None side by (intro new [of side v]) simp_all
    qed
  qed
qed

section \<open>Journals\<close>

abbreviation journal_legs :: "journal_line list \<Rightarrow> leg list" where
  "journal_legs lines \<equiv> map (\<lambda>l. (jl_ledger l, jl_type l, jl_amount l)) lines"

lemma validate_lines_from_Inr:
  "validate_lines_from ls d c = Inr (d', c') \<Longrightarrow>
   d' = d + leg_debits (journal_legs ls) \<and> c' = c + leg_credits (journal_legs ls) \<and> d' = c' \<and>
   (\<forall>l \<in> set ls. 0 < jl_amount l)"
proof (induction ls arbitrary: d c)
  case (Cons l ls)
  then show ?case by (cases "jl_type l") (auto simp: add.assoc dest!: Cons.IH split: if_splits)
qed (auto split: if_splits)

lemma post_journal_posts:
  assumes "post_journal_voucher now org firm vdate narr lines s = Inr (s', v)" and "gl_ok s"
  shows "posts_balanced s s' v (journal_legs lines)" and "2 \<le> length lines"
    and "\<forall>l \<in> set lines. 0 < jl_amount l"
    and "resolve_journal_ledgers org firm (map jl_ledger lines) s = Inr ()"
    and "purchase_invoices s' = purchase_invoices s"
    and "v_org v = org" and "v_firm v = firm"
proof -
  from assms(1) obtain drs crs n where val: "validate_journal_lines lines = Inr (drs, crs)"
    and res: "resolve_journal_ledgers org firm (map jl_ledger lines) s = Inr ()"
    and p: "post_voucher (Some (NUMBER_KEY, AppValidationError ''Voucher number race detected''))
         (new_voucher org firm JOURNAL JOURNAL_SERIES n vdate ''journal_voucher'' None narr None drs crs now)
         (journal_legs lines) s = Inr (s', v)"
    by (auto simp: post_journal_voucher_def)
  from val have l: "2 \<le> length lines" and v: "validate_lines_from lines 0 0 = Inr (drs, crs)"
    by (auto simp: validate_journal_lines_def split: if_splits)
  note vl = validate_lines_from_Inr [OF v]
  then have d: "drs = leg_debits (journal_legs lines)" "crs = leg_credits (journal_legs lines)" by simp_all
  show "posts_balanced s s' v (journal_legs lines)"
    by (rule post_voucher_balanced [OF p assms(2) d])
  show "2 \<le> length lines" by (rule l)
  show "\<forall>l \<in> set lines. 0 < jl_amount l" using vl by blast
  show "resolve_journal_ledgers org firm (map jl_ledger lines) s = Inr ()" by (rule res)
  show "purchase_invoices s' = purchase_invoices s" by (rule post_voucher_Inr(3) [OF p])
  show "v_org v = org" and "v_firm v = firm" by (simp_all add: post_voucher_fields [OF p])
qed

section \<open>Requests\<close>

datatype gl_op =
    PostInvoice clock sales_invoice
  | PostCogs clock uuid uuid string uuid "(uuid \<times> decimal \<times> decimal option) list" "date option"
  | PostGrnAccrual clock grn
  | PostPurchase clock uuid
  | ReversePurchase clock uuid
  | ReverseSales clock sales_invoice "date option"
  | ReverseCogs clock sales_invoice "date option"
  | PostJournal clock uuid uuid date "string option" "journal_line list"

definition books_of :: "error + books \<times> 'r \<Rightarrow> error + books" where
  "books_of r = bindE r (\<lambda>(s, _). Inr s)"

lemma books_of_Inr [simp]: "books_of r = Inr s \<longleftrightarrow> (\<exists>x. r = Inr (s, x))"
  by (auto simp: books_of_def bindE_Inr_iff)

definition with_purchase :: "uuid \<Rightarrow> books \<Rightarrow> (purchase_invoice \<Rightarrow> error + books) \<Rightarrow> error + books" where
  "with_purchase i s f =
     (case find (\<lambda>p. purchase_invoice_id p = i) (purchase_invoices s) of
        None \<Rightarrow> Inl (NotFoundError ''Purchase invoice not found'')
      | Some p \<Rightarrow> f p)"

fun gl_step :: "gl_op \<Rightarrow> books \<Rightarrow> error + books" where
  "gl_step (PostInvoice now si) s = books_of (post_invoice_to_gl now si s)"
| "gl_step (PostCogs now org firm rt ref consumed d) s =
     books_of (post_cogs_voucher now org firm rt ref consumed d s)"
| "gl_step (PostGrnAccrual now g) s = books_of (post_grn_accrual_voucher now g s)"
| "gl_step (PostPurchase now i) s =
     with_purchase i s (\<lambda>p. books_of (post_purchase_invoice_to_gl now p s))"
| "gl_step (ReversePurchase now i) s =
     with_purchase i s (\<lambda>p. books_of (reverse_purchase_invoice_gl now p s))"
| "gl_step (ReverseSales now si d) s = books_of (reverse_sales_invoice_gl now si d s)"
| "gl_step (ReverseCogs now si d) s = books_of (reverse_cogs_sale_gl now si d s)"
| "gl_step (PostJournal now org firm d narr lines) s =
     books_of (post_journal_voucher now org firm d narr lines s)"

definition books_ok :: "books \<Rightarrow> bool" where
  "books_ok s \<longleftrightarrow> gl_ok s \<and> (\<forall>p \<in> set (purchase_invoices s). 0 \<le> pi_gst p)"

lemma books_okI:
  "\<lbrakk>books_ok s; gl_ok s'; purchase_invoices s' = purchase_invoices s\<rbrakk> \<Longrightarrow> books_ok s'"
  by (simp add: books_ok_def)

lemma post_invoice_frame: "post_invoice_to_gl now si s = Inr (s', v) \<Longrightarrow> purchase_invoices s' = purchase_invoices s"
  by (auto simp: post_invoice_to_gl_def Let_def dest: post_voucher_Inr(3) split: if_splits)

lemma post_cogs_frame:
  "post_cogs_voucher now org firm rt ref consumed d s = Inr (s', v) \<Longrightarrow> purchase_invoices s' = purchase_invoices s"
  by (auto simp: post_cogs_voucher_def Let_def dest: post_voucher_Inr(3) split: if_splits option.splits)

lemma post_grn_accrual_frame:
  "post_grn_accrual_voucher now g s = Inr (s', v) \<Longrightarrow> purchase_invoices s' = purchase_invoices s"
  by (auto simp: post_grn_accrual_voucher_def Let_def dest: post_voucher_Inr(3) split: if_splits option.splits)

lemma note_rcm_gst:
  "\<forall>p \<in> set (purchase_invoices s). 0 \<le> pi_gst p \<Longrightarrow>
   \<forall>p \<in> set (purchase_invoices (note_rcm pinv s)). 0 \<le> pi_gst p"
  by (auto simp: note_rcm_def Let_def set_update_where)

lemma post_pi_ok:
  assumes "post_purchase_invoice_to_gl now pinv s = Inr (s', r)" and "books_ok s" and "0 \<le> pi_gst pinv"
  shows "books_ok s'"
proof -
  from assms(2) have ok: "gl_ok s" and gst: "\<forall>p \<in> set (purchase_invoices s). 0 \<le> pi_gst p"
    by (simp_all add: books_ok_def)
  show ?thesis
  proof (cases rule: post_pi_cases [OF assms(1) ok assms(3)])
    case (3 side v)
    obtain legs where "posts_balanced (note_rcm pinv s) s' v legs"
        "purchase_invoices s' = purchase_invoices (note_rcm pinv s)"
      by (rule post_pi_legs_posts [OF 3(4) _ assms(3) 3(3)]) (use ok in simp_all)
    with ok note_rcm_gst [OF gst, of pinv] show ?thesis
      using posts_balanced_ok [of "note_rcm pinv s" s' v legs] by (simp add: books_ok_def)
  qed (use assms(2) in simp_all)
qed

lemma gl_step_ok: "gl_step op s = Inr s' \<Longrightarrow> books_ok s \<Longrightarrow> books_ok s'"
proof -
  assume step: "gl_step op s = Inr s'" and ok: "books_ok s"
  then have gl: "gl_ok s" by (simp add: books_ok_def)
  show ?thesis
  proof (cases op)
    case (PostInvoice now si)
    with step obtain v where p: "post_invoice_to_gl now si s = Inr (s', v)" by auto
    have "gl_ok s'" by (rule post_invoice_posts [OF p gl]) (rule posts_balanced_ok [OF _ gl])
    then show ?thesis by (rule books_okI [OF ok _ post_invoice_frame [OF p]])
  next
    case (PostCogs now org firm rt ref consumed d)
    with step obtain r where p: "post_cogs_voucher now org firm rt ref consumed d s = Inr (s', r)" by auto
    have "gl_ok s'" by (rule post_cogs_cases [OF p gl]) (use gl in \<open>auto intro: posts_balanced_ok\<close>)
    then show ?thesis by (rule books_okI [OF ok _ post_cogs_frame [OF p]])
  next
    case (PostGrnAccrual now g)
    with step obtain r where p: "post_grn_accrual_voucher now g s = Inr (s', r)" by auto
    have "gl_ok s'" by (rule post_grn_accrual_cases [OF p gl]) (use gl in \<open>auto intro: posts_balanced_ok\<close>)
    then show ?thesis by (rule books_okI [OF ok _ post_grn_accrual_frame [OF p]])
  next
    case (PostPurchase now i)
    with step obtain pinv r where f: "find (\<lambda>p. purchase_invoice_id p = i) (purchase_invoices s) = Some pinv"
      and p: "post_purchase_invoice_to_gl now pinv s = Inr (s', r)"
      by (auto simp: with_purchase_def split: option.splits)
    from f have "pinv \<in> set (purchase_invoices s)" by (auto simp: find_Some_iff)
    with ok show ?thesis by (intro post_pi_ok [OF p]) (auto simp: books_ok_def)
  next
    case (ReversePurchase now i)
    with step obtain pinv r where p: "reverse_purchase_invoice_gl now pinv s = Inr (s', r)"
      by (auto simp: with_purchase_def split: option.splits)
    have "gl_ok s' \<and> purchase_invoices s' = purchase_invoices s"
      by (rule reverse_pi_cases [OF p gl]) (use gl in \<open>auto intro: posts_balanced_ok\<close>)
    then show ?thesis using books_okI [OF ok] by blast
  next
    case (ReverseSales now si d)
    with step obtain r where "reverse_sales_invoice_gl now si d s = Inr (s', r)" by auto
    from reverse_sales_ok [OF this gl] show ?thesis using books_okI [OF ok] by blast
  next
    case (ReverseCogs now si d)
    with step obtain r where "reverse_cogs_sale_gl now si d s = Inr (s', r)" by auto
    from reverse_cogs_ok [OF this gl] show ?thesis using books_okI [OF ok] by blast
  next
    case (PostJournal now org firm d narr lines)
    with step obtain v where p: "post_journal_voucher now org firm d narr lines s = Inr (s', v)" by auto
    from posts_balanced_ok [OF post_journal_posts(1) [OF p gl] gl] post_journal_posts(5) [OF p gl]
    show ?thesis by (rule books_okI [OF ok])
  qed
qed

interpretation gl: transactional gl_step books_ok
  by unfold_locales (rule gl_step_ok)

end
