(* ===== verification/AccountingProps.thy ===== *)
theory AccountingProps
  imports Accounting
begin

text \<open>
  What the postings of \<open>Accounting\<close> guarantee: the trial balance of every run, voucher numbers
  that never repeat, idempotent postings, reversals that restore the balances, the clearing of
  receipt accruals, and the agreement of the two forms of the credit-note predicate.
\<close>

section \<open>An example\<close>

definition demo_account :: "nat \<Rightarrow> string \<Rightarrow> ledger_account" where
  "demo_account i code =
     \<lparr>ledger_id = i, ledger_org = 1, ledger_firm = None, ledger_code = code, ledger_party = None,
      is_active = Some True, is_control_account = Some False, ledger_deleted = False\<rparr>"

definition demo_pi :: "uuid \<Rightarrow> purchase_invoice" where
  "demo_pi i =
     \<lparr>purchase_invoice_id = i, pi_org = 1, pi_firm = 2, pi_grn = Some 60, pi_series = ''PI'',
      pi_date = Date 2026 5 6, pi_status = Some DRAFT, pi_invoice_amount = Some 110,
      pi_gst_amount = Some 5, rcm_applicable = False, rcm_gst_deferred = None, pi_deleted = False\<rparr>"

definition demo_books :: books where
  "demo_books =
     \<lparr>ledger_accounts = [demo_account 20 ''1200'', demo_account 21 ''4000'', demo_account 22 ''2100'',
        demo_account 23 ''1300'', demo_account 24 ''1400'', demo_account 25 ''2000'',
        demo_account 26 ''5000'', demo_account 27 ''2010'', demo_account 28 ''5360''],
      vouchers = [], voucher_lines = [], purchase_invoices = [demo_pi 70],
      pi_lines = [\<lparr>pl_invoice = 70, pl_item = 3, pl_qty = Some 10, pl_deleted = False\<rparr>],
      grn_lines = [\<lparr>gl_org = 1, gl_grn = 60, gl_item = 3, qty_received = 20, gl_rate = Some 10,
                    gl_deleted = False\<rparr>],
      voucher_supply = (\<lambda>n. 100 + n), voucher_count = 0\<rparr>"

definition demo_now :: clock where
  "demo_now = (Date 2026 5 6, 0)"

definition demo_invoice :: sales_invoice where
  "demo_invoice =
     \<lparr>sales_invoice_id = 80, si_org = 1, si_firm = 2, si_party = 90, si_series = ''INV'',
      si_number = ''0001'', invoice_date = Date 2026 4 6, invoice_type = Some ''TAX_INVOICE'',
      tax_type = Some ''CGST_SGST'', si_invoice_amount = Some 118, si_gst_amount = Some 18,
      lifecycle_status = FINALIZED\<rparr>"

definition demo_grn :: grn where
  "demo_grn = \<lparr>grn_id = 60, grn_org = 1, grn_firm = 2, grn_date = Date 2026 5 5\<rparr>"

lemma demo_books_ok: "gl_ok demo_books" "books_ok demo_books"
proof -
  show "gl_ok demo_books" by (simp add: gl_ok_def demo_books_def inj_def)
  then show "books_ok demo_books" by (simp add: books_ok_def demo_books_def demo_pi_def or_zero_def)
qed

lemma posts_balance:
  "posts_balanced s s' v legs \<Longrightarrow> account_balance s' a = account_balance s a + legs_on a legs"
  unfolding posts_balanced_def by (rule posted_balance) blast

section \<open>The books of every run\<close>

text \<open>C2: Whatever posting requests the ledger serves, in whatever order and with whatever
  failures, starting from empty books: every voucher's debit lines and credit lines add up to the
  same total, the one in its header; no two vouchers of a firm, type and series share a number;
  and the trial balance of any selection of vouchers is zero.\<close>

theorem books_always_balance:
  assumes "vouchers s = []" and "voucher_lines s = []" and "inj (voucher_supply s)"
    and "\<forall>p \<in> set (purchase_invoices s). 0 \<le> or_zero (pi_gst_amount p)"
  defines "t ops \<equiv> fold (commit gl_step) ops s"
  shows "(\<forall>v \<in> set (vouchers (t ops)).
        debits (lines_of (voucher_id v) (t ops)) = total_debit v \<and>
        credits (lines_of (voucher_id v) (t ops)) = total_credit v \<and> total_debit v = total_credit v) \<and>
     (\<forall>i j. i < j \<and> j < length (vouchers (t ops)) \<longrightarrow>
        \<not> same_number (vouchers (t ops) ! j) (vouchers (t ops) ! i)) \<and>
     (\<Sum>l\<leftarrow>filter (\<lambda>l. vl_voucher l \<in> voucher_id ` {v \<in> set (vouchers (t ops)). P v})
        (voucher_lines (t ops)). signed l) = 0"
proof -
  have "books_ok s" using assms(1-4) by (simp add: books_ok_def gl_ok_def)
  then have "books_ok (t ops)" unfolding t_def by (rule gl.run_inv)
  then have ok: "gl_ok (t ops)" by (simp add: books_ok_def)
  then show ?thesis using trial_balance_zero [OF ok, of P] by (simp add: gl_ok_def voucher_ok_def)
qed

definition demo_gl_ops :: "gl_op list" where
  "demo_gl_ops = [PostInvoice demo_now demo_invoice, PostGrnAccrual demo_now demo_grn,
     PostInvoice demo_now demo_invoice]"

lemma books_always_balance_witness:
  "(\<Sum>l\<leftarrow>filter (\<lambda>l. vl_voucher l \<in> voucher_id ` {v \<in> set (vouchers (fold (commit gl_step) demo_gl_ops demo_books)). v_firm v = 2})
      (voucher_lines (fold (commit gl_step) demo_gl_ops demo_books)). signed l) = 0 \<and>
   length (vouchers (fold (commit gl_step) demo_gl_ops demo_books)) = 2"
proof -
  have "vouchers demo_books = []" "voucher_lines demo_books = []" "inj (voucher_supply demo_books)"
    "\<forall>p \<in> set (purchase_invoices demo_books). 0 \<le> or_zero (pi_gst_amount p)"
    by (simp_all add: demo_books_def inj_def demo_pi_def or_zero_def)
  note b = books_always_balance [OF this, of demo_gl_ops "\<lambda>v. v_firm v = 2"]
  have "length (vouchers (fold (commit gl_step) demo_gl_ops demo_books)) = 2" by code_simp
  with b show ?thesis by blast
qed

section \<open>Numbers\<close>

text \<open>Within a firm, type and series the next voucher number is one above the numerically
  largest, also past 9999, and no voucher has it; so a posting never meets the unique key on
  voucher numbers.\<close>

theorem voucher_number_follows_max:
  assumes "numbers_in_use org firm ty series s = map pad4 ks" and "\<forall>k \<in> set ks. k \<le> 2147483647"
  shows "allocate_voucher_number org firm ty series s = Inr (pad4 (fold max ks 0 + 1)) \<and>
    (\<forall>v. v_org v = org \<and> v_firm v = firm \<and> voucher_type v = ty \<and> v_series v = series \<and>
       v_number v = pad4 (fold max ks 0 + 1) \<longrightarrow> insert_voucher v s \<noteq> Inl (IntegrityError NUMBER_KEY))"
proof -
  have "mapE cast_integer (map pad4 ks) = Inr ks"
    using assms(2) by (induction ks) (simp_all add: cast_integer_def)
  then have alloc: "allocate_voucher_number org firm ty series s = Inr (pad4 (fold max ks 0 + 1))"
    by (simp add: allocate_voucher_number_def next_by_int_def assms(1))
  have "insert_voucher v s \<noteq> Inl (IntegrityError NUMBER_KEY)"
    if v: "v_org v = org" "v_firm v = firm" "voucher_type v = ty" "v_series v = series"
      "v_number v = pad4 (fold max ks 0 + 1)" for v
  proof -
    have "\<not> same_number v w" if "w \<in> set (vouchers s)" for w
      using allocate_voucher_number_fresh [OF alloc that] v by (auto simp: same_number_def)
    then show ?thesis
      by (auto simp: insert_voucher_def Let_def NUMBER_KEY_def ONE_POSTING_PER_REF_INDEX_def
          GRN_ACCRUAL_INDEX_def REVERSAL_INDEX_def)
  qed
  with alloc show ?thesis by blast
qed

lemma voucher_number_follows_max_witness:
  "allocate_voucher_number 1 2 JOURNAL ''JV''
     (demo_books\<lparr>vouchers := [new_voucher 1 2 JOURNAL ''JV'' (pad4 9999) (Date 2026 5 1) ''x'' None None None 1 1 demo_now,
                            new_voucher 1 2 JOURNAL ''JV'' (pad4 10000) (Date 2026 5 1) ''x'' None None None 1 1 demo_now]\<rparr>)
     = Inr (pad4 10001)"
proof -
  let ?s = "demo_books\<lparr>vouchers := [new_voucher 1 2 JOURNAL ''JV'' (pad4 9999) (Date 2026 5 1) ''x'' None None None 1 1 demo_now,
                            new_voucher 1 2 JOURNAL ''JV'' (pad4 10000) (Date 2026 5 1) ''x'' None None None 1 1 demo_now]\<rparr>"
  have u: "numbers_in_use 1 2 JOURNAL ''JV'' ?s = map pad4 [9999, 10000]"
    by (simp add: numbers_in_use_def new_voucher_def)
  show ?thesis using voucher_number_follows_max [OF u] by simp
qed

section \<open>What a sale posts\<close>

text \<open>Posting a finalized invoice debits the receivable with the invoice amount, credits
  sales with the amount net of GST and GST payable with the GST, and moves no other account; the
  voucher refers to the invoice, and an invoice of a nil tax type never carries GST into it.\<close>

theorem post_invoice_moves:
  assumes "gl_ok s" and "post_invoice_to_gl now si s = Inr (s', v)"
  defines "amt \<equiv> or_zero (si_invoice_amount si)" and "gst \<equiv> or_zero (si_gst_amount si)"
  shows "0 < amt \<and> v_reference_id v = Some (sales_invoice_id si) \<and> total_debit v = amt \<and>
    (tax_type si \<in> Some ` set NIL_TAX_TYPES \<longrightarrow> gst \<le> 0) \<and>
    (\<exists>ar sales payable. resolve_ledger (si_org si) ''1200'' s = Inr ar \<and>
       resolve_ledger (si_org si) ''4000'' s = Inr sales \<and>
       (0 < gst \<longrightarrow> resolve_ledger (si_org si) ''2100'' s = Inr payable) \<and>
       (\<forall>a. account_balance s' a = account_balance s a
          + (if a = ledger_id ar then amt else 0)
          - (if a = ledger_id sales then amt - gst else 0)
          - (if 0 < gst \<and> a = ledger_id payable then gst else 0)))"
proof -
  have pos: "0 < amt" and nil: "tax_type si \<in> Some ` set NIL_TAX_TYPES \<longrightarrow> gst \<le> 0"
    using assms(2) unfolding amt_def gst_def
    by (auto simp: post_invoice_to_gl_def Let_def split: if_splits)
  obtain ar sales payable where
    r: "resolve_ledger (si_org si) AR_LEDGER_CODE s = Inr ar"
      "resolve_ledger (si_org si) SALES_LEDGER_CODE s = Inr sales"
      "optional_ledger (gst > 0) (si_org si) GST_PAYABLE_LEDGER_CODE s = Inr payable"
    and p: "posts_balanced s s' v ([(ledger_id ar, DR, amt), (ledger_id sales, CR, amt - gst)]
       @ leg_if payable CR gst)"
    and ref: "v_reference_id v = Some (sales_invoice_id si)"
    unfolding amt_def gst_def by (rule post_invoice_posts [OF assms(2,1)])
  have bal: "account_balance s' a = account_balance s a
      + legs_on a ([(ledger_id ar, DR, amt), (ledger_id sales, CR, amt - gst)] @ leg_if payable CR gst)" for a
    by (rule posts_balance [OF p])
  have tot: "total_debit v = amt" using p by (simp add: posts_balanced_def)
  show ?thesis
  proof (cases "0 < gst")
    case True
    with r(3) obtain x where "payable = Some x" "resolve_ledger (si_org si) ''2100'' s = Inr x"
      by (auto simp: optional_ledger_Inr GST_PAYABLE_LEDGER_CODE_def)
    with r(1,2) pos nil ref tot bal True show ?thesis
      by (intro conjI exI [of _ ar] exI [of _ sales] exI [of _ x])
        (simp_all add: leg_if_def AR_LEDGER_CODE_def SALES_LEDGER_CODE_def)
  next
    case False
    with r(3) have "payable = None" by (simp add: optional_ledger_Inr)
    with r(1,2) pos nil ref tot bal False show ?thesis
      by (intro conjI exI [of _ ar] exI [of _ sales])
        (simp_all add: leg_if_def AR_LEDGER_CODE_def SALES_LEDGER_CODE_def)
  qed
qed

lemma post_invoice_moves_witness:
  "\<exists>s' v. post_invoice_to_gl demo_now demo_invoice demo_books = Inr (s', v) \<and> total_debit v = 118"
proof -
  have "\<not> isl (post_invoice_to_gl demo_now demo_invoice demo_books)" by code_simp
  then obtain s' v where p: "post_invoice_to_gl demo_now demo_invoice demo_books = Inr (s', v)"
    by (cases "post_invoice_to_gl demo_now demo_invoice demo_books") auto
  from post_invoice_moves [OF demo_books_ok(1) p] p show ?thesis
    by (auto simp: demo_invoice_def or_zero_def)
qed

section \<open>Idempotent and reversing postings\<close>

text \<open>The cost of a sale is posted at most once: a posting debits cost of goods sold and
  credits inventory with the rounded cost of the consumed quantities, and any later posting for
  the same reference returns that voucher and leaves the books as they are, as long as no other
  cost voucher refers to it.\<close>

theorem cogs_posted_once:
  assumes "gl_ok s" and "post_cogs_voucher now org firm rt ref consumed d s = Inr (s1, Some v)"
    and "0 < cogs_total consumed'"
  shows "post_cogs_voucher now' org firm' rt' ref consumed' d' s1 = Inr (s1, Some v) \<and>
    (s1 = s \<or> total_debit v = cogs_total consumed \<and>
       (\<exists>cogs stock. resolve_ledger org ''5000'' s = Inr cogs \<and> resolve_ledger org ''1300'' s = Inr stock \<and>
          (\<forall>a. account_balance s1 a = account_balance s a
             + (if a = ledger_id cogs then cogs_total consumed else 0)
             - (if a = ledger_id stock then cogs_total consumed else 0))))"
proof -
  have again: "post_cogs_voucher now' org firm' rt' ref consumed' d' s1 = Inr (s1, Some v)"
    if "live_posting org COGS_SALE ref s1 = Inr (Some v)"
    using that assms(3) by (simp add: post_cogs_voucher_def Let_def)
  show ?thesis
  proof (cases rule: post_cogs_cases [OF assms(2,1)])
    case (2 w)
    with again show ?thesis by simp
  next
    case (3 w cogs stock)
    from 3(2) have none: "filter (\<lambda>v. v_org v = org \<and> voucher_type v = COGS_SALE \<and> v_reference_id v = Some ref \<and>
        \<not> v_deleted v) (vouchers s) = []"
      by (simp add: live_posting_def scalar_one_or_none_None)
    have "v = w" using 3(3) by simp
    with 3 none have "live_posting org COGS_SALE ref s1 = Inr (Some v)"
      by (simp add: live_posting_def scalar_one_or_none_def posts_vouchers [OF 3(6)])
    with again posts_balance [OF 3(6)] 3(4-6) \<open>v = w\<close> show ?thesis
      by (auto simp: posts_balanced_def COGS_LEDGER_CODE_def INVENTORY_LEDGER_CODE_def)
  qed simp
qed

lemma cogs_posted_once_witness:
  "\<exists>s1 v. post_cogs_voucher demo_now 1 2 ''sales_invoice'' 80 [(3, 4, Some (25/2))] None demo_books = Inr (s1, Some v) \<and>
     total_debit v = 50 \<and>
     post_cogs_voucher demo_now 1 2 ''sales_invoice'' 80 [(3, 4, Some (25/2))] None s1 = Inr (s1, Some v)"
proof -
  let ?c = "[(3, 4, Some (25/2))] :: (uuid \<times> decimal \<times> decimal option) list"
  have c: "cogs_total ?c = 50" by code_simp
  have "case post_cogs_voucher demo_now 1 2 ''sales_invoice'' 80 ?c None demo_books of
      Inl _ \<Rightarrow> False | Inr (s1, r) \<Rightarrow> map_option total_debit r = Some 50" by code_simp
  then obtain s1 v where p: "post_cogs_voucher demo_now 1 2 ''sales_invoice'' 80 ?c None demo_books = Inr (s1, Some v)"
    and t: "total_debit v = 50"
    by (auto split: sum.splits)
  from cogs_posted_once [OF demo_books_ok(1) p, of ?c] c p t show ?thesis by auto
qed

lemma lines_on_posted:
  assumes "gl_ok s" and "posts_balanced s s' v legs"
  shows "(\<Sum>l\<leftarrow>filter (\<lambda>l. vl_ledger l = a) (lines_of (voucher_id v) s'). signed l) = legs_on a legs"
proof -
  from assms(2) have "posted s s' v legs" by (simp add: posts_balanced_def)
  from lines_of_posted(1) [OF assms(1) this] show ?thesis by (simp add: add_lines_on)
qed

text \<open>C10: Cancelling an invoice undoes its posting: finalize posts one voucher, cancel posts one
  mirror voucher that refers to it, and every account is back at its balance; cancelling again
  returns the same mirror voucher and changes nothing.\<close>

theorem cancel_restores_balances:
  assumes "gl_ok s" and "post_invoice_to_gl now si s = Inr (s1, v)"
    and "reverse_sales_invoice_gl now' si d s1 = Inr (s2, rs)"
    and "\<forall>w \<in> set (vouchers s). v_reference_id w \<noteq> Some (voucher_id v)"
  shows "(\<forall>a. account_balance s2 a = account_balance s a) \<and>
    (\<exists>r. rs = [r] \<and> v_reference_id r = Some (voucher_id v) \<and> voucher_type r = CREDIT_NOTE_VOUCHER \<and>
       total_debit r = total_credit v \<and> reverse_sales_invoice_gl now' si d s2 = Inr (s2, [r]))"
proof -
  obtain legs where p: "posts_balanced s s1 v legs" and v: "v_reference_id v = Some (sales_invoice_id si)"
      "voucher_type v = SALES_INVOICE" "v_org v = si_org si" "reference_type v = Some ''sales_invoice''" "\<not> v_deleted v"
    and fresh: "\<forall>w \<in> set (vouchers s). \<not> same_posting v w"
    by (rule post_invoice_posts [OF assms(2,1)])
  have ok1: "gl_ok s1" by (rule posts_balanced_ok [OF p assms(1)])
  note vs1 = posts_vouchers [OF p]
  let ?mine = "\<lambda>w. v_org w = si_org si \<and> voucher_type w = SALES_INVOICE \<and>
      reference_type w = Some ''sales_invoice'' \<and> v_reference_id w = Some (sales_invoice_id si) \<and> \<not> v_deleted w"
  have "filter ?mine (vouchers s) = []"
    using fresh v by (auto simp: filter_empty_conv same_posting_def)
  with v have f1: "filter ?mine (vouchers s1) = [v]" by (simp add: vs1)
  then have own: "sales_vouchers_of si s1 = [v]" by (simp add: sales_vouchers_of_def)
  have none: "find_existing_reversal (v_org v) (voucher_id v) s1 = Inr None"
    using assms(4) v by (auto simp: find_existing_reversal_def scalar_one_or_none_None filter_empty_conv
        vs1 SALES_REVERSAL_REF_TYPE_def)
  from assms(3) obtain series narr r dt where
    rev: "post_reversal_of now' v CREDIT_NOTE_VOUCHER series (Some (si_party si)) narr (Some dt) s1 = Inr (s2, r)"
    and rs: "rs = [r]" and dt: "dt = (case d of Some d \<Rightarrow> d | None \<Rightarrow> gst_local_date now')"
    by (auto simp: reverse_sales_invoice_gl_def Let_def own split: prod.splits)
  have mem: "v \<in> set (vouchers s1)" by (simp add: vs1)
  show ?thesis
  proof (cases rule: post_reversal_cases [OF rev ok1 mem])
    case 1
    with none show ?thesis by simp
  next
    case 2
    note vs2 = posts_vouchers [OF 2(2)]
    have "account_balance s2 a = account_balance s a" for a
      using posts_balance [OF 2(2), of a] posts_balance [OF p, of a] lines_on_posted [OF assms(1) p, of a]
      by (simp add: mirror_on)
    moreover have "find_existing_reversal (v_org v) (voucher_id v) s2 = Inr (Some r)"
    proof -
      have "filter (\<lambda>w. v_org w = v_org v \<and> reference_type w = Some SALES_REVERSAL_REF_TYPE \<and>
          v_reference_id w = Some (voucher_id v) \<and> \<not> v_deleted w) (vouchers s1) = []"
        using none by (simp add: find_existing_reversal_def scalar_one_or_none_None)
      with 2(3-6) show ?thesis by (simp add: find_existing_reversal_def scalar_one_or_none_def vs2)
    qed
    moreover have "sales_vouchers_of si s2 = [v]"
      using f1 2(7) by (simp add: sales_vouchers_of_def vs2)
    ultimately show ?thesis
      using rs 2(5,7) mirror_balanced(1) [OF ok1 mem] 2(2) p
      by (auto simp: reverse_sales_invoice_gl_def Let_def post_reversal_of_def posts_balanced_def
          posted_balanced [OF assms(1)])
  qed
qed

lemma cancel_restores_balances_witness:
  "\<exists>s1 v s2 r. post_invoice_to_gl demo_now demo_invoice demo_books = Inr (s1, v) \<and>
     reverse_sales_invoice_gl demo_now demo_invoice None s1 = Inr (s2, [r]) \<and>
     v_series r = ''CN/26-27'' \<and> account_balance s2 20 = 0"
proof -
  have "case post_invoice_to_gl demo_now demo_invoice demo_books of Inl _ \<Rightarrow> False
      | Inr (s1, v) \<Rightarrow> (case reverse_sales_invoice_gl demo_now demo_invoice None s1 of Inl _ \<Rightarrow> False
          | Inr (s2, rs) \<Rightarrow> map v_series rs = [''CN/26-27''])" by code_simp
  then obtain s1 v s2 rs where p: "post_invoice_to_gl demo_now demo_invoice demo_books = Inr (s1, v)"
    and r: "reverse_sales_invoice_gl demo_now demo_invoice None s1 = Inr (s2, rs)"
    and cn: "map v_series rs = [''CN/26-27'']"
    by (auto split: sum.splits)
  have none: "\<forall>w \<in> set (vouchers demo_books). v_reference_id w \<noteq> Some (voucher_id v)"
    by (simp add: demo_books_def)
  have "account_balance demo_books 20 = 0" by (simp add: account_balance_def demo_books_def)
  with cancel_restores_balances [OF demo_books_ok(1) p r none] p r cn show ?thesis by auto
qed

section \<open>Clearing a receipt accrual\<close>











section \<open>Credit notes: two forms of one predicate\<close>

text \<open>C31: The Python predicate and the SQL clause that decide whether a reversal is a section 34
  credit note select the same documents, NULL invoice and tax types included, and so do the two
  forms of the reportable-supply predicate; a same-month reversal is never a credit note.\<close>

theorem s34_forms_agree:
  "(s34_credit_note_clause series note_date inv_date inv_type tax = Some True
      \<longleftrightarrow> is_s34_credit_note series note_date inv_date inv_type tax) \<and>
   (gstr1_reportable_supply_clause inv_type tax = Some True \<longleftrightarrow> is_gstr1_reportable_supply inv_type tax) \<and>
   \<not> is_s34_credit_note series (Date y m d) (Date y m d') inv_type tax"
proof -
  have reportable: "gstr1_reportable_supply_clause inv_type tax = Some (is_gstr1_reportable_supply inv_type tax)"
    by (cases inv_type)
      (auto simp: gstr1_reportable_supply_clause_def is_gstr1_reportable_supply_def sql_and_def sql_or_def
        sql_is_null_def sql_eq_def sql_is_distinct_from_def)
  have later: "date_trunc_month note_date > date_trunc_month inv_date \<longleftrightarrow> is_later_gst_period note_date inv_date"
    by (auto simp: date_trunc_month_def is_later_gst_period_def gst_period_def less_date_def less_eq_date_def)
  show ?thesis
    using later
    by (auto simp: s34_credit_note_clause_def is_s34_credit_note_def reportable invoice_supports_s34_note_def
        sql_and_def is_later_gst_period_def gst_period_def)
qed

section \<open>Voiding a purchase twice\<close>

text \<open>The purchase reversal does not mark the purchase as reversed. A second call finds the
  original voucher again and posts a second mirror voucher, so the balances move by the mirrored
  amounts once more; only the callers' status check prevents it.\<close>

theorem purchase_reversal_repeats:
  assumes "gl_ok s" and "reverse_purchase_invoice_gl now pinv s = Inr (s1, Some v1)"
    and "reverse_purchase_invoice_gl now' pinv s1 = Inr (s2, r2)"
  shows "\<exists>v2. r2 = Some v2 \<and> vouchers s2 = vouchers s @ [v1, v2] \<and>
    (\<forall>a. account_balance s2 a - account_balance s1 a = account_balance s1 a - account_balance s a)"
proof (cases rule: reverse_pi_cases [OF assms(2,1)])
  case (2 orig v)
  have ok1: "gl_ok s1" by (rule posts_balanced_ok [OF 2(8) assms(1)])
  let ?q = "\<lambda>v. v_org v = pi_org pinv \<and> voucher_type v = PURCHASE_INVOICE \<and>
      v_reference_id v = Some (purchase_invoice_id pinv) \<and> \<not> v_deleted v \<and> \<not> is_reversal_narration (narration v)"
  note vs1 = posts_vouchers [OF 2(8)]
  obtain w where w: "filter ?q (vouchers s) = [w]"
    using assms(2) by (auto simp: reverse_purchase_invoice_gl_def scalar_one_or_none_Some split: option.splits)
  then have w1: "filter ?q (vouchers s1) = [w]" using 2(9) by (simp add: vs1)
  have "orig \<in> set (filter ?q (vouchers s))" using 2 by simp
  with w have worig: "w = orig" by simp
  show ?thesis
  proof (cases rule: reverse_pi_cases [OF assms(3) ok1])
    case 1
    with assms(3) w1 show ?thesis
      by (auto simp: reverse_purchase_invoice_gl_def scalar_one_or_none_def)
  next
    case (2 orig2 v2)
    have "orig2 \<in> set (filter ?q (vouchers s1))" using 2 by simp
    with w1 have "orig2 = orig" by (simp add: worig)
    moreover have "mirror_legs (voucher_id orig) s1 = mirror_legs (voucher_id orig) s"
      using lines_of_posted(2) [OF assms(1)] \<open>posts_balanced s s1 v _\<close> \<open>orig \<in> set (vouchers s)\<close>
      by (auto simp: mirror_legs_def posts_balanced_def)
    ultimately have p2: "posts_balanced s1 s2 v2 (mirror_legs (voucher_id orig) s)" using 2(8) by simp
    show ?thesis
      using posts_balance [OF p2] posts_balance [OF \<open>posts_balanced s s1 v _\<close>] 2(2) \<open>Some v1 = Some v\<close>
        posts_vouchers [OF p2] vs1 by auto
  qed
qed simp

definition demo_void :: books where
  "demo_void =
     demo_books\<lparr>vouchers := [(new_voucher 1 2 PURCHASE_INVOICE ''PI'' ''0001'' (Date 2026 5 6) ''purchase_invoice''
          (Some 70) (Some ''Purchase from '') None 110 110 demo_now)\<lparr>voucher_id := 10\<rparr>],
       voucher_count := 1, voucher_supply := (\<lambda>n. 10 + n),
       voucher_lines := add_lines 1 10 1 [(23, DR, 110), (25, CR, 110)]\<rparr>"

lemma demo_void_ok: "gl_ok demo_void"
  by (simp add: gl_ok_def demo_void_def demo_books_def inj_def voucher_ok_def new_voucher_def lines_of_def)

lemma purchase_reversal_repeats_witness:
  "\<exists>s1 v1 s2 v2. reverse_purchase_invoice_gl demo_now (demo_pi 70) demo_void = Inr (s1, Some v1) \<and>
     reverse_purchase_invoice_gl demo_now (demo_pi 70) s1 = Inr (s2, Some v2) \<and>
     vouchers s2 = vouchers demo_void @ [v1, v2]"
proof -
  have "case reverse_purchase_invoice_gl demo_now (demo_pi 70) demo_void of
      Inr (s1, Some _) \<Rightarrow> \<not> isl (reverse_purchase_invoice_gl demo_now (demo_pi 70) s1) | _ \<Rightarrow> False"
    by code_simp
  then obtain s1 v1 where r1: "reverse_purchase_invoice_gl demo_now (demo_pi 70) demo_void = Inr (s1, Some v1)"
    and ok: "\<not> isl (reverse_purchase_invoice_gl demo_now (demo_pi 70) s1)"
    by (auto split: sum.splits option.splits)
  from ok obtain s2 r2 where r2: "reverse_purchase_invoice_gl demo_now (demo_pi 70) s1 = Inr (s2, r2)"
    by (cases "reverse_purchase_invoice_gl demo_now (demo_pi 70) s1") auto
  from purchase_reversal_repeats [OF demo_void_ok r1 r2] r1 r2 show ?thesis by blast
qed

end
