(* ===== verification/StockAdj.thy ===== *)
theory StockAdj
  imports Inventory Accounting
begin

text \<open>
  Stock adjustments, \<^verbatim>\<open>app/service/stock_service.py\<close>: the stock engine and the general
  ledger together. A call moves stock (write-in, write-down, or a reset to a counted quantity),
  records a header, and posts one voucher for the value moved.
\<close>

section \<open>State\<close>

record adjustment =
  adjustment_id :: uuid
  adj_key :: stock_key
  qty_change :: decimal
  adj_reason :: "string option"

record adj_state =
  stock :: inv
  gl :: books
  adjustments :: "adjustment list"

datatype AdjustmentDirection = INCREASE | DECREASE | COUNT_RESET | UNKNOWN string

definition STOCK_ADJ_LEDGER_CODE :: string where "STOCK_ADJ_LEDGER_CODE = ''5350''"
definition SADJ_SERIES :: string where "SADJ_SERIES = ''SADJ''"

section \<open>Ledger posting\<close>

definition resolve_system_ledger :: "uuid \<Rightarrow> string \<Rightarrow> books \<Rightarrow> error + ledger_account" where
  "resolve_system_ledger org code s =
     bindE (scalar_one_or_none
              (filter (\<lambda>l. ledger_org l = org \<and> ledger_code l = code \<and> ledger_firm l = None \<and>
                           \<not> ledger_deleted l) (ledger_accounts s)))
       (\<lambda>r. case r of
          None \<Rightarrow> Inl (AppValidationError ''System ledger missing'')
        | Some l \<Rightarrow>
            if is_active l = Some False then Inl (AppValidationError ''is_active=False'')
            else if is_control_account l = Some True
            then Inl (AppValidationError ''is a control account'')
            else Inr l)"

definition allocate_stock_adj_voucher_number :: "uuid \<Rightarrow> uuid \<Rightarrow> books \<Rightarrow> string" where
  "allocate_stock_adj_voucher_number org firm s =
     next_by_text (numbers_in_use org firm STOCK_ADJUSTMENT SADJ_SERIES s)"

definition adj_value :: "ledger_row \<Rightarrow> decimal" where
  "adj_value r = quantize round_half_even 2 (ctx (\<bar>qty_in r - qty_out r\<bar> * or_zero (unit_cost r)))"

text \<open>\<^verbatim>\<open>reason or "..."\<close>: the empty string counts as no reason.\<close>

definition narration_or :: "string \<Rightarrow> string option \<Rightarrow> string" where
  "narration_or dflt reason = (case reason of Some t \<Rightarrow> if t = [] then dflt else t | None \<Rightarrow> dflt)"

definition post_adjustment ::
  "clock \<Rightarrow> uuid \<Rightarrow> uuid \<Rightarrow> uuid \<Rightarrow> date \<Rightarrow> string option \<Rightarrow> decimal \<Rightarrow> ledger_row \<Rightarrow> books \<Rightarrow> error + books" where
  "post_adjustment now org firm adj_id tdate reason change row s =
     (let value_delta = adj_value row in
      if value_delta > 0 then
        bindE (resolve_system_ledger org INVENTORY_LEDGER_CODE s) (\<lambda>inventory.
        bindE (resolve_system_ledger org STOCK_ADJ_LEDGER_CODE s) (\<lambda>sadj.
        let n = allocate_stock_adj_voucher_number org firm s;
            (dr, cr) = (if change > 0 then (inventory, sadj) else (sadj, inventory))
        in bindE (post_voucher
                    (Some (NUMBER_KEY, AppValidationError ''Stock-adjustment voucher number race''))
                    (new_voucher org firm STOCK_ADJUSTMENT SADJ_SERIES n tdate
                       ''stock_adjustment'' (Some adj_id)
                       (Some (narration_or ''Stock adjustment '' reason)) None
                       value_delta value_delta now)
                    [(ledger_id dr, DR, value_delta), (ledger_id cr, CR, value_delta)] s)
             (\<lambda>(s', _). Inr s')))
      else Inr s)"

section \<open>Stock movements\<close>

definition adj_ref :: "uuid \<Rightarrow> date \<Rightarrow> string option \<Rightarrow> movement_ref" where
  "adj_ref i d reason = \<lparr>mv_type = ''ADJUSTMENT'', mv_id = i, mv_date = Some d, mv_notes = reason\<rparr>"

text \<open>The FIFO call returns one row per position taken from; the caller keeps the first.\<close>

definition remove_for_adjustment ::
  "date \<Rightarrow> stock_key \<Rightarrow> decimal \<Rightarrow> movement_ref \<Rightarrow> inv \<Rightarrow> error + inv \<times> ledger_row" where
  "remove_for_adjustment today k qty ref s =
     (if k_lot k = None then
        bindE (remove_stock_fifo today (k_org k) (k_firm k) (k_item k) (k_location k) qty ref s)
          (\<lambda>(s', rows). case rows of [] \<Rightarrow> Inl IndexError | r # _ \<Rightarrow> Inr (s', r))
      else remove_stock today k qty ref s)"

definition adjust_increase ::
  "date \<Rightarrow> stock_key \<Rightarrow> decimal \<Rightarrow> decimal option \<Rightarrow> movement_ref \<Rightarrow> inv \<Rightarrow> error + inv \<times> ledger_row" where
  "adjust_increase today k qty cost ref s =
     (if qty = 0 then Inl (AppValidationError ''qty must be positive for INCREASE direction'')
      else
        bindE (case cost of
                 Some c \<Rightarrow> Inr c
               | None \<Rightarrow> bindE (get_position k s) (\<lambda>p. Inr (position_cost p)))
          (\<lambda>c. add_stock today k qty c ref s))"

definition adjust_decrease ::
  "date \<Rightarrow> stock_key \<Rightarrow> decimal \<Rightarrow> movement_ref \<Rightarrow> inv \<Rightarrow> error + inv \<times> ledger_row" where
  "adjust_decrease today k qty ref s =
     (if qty = 0 then Inl (AppValidationError ''qty must be positive for DECREASE direction'')
      else remove_for_adjustment today k qty ref s)"

text \<open>The audit row of a count that confirms the quantity on hand.\<close>

definition noop_row :: "stock_key \<Rightarrow> movement_ref \<Rightarrow> date \<Rightarrow> ledger_row" where
  "noop_row k ref d =
     \<lparr>sl_key = k, txn_type = ''IN'', txn_date = d, ledger_row.reference_type = mv_type ref,
      reference_id = mv_id ref, qty_in = 0, qty_out = 0, unit_cost = Some 0, sl_notes = mv_notes ref\<rparr>"

definition adjust_count_reset ::
  "date \<Rightarrow> stock_key \<Rightarrow> decimal \<Rightarrow> decimal option \<Rightarrow> movement_ref \<Rightarrow> date \<Rightarrow> inv
   \<Rightarrow> error + inv \<times> ledger_row \<times> decimal" where
  "adjust_count_reset today k target cost ref d s =
     bindE (lock_or_create_position today k s) (\<lambda>(s1, pos).
     let current_qty = (if k_lot k = None
                        then get_total_on_hand (k_org k) (k_firm k) (k_item k) (k_location k) s1
                        else on_hand_qty pos);
         delta = target - current_qty;
         cr_cost = (case cost of Some c \<Rightarrow> c | None \<Rightarrow> or_zero (current_cost pos))
     in if delta = 0 then
          (let row = noop_row k ref d in Inr (insert_ledger row s1, row, 0))
        else if delta > 0 then
          bindE (add_stock today k delta cr_cost ref s1) (\<lambda>(s2, row). Inr (s2, row, delta))
        else
          bindE (remove_for_adjustment today k (- delta) ref s1) (\<lambda>(s2, row). Inr (s2, row, delta)))"

section \<open>The service call\<close>

definition with_change :: "decimal \<Rightarrow> error + inv \<times> ledger_row \<Rightarrow> error + inv \<times> ledger_row \<times> decimal" where
  "with_change q r = bindE r (\<lambda>(s, row). Inr (s, row, q))"

definition adj_move ::
  "date \<Rightarrow> stock_key \<Rightarrow> decimal \<Rightarrow> AdjustmentDirection \<Rightarrow> decimal option \<Rightarrow> movement_ref \<Rightarrow> date \<Rightarrow> inv
   \<Rightarrow> error + inv \<times> ledger_row \<times> decimal" where
  "adj_move today k qty direction cost ref d s =
     (case direction of
        INCREASE \<Rightarrow> with_change qty (adjust_increase today k qty cost ref s)
      | DECREASE \<Rightarrow> with_change (- qty) (adjust_decrease today k qty ref s)
      | COUNT_RESET \<Rightarrow> adjust_count_reset today k qty cost ref d s
      | UNKNOWN _ \<Rightarrow> Inl (AppValidationError ''Unknown direction''))"

definition create_adjustment ::
  "date \<Rightarrow> clock \<Rightarrow> stock_key \<Rightarrow> decimal \<Rightarrow> AdjustmentDirection \<Rightarrow> string option \<Rightarrow> date option
   \<Rightarrow> decimal option \<Rightarrow> adj_state \<Rightarrow> error + adj_state \<times> adjustment \<times> ledger_row" where
  "create_adjustment today now k qty direction reason txn_date0 cost s =
     bindE (assert_firm_in_org (k_org k) (k_firm k) (stock s)) (\<lambda>_.
     bindE (guardE (\<not> qty < 0) (AppValidationError ''qty must be >= 0'')) (\<lambda>_.
     let d = (case txn_date0 of Some x \<Rightarrow> x | None \<Rightarrow> today);
         (i0, adj_id) = mint (stock s);
         ref = adj_ref adj_id d reason
     in bindE (adj_move today k qty direction cost ref d i0)
          (\<lambda>(i1, row, change).
        let header = \<lparr>adjustment_id = adj_id, adj_key = k, qty_change = change, adj_reason = reason\<rparr>;
            s1 = s\<lparr>stock := i1, adjustments := adjustments s @ [header]\<rparr>
        in if direction = COUNT_RESET \<and> change = 0 then Inr (s1, header, row)
           else
             bindE (post_adjustment now (k_org k) (k_firm k) adj_id d reason change row (gl s))
               (\<lambda>g. Inr (s1\<lparr>gl := g\<rparr>, header, row)))))"

section \<open>Lemmas\<close>

lemma mint_ok: "mint s = (s', i) \<Longrightarrow> inv_ok s \<Longrightarrow> inv_ok s'"
  by (rule same_tables_ok) (auto simp: mint_def)

lemma same_positions:
  "positions s' = positions s \<Longrightarrow> on_hand s' k = on_hand s k"
  "positions s' = positions s \<Longrightarrow> get_total_on_hand org firm item loc s' = get_total_on_hand org firm item loc s"
  by (simp_all add: on_hand_def position_rows_def get_total_on_hand_def)

lemma lock_total:
  "lock_or_create_position today k s = Inr (s1, pos) \<Longrightarrow>
   get_total_on_hand org firm item loc s1 = get_total_on_hand org firm item loc s"
  by (erule lock_or_create_cases) (simp_all add: get_total_on_hand_def new_position_def)

lemma lock_ok:
  assumes "lock_or_create_position today k s = Inr (s1, pos)" and "inv_ok s"
  shows "inv_ok s1"
  by (rule same_books_ok [OF _ _ _ assms(2)])
    (use lock_or_create_effect [OF assms(1)] inv_ok_parts(1) [OF assms(2)] in auto)

text \<open>Removal for an adjustment: the quantity leaves the lot, or the location as a whole.\<close>

lemma remove_for_adjustment_effect:
  assumes "remove_for_adjustment today k qty ref s = Inr (s', row)" and "inv_ok s"
  shows "inv_ok s'" and "0 < qty"
    and "k_lot k = None \<Longrightarrow> get_total_on_hand (k_org k) (k_firm k) (k_item k) (k_location k) s'
      = get_total_on_hand (k_org k) (k_firm k) (k_item k) (k_location k) s - qty"
    and "k_lot k \<noteq> None \<Longrightarrow> on_hand s' k = on_hand s k - qty"
    and "\<exists>rows. stock_ledger s' = stock_ledger s @ row # rows \<and> (\<Sum>r\<leftarrow>row # rows. qty_out r) = qty \<and>
      (k_lot k \<noteq> None \<longrightarrow> rows = [])"
proof -
  consider (fifo) rows where "k_lot k = None"
      "remove_stock_fifo today (k_org k) (k_firm k) (k_item k) (k_location k) qty ref s = Inr (s', row # rows)"
    | (lot) "k_lot k \<noteq> None" "remove_stock today k qty ref s = Inr (s', row)"
    using assms(1) by (auto simp: remove_for_adjustment_def split: if_splits list.splits)
  then have "inv_ok s' \<and> 0 < qty \<and>
    (k_lot k = None \<longrightarrow> get_total_on_hand (k_org k) (k_firm k) (k_item k) (k_location k) s'
      = get_total_on_hand (k_org k) (k_firm k) (k_item k) (k_location k) s - qty) \<and>
    (k_lot k \<noteq> None \<longrightarrow> on_hand s' k = on_hand s k - qty) \<and>
    (\<exists>rows. stock_ledger s' = stock_ledger s @ row # rows \<and> (\<Sum>r\<leftarrow>row # rows. qty_out r) = qty \<and>
      (k_lot k \<noteq> None \<longrightarrow> rows = []))"
  proof cases
    case fifo
    have "0 < qty" using fifo(2) by (simp add: remove_stock_fifo_Inr)
    with fifo(1) remove_stock_fifo_ok [OF fifo(2) assms(2)] fifo_total_on_hand [OF fifo(2) assms(2)]
      fifo_effect(2,5) [OF fifo(2) assms(2)]
    show ?thesis by auto
  next
    case lot
    note eff = remove_stock_effect [OF lot(2) inv_ok_parts(1) [OF assms(2)]]
    have "qty_out row = qty" using lot(2)
      by (auto simp: remove_stock_def Let_def split: option.splits if_splits)
    with lot(1) eff remove_stock_ok [OF lot(2) assms(2)] show ?thesis by (auto simp: booked_def)
  qed
  then show "inv_ok s'" and "0 < qty"
    and "k_lot k = None \<Longrightarrow> get_total_on_hand (k_org k) (k_firm k) (k_item k) (k_location k) s'
      = get_total_on_hand (k_org k) (k_firm k) (k_item k) (k_location k) s - qty"
    and "k_lot k \<noteq> None \<Longrightarrow> on_hand s' k = on_hand s k - qty"
    and "\<exists>rows. stock_ledger s' = stock_ledger s @ row # rows \<and> (\<Sum>r\<leftarrow>row # rows. qty_out r) = qty \<and>
      (k_lot k \<noteq> None \<longrightarrow> rows = [])" by blast+
qed

definition counted :: "stock_key \<Rightarrow> inv \<Rightarrow> decimal" where
  "counted k s = (if k_lot k = None then get_total_on_hand (k_org k) (k_firm k) (k_item k) (k_location k) s
                  else on_hand s k)"

lemma count_reset_effect:
  assumes "adjust_count_reset today k target cost ref d s = Inr (s', row, change)" and ok: "inv_ok s"
  shows "inv_ok s'" and "counted k s' = target" and "change = target - counted k s"
proof -
  from assms(1) obtain s1 pos where lock: "lock_or_create_position today k s = Inr (s1, pos)"
    by (auto simp: adjust_count_reset_def)
  note eff = lock_or_create_effect [OF lock]
  have ok1: "inv_ok s1" by (rule lock_ok [OF lock ok])
  have cur: "(if k_lot k = None then get_total_on_hand (k_org k) (k_firm k) (k_item k) (k_location k) s1
      else on_hand_qty pos) = counted k s"
    using lock_total [OF lock] eff(4) by (simp add: counted_def)
  have c1: "counted k s1 = counted k s"
    using lock_total [OF lock] eff(2) by (simp add: counted_def)
  let ?delta = "target - counted k s"
  consider (same) "?delta = 0" "s' = insert_ledger (noop_row k ref d) s1" "change = 0"
    | (up) c where "?delta > 0" "add_stock today k ?delta c ref s1 = Inr (s', row)" "change = ?delta"
    | (down) "?delta < 0" "remove_for_adjustment today k (- ?delta) ref s1 = Inr (s', row)" "change = ?delta"
    using assms(1) lock unfolding adjust_count_reset_def
    by (auto simp: Let_def cur split: if_splits)
  then have "inv_ok s' \<and> counted k s' = target \<and> change = ?delta"
  proof cases
    case same
    have "moved s' = moved s1" by (simp add: same moved_insert noop_row_def fun_eq_iff)
    moreover have "on_hand s' = on_hand s1" "keyed s' = keyed s1" by (simp_all add: same fun_eq_iff)
    ultimately have "inv_ok s'" using ok1 by (intro same_books_ok [of s' s1]) (simp_all add: inv_ok_parts)
    moreover have "counted k s' = counted k s1" by (simp add: counted_def same get_total_on_hand_def)
    ultimately show ?thesis using same c1 by simp
  next
    case up
    have rows: "position_rows k s1 = [pos]" using eff(1) by simp
    have "on_hand s' k = on_hand s1 k + ?delta"
      using add_stock_effect(1) [OF up(2) inv_ok_parts(1) [OF ok1]] by (simp add: booked_def)
    with add_stock_total [OF up(2) ok1 rows] add_stock_ok [OF up(2) ok1] c1 up(3)
    show ?thesis by (auto simp: counted_def split: if_splits)
  next
    case down
    note r = remove_for_adjustment_effect [OF down(2) ok1]
    with c1 down(3) show ?thesis by (auto simp: counted_def split: if_splits)
  qed
  then show "inv_ok s'" and "counted k s' = target" and "change = target - counted k s" by blast+
qed



lemma add_stock_relock:
  assumes "add_stock today k qty cost ref s = Inr (s', row)"
  obtains s1 pos where "lock_or_create_position today k s = Inr (s1, pos)"
    and "add_stock today k qty cost ref s1 = Inr (s', row)"
proof -
  from assms obtain s1 pos where lock: "lock_or_create_position today k s = Inr (s1, pos)"
    by (auto simp: add_stock_def Let_def)
  note eff = lock_or_create_effect [OF lock]
  have "check_movement k s1 = check_movement k s"
    by (simp add: check_movement_def ensure_item_in_org_def ensure_location_in_firm_def
        ensure_lot_in_org_def eff cong: option.case_cong)
  moreover have "lock_or_create_position today k s1 = Inr (s1, pos)"
    using eff(1) [of k] by (simp add: lock_or_create_position_def scalar_one_or_none_def)
  ultimately have "add_stock today k qty cost ref s1 = add_stock today k qty cost ref s"
    unfolding add_stock_def using lock by simp
  with lock assms that show thesis by simp
qed

lemma add_stock_counted:
  assumes "add_stock today k qty cost ref s = Inr (s', row)" and ok: "inv_ok s"
  shows "inv_ok s'" and "counted k s' = counted k s + qty" and "0 < qty" and "qty_in row = qty \<and> qty_out row = 0 \<and> unit_cost row = Some cost"
proof -
  obtain s1 pos where lock: "lock_or_create_position today k s = Inr (s1, pos)"
    and add: "add_stock today k qty cost ref s1 = Inr (s', row)"
    by (rule add_stock_relock [OF assms(1)])
  note eff = lock_or_create_effect [OF lock]
  have ok1: "inv_ok s1" by (rule lock_ok [OF lock ok])
  have "position_rows k s1 = [pos]" using eff(1) by simp
  from add_stock_total [OF add ok1 this] add_stock_effect(1) [OF add inv_ok_parts(1) [OF ok1]]
  show "counted k s' = counted k s + qty"
    by (simp add: counted_def lock_total [OF lock] eff(2) booked_def)
  show "inv_ok s'" by (rule add_stock_ok [OF assms(1) ok])
  show "0 < qty" by (rule add_stock_effect(2) [OF assms(1) inv_ok_parts(1) [OF ok]])
  show "qty_in row = qty \<and> qty_out row = 0 \<and> unit_cost row = Some cost"
    using assms(1) by (auto simp: add_stock_def Let_def)
qed

lemma adjust_increase_counted:
  assumes "adjust_increase today k qty cost ref s = Inr (s', row)" and "inv_ok s"
  shows "inv_ok s'" and "counted k s' = counted k s + qty" and "0 < qty"
proof -
  from assms(1) obtain c where "add_stock today k qty c ref s = Inr (s', row)"
    by (auto simp: adjust_increase_def split: if_splits)
  from add_stock_counted [OF this assms(2)]
  show "inv_ok s'" and "counted k s' = counted k s + qty" and "0 < qty" by blast+
qed

lemma adjust_decrease_counted:
  assumes "adjust_decrease today k qty ref s = Inr (s', row)" and "inv_ok s"
  shows "inv_ok s'" and "counted k s' = counted k s + (- qty)" and "0 < qty"
proof -
  from assms(1) have "remove_for_adjustment today k qty ref s = Inr (s', row)"
    by (auto simp: adjust_decrease_def split: if_splits)
  from remove_for_adjustment_effect [OF this assms(2)]
  show "inv_ok s'" and "counted k s' = counted k s + (- qty)" and "0 < qty"
    by (auto simp: counted_def)
qed

text \<open>The ledger posting: nothing, or one balanced voucher over the two accounts.\<close>

lemma resolve_system_ledger_Inr:
  "resolve_system_ledger org code s = Inr l \<Longrightarrow> resolve_ledger org code s = Inr l"
  by (auto simp: resolve_system_ledger_def resolve_ledger_def split: option.splits if_splits)

lemma post_adjustment_cases:
  assumes "post_adjustment now org firm i d reason change row s = Inr s'" and ok: "gl_ok s"
  obtains (none) "adj_value row \<le> 0" and "s' = s"
    | (posted) stock sadj v dr cr where "0 < adj_value row"
      and "resolve_system_ledger org INVENTORY_LEDGER_CODE s = Inr stock"
      and "resolve_system_ledger org STOCK_ADJ_LEDGER_CODE s = Inr sadj"
      and "(dr, cr) = (if change > 0 then (stock, sadj) else (sadj, stock))"
      and "posts_balanced s s' v [(ledger_id dr, DR, adj_value row), (ledger_id cr, CR, adj_value row)]"
proof (cases "0 < adj_value row")
  case False
  then show thesis using assms(1) by (intro none) (auto simp: post_adjustment_def Let_def)
next
  case True
  define p where "p stock sadj = (if change > 0 then (stock, sadj) else (sadj, stock :: ledger_account))" for stock sadj
  from assms(1) True obtain stock sadj dr cr n narr v where
    r: "resolve_system_ledger org INVENTORY_LEDGER_CODE s = Inr stock"
      "resolve_system_ledger org STOCK_ADJ_LEDGER_CODE s = Inr sadj"
    and dc: "(dr, cr) = p stock sadj"
    and post: "post_voucher (Some (NUMBER_KEY, AppValidationError ''Stock-adjustment voucher number race''))
      (new_voucher org firm STOCK_ADJUSTMENT SADJ_SERIES n d ''stock_adjustment'' (Some i) narr None
         (adj_value row) (adj_value row) now)
      [(ledger_id dr, DR, adj_value row), (ledger_id cr, CR, adj_value row)] s = Inr (s', v)"
    by (auto simp: post_adjustment_def Let_def simp flip: p_def split: prod.splits)
  from post_voucher_balanced [OF post ok] r True dc
  show thesis unfolding p_def by (intro posted) simp_all
qed


text \<open>What a movement leaves: the tables in order, the count moved by \<open>change\<close>.\<close>

lemma adj_move_effect:
  assumes "adj_move today k qty direction cost ref d s = Inr (s', row, change)" and ok: "inv_ok s"
  shows "inv_ok s'" and "counted k s' = counted k s + change"
    and "direction \<noteq> COUNT_RESET \<Longrightarrow> change \<noteq> 0"
    and "direction = COUNT_RESET \<Longrightarrow> counted k s' = qty"
proof -
  consider (up) "direction = INCREASE" "adjust_increase today k qty cost ref s = Inr (s', row)" "change = qty"
    | (down) "direction = DECREASE" "adjust_decrease today k qty ref s = Inr (s', row)" "change = - qty"
    | (reset) "direction = COUNT_RESET" "adjust_count_reset today k qty cost ref d s = Inr (s', row, change)"
    using assms(1) by (cases direction) (auto simp: adj_move_def with_change_def)
  then have "inv_ok s' \<and> counted k s' = counted k s + change \<and> (direction \<noteq> COUNT_RESET \<longrightarrow> change \<noteq> 0) \<and>
    (direction = COUNT_RESET \<longrightarrow> counted k s' = qty)"
  proof cases
    case up
    with adjust_increase_counted [OF up(2) ok] show ?thesis by simp
  next
    case down
    with adjust_decrease_counted [OF down(2) ok] show ?thesis by simp
  next
    case reset
    with count_reset_effect [OF reset(2) ok] show ?thesis by simp
  qed
  then show "inv_ok s'" and "counted k s' = counted k s + change"
    and "direction \<noteq> COUNT_RESET \<Longrightarrow> change \<noteq> 0"
    and "direction = COUNT_RESET \<Longrightarrow> counted k s' = qty" by blast+
qed

lemma create_adjustment_cases:
  assumes "create_adjustment today now k qty direction reason d cost s = Inr (s', header, row)"
  obtains i0 i1 dt g where
    "fst (mint (stock s)) = i0"
    and "adj_move today k qty direction cost (adj_ref (adjustment_id header) dt reason) dt i0
      = Inr (i1, row, qty_change header)"
    and "adj_key header = k"
    and "s' = s\<lparr>stock := i1, adjustments := adjustments s @ [header], gl := g\<rparr>"
    and "if direction = COUNT_RESET \<and> qty_change header = 0 then g = gl s
      else post_adjustment now (k_org k) (k_firm k) (adjustment_id header) dt reason (qty_change header) row (gl s)
        = Inr g"
proof -
  let ?dt = "case d of Some x \<Rightarrow> x | None \<Rightarrow> today"
  obtain i0 a where m: "mint (stock s) = (i0, a)" by (cases "mint (stock s)")
  have "create_adjustment today now k qty direction reason d cost s =
     bindE (assert_firm_in_org (k_org k) (k_firm k) (stock s)) (\<lambda>_.
     bindE (guardE (\<not> qty < 0) (AppValidationError ''qty must be >= 0'')) (\<lambda>_.
     bindE (adj_move today k qty direction cost (adj_ref a ?dt reason) ?dt i0)
          (\<lambda>(i1, row, change).
        let header = \<lparr>adjustment_id = a, adj_key = k, qty_change = change, adj_reason = reason\<rparr>;
            s1 = s\<lparr>stock := i1, adjustments := adjustments s @ [header]\<rparr>
        in if direction = COUNT_RESET \<and> change = 0 then Inr (s1, header, row)
           else bindE (post_adjustment now (k_org k) (k_firm k) a ?dt reason change row (gl s))
               (\<lambda>g. Inr (s1\<lparr>gl := g\<rparr>, header, row)))))"
    by (simp add: create_adjustment_def m Let_def)
  with assms obtain i1 change where
    mv: "adj_move today k qty direction cost (adj_ref a ?dt reason) ?dt i0 = Inr (i1, row, change)"
    and rest: "(if direction = COUNT_RESET \<and> change = 0
      then Inr (s\<lparr>stock := i1, adjustments := adjustments s @ [\<lparr>adjustment_id = a, adj_key = k, qty_change = change, adj_reason = reason\<rparr>]\<rparr>,
        \<lparr>adjustment_id = a, adj_key = k, qty_change = change, adj_reason = reason\<rparr>, row)
      else bindE (post_adjustment now (k_org k) (k_firm k) a ?dt reason change row (gl s))
        (\<lambda>g. Inr (s\<lparr>stock := i1, adjustments := adjustments s @ [\<lparr>adjustment_id = a, adj_key = k, qty_change = change, adj_reason = reason\<rparr>], gl := g\<rparr>,
          \<lparr>adjustment_id = a, adj_key = k, qty_change = change, adj_reason = reason\<rparr>, row))) = Inr (s', header, row)"
    by (auto simp: Let_def split: if_splits)
  show thesis
  proof (cases "direction = COUNT_RESET \<and> change = 0")
    case True
    with rest mv m show thesis by (intro that [of i0 ?dt i1 "gl s"]) auto
  next
    case False
    with rest obtain g where g: "post_adjustment now (k_org k) (k_firm k) a ?dt reason change row (gl s) = Inr g"
      and h: "header = \<lparr>adjustment_id = a, adj_key = k, qty_change = change, adj_reason = reason\<rparr>"
      and s': "s' = s\<lparr>stock := i1, adjustments := adjustments s @ [header], gl := g\<rparr>"
      by auto
    from g h s' mv m False show thesis by (intro that [of i0 ?dt i1 g]) auto
  qed
qed

section \<open>The invariant over both parts\<close>

definition adj_ok :: "adj_state \<Rightarrow> bool" where
  "adj_ok s \<longleftrightarrow> inv_ok (stock s) \<and> gl_ok (gl s)"

lemma counted_mint: "fst (mint s) = s' \<Longrightarrow> counted k s' = counted k s"
proof -
  assume "fst (mint s) = s'"
  then have "positions s' = positions s" by (auto simp: mint_def)
  from same_positions [OF this] show ?thesis unfolding counted_def by simp
qed

lemma create_adjustment_ok:
  assumes "create_adjustment today now k qty direction reason d cost s = Inr (s', header, row)" and ok: "adj_ok s"
  shows "adj_ok s'" and "counted k (stock s') = counted k (stock s) + qty_change header"
    and "direction = COUNT_RESET \<Longrightarrow> counted k (stock s') = qty"
    and "adj_key header = k" and "adjustments s' = adjustments s @ [header]"
proof -
  from assms(1) obtain i0 i1 dt g where m: "fst (mint (stock s)) = i0"
    and mv: "adj_move today k qty direction cost (adj_ref (adjustment_id header) dt reason) dt i0
      = Inr (i1, row, qty_change header)"
    and hk: "adj_key header = k"
    and s': "s' = s\<lparr>stock := i1, adjustments := adjustments s @ [header], gl := g\<rparr>"
    and post: "if direction = COUNT_RESET \<and> qty_change header = 0 then g = gl s
      else post_adjustment now (k_org k) (k_firm k) (adjustment_id header) dt reason (qty_change header) row (gl s)
        = Inr g"
    by (rule create_adjustment_cases)
  have "inv_ok i0" using m ok mint_ok [of "stock s" i0] by (cases "mint (stock s)") (auto simp: adj_ok_def)
  note e = adj_move_effect [OF mv this]
  have glok: "gl_ok (gl s)" using ok by (simp add: adj_ok_def)
  have "gl_ok g"
  proof (cases "direction = COUNT_RESET \<and> qty_change header = 0")
    case True
    with post glok show ?thesis by simp
  next
    case False
    with post have "post_adjustment now (k_org k) (k_firm k) (adjustment_id header) dt reason (qty_change header) row (gl s)
        = Inr g" by auto
    then show ?thesis
      by (rule post_adjustment_cases [OF _ glok]) (use glok in \<open>auto intro: posts_balanced_ok\<close>)
  qed
  with e(1) show "adj_ok s'" by (simp add: adj_ok_def s')
  show "counted k (stock s') = counted k (stock s) + qty_change header"
    using e(2) counted_mint [OF m] by (simp add: s')
  show "direction = COUNT_RESET \<Longrightarrow> counted k (stock s') = qty" using e(4) by (simp add: s')
  show "adj_key header = k" and "adjustments s' = adjustments s @ [header]" by (simp_all add: hk s')
qed


end
