(* ===== verification/StockAdjProps.thy ===== *)
theory StockAdjProps
  imports StockAdj AccountingProps
begin

text \<open>
  What stock adjustments guarantee, over the state of \<open>StockAdj\<close>: both books stay in order, the count
  moves by the header's quantity, the ledger by the value of the returned row; and two places
  where the code falls short of its comments, the value of a write-down across lots and voucher
  numbers past 9999.
\<close>

section \<open>Properties\<close>

definition demo_position :: "uuid \<Rightarrow> uuid option \<Rightarrow> decimal \<Rightarrow> stock_position" where
  "demo_position i lot c =
     \<lparr>stock_position_id = i, pos_key = demo_key lot, on_hand_qty = 1, reserved_qty_mo = 0,
      reserved_qty_so = 0, in_transit_qty = 0, current_cost = Some c, as_of_date = Date 2026 5 1\<rparr>"

definition demo_in :: "uuid option \<Rightarrow> decimal \<Rightarrow> ledger_row" where
  "demo_in lot c =
     \<lparr>sl_key = demo_key lot, txn_type = ''IN'', txn_date = Date 2026 5 1,
      ledger_row.reference_type = ''GRN'', reference_id = 77, qty_in = 1, qty_out = 0,
      unit_cost = Some c, sl_notes = None\<rparr>"

text \<open>One unit at 2 outside any lot, one unit at 3 in lot 11.\<close>

definition demo_pair :: inv where
  "demo_pair = demo_empty
     \<lparr>positions := [demo_position 101 (Some 11) 3, demo_position 102 None 2],
      stock_ledger := [demo_in (Some 11) 3, demo_in None 2], minted := 3\<rparr>"

lemma demo_pair_ok: "inv_ok demo_pair"
  by (rule inv_okI)
    (auto simp: demo_pair_def demo_position_def demo_in_def demo_key_def on_hand_def moved_def position_rows_def)

definition demo_adj :: adj_state where
  "demo_adj = \<lparr>stock = demo_pair,
     gl = demo_books\<lparr>ledger_accounts := demo_account 29 ''5350'' # ledger_accounts demo_books\<rparr>,
     adjustments = []\<rparr>"

lemmas eval_stock = demo_adj_def demo_pair_def demo_empty_def demo_key_def demo_position_def demo_in_def
  demo_lot_def demo_books_def demo_account_def demo_now_def Let_def scalar_one_or_none_def bindE_def guardE_def
  assert_firm_in_org_def mint_def get_position_def position_rows_def position_cost_def
  check_movement_def ensure_item_in_org_def ensure_location_in_firm_def ensure_lot_in_org_def
  lock_or_create_position_def or_zero_def validate_qty_def insert_ledger_def update_position_def update_where_def
  add_stock_def weighted_cost_def remove_stock_fifo_def fifo_order_def at_location_def fifo_key_def lot_order_def
  DATE_MIN_def DATE_MAX_def DATETIME_MIN_def DATETIME_MAX_def less_eq_date_def
  create_adjustment_def adj_move_def with_change_def adj_ref_def adjust_increase_def adjust_decrease_def
  adjust_count_reset_def remove_for_adjustment_def post_adjustment_def adj_value_def resolve_system_ledger_def
  allocate_stock_adj_voucher_number_def numbers_in_use_def next_by_text_def text_max_def
  INVENTORY_LEDGER_CODE_def STOCK_ADJ_LEDGER_CODE_def post_voucher_def new_voucher_def insert_voucher_def
  translate_def post_lines_def lines_of_def debits_def credits_def get_total_on_hand_def counted_def

lemma demo_adj_ok: "adj_ok demo_adj"
  using demo_pair_ok by (simp add: adj_ok_def demo_adj_def gl_ok_def demo_books_def inj_def)

text \<open>C32: A stock adjustment that returns keeps both sets of books in order and moves the counted
  quantity (the lot's, or the whole location's when no lot is given) by exactly the signed quantity
  in its header; a count reset ends at the counted target, whatever was on hand.\<close>

theorem adjustment_reaches_count:
  assumes "create_adjustment today now k qty direction reason d cost s = Inr (s', header, row)"
    and "inv_ok (stock s)" and "gl_ok (gl s)"
  shows "inv_ok (stock s') \<and> gl_ok (gl s') \<and>
    counted k (stock s') = counted k (stock s) + qty_change header \<and>
    (direction = COUNT_RESET \<longrightarrow> counted k (stock s') = qty)"
  using create_adjustment_ok [OF assms(1)] assms(2,3) by (simp add: adj_ok_def)

lemma adjustment_reaches_count_witness:
  "\<exists>s' h row. create_adjustment (Date 2026 5 2) demo_now (demo_key None) 1 COUNT_RESET None None None demo_adj
      = Inr (s', h, row) \<and> counted (demo_key None) (stock demo_adj) = 2 \<and>
     counted (demo_key None) (stock s') = 1 \<and> qty_change h = - 1"
proof -
  let ?r = "create_adjustment (Date 2026 5 2) demo_now (demo_key None) 1 COUNT_RESET None None None demo_adj"
  have "\<not> isl ?r" by (simp add: eval_stock)
  then obtain s' h row where r: "?r = Inr (s', h, row)" by (cases ?r) auto
  have "counted (demo_key None) (stock demo_adj) = 2" by (simp add: eval_stock)
  with adjustment_reaches_count [OF r] demo_adj_ok r show ?thesis by (simp add: adj_ok_def)
qed


text \<open>The books move by the value of the stock-ledger row the adjustment returns, rounded to
  paise: a write-in debits inventory (1300) and credits stock adjustments (5350), a write-down the
  other way round, and a row without value posts nothing.\<close>

theorem adjustment_posts_row_value:
  assumes "create_adjustment today now k qty direction reason d cost s = Inr (s', header, row)"
    and "inv_ok (stock s)" and "gl_ok (gl s)"
  shows "if adj_value row \<le> 0 \<or> qty_change header = 0 then gl s' = gl s
    else \<exists>inventory sadj.
      resolve_system_ledger (k_org k) INVENTORY_LEDGER_CODE (gl s) = Inr inventory \<and>
      resolve_system_ledger (k_org k) STOCK_ADJ_LEDGER_CODE (gl s) = Inr sadj \<and>
      (\<forall>a. account_balance (gl s') a = account_balance (gl s) a
        + sgn (qty_change header) * adj_value row
          * ((if a = ledger_id inventory then 1 else 0) - (if a = ledger_id sadj then 1 else 0)))"
proof (rule create_adjustment_cases [OF assms(1)])
  fix i0 i1 dt g
  assume s': "s' = s\<lparr>stock := i1, adjustments := adjustments s @ [header], gl := g\<rparr>"
    and mv: "adj_move today k qty direction cost (adj_ref (adjustment_id header) dt reason) dt i0
      = Inr (i1, row, qty_change header)"
    and m: "fst (mint (stock s)) = i0"
    and post: "if direction = COUNT_RESET \<and> qty_change header = 0 then g = gl s
      else post_adjustment now (k_org k) (k_firm k) (adjustment_id header) dt reason (qty_change header) row (gl s)
        = Inr g"
  have "inv_ok i0" using m assms(2) mint_ok [of "stock s" i0] by (cases "mint (stock s)") auto
  note nz = adj_move_effect(3) [OF mv this]
  show ?thesis
  proof (cases "direction = COUNT_RESET \<and> qty_change header = 0")
    case True
    with post show ?thesis by (simp add: s')
  next
    case False
    with post nz have p: "post_adjustment now (k_org k) (k_firm k) (adjustment_id header) dt reason (qty_change header) row (gl s)
        = Inr g" and c: "qty_change header \<noteq> 0" by auto
    show ?thesis
      by (rule post_adjustment_cases [OF p assms(3)])
        (use c in \<open>auto simp: s' posts_balance sgn_if split: if_splits\<close>)
  qed
qed

lemma adjustment_posts_row_value_witness:
  "\<exists>s' h row. create_adjustment (Date 2026 5 2) demo_now (demo_key (Some 11)) 1 INCREASE None None None demo_adj
      = Inr (s', h, row) \<and> account_balance (gl s') 23 = account_balance (gl demo_adj) 23 + 3 \<and>
     account_balance (gl s') 29 = account_balance (gl demo_adj) 29 - 3"
proof -
  let ?r = "create_adjustment (Date 2026 5 2) demo_now (demo_key (Some 11)) 1 INCREASE None None None demo_adj"
  have "(case ?r of Inl _ \<Rightarrow> False | Inr (_, h, row) \<Rightarrow> qty_change h = 1 \<and> qty_in row = 1 \<and> qty_out row = 0 \<and> unit_cost row = Some 3)"
    by (simp add: eval_stock)
  then obtain s' h row where r: "?r = Inr (s', h, row)"
    and q: "qty_change h = 1" and row: "qty_in row = 1" "qty_out row = 0" "unit_cost row = Some 3"
    by (cases ?r) auto
  have v: "adj_value row = 3"
    by (simp add: adj_value_def row or_zero_def)
  have org: "k_org (demo_key (Some 11)) = 1" by (simp add: demo_key_def)
  have l: "map_sum id ledger_id (resolve_system_ledger 1 INVENTORY_LEDGER_CODE (gl demo_adj)) = Inr 23"
    "map_sum id ledger_id (resolve_system_ledger 1 STOCK_ADJ_LEDGER_CODE (gl demo_adj)) = Inr 29"
    by (simp_all add: eval_stock)
  from adjustment_posts_row_value [OF r] demo_adj_ok obtain inventory sadj where
    e: "resolve_system_ledger 1 INVENTORY_LEDGER_CODE (gl demo_adj) = Inr inventory"
      "resolve_system_ledger 1 STOCK_ADJ_LEDGER_CODE (gl demo_adj) = Inr sadj"
    and b: "\<And>a. account_balance (gl s') a = account_balance (gl demo_adj) a
        + 3 * ((if a = ledger_id inventory then 1 else 0) - (if a = ledger_id sadj then 1 else 0))"
    by (auto simp: adj_ok_def v q org)
  from l e have "ledger_id inventory = 23" "ledger_id sadj = 29" by simp_all
  with b [of 23] b [of 29] r show ?thesis by simp
qed

text \<open>A write-down without a lot consumes lots first in, first out, and the whole quantity
  leaves stock, but the books move by the value of the first consumed row only.\<close>

theorem fifo_adjustment_posts_first_row:
  assumes "create_adjustment today now k qty DECREASE reason d cost s = Inr (s', header, row)"
    and "k_lot k = None" and "inv_ok (stock s)" and "gl_ok (gl s)"
  shows "\<exists>rows. stock_ledger (stock s') = stock_ledger (stock s) @ row # rows \<and>
    (\<Sum>r\<leftarrow>row # rows. qty_out r) = qty \<and>
    (\<Sum>l\<leftarrow>drop (length (voucher_lines (gl s))) (voucher_lines (gl s')). \<bar>signed l\<bar>)
      = (if 0 < adj_value row then 2 * adj_value row else 0)"
proof (rule create_adjustment_cases [OF assms(1)])
  fix i0 i1 dt g
  assume s': "s' = s\<lparr>stock := i1, adjustments := adjustments s @ [header], gl := g\<rparr>"
    and mv: "adj_move today k qty DECREASE cost (adj_ref (adjustment_id header) dt reason) dt i0
      = Inr (i1, row, qty_change header)"
    and m: "fst (mint (stock s)) = i0"
    and post: "if DECREASE = COUNT_RESET \<and> qty_change header = 0 then g = gl s
      else post_adjustment now (k_org k) (k_firm k) (adjustment_id header) dt reason (qty_change header) row (gl s)
        = Inr g"
  have ok0: "inv_ok i0" using m assms(3) mint_ok [of "stock s" i0] by (cases "mint (stock s)") auto
  have led: "stock_ledger i0 = stock_ledger (stock s)" using m by (auto simp: mint_def)
  from mv have rm: "remove_for_adjustment today k qty (adj_ref (adjustment_id header) dt reason) i0 = Inr (i1, row)"
    by (auto simp: adj_move_def with_change_def adjust_decrease_def split: if_splits)
  from remove_for_adjustment_effect(5) [OF rm ok0] obtain rows where
    rows: "stock_ledger i1 = stock_ledger (stock s) @ row # rows" "(\<Sum>r\<leftarrow>row # rows. qty_out r) = qty"
    by (auto simp: led)
  from post have p: "post_adjustment now (k_org k) (k_firm k) (adjustment_id header) dt reason (qty_change header) row (gl s)
      = Inr g" by simp
  have "(\<Sum>l\<leftarrow>drop (length (voucher_lines (gl s))) (voucher_lines g). \<bar>signed l\<bar>)
      = (if 0 < adj_value row then 2 * adj_value row else 0)"
    by (rule post_adjustment_cases [OF p assms(4)])
      (auto simp: posts_balanced_def posted_def signed_def)
  with rows show ?thesis by (auto simp: s')
qed

text \<open>The case that shows the gap: one unit at 2 and one at 3 leave stock, worth 5; 2 is posted.\<close>

lemma fifo_adjustment_posts_first_row_witness:
  "\<exists>s' h row rows. create_adjustment (Date 2026 5 2) demo_now (demo_key None) 2 DECREASE None None None demo_adj
      = Inr (s', h, row) \<and> stock_ledger (stock s') = stock_ledger (stock demo_adj) @ row # rows \<and>
     (\<Sum>r\<leftarrow>row # rows. qty_out r * or_zero (unit_cost r)) = 5 \<and>
     (\<Sum>l\<leftarrow>drop (length (voucher_lines (gl demo_adj))) (voucher_lines (gl s')). \<bar>signed l\<bar>) = 2 * 2"
proof -
  let ?r = "create_adjustment (Date 2026 5 2) demo_now (demo_key None) 2 DECREASE None None None demo_adj"
  have "(case ?r of Inl _ \<Rightarrow> False | Inr (s', h, row) \<Rightarrow>
      qty_in row = 0 \<and> qty_out row = 1 \<and> unit_cost row = Some 2 \<and>
      map (\<lambda>r. (qty_out r, unit_cost r)) (drop (length (stock_ledger (stock demo_adj))) (stock_ledger (stock s')))
        = [(1, Some 2), (1, Some 3)])"
    by (simp add: eval_stock)
  then obtain s' h row where r: "?r = Inr (s', h, row)"
    and row: "qty_in row = 0" "qty_out row = 1" "unit_cost row = Some 2"
    and new: "map (\<lambda>r. (qty_out r, unit_cost r)) (drop (length (stock_ledger (stock demo_adj))) (stock_ledger (stock s')))
        = [(1, Some 2), (1, Some 3)]"
    by (cases ?r) auto
  have v: "adj_value row = 2"
    by (simp add: adj_value_def row or_zero_def)
  have "k_lot (demo_key None) = None" by (simp add: demo_key_def)
  from fifo_adjustment_posts_first_row [OF r this] demo_adj_ok obtain rows where
    rows: "stock_ledger (stock s') = stock_ledger (stock demo_adj) @ row # rows"
    and gl: "(\<Sum>l\<leftarrow>drop (length (voucher_lines (gl demo_adj))) (voucher_lines (gl s')). \<bar>signed l\<bar>) = 2 * 2"
    by (auto simp: adj_ok_def v)
  have "(\<Sum>r\<leftarrow>row # rows. qty_out r * or_zero (unit_cost r))
      = (\<Sum>(q, c)\<leftarrow>map (\<lambda>r. (qty_out r, unit_cost r)) (row # rows). q * or_zero c)"
    by (simp add: o_def split_def)
  also have "\<dots> = 5" using new by (simp add: rows or_zero_def)
  finally show ?thesis using r rows gl by blast
qed

text \<open>Once a firm has used the adjustment numbers 9999 and 10000, the allocator keeps handing out
  10000, because it takes the maximum as text: every further adjustment that carries a value raises
  (and is rolled back), so the firm can post none again.\<close>

theorem stock_adj_numbers_stick:
  assumes "numbers_in_use org firm STOCK_ADJUSTMENT SADJ_SERIES s = map pad4 ks"
    and "\<forall>k \<in> set ks. k \<le> 10000" and "9999 \<in> set ks" and "10000 \<in> set ks"
    and "resolve_system_ledger org INVENTORY_LEDGER_CODE s = Inr inventory"
    and "resolve_system_ledger org STOCK_ADJ_LEDGER_CODE s = Inr sadj"
    and "0 < adj_value row"
  shows "post_adjustment now org firm i d reason change row s
    = Inl (AppValidationError ''Stock-adjustment voucher number race'')"
proof -
  have n: "allocate_stock_adj_voucher_number org firm s = pad4 10000"
    unfolding allocate_stock_adj_voucher_number_def assms(1)
    by (rule next_by_text_stuck) (use assms(2,3) in auto)
  have "pad4 10000 \<in> set (numbers_in_use org firm STOCK_ADJUSTMENT SADJ_SERIES s)"
    unfolding assms(1) using assms(4) by (metis imageI list.set_map)
  then obtain w where w: "w \<in> set (vouchers s)" "v_org w = org" "v_firm w = firm"
    "voucher_type w = STOCK_ADJUSTMENT" "v_series w = SADJ_SERIES" "v_number w = pad4 10000"
    by (auto simp: numbers_in_use_def)
  have "insert_voucher (new_voucher org firm STOCK_ADJUSTMENT SADJ_SERIES (pad4 10000) d rt ref narr party dr cr now) s
      = Inl (IntegrityError NUMBER_KEY)" for rt ref narr party dr cr
    unfolding insert_voucher_def using w by (auto simp: same_number_def intro!: bexI [of _ w])
  then show ?thesis
    using assms(5-7) by (simp add: post_adjustment_def Let_def n post_voucher_def translate_def split: if_splits)
qed


definition demo_full :: books where
  "demo_full = (gl demo_adj)\<lparr>vouchers :=
     map (\<lambda>n. new_voucher 1 2 STOCK_ADJUSTMENT SADJ_SERIES (pad4 n) (Date 2026 5 1) ''stock_adjustment'' None
       None None 1 1 demo_now) [9999, 10000]\<rparr>"

lemma stock_adj_numbers_stick_witness:
  "post_adjustment demo_now 1 2 5 (Date 2026 5 2) None 1 (demo_in None 2) demo_full
    = Inl (AppValidationError ''Stock-adjustment voucher number race'')"
proof -
  have n: "numbers_in_use 1 2 STOCK_ADJUSTMENT SADJ_SERIES demo_full = map pad4 [9999, 10000]"
    by (simp add: demo_full_def numbers_in_use_def new_voucher_def)
  have r: "resolve_system_ledger 1 INVENTORY_LEDGER_CODE demo_full = Inr (demo_account 23 ''1300'')"
    "resolve_system_ledger 1 STOCK_ADJ_LEDGER_CODE demo_full = Inr (demo_account 29 ''5350'')"
    by (simp_all add: demo_full_def eval_stock)
  have "0 < adj_value (demo_in None 2)" by (simp add: demo_in_def adj_value_def or_zero_def)
  from stock_adj_numbers_stick [OF n _ _ _ r this] show ?thesis by simp
qed

end
