(* ===== verification/Dag.thy ===== *)
theory Dag
  imports Prelude "HOL-Library.While_Combinator" "HOL-Library.Multiset"
begin

text \<open>
  The two graph algorithms of the manufacturing services: the cycle check a routing passes before it
  is stored (\<^verbatim>\<open>routing_service._detect_cycle\<close>, an iterative three-colour depth-first search) and
  the order in which a manufacturing order numbers its operations
  (\<^verbatim>\<open>mo_service._topological_order_operations\<close>, Kahn's algorithm with a sorted frontier).

  An edge list is a list of pairs of operation ids, in the order of the rows. Both algorithms are
  total: the search is a recursive function with a measure, Kahn's loop a \<open>while_option\<close> whose
  result is shown to be \<open>Some\<close>.
\<close>

type_synonym arcs = "(uuid \<times> uuid) list"

definition nodes :: "arcs \<Rightarrow> uuid set" where
  "nodes es = fst ` set es \<union> snd ` set es"

text \<open>\<^verbatim>\<open>adj.get(n, [])\<close>: the targets of \<open>n\<close>, in the order of the edges.\<close>

definition adj :: "arcs \<Rightarrow> uuid \<Rightarrow> uuid list" where
  "adj es n = map snd (filter (\<lambda>e. fst e = n) es)"

lemma finite_nodes [simp]: "finite (nodes es)"
  by (simp add: nodes_def)

lemma set_adj [simp]: "set (adj es n) = {m. (n, m) \<in> set es}"
  by (force simp: adj_def image_iff)

lemma arc_nodes: "(a, b) \<in> set es \<Longrightarrow> a \<in> nodes es \<and> b \<in> nodes es"
  by (force simp: nodes_def)

lemma adj_outside: "n \<notin> nodes es \<Longrightarrow> adj es n = []"
  by (force simp: adj_def nodes_def filter_empty_conv)

section \<open>The cycle check\<close>

text \<open>Colours as in the code: 0 unvisited, 1 on the stack, 2 done. The dictionary of colours is a
  function, which is what \<^verbatim>\<open>color.get(n, 0)\<close> reads.\<close>

type_synonym colour = "uuid \<Rightarrow> nat"
type_synonym dfs_stack = "(uuid \<times> uuid list) list"

definition dfs_weight :: "arcs \<Rightarrow> colour \<Rightarrow> dfs_stack \<Rightarrow> nat" where
  "dfs_weight es color stack =
     (\<Sum>(n, ns)\<leftarrow>stack. 1 + 2 * length ns) + (\<Sum>n | n \<in> nodes es \<and> color n = 0. 2 * length (adj es n))"

text \<open>The \<^verbatim>\<open>while stack\<close> loop: \<open>None\<close> is the early \<^verbatim>\<open>return True\<close>. The top of the stack
  is its first element; \<^verbatim>\<open>neighbors.pop()\<close> takes the last neighbour.\<close>

function dfs_loop :: "arcs \<Rightarrow> colour \<Rightarrow> dfs_stack \<Rightarrow> colour option" where
  "dfs_loop es color [] = Some color"
| "dfs_loop es color ((node, neighbors) # stack) =
     (if neighbors = [] then dfs_loop es (color(node := 2)) stack
      else
        let nxt = last neighbors; top = (node, butlast neighbors)
        in if color nxt = 1 then None
           else if color nxt = 0
           then dfs_loop es (color(nxt := 1)) ((nxt, adj es nxt) # top # stack)
           else dfs_loop es color (top # stack))"
  by pat_completeness auto

lemma white_sum_mono:
  "(\<And>n. color' n = 0 \<Longrightarrow> color n = 0) \<Longrightarrow>
   (\<Sum>n | n \<in> nodes es \<and> color' n = 0. 2 * length (adj es n))
     \<le> (\<Sum>n | n \<in> nodes es \<and> color n = 0. 2 * length (adj es n))"
  by (intro sum_mono2) (auto simp: finite_subset [OF _ finite_nodes])

lemma white_sum_push:
  fixes color :: colour
  assumes "color nxt = 0"
  shows "2 * length (adj es nxt) + (\<Sum>n | n \<in> nodes es \<and> (color(nxt := 1)) n = 0. 2 * length (adj es n))
     = (\<Sum>n | n \<in> nodes es \<and> color n = 0. 2 * length (adj es n))"
proof (cases "nxt \<in> nodes es")
  case True
  let ?W = "{n \<in> nodes es. (color(nxt := 1)) n = 0}"
  have "{n \<in> nodes es. color n = 0} = insert nxt ?W" using True assms by auto
  moreover have "(\<Sum>n\<in>insert nxt ?W. 2 * length (adj es n)) = 2 * length (adj es nxt) + (\<Sum>n\<in>?W. 2 * length (adj es n))"
    by (rule sum.insert) auto
  ultimately show ?thesis by metis
next
  case False
  have "{n \<in> nodes es. (color(nxt := 1)) n = 0} = {n \<in> nodes es. color n = 0}"
    using False by auto
  then show ?thesis using adj_outside [OF False] by simp
qed

termination dfs_loop
proof (relation "measure (\<lambda>(es, color, stack). dfs_weight es color stack)")
  fix es :: arcs and color :: colour and node :: uuid and neighbors and stack :: dfs_stack
  have "(\<Sum>n | n \<in> nodes es \<and> (color(node := 2)) n = 0. 2 * length (adj es n))
      \<le> (\<Sum>n | n \<in> nodes es \<and> color n = 0. 2 * length (adj es n))"
    by (rule white_sum_mono) (auto split: if_splits)
  then show "((es, color(node := 2), stack), (es, color, (node, neighbors) # stack))
      \<in> measure (\<lambda>(es, color, stack). dfs_weight es color stack)"
    by (simp add: dfs_weight_def)
next
  fix es :: arcs and color :: colour and node :: uuid and neighbors and stack :: dfs_stack and x and y :: "uuid \<times> uuid list"
  assume ne: "neighbors \<noteq> []" and x: "x = last neighbors" and y: "y = (node, butlast neighbors)"
    and white: "color x = 0"
  have "length neighbors = Suc (length (butlast neighbors))" using ne by (cases neighbors rule: rev_cases) auto
  with white_sum_push [of color x es] white show "((es, color(x := 1), (x, adj es x) # y # stack), (es, color, (node, neighbors) # stack))
      \<in> measure (\<lambda>(es, color, stack). dfs_weight es color stack)"
    by (simp add: dfs_weight_def y)
next
  fix es :: arcs and color :: colour and node :: uuid and neighbors and stack :: dfs_stack and x and y :: "uuid \<times> uuid list"
  assume ne: "neighbors \<noteq> []" and y: "y = (node, butlast neighbors)"
  have "length neighbors = Suc (length (butlast neighbors))" using ne by (cases neighbors rule: rev_cases) auto
  then show "((es, color, y # stack), (es, color, (node, neighbors) # stack))
      \<in> measure (\<lambda>(es, color, stack). dfs_weight es color stack)"
    by (simp add: dfs_weight_def y)
qed simp

text \<open>The \<^verbatim>\<open>for start in nodes\<close> loop; \<open>order\<close> is the order in which Python iterates the set.\<close>

fun dfs_starts :: "arcs \<Rightarrow> uuid list \<Rightarrow> colour \<Rightarrow> bool" where
  "dfs_starts es [] color = False"
| "dfs_starts es (start # rest) color =
     (if color start \<noteq> 0 then dfs_starts es rest color
      else case dfs_loop es (color(start := 1)) [(start, adj es start)] of
             None \<Rightarrow> True
           | Some color' \<Rightarrow> dfs_starts es rest color')"

definition detect_cycle :: "arcs \<Rightarrow> uuid list \<Rightarrow> bool" where
  "detect_cycle es order = (if es = [] then False else dfs_starts es order (\<lambda>_. 0))"

text \<open>
  The invariant of the search: the stack is a path, its nodes are exactly the grey ones, a node on
  the stack has left to explore every successor that is neither done nor next on the stack, and the
  done nodes are closed under successors and carry no cycle.
\<close>

fun linked :: "arcs \<Rightarrow> dfs_stack \<Rightarrow> bool" where
  "linked es [] = True"
| "linked es [(n, ns)] = (set ns \<subseteq> set (adj es n))"
| "linked es ((n, ns) # (m, ms) # st) =
     ((m, n) \<in> set es \<and> set ns \<subseteq> set (adj es n) \<and> linked es ((m, ms) # st))"

fun explored :: "arcs \<Rightarrow> colour \<Rightarrow> uuid set \<Rightarrow> dfs_stack \<Rightarrow> bool" where
  "explored es color over [] = True"
| "explored es color over ((n, ns) # st) =
     ((\<forall>m. (n, m) \<in> set es \<longrightarrow> m \<in> set ns \<or> color m = 2 \<or> m \<in> over) \<and> explored es color {n} st)"

definition done_arcs :: "arcs \<Rightarrow> colour \<Rightarrow> (uuid \<times> uuid) set" where
  "done_arcs es color = {(a, b) \<in> set es. color a = 2}"

definition dfs_inv :: "arcs \<Rightarrow> colour \<Rightarrow> dfs_stack \<Rightarrow> bool" where
  "dfs_inv es color stack \<longleftrightarrow>
     (\<forall>n. color n \<le> 2) \<and> (\<forall>n. color n = 1 \<longleftrightarrow> n \<in> fst ` set stack) \<and> distinct (map fst stack) \<and>
     linked es stack \<and> explored es color {} stack \<and>
     (\<forall>(a, b) \<in> done_arcs es color. color b = 2) \<and> acyclic (done_arcs es color)"

lemma explored_mono:
  "explored es color over st \<Longrightarrow> (\<And>n. color n = 2 \<Longrightarrow> color' n = 2) \<Longrightarrow> over \<subseteq> over' \<Longrightarrow>
   explored es color' over' st"
  by (induction st arbitrary: over over') (auto 0 4)

lemma linked_path:
  "linked es ((n, ns) # st) \<Longrightarrow> m \<in> fst ` set ((n, ns) # st) \<Longrightarrow> (m, n) \<in> (set es)\<^sup>*"
proof (induction st arbitrary: n ns)
  case (Cons p st)
  obtain k ks where p: "p = (k, ks)" by (cases p)
  show ?case
  proof (cases "m = n")
    case False
    with Cons.prems p have "m \<in> fst ` set ((k, ks) # st)" by auto
    with Cons.prems Cons.IH [of k ks] p have "(m, k) \<in> (set es)\<^sup>*" by simp
    moreover have "(k, n) \<in> set es" using Cons.prems p by simp
    ultimately show ?thesis by (rule rtrancl_into_rtrancl)
  qed simp
qed simp

lemma trancl_avoid_source:
  assumes "\<And>x. (x, n) \<notin> R" and "(x, y) \<in> R\<^sup>+"
  shows "y \<noteq> n \<and> (x = n \<or> (x, y) \<in> {(a, b) \<in> R. a \<noteq> n}\<^sup>+)"
  using assms(2)
proof (induction rule: trancl_induct)
  case (base y)
  then show ?case using assms(1) by (cases "x = n") (auto intro: r_into_trancl)
next
  case (step y z)
  then have "z \<noteq> n" using assms(1) by blast
  moreover from step have "(y, z) \<in> {(a, b) \<in> R. a \<noteq> n}" by auto
  ultimately show ?case using step.IH by (blast intro: trancl_into_trancl)
qed

lemma acyclic_new_source:
  assumes "acyclic {(a, b) \<in> R. a \<noteq> n}" and "\<And>x. (x, n) \<notin> R"
  shows "acyclic R"
  unfolding acyclic_def
proof (intro allI notI)
  fix x assume "(x, x) \<in> R\<^sup>+"
  from trancl_avoid_source [OF assms(2) this] have "(x, x) \<in> {(a, b) \<in> R. a \<noteq> n}\<^sup>+" by blast
  with assms(1) show False by (simp add: acyclic_def)
qed


declare One_nat_def [simp del]

lemma last_butlast: "ns \<noteq> [] \<Longrightarrow> set ns = insert (last ns) (set (butlast ns))"
  by (cases ns rule: rev_cases) auto

lemma linked_shrink:
  assumes "linked es ((n, ns) # st)" and "set ns' \<subseteq> set ns"
  shows "linked es ((n, ns') # st)"
proof (cases st)
  case Nil
  with assms show ?thesis by auto
next
  case (Cons p rest)
  obtain m ms where "p = (m, ms)" by (cases p)
  with assms Cons show ?thesis by (simp only: linked.simps) blast
qed

lemma linked_tl: "linked es (p # st) \<Longrightarrow> linked es st"
  by (cases p; cases st) auto

lemma linked_top: "linked es ((n, ns) # st) \<Longrightarrow> set ns \<subseteq> set (adj es n)"
  by (cases st) auto

lemma dfs_inv_pop:
  assumes inv: "dfs_inv es color ((node, []) # st)"
  shows "dfs_inv es (color(node := 2)) st"
proof -
  let ?c = "color(node := 2)"
  from inv have grey: "\<And>n. color n = 1 \<longleftrightarrow> n = node \<or> n \<in> fst ` set st"
    and dist: "node \<notin> fst ` set st" "distinct (map fst st)"
    and succ: "\<And>m. (node, m) \<in> set es \<Longrightarrow> color m = 2"
    and closed: "\<And>a b. (a, b) \<in> set es \<Longrightarrow> color a = 2 \<Longrightarrow> color b = 2"
    and acyc: "acyclic (done_arcs es color)"
    by (auto simp: dfs_inv_def done_arcs_def)
  have ncol: "color node = 1" using grey by blast
  have "{(a, b) \<in> done_arcs es ?c. a \<noteq> node} = done_arcs es color"
    using ncol by (auto simp: done_arcs_def)
  moreover have "(x, node) \<notin> done_arcs es ?c" for x
    using succ [of node] closed [of x node] ncol by (auto simp: done_arcs_def split: if_splits)
  ultimately have "acyclic (done_arcs es ?c)" using acyc by (simp add: acyclic_new_source [where n = node])
  moreover have "explored es ?c {} st"
  proof (cases st)
    case (Cons p rest)
    then have "explored es color {node} st" using inv by (simp add: dfs_inv_def)
    then show ?thesis
      using Cons by (cases p) (auto simp: intro: explored_mono [of es color "{fst p}" rest])
  qed simp
  moreover have "\<forall>(a, b) \<in> done_arcs es ?c. ?c b = 2"
    using succ closed by (auto simp: done_arcs_def)
  moreover have "linked es st" using inv linked_tl [of es "(node, [])" st] by (simp add: dfs_inv_def)
  moreover have "\<forall>n. ?c n \<le> 2" using inv by (simp add: dfs_inv_def)
  moreover have "\<forall>n. ?c n = 1 \<longleftrightarrow> n \<in> fst ` set st" using grey dist(1) by simp
  ultimately show ?thesis using dist(2) unfolding dfs_inv_def by blast
qed

lemma dfs_inv_skip:
  assumes "dfs_inv es color ((node, ns) # st)" and "ns \<noteq> []" and "color (last ns) = 2"
  shows "dfs_inv es color ((node, butlast ns) # st)"
  using assms last_butlast [of ns]
  by (auto simp: dfs_inv_def intro: linked_shrink)

lemma dfs_inv_push:
  assumes inv: "dfs_inv es color ((node, ns) # st)" and ne: "ns \<noteq> []" and white: "color (last ns) = 0"
  shows "dfs_inv es (color(last ns := 1)) ((last ns, adj es (last ns)) # (node, butlast ns) # st)"
proof -
  let ?x = "last ns" and ?c = "color(last ns := 1)"
  have lnk: "linked es ((node, ns) # st)" and ex: "explored es color {} ((node, ns) # st)"
    and grey: "\<And>n. color n = 1 \<longleftrightarrow> n = node \<or> n \<in> fst ` set st"
    using inv by (auto simp: dfs_inv_def)
  have arc: "(node, ?x) \<in> set es" using linked_top [OF lnk] last_butlast [OF ne] by auto
  have da: "done_arcs es ?c = done_arcs es color" using white by (auto simp: done_arcs_def split: if_splits)
  have keep: "\<And>n. color n = 2 \<Longrightarrow> ?c n = 2" using white by auto
  have "explored es ?c {} ((?x, adj es ?x) # (node, butlast ns) # st)"
    using ex last_butlast [OF ne] keep by (auto intro: explored_mono [of es color "{node}" st])
  moreover have "linked es ((?x, adj es ?x) # (node, butlast ns) # st)"
    using linked_shrink [OF lnk, of "butlast ns"] arc last_butlast [OF ne] by auto
  moreover have "?x \<noteq> node" "?x \<notin> fst ` set st" using grey [of ?x] white by auto
  ultimately show ?thesis
    using inv white by (auto simp: dfs_inv_def da)
qed

lemma dfs_inv_cycle:
  assumes inv: "dfs_inv es color ((node, ns) # st)" and "ns \<noteq> []" and "color (last ns) = 1"
  shows "\<not> acyclic (set es)"
proof -
  have lnk: "linked es ((node, ns) # st)" using inv by (simp add: dfs_inv_def)
  have "(node, last ns) \<in> set es" using linked_top [OF lnk] last_butlast [OF assms(2)] by auto
  moreover have "last ns \<in> fst ` set ((node, ns) # st)" using inv assms(3) unfolding dfs_inv_def by blast
  then have "(last ns, node) \<in> (set es)\<^sup>*" by (rule linked_path [OF lnk])
  ultimately show ?thesis unfolding acyclic_def by (metis rtrancl_into_trancl1)
qed

text \<open>What the loop establishes, from any state in which its invariant holds.\<close>

definition dfs_result :: "arcs \<Rightarrow> colour \<Rightarrow> dfs_stack \<Rightarrow> colour option \<Rightarrow> bool" where
  "dfs_result es color stack r =
     (case r of
        None \<Rightarrow> \<not> acyclic (set es)
      | Some color' \<Rightarrow> dfs_inv es color' [] \<and> (\<forall>n. color n = 2 \<or> n \<in> fst ` set stack \<longrightarrow> color' n = 2))"

lemma dfs_result_step:
  assumes "dfs_result es c' st' r"
    and "\<And>n. c n = 2 \<or> n \<in> fst ` set st \<Longrightarrow> c' n = 2 \<or> n \<in> fst ` set st'"
  shows "dfs_result es c st r"
proof (cases r)
  case None
  with assms(1) show ?thesis by (simp add: dfs_result_def)
next
  case (Some d)
  with assms(1) have "dfs_inv es d []" "\<And>n. c' n = 2 \<or> n \<in> fst ` set st' \<Longrightarrow> d n = 2"
    by (auto simp: dfs_result_def)
  with assms(2) Some show ?thesis unfolding dfs_result_def by simp
qed

lemma dfs_loop_correct: "dfs_inv es color stack \<Longrightarrow> dfs_result es color stack (dfs_loop es color stack)"
proof (induction es color stack rule: dfs_loop.induct)
  case (1 es color)
  then show ?case by (simp add: dfs_result_def)
next
  case (2 es color node ns st)
  show ?case
  proof (cases "ns = []")
    case True
    have "dfs_inv es (color(node := 2)) st" using dfs_inv_pop "2.prems" True by blast
    from "2.IH"(1) [OF True this]
    have "dfs_result es color ((node, ns) # st) (dfs_loop es (color(node := 2)) st)"
      by (rule dfs_result_step) auto
    with True show ?thesis by simp
  next
    case False
    have "color (last ns) \<le> 2" using "2.prems" by (simp add: dfs_inv_def)
    then consider "color (last ns) = 1" | "color (last ns) = 0" | "color (last ns) = 2" by linarith
    then show ?thesis
    proof cases
      case 1
      with dfs_inv_cycle [OF "2.prems" False] False show ?thesis by (simp add: dfs_result_def)
    next
      case c: 2
      have "dfs_result es color ((node, ns) # st)
          (dfs_loop es (color(last ns := 1)) ((last ns, adj es (last ns)) # (node, butlast ns) # st))"
        by (rule dfs_result_step [OF "2.IH"(2) [OF False refl refl _ c dfs_inv_push [OF "2.prems" False c]]])
          (use c in auto)
      with False c show ?thesis by (simp add: Let_def)
    next
      case c: 3
      have "dfs_result es color ((node, ns) # st) (dfs_loop es color ((node, butlast ns) # st))"
        by (rule dfs_result_step [OF "2.IH"(3) [OF False refl refl _ _ dfs_inv_skip [OF "2.prems" False c]]])
          (use c in auto)
      with False c show ?thesis by (simp add: Let_def)
    qed
  qed
qed

lemma dfs_inv_start:
  assumes "dfs_inv es color []" and "color start = 0"
  shows "dfs_inv es (color(start := 1)) [(start, adj es start)]"
proof -
  have "done_arcs es (color(start := 1)) = done_arcs es color" using assms(2) by (auto simp: done_arcs_def split: if_splits)
  with assms show ?thesis by (auto simp: dfs_inv_def)
qed

lemma dfs_starts_found: "dfs_inv es color [] \<Longrightarrow> dfs_starts es order color \<Longrightarrow> \<not> acyclic (set es)"
  and dfs_starts_done: "dfs_inv es color [] \<Longrightarrow> \<not> dfs_starts es order color \<Longrightarrow>
    \<exists>c. dfs_inv es c [] \<and> (\<forall>n. color n = 2 \<longrightarrow> c n = 2) \<and> (\<forall>n \<in> set order. c n = 2)"
proof (induction order arbitrary: color)
  case Nil
  { case 1
    then show ?case by simp
  next
    case 2
    then show ?case by auto }
next
  case (Cons start rest)
  have black: "color start = 2" if "color start \<noteq> 0" "dfs_inv es color []" for color
  proof -
    have "color start \<le> 2" "color start \<noteq> 1" using that(2) by (simp_all add: dfs_inv_def)
    with that(1) show ?thesis by linarith
  qed
  have step: "dfs_result es (color(start := 1)) [(start, adj es start)]
      (dfs_loop es (color(start := 1)) [(start, adj es start)])"
    if "color start = 0" "dfs_inv es color []" for color
    by (rule dfs_loop_correct [OF dfs_inv_start [OF that(2,1)]])
  { case 1
    show ?case
    proof (cases "color start = 0")
      case True
      with 1 step [OF True 1(1)] Cons.IH(1) show ?thesis
        by (auto simp: dfs_result_def simp del: dfs_loop.simps split: option.splits)
    next
      case False
      with 1 Cons.IH(1) show ?thesis by simp
    qed
  next
    case 2
    show ?case
    proof (cases "color start = 0")
      case True
      with 2 obtain c where c: "dfs_loop es (color(start := 1)) [(start, adj es start)] = Some c"
        "\<not> dfs_starts es rest c"
        by (cases "dfs_loop es (color(start := 1)) [(start, adj es start)]") (simp_all del: dfs_loop.simps)
      from step [OF True 2(1)] have "dfs_result es (color(start := 1)) [(start, adj es start)] (Some c)"
        by (simp only: c(1))
      then have inv: "dfs_inv es c []" and b: "\<And>n. n \<noteq> start \<and> color n = 2 \<or> n = start \<Longrightarrow> c n = 2"
        unfolding dfs_result_def by auto
      have keep: "\<And>n. color n = 2 \<Longrightarrow> c n = 2" and here: "c start = 2" using b by blast+
      from Cons.IH(2) [OF inv c(2)] obtain d where "dfs_inv es d []" "\<forall>n. c n = 2 \<longrightarrow> d n = 2"
        "\<forall>n \<in> set rest. d n = 2" by blast
      with here keep show ?thesis by (intro exI [of _ d]) simp
    next
      case False
      with 2 have "\<not> dfs_starts es rest color" by simp
      from Cons.IH(2) [OF 2(1) this] black [OF False 2(1)] show ?thesis by auto
    qed }
qed

lemma detect_cycle_iff:
  assumes "nodes es \<subseteq> set order"
  shows "detect_cycle es order \<longleftrightarrow> \<not> acyclic (set es)"
proof (cases "es = []")
  case True
  then show ?thesis by (simp add: detect_cycle_def acyclic_def)
next
  case False
  have "dfs_inv es (\<lambda>_. 0) []" by (simp add: dfs_inv_def done_arcs_def acyclic_def)
  note r = dfs_starts_found [OF this, of order] dfs_starts_done [OF this, of order]
  show ?thesis
  proof (cases "dfs_starts es order (\<lambda>_. 0)")
    case True
    with r(1) False show ?thesis by (simp add: detect_cycle_def)
  next
    case nofound: False
    with r(2) obtain c where c: "dfs_inv es c []" "\<forall>n \<in> set order. c n = 2" by auto
    have "done_arcs es c = set es" using c(2) assms by (auto simp: done_arcs_def dest: arc_nodes)
    with c(1) have "acyclic (set es)" by (simp add: dfs_inv_def)
    with nofound False show ?thesis by (simp add: detect_cycle_def)
  qed
qed

section \<open>The topological order\<close>

definition node_list :: "arcs \<Rightarrow> uuid list" where
  "node_list es = remdups (concat (map (\<lambda>(a, b). [a, b]) es))"

definition indegree :: "arcs \<Rightarrow> uuid \<Rightarrow> int" where
  "indegree es n = int (length (filter (\<lambda>e. snd e = n) es))"

type_synonym kahn_state = "uuid list \<times> (uuid \<Rightarrow> int) \<times> uuid list"

text \<open>The body of \<^verbatim>\<open>for nxt in adj[node]\<close>.\<close>

fun relax :: "uuid list \<times> (uuid \<Rightarrow> int) \<Rightarrow> uuid \<Rightarrow> uuid list \<times> (uuid \<Rightarrow> int)" where
  "relax (frontier, indeg) nxt =
     (let indeg' = indeg(nxt := indeg nxt - 1)
      in if indeg' nxt = 0 then (sort (frontier @ [nxt]), indeg') else (frontier, indeg'))"

fun kahn_step :: "arcs \<Rightarrow> kahn_state \<Rightarrow> kahn_state" where
  "kahn_step es ([], indeg, ordered) = ([], indeg, ordered)"
| "kahn_step es (node # rest, indeg, ordered) =
     (case foldl relax (rest, indeg) (sort (adj es node)) of
        (frontier, indeg') \<Rightarrow> (frontier, indeg', ordered @ [node]))"

definition kahn_start :: "arcs \<Rightarrow> kahn_state" where
  "kahn_start es =
     (sort (filter (\<lambda>n. indegree es n = 0) (node_list es)), indegree es, [])"

definition kahn_loop :: "arcs \<Rightarrow> kahn_state option" where
  "kahn_loop es = while_option (\<lambda>(frontier, _, _). frontier \<noteq> []) (kahn_step es) (kahn_start es)"

text \<open>\<open>None\<close> is a loop that does not end, \<open>Inl\<close> the exception.\<close>

definition topological_order :: "arcs \<Rightarrow> (error + uuid list) option" where
  "topological_order es =
     (if es = [] then Some (Inr [])
      else case kahn_loop es of
             None \<Rightarrow> None
           | Some (_, _, ordered) \<Rightarrow>
               Some (if length ordered \<noteq> length (node_list es)
                     then Inl (AppValidationError ''Routing operation graph could not be topologically ordered'')
                     else Inr ordered))"

lemma set_node_list [simp]: "set (node_list es) = nodes es"
  by (force simp: node_list_def nodes_def)

lemma distinct_node_list [simp]: "distinct (node_list es)"
  by (simp add: node_list_def)

definition before :: "uuid list \<Rightarrow> uuid \<Rightarrow> uuid \<Rightarrow> bool" where
  "before xs a b \<longleftrightarrow> (\<exists>ys zs. xs = ys @ b # zs \<and> a \<in> set ys)"

lemma before_snoc: "before xs a b \<Longrightarrow> before (xs @ [c]) a b" "a \<in> set xs \<Longrightarrow> before (xs @ [c]) a c"
  unfolding before_def by (metis append.assoc append_Cons) (metis append_Nil2)

text \<open>What one round does to the counts and the frontier.\<close>

lemma foldl_relax:
  assumes "foldl relax (f, i) xs = (f', i')" and "sorted f" and "distinct f"
    and "\<And>n. n \<in> set xs \<Longrightarrow> int (count_list xs n) \<le> i n" and "set xs \<inter> set f = {}"
  shows "i' = (\<lambda>n. i n - int (count_list xs n)) \<and> sorted f' \<and> distinct f' \<and>
    set f' = set f \<union> {n \<in> set xs. i n = int (count_list xs n)}"
  using assms
proof (induction xs arbitrary: f i)
  case (Cons x xs)
  let ?i = "i(x := i x - 1)"
  have le: "int (count_list xs n) \<le> ?i n" if "n \<in> set xs" for n
    using Cons.prems(4) [of n] that by (auto split: if_splits)
  show ?case
  proof (cases "i x = 1")
    case True
    then have "count_list xs x = 0" using Cons.prems(4) [of x] by simp
    then have x: "x \<notin> set xs" by (simp add: count_list_0_iff)
    have "foldl relax (sort (f @ [x]), ?i) xs = (f', i')" using Cons.prems(1) True by simp
    from Cons.IH [OF this _ _ le] Cons.prems(2,3,5) x
    have r: "i' = (\<lambda>n. ?i n - int (count_list xs n))" "sorted f'" "distinct f'"
      "set f' = insert x (set f) \<union> {n \<in> set xs. ?i n = int (count_list xs n)}" by auto
    have "insert x (set f) \<union> {n \<in> set xs. ?i n = int (count_list xs n)}
        = set f \<union> {n \<in> set (x # xs). i n = int (count_list (x # xs) n)}"
      using x True \<open>count_list xs x = 0\<close> by auto
    moreover have "i' = (\<lambda>n. i n - int (count_list (x # xs) n))" using r(1) by (auto simp: fun_eq_iff)
    ultimately show ?thesis using r by simp
  next
    case False
    have "foldl relax (f, ?i) xs = (f', i')" using Cons.prems(1) False by simp
    from Cons.IH [OF this Cons.prems(2,3) le] Cons.prems(5)
    have r: "i' = (\<lambda>n. ?i n - int (count_list xs n))" "sorted f'" "distinct f'"
      "set f' = set f \<union> {n \<in> set xs. ?i n = int (count_list xs n)}" by auto
    have "x \<in> set xs" if "i x = int (count_list (x # xs) x)"
      using that False by (metis add_cancel_right_left count_list.simps(2) count_notin of_nat_1 of_nat_add of_nat_0 One_nat_def of_nat_Suc)
    then have "{n \<in> set xs. ?i n = int (count_list xs n)}
        = {n \<in> set (x # xs). i n = int (count_list (x # xs) n)}" by auto
    moreover have "i' = (\<lambda>n. i n - int (count_list (x # xs) n))" using r(1) by (auto simp: fun_eq_iff)
    ultimately show ?thesis using r by simp
  qed
qed auto

definition kahn_inv :: "arcs \<Rightarrow> kahn_state \<Rightarrow> bool" where
  "kahn_inv es st = (case st of (f, i, ord) \<Rightarrow>
     distinct (ord @ f) \<and> sorted f \<and> set (ord @ f) \<subseteq> nodes es \<and>
     (\<forall>n. i n = int (length (filter (\<lambda>e. snd e = n \<and> fst e \<notin> set ord) es))) \<and>
     (\<forall>n \<in> nodes es - set ord. n \<in> set f \<longleftrightarrow> i n = 0) \<and>
     (\<forall>(a, b) \<in> set es. b \<in> set ord \<longrightarrow> before ord a b))"

lemma count_adj: "count_list (sort (adj es n)) m = length (filter (\<lambda>e. fst e = n \<and> snd e = m) es)"
proof -
  have "count_list (sort (adj es n)) m = count_list (adj es n) m"
    by (simp flip: count_mset)
  also have "\<dots> = length (filter (\<lambda>e. fst e = n \<and> snd e = m) es)"
    by (induction es) (auto simp: adj_def)
  finally show ?thesis .
qed

lemma filter_split:
  "length (filter (\<lambda>e. P e \<and> Q e) es) + length (filter (\<lambda>e. P e \<and> \<not> Q e) es) = length (filter P es)"
  by (induction es) auto

lemma kahn_inv_start: "kahn_inv es (kahn_start es)"
  by (auto simp: kahn_inv_def kahn_start_def indegree_def)

lemma kahn_inv_step:
  assumes inv: "kahn_inv es (node # rest, i, ord)"
  shows "kahn_inv es (kahn_step es (node # rest, i, ord))" and "node \<in> nodes es - set ord"
proof -
  let ?adj = "sort (adj es node)"
  from inv have dist: "distinct (ord @ node # rest)" and srt: "sorted rest"
    and sub: "set ord \<subseteq> nodes es" "node \<in> nodes es" "set rest \<subseteq> nodes es"
    and cnt: "\<And>n. i n = int (length (filter (\<lambda>e. snd e = n \<and> fst e \<notin> set ord) es))"
    and fr: "\<And>n. n \<in> nodes es \<Longrightarrow> n \<notin> set ord \<Longrightarrow> n = node \<or> n \<in> set rest \<longleftrightarrow> i n = 0"
    and ordr: "\<And>a b. (a, b) \<in> set es \<Longrightarrow> b \<in> set ord \<Longrightarrow> before ord a b"
    by (auto simp: kahn_inv_def)
  have node: "node \<notin> set ord" "node \<notin> set rest" using dist by auto
  then show "node \<in> nodes es - set ord" using sub by simp
  have split: "i n = int (length (filter (\<lambda>e. snd e = n \<and> fst e \<notin> set (ord @ [node])) es))
      + int (count_list ?adj n)" for n
  proof -
    have "(\<lambda>e. (snd e = n \<and> fst e \<notin> set ord) \<and> fst e \<noteq> node) = (\<lambda>e. snd e = n \<and> fst e \<notin> set (ord @ [node]))"
      by auto
    moreover have "(\<lambda>e. (snd e = n \<and> fst e \<notin> set ord) \<and> \<not> fst e \<noteq> node) = (\<lambda>e. fst e = node \<and> snd e = n)"
      using node by auto
    ultimately show ?thesis
      using filter_split [of "\<lambda>e. snd e = n \<and> fst e \<notin> set ord" "\<lambda>e. fst e \<noteq> node" es] cnt [of n]
      unfolding count_adj by simp
  qed
  have pos: "0 < i n" "n \<notin> set ord" "n \<noteq> node" "n \<in> nodes es" if "(node, n) \<in> set es" for n
  proof -
    have "(node, n) \<in> set (filter (\<lambda>e. snd e = n \<and> fst e \<notin> set ord) es)" using that node by simp
    then show "0 < i n" unfolding cnt by (metis length_pos_if_in_set of_nat_0_less_iff)
    show "n \<in> nodes es" using that by (simp add: arc_nodes)
    show "n \<notin> set ord" using ordr [OF that] node by (auto simp: before_def)
    have "i node = 0" using fr [OF sub(2) node(1)] by simp
    with \<open>0 < i n\<close> show "n \<noteq> node" by auto
  qed
  obtain f' i' where fold: "foldl relax (rest, i) ?adj = (f', i')" by (cases "foldl relax (rest, i) ?adj")
  have "int (count_list ?adj n) \<le> i n" for n using split [of n] by simp
  moreover have "set ?adj \<inter> set rest = {}" using pos fr by fastforce
  ultimately have r: "i' = (\<lambda>n. i n - int (count_list ?adj n))" "sorted f'" "distinct f'"
    "set f' = set rest \<union> {n. (node, n) \<in> set es \<and> i n = int (count_list ?adj n)}"
    using foldl_relax [OF fold srt] dist by auto
  have cnt': "i' n = int (length (filter (\<lambda>e. snd e = n \<and> fst e \<notin> set (ord @ [node])) es))" for n
    using split [of n] by (simp add: r(1))
  have "distinct ((ord @ [node]) @ f')" using dist r(3) pos unfolding distinct_append r(4) by auto
  moreover have "set ((ord @ [node]) @ f') \<subseteq> nodes es" using sub pos(4) by (auto simp: r(4))
  moreover have "n \<in> set f' \<longleftrightarrow> i' n = 0" if "n \<in> nodes es - set (ord @ [node])" for n
  proof -
    have n: "n \<in> nodes es" "n \<notin> set ord" "n \<noteq> node" using that by auto
    have mem: "(node, n) \<in> set es \<longleftrightarrow> count_list ?adj n \<noteq> 0" by (simp add: count_list_0_iff)
    have fr': "n \<in> set rest \<longleftrightarrow> i n = 0" using fr [OF n(1,2)] n(3) by simp
    show ?thesis
    proof (cases "(node, n) \<in> set es")
      case True
      with pos(1) [OF True] fr' show ?thesis by (simp add: r(4) r(1))
    next
      case False
      with mem fr' show ?thesis by (simp add: r(4) r(1))
    qed
  qed
  moreover have "before (ord @ [node]) a b" if "(a, b) \<in> set es" "b \<in> set (ord @ [node])" for a b
  proof (cases "b = node")
    case True
    have "i node = 0" using fr [OF sub(2) node(1)] by simp
    then have "\<not> (snd (a, b) = node \<and> fst (a, b) \<notin> set ord)"
      using that(1) unfolding cnt by (auto simp: filter_empty_conv)
    then show ?thesis using True by (simp add: before_snoc(2))
  next
    case False
    with that have "b \<in> set ord" by simp
    from before_snoc(1) [OF ordr [OF that(1) this]] show ?thesis .
  qed
  ultimately show "kahn_inv es (kahn_step es (node # rest, i, ord))"
    using r(2) cnt' by (simp add: kahn_inv_def fold) blast
qed

text \<open>The loop ends, because every round orders one more node.\<close>

lemma kahn_loop_ends: "\<exists>i ord. kahn_loop es = Some ([], i, ord) \<and> kahn_inv es ([], i, ord)"
proof -
  have "\<exists>t. kahn_loop es = Some t"
    unfolding kahn_loop_def
  proof (rule measure_while_option_Some [of "kahn_inv es" _ _ "\<lambda>(_, _, ord). card (nodes es - set ord)"])
    fix s assume s: "kahn_inv es s" and go: "case s of (f, _, _) \<Rightarrow> f \<noteq> []"
    then obtain node rest i ord where s': "s = (node # rest, i, ord)" by (cases s) (auto simp: neq_Nil_conv)
    note st = kahn_inv_step [OF s [unfolded s']]
    obtain f' i' where "foldl relax (rest, i) (sort (adj es node)) = (f', i')"
      by (cases "foldl relax (rest, i) (sort (adj es node))")
    then have "kahn_step es s = (f', i', ord @ [node])" by (simp add: s')
    moreover have "card (nodes es - set (ord @ [node])) < card (nodes es - set ord)"
      using st(2) by (intro psubset_card_mono) auto
    ultimately show "kahn_inv es (kahn_step es s) \<and>
        (case kahn_step es s of (_, _, ord) \<Rightarrow> card (nodes es - set ord))
          < (case s of (_, _, ord) \<Rightarrow> card (nodes es - set ord))"
      using st(1) by (simp add: s')
  qed (rule kahn_inv_start)
  then obtain f i ord where r: "kahn_loop es = Some (f, i, ord)" by (metis prod_cases3)
  have "f = []" using while_option_stop [OF r [unfolded kahn_loop_def]] by simp
  moreover have "kahn_inv es (f, i, ord)"
    by (rule while_option_rule [where P = "kahn_inv es", OF _ r [unfolded kahn_loop_def] kahn_inv_start])
      (auto simp: neq_Nil_conv intro: kahn_inv_step simp del: kahn_step.simps)
  ultimately show ?thesis using r by blast
qed

lemma before_acyclic:
  assumes "distinct xs" and "\<And>a b. (a, b) \<in> R \<Longrightarrow> before xs a b"
  shows "acyclic R"
proof -
  let ?pos = "\<lambda>n. length (takeWhile (\<lambda>m. m \<noteq> n) xs)"
  have "?pos a < ?pos b" if "(a, b) \<in> R" for a b
  proof -
    from assms(2) [OF that] obtain ys zs where xs: "xs = ys @ b # zs" and a: "a \<in> set ys"
      by (auto simp: before_def)
    then have b: "b \<notin> set ys" using assms(1) by simp
    then have "takeWhile (\<lambda>m. m \<noteq> b) ys = ys" by (auto simp: takeWhile_eq_all_conv)
    then have "?pos b = length ys" by (simp add: xs takeWhile_append)
    moreover have "length (takeWhile (\<lambda>m. m \<noteq> a) ys) < length ys" using a by (induction ys) auto
    then have "?pos a < length ys" using a by (simp add: xs takeWhile_append1)
    ultimately show ?thesis by simp
  qed
  then have "R \<subseteq> measure ?pos" by auto
  then show ?thesis by (rule acyclic_subset [OF wf_acyclic [OF wf_measure]])
qed

lemma acyclic_source:
  assumes "acyclic (set es)" and "M \<noteq> {}" and "M \<subseteq> nodes es"
  obtains n where "n \<in> M" and "\<And>m. m \<in> M \<Longrightarrow> (m, n) \<notin> set es"
proof -
  have "wf (set es)" using assms(1) by (simp add: finite_acyclic_wf)
  then show thesis using assms(2) that unfolding wf_eq_minimal by (metis ex_in_conv)
qed

lemma topological_order_spec:
  "\<exists>r. topological_order es = Some r \<and>
    (if acyclic (set es)
     then \<exists>ord. r = Inr ord \<and> distinct ord \<and> set ord = nodes es \<and> (\<forall>(a, b) \<in> set es. before ord a b)
     else \<exists>e. r = Inl e)"
proof (cases "es = []")
  case True
  then show ?thesis by (simp add: topological_order_def nodes_def acyclic_def)
next
  case False
  obtain i ord where loop: "kahn_loop es = Some ([], i, ord)" and inv: "kahn_inv es ([], i, ord)"
    using kahn_loop_ends by blast
  from inv have d: "distinct ord" and sub: "set ord \<subseteq> nodes es"
    and cnt: "\<And>n. n \<in> nodes es \<Longrightarrow> n \<notin> set ord \<Longrightarrow> i n \<noteq> 0"
    and i: "\<And>n. i n = int (length (filter (\<lambda>e. snd e = n \<and> fst e \<notin> set ord) es))"
    and ordr: "\<forall>(a, b) \<in> set es. b \<in> set ord \<longrightarrow> before ord a b"
    by (auto simp: kahn_inv_def)
  have "length ord = card (set ord)" "length (node_list es) = card (nodes es)"
    using d distinct_card [of ord] distinct_card [of "node_list es"] by simp_all
  then have len: "length ord = length (node_list es) \<longleftrightarrow> set ord = nodes es"
    using sub card_subset_eq [OF finite_nodes sub] by auto
  show ?thesis
  proof (cases "acyclic (set es)")
    case True
    have "set ord = nodes es"
    proof (rule ccontr)
      assume "set ord \<noteq> nodes es"
      then have "nodes es - set ord \<noteq> {}" using sub by auto
      from acyclic_source [OF True this] obtain n where n: "n \<in> nodes es - set ord"
        and src: "\<And>m. m \<in> nodes es - set ord \<Longrightarrow> (m, n) \<notin> set es" by auto
      have "filter (\<lambda>e. snd e = n \<and> fst e \<notin> set ord) es = []"
        using src arc_nodes by (fastforce simp: filter_empty_conv)
      with i [of n] cnt [of n] n show False by simp
    qed
    with ordr have "\<forall>(a, b) \<in> set es. before ord a b" by (auto dest: arc_nodes)
    with True False loop len d \<open>set ord = nodes es\<close> show ?thesis by (simp add: topological_order_def)
  next
    case cyc: False
    have "set ord \<noteq> nodes es"
    proof
      assume "set ord = nodes es"
      with ordr have "before ord a b" if "(a, b) \<in> set es" for a b using that by (auto dest: arc_nodes)
      with before_acyclic [OF d] cyc show False by blast
    qed
    with cyc False loop len show ?thesis by (simp add: topological_order_def)
  qed
qed

declare One_nat_def [simp]

end
