(* ===== verification/JobWork.thy ===== *)
theory JobWork
  imports Inventory Numbering
begin

text \<open>
  Job work, \<^verbatim>\<open>app/service/jobwork_service.py\<close>: a send-out challan moves stock from the firm's
  MAIN location to its JOBWORK location at the carried cost, a receive-back moves what came back to
  MAIN and writes the wastage off. The state is the stock tables of \<open>Inventory\<close> with the parties,
  the challans, their lines and the receipts. Units of measure, the free-text operation and the
  audit log are not modelled.
\<close>

section \<open>State\<close>

datatype JobWorkOrderStatus = DRAFT | SENT | PARTIAL_RECEIVED | CLOSED | CANCELLED

record party_row =
  party_id :: uuid
  party_org :: uuid
  is_karigar :: bool
  party_deleted :: bool

record jwo =
  jwo_id :: uuid
  jwo_org :: uuid
  jwo_firm :: uuid
  jwo_karigar :: uuid
  jwo_series :: string
  jwo_number :: string
  challan_date :: date
  jwo_status :: JobWorkOrderStatus
  from_location :: uuid
  to_location :: uuid
  jwo_deleted :: bool

record jwo_line =
  jwl_id :: uuid
  jwl_org :: uuid
  jwl_firm :: uuid
  jwl_jwo :: uuid
  jwl_no :: nat
  jwl_item :: uuid
  jwl_lot :: "uuid option"
  qty_sent :: decimal
  jwl_received :: decimal
  jwl_wastage :: decimal
  jwl_notes :: "string option"
  jwl_deleted :: bool

record jw_receipt =
  jwr_id :: uuid
  jwr_org :: uuid
  jwr_firm :: uuid
  jwr_jwo :: uuid
  receipt_date :: date

record jw_receipt_line =
  jrl_receipt :: uuid
  jrl_jwo_line :: uuid
  jrl_no :: nat
  jrl_item :: uuid
  jrl_received :: decimal
  jrl_wastage :: decimal

record jobwork =
  jw_stock :: inv
  parties :: "party_row list"
  jwos :: "jwo list"
  jwo_lines :: "jwo_line list"
  jw_receipts :: "jw_receipt list"
  jw_receipt_lines :: "jw_receipt_line list"

text \<open>The entries of a request: what to send, and what came back of a line.\<close>

record send_line =
  snd_item :: uuid
  snd_qty :: decimal
  snd_lot :: "uuid option"
  snd_notes :: "string option"

record return_line =
  ret_line :: uuid
  ret_received :: decimal
  ret_wastage :: decimal

section \<open>Guards and lookups\<close>

text \<open>Unlike the guard of \<open>Inventory\<close> this one also finds a deleted firm.\<close>

definition ensure_firm_in_org :: "uuid \<Rightarrow> uuid \<Rightarrow> jobwork \<Rightarrow> error + firm_row" where
  "ensure_firm_in_org org firm s =
     bindE (scalar_one_or_none
              (filter (\<lambda>f. firm_id f = firm \<and> firm_org f = org) (firms (jw_stock s))))
       (\<lambda>r. case r of None \<Rightarrow> Inl (AppValidationError ''Firm not found in this org'') | Some f \<Rightarrow> Inr f)"

definition ensure_karigar :: "uuid \<Rightarrow> uuid \<Rightarrow> jobwork \<Rightarrow> error + party_row" where
  "ensure_karigar org pid s =
     bindE (scalar_one_or_none
              (filter (\<lambda>p. party_id p = pid \<and> party_org p = org \<and> \<not> party_deleted p) (parties s)))
       (\<lambda>r. case r of
          None \<Rightarrow> Inl (AppValidationError ''Party not found in this org'')
        | Some p \<Rightarrow> if is_karigar p then Inr p
                    else Inl (AppValidationError ''Party is not flagged as a karigar''))"

definition ensure_items_in_org :: "uuid \<Rightarrow> uuid list \<Rightarrow> jobwork \<Rightarrow> error + unit" where
  "ensure_items_in_org org ids s =
     guardE (\<forall>i \<in> set ids. \<exists>r \<in> set (items (jw_stock s)). item_id r = i \<and> item_org r = org \<and> \<not> item_deleted r)
       (AppValidationError ''Items not found in this org'')"

definition get_or_create_jobwork_location :: "uuid \<Rightarrow> uuid \<Rightarrow> inv \<Rightarrow> error + inv \<times> location_row" where
  "get_or_create_jobwork_location org firm s =
     bindE (find_location_by_code org firm ''JOBWORK'' s) (\<lambda>existing.
       case existing of
         Some l \<Rightarrow> Inr (s, l)
       | None \<Rightarrow> Inr (new_location org firm ''JOBWORK'' ''Job-work at karigar'' IN_TRANSIT s))"

definition jwo_numbers :: "uuid \<Rightarrow> uuid \<Rightarrow> string \<Rightarrow> jobwork \<Rightarrow> string list" where
  "jwo_numbers org firm series s =
     map jwo_number (filter (\<lambda>j. jwo_org j = org \<and> jwo_firm j = firm \<and> jwo_series j = series) (jwos s))"

definition allocate_jwo_number :: "uuid \<Rightarrow> uuid \<Rightarrow> string \<Rightarrow> jobwork \<Rightarrow> string" where
  "allocate_jwo_number org firm series s = next_by_text (jwo_numbers org firm series s)"

text \<open>\<^verbatim>\<open>f"JW/{fy_start}-{fy_end_short:02d}"\<close> for years of four digits.\<close>

definition pad2 :: "nat \<Rightarrow> string" where
  "pad2 n = replicate (2 - length (dec_string n)) (digit_char 0) @ dec_string n"

definition fy_start :: "date \<Rightarrow> firm_row \<Rightarrow> int" where
  "fy_start d f =
     (let m = (case fy_start_month f of None \<Rightarrow> 4 | Some m \<Rightarrow> if m = 0 then 4 else m)
      in if month d \<ge> m then year d else year d - 1)"

definition default_series :: "date \<Rightarrow> firm_row \<Rightarrow> string" where
  "default_series d f =
     (let y = fy_start d f
      in ''JW/'' @ dec_string (nat y) @ ''-'' @ pad2 (nat ((y + 1) mod 100)))"

definition get_jwo :: "uuid \<Rightarrow> uuid \<Rightarrow> jobwork \<Rightarrow> error + jwo option" where
  "get_jwo org i s =
     scalar_one_or_none (filter (\<lambda>j. jwo_id j = i \<and> jwo_org j = org \<and> \<not> jwo_deleted j) (jwos s))"

definition get_jwo_lines :: "uuid \<Rightarrow> jobwork \<Rightarrow> jwo_line list" where
  "get_jwo_lines i s = sort_key jwl_no (filter (\<lambda>l. jwl_jwo l = i \<and> \<not> jwl_deleted l) (jwo_lines s))"

section \<open>Send-out\<close>

definition JWO_NUMBER_KEY :: string where
  "JWO_NUMBER_KEY = ''job_work_order_org_firm_series_number_key''"

text \<open>The flush of a challan: the unique key is checked, the id minted.\<close>

definition insert_jwo :: "jwo \<Rightarrow> jobwork \<Rightarrow> error + jobwork \<times> jwo" where
  "insert_jwo j s =
     (if \<exists>w \<in> set (jwos s). jwo_org w = jwo_org j \<and> jwo_firm w = jwo_firm j \<and>
                             jwo_series w = jwo_series j \<and> jwo_number w = jwo_number j
      then Inl (IntegrityError JWO_NUMBER_KEY)
      else case mint (jw_stock s) of (st, i) \<Rightarrow>
             let j' = j\<lparr>jwo_id := i\<rparr> in Inr (s\<lparr>jw_stock := st, jwos := jwos s @ [j']\<rparr>, j'))"

definition line_key :: "jwo \<Rightarrow> uuid \<Rightarrow> uuid \<Rightarrow> uuid option \<Rightarrow> stock_key" where
  "line_key j item loc lot =
     \<lparr>k_org = jwo_org j, k_firm = jwo_firm j, k_item = item, k_location = loc, k_lot = lot\<rparr>"

definition challan_ref :: "string \<Rightarrow> uuid \<Rightarrow> date \<Rightarrow> jwo \<Rightarrow> string \<Rightarrow> movement_ref" where
  "challan_ref ty i d j what =
     \<lparr>mv_type = ty, mv_id = i, mv_date = Some d,
      mv_notes = Some (''JWO '' @ jwo_series j @ ''/'' @ jwo_number j @ what)\<rparr>"

definition new_line :: "jwo \<Rightarrow> nat \<Rightarrow> uuid \<Rightarrow> send_line \<Rightarrow> jwo_line" where
  "new_line j idx i l =
     \<lparr>jwl_id = i, jwl_org = jwo_org j, jwl_firm = jwo_firm j, jwl_jwo = jwo_id j,
      jwl_no = Suc idx, jwl_item = snd_item l, jwl_lot = snd_lot l, qty_sent = snd_qty l,
      jwl_received = 0, jwl_wastage = 0, jwl_notes = snd_notes l, jwl_deleted = False\<rparr>"

definition send_one :: "date \<Rightarrow> jwo \<Rightarrow> nat \<Rightarrow> send_line \<Rightarrow> jobwork \<Rightarrow> error + jobwork" where
  "send_one today j idx l s =
     bindE (guardE (\<not> snd_qty l \<le> 0) (AppValidationError ''qty_sent must be > 0'')) (\<lambda>_.
     case mint (jw_stock s) of (st, i) \<Rightarrow>
     let row = new_line j idx i l;
         kf = line_key j (snd_item l) (from_location j) (snd_lot l);
         kt = line_key j (snd_item l) (to_location j) (snd_lot l)
     in bindE (remove_stock today kf (snd_qty l)
                 (challan_ref ''JOB_WORK_SEND'' i (challan_date j) j '' send-out'') st) (\<lambda>(st1, _).
        bindE (get_position kf st1) (\<lambda>main_pos.
        bindE (add_stock today kt (snd_qty l) (position_cost main_pos)
                 (challan_ref ''JOB_WORK_SEND'' i (challan_date j) j '' send-out (at karigar)'') st1)
          (\<lambda>(st2, _). Inr (s\<lparr>jw_stock := st2, jwo_lines := jwo_lines s @ [row]\<rparr>)))))"

fun send_all :: "date \<Rightarrow> jwo \<Rightarrow> nat \<Rightarrow> send_line list \<Rightarrow> jobwork \<Rightarrow> error + jobwork" where
  "send_all today j idx [] s = Inr s"
| "send_all today j idx (l # ls) s = bindE (send_one today j idx l s) (send_all today j (Suc idx) ls)"

definition new_jwo :: "uuid \<Rightarrow> uuid \<Rightarrow> uuid \<Rightarrow> string \<Rightarrow> string \<Rightarrow> date \<Rightarrow> uuid \<Rightarrow> uuid \<Rightarrow> jwo" where
  "new_jwo org firm karigar series number d from_loc to_loc =
     \<lparr>jwo_id = 0, jwo_org = org, jwo_firm = firm, jwo_karigar = karigar, jwo_series = series,
      jwo_number = number, challan_date = d, jwo_status = SENT, from_location = from_loc,
      to_location = to_loc, jwo_deleted = False\<rparr>"

definition create_send_out ::
  "date \<Rightarrow> uuid \<Rightarrow> uuid \<Rightarrow> uuid \<Rightarrow> date \<Rightarrow> send_line list \<Rightarrow> string option \<Rightarrow> jobwork
   \<Rightarrow> error + jobwork \<times> jwo" where
  "create_send_out today org firm karigar d lines series s =
     bindE (guardE (lines \<noteq> []) (AppValidationError ''JobWorkOrder must have at least one line'')) (\<lambda>_.
     bindE (ensure_firm_in_org org firm s) (\<lambda>f.
     bindE (ensure_karigar org karigar s) (\<lambda>_.
     bindE (ensure_items_in_org org (map snd_item lines) s) (\<lambda>_.
     bindE (get_or_create_default_location org firm (jw_stock s)) (\<lambda>(st1, from_loc).
     bindE (get_or_create_jobwork_location org firm st1) (\<lambda>(st2, to_loc).
     let series_str = (case series of Some t \<Rightarrow> if t = [] then default_series d f else t
                                    | None \<Rightarrow> default_series d f);
         j = new_jwo org firm karigar series_str (allocate_jwo_number org firm series_str s) d
               (location_id from_loc) (location_id to_loc)
     in bindE (insert_jwo j (s\<lparr>jw_stock := st2\<rparr>)) (\<lambda>(s1, j1).
        bindE (send_all today j1 0 lines s1) (\<lambda>s2. Inr (s2, j1)))))))))"

section \<open>Receive-back\<close>

definition open_qty :: "jwo_line \<Rightarrow> decimal" where
  "open_qty l = qty_sent l - jwl_received l - jwl_wastage l"

text \<open>One entry of the validation pass; all entries are checked against the tallies before the
  receipt.\<close>

definition check_return :: "jwo_line list \<Rightarrow> return_line \<Rightarrow> error + unit" where
  "check_return ls r =
     (if ret_received r < 0 \<or> ret_wastage r < 0
      then Inl (AppValidationError ''qty_received and qty_wastage must be >= 0'')
      else if ret_received r = 0 \<and> ret_wastage r = 0 then Inr ()
      else case find (\<lambda>l. jwl_id l = ret_line r) ls of
             None \<Rightarrow> Inl (AppValidationError ''does not belong to JWO'')
           | Some l \<Rightarrow>
               if ret_received r + ret_wastage r > open_qty l
               then Inl (AppValidationError ''exceeds open qty'') else Inr ())"

definition blank_return :: "return_line \<Rightarrow> bool" where
  "blank_return r \<longleftrightarrow> ret_received r = 0 \<and> ret_wastage r = 0"

definition tally :: "return_line \<Rightarrow> jwo_line \<Rightarrow> jwo_line" where
  "tally r l = l\<lparr>jwl_received := jwl_received l + ret_received r,
                jwl_wastage := jwl_wastage l + ret_wastage r\<rparr>"

definition return_one ::
  "date \<Rightarrow> jwo \<Rightarrow> jw_receipt \<Rightarrow> nat \<Rightarrow> return_line \<Rightarrow> jobwork \<Rightarrow> error + jobwork" where
  "return_one today j rcpt no r s =
     (case find (\<lambda>l. jwl_id l = ret_line r) (get_jwo_lines (jwo_id j) s) of
        None \<Rightarrow> Inl KeyError
      | Some l \<Rightarrow>
          let kt = line_key j (jwl_item l) (to_location j) (jwl_lot l);
              kf = line_key j (jwl_item l) (from_location j) (jwl_lot l);
              row = \<lparr>jrl_receipt = jwr_id rcpt, jrl_jwo_line = ret_line r, jrl_no = no,
                     jrl_item = jwl_item l, jrl_received = ret_received r, jrl_wastage = ret_wastage r\<rparr>;
              d = receipt_date rcpt
          in bindE (get_position kt (jw_stock s)) (\<lambda>jobwork_pos.
             bindE (remove_stock today kt (ret_received r + ret_wastage r)
                      (challan_ref ''JOB_WORK_RECEIVE'' (jwr_id rcpt) d j '' receive-back'') (jw_stock s))
               (\<lambda>(st1, _).
             bindE (if ret_received r > 0
                    then bindE (add_stock today kf (ret_received r) (position_cost jobwork_pos)
                                  (challan_ref ''JOB_WORK_RECEIVE'' (jwr_id rcpt) d j
                                     '' receive-back (to MAIN)'') st1) (\<lambda>(st2, _). Inr st2)
                    else Inr st1)
               (\<lambda>st2. Inr (s\<lparr>jw_stock := st2, jw_receipt_lines := jw_receipt_lines s @ [row],
                             jwo_lines := update_where (\<lambda>m. jwl_id m = jwl_id l) (tally r) (jwo_lines s)\<rparr>)))))"

fun return_all ::
  "date \<Rightarrow> jwo \<Rightarrow> jw_receipt \<Rightarrow> nat \<Rightarrow> return_line list \<Rightarrow> jobwork \<Rightarrow> error + jobwork" where
  "return_all today j rcpt no [] s = Inr s"
| "return_all today j rcpt no (r # rs) s =
     (if blank_return r then return_all today j rcpt no rs s
      else bindE (return_one today j rcpt (Suc no) r s) (return_all today j rcpt (Suc no) rs))"

definition accounted :: "jwo_line \<Rightarrow> bool" where
  "accounted l \<longleftrightarrow> jwl_received l + jwl_wastage l \<ge> qty_sent l"

definition receive_back ::
  "date \<Rightarrow> uuid \<Rightarrow> uuid \<Rightarrow> uuid \<Rightarrow> date \<Rightarrow> return_line list \<Rightarrow> jobwork
   \<Rightarrow> error + jobwork \<times> jw_receipt" where
  "receive_back today org firm i d lines s =
     bindE (guardE (lines \<noteq> []) (AppValidationError ''Receive-back must have at least one line'')) (\<lambda>_.
     bindE (ensure_firm_in_org org firm s) (\<lambda>_.
     bindE (get_jwo org i s) (\<lambda>found.
     case found of
       None \<Rightarrow> Inl (AppValidationError ''JobWorkOrder not found'')
     | Some j \<Rightarrow>
         bindE (guardE (jwo_firm j = firm) (AppValidationError ''belongs to a different firm'')) (\<lambda>_.
         bindE (guardE (jwo_status j \<in> {SENT, PARTIAL_RECEIVED})
                  (InvoiceStateError ''Cannot receive against JWO'')) (\<lambda>_.
         bindE (mapE (check_return (get_jwo_lines i s)) lines) (\<lambda>_.
         bindE (guardE (\<exists>r \<in> set lines. \<not> blank_return r)
                  (AppValidationError ''must record at least one non-zero qty'')) (\<lambda>_.
         case mint (jw_stock s) of (st, rid) \<Rightarrow>
         let rcpt = \<lparr>jwr_id = rid, jwr_org = org, jwr_firm = firm, jwr_jwo = i, receipt_date = d\<rparr>
         in bindE (return_all today j rcpt 0 lines
                     (s\<lparr>jw_stock := st, jw_receipts := jw_receipts s @ [rcpt]\<rparr>)) (\<lambda>s1.
            let status = (if \<forall>l \<in> set (get_jwo_lines i s1). accounted l then CLOSED else PARTIAL_RECEIVED)
            in Inr (s1\<lparr>jwos := update_where (\<lambda>w. jwo_id w = i) (\<lambda>w. w\<lparr>jwo_status := status\<rparr>) (jwos s1)\<rparr>,
                    rcpt)))))))))"

end
