(* ===== verification/JobWorkProps.thy ===== *)
theory JobWorkProps
  imports JobWork
begin

text \<open>
  What job work guarantees: the stock of an item is conserved across the two locations but for the
  wastage, a challan's tallies stay within what was sent, its status says whether everything is
  accounted for; and how a receipt that names a line twice escapes the check.
\<close>

section \<open>Stock held, over a set of keys\<close>

definition held :: "(stock_key \<Rightarrow> bool) \<Rightarrow> inv \<Rightarrow> decimal" where
  "held P s = (\<Sum>k | k \<in> pos_key ` set (positions s) \<and> P k. on_hand s k)"

lemma on_hand_outside: "k \<notin> pos_key ` set (positions s) \<Longrightarrow> on_hand s k = 0"
proof -
  assume "k \<notin> pos_key ` set (positions s)"
  then have "position_rows k s = []" by (auto simp: position_rows_def filter_empty_conv)
  then show ?thesis by (simp add: on_hand_def)
qed

lemma held_over:
  assumes "finite K" and "pos_key ` set (positions s) \<subseteq> K"
  shows "held P s = (\<Sum>k | k \<in> K \<and> P k. on_hand s k)"
  unfolding held_def using assms on_hand_outside [of _ s] by (intro sum.mono_neutral_left) auto

lemma held_booked:
  assumes "booked s s' k q"
  shows "held P s' = held P s + (if P k then q else 0)"
proof -
  define K where "K = insert k (pos_key ` set (positions s) \<union> pos_key ` set (positions s'))"
  have K: "finite K" "pos_key ` set (positions s) \<subseteq> K" "pos_key ` set (positions s') \<subseteq> K" "k \<in> K"
    by (auto simp: K_def)
  have "on_hand s' = (on_hand s)(k := on_hand s k + q)" using assms by (simp add: booked_def)
  then have "(\<Sum>j | j \<in> K \<and> P j. on_hand s' j) = (\<Sum>j | j \<in> K \<and> P j. on_hand s j + (if j = k then q else 0))"
    by (intro sum.cong) auto
  also have "\<dots> = (\<Sum>j | j \<in> K \<and> P j. on_hand s j) + (\<Sum>j | j \<in> K \<and> P j. if j = k then q else 0)"
    by (rule sum.distrib)
  also have "(\<Sum>j | j \<in> K \<and> P j. if j = k then q else 0) = (if P k then q else 0)"
    using K(1,4) by (simp add: sum.delta')
  finally show ?thesis by (simp add: held_over [OF K(1,2)] held_over [OF K(1,3)])
qed

lemma held_same: "positions s' = positions s \<Longrightarrow> held P s' = held P s"
  by (simp add: held_def on_hand_def position_rows_def)

lemma held_key: "held (\<lambda>j. j = k) s = on_hand s k"
proof (cases "k \<in> pos_key ` set (positions s)")
  case True
  then have "{j. j \<in> pos_key ` set (positions s) \<and> j = k} = {k}" by auto
  then show ?thesis by (simp add: held_def)
next
  case False
  then have "{j. j \<in> pos_key ` set (positions s) \<and> j = k} = {}" by auto
  then show ?thesis using on_hand_outside [OF False] by (simp add: held_def)
qed

section \<open>Frames\<close>

lemma mint_tables: "mint s = (s', i) \<Longrightarrow> positions s' = positions s \<and> stock_ledger s' = stock_ledger s"
  by (auto simp: mint_def)

lemma mint_inv_ok: "mint s = (s', i) \<Longrightarrow> inv_ok s \<Longrightarrow> inv_ok s'"
  by (rule same_tables_ok) (auto simp: mint_def)

lemma new_location_tables:
  "new_location org firm code name ty s = (s', l) \<Longrightarrow> positions s' = positions s \<and> stock_ledger s' = stock_ledger s"
  by (auto simp: new_location_def mint_def Let_def)

lemma default_location_tables:
  "get_or_create_default_location org firm s = Inr (s', l) \<Longrightarrow> positions s' = positions s \<and> stock_ledger s' = stock_ledger s"
  by (auto simp: get_or_create_default_location_def dest: new_location_tables split: option.splits)

lemma jobwork_location_tables:
  "get_or_create_jobwork_location org firm s = Inr (s', l) \<Longrightarrow> positions s' = positions s \<and> stock_ledger s' = stock_ledger s"
  by (auto simp: get_or_create_jobwork_location_def dest: new_location_tables split: option.splits)

lemmas table_frames = mint_tables default_location_tables jobwork_location_tables

section \<open>Send-out\<close>

text \<open>\<open>anywhere P\<close>: the predicate does not look at the location.\<close>

definition anywhere :: "(stock_key \<Rightarrow> bool) \<Rightarrow> bool" where
  "anywhere P \<longleftrightarrow> (\<forall>k l. P (k\<lparr>k_location := l\<rparr>) = P k)"

lemma anywhere_line_key: "anywhere P \<Longrightarrow> P (line_key j i l t) = P (line_key j i l' t)"
proof -
  assume "anywhere P"
  then have "P ((line_key j i l t)\<lparr>k_location := l'\<rparr>) = P (line_key j i l t)" by (simp only: anywhere_def)
  then show ?thesis by (simp add: line_key_def)
qed

text \<open>What the entries of a challan put at one of its two locations, over the keys a predicate picks.\<close>

definition shipped :: "(stock_key \<Rightarrow> bool) \<Rightarrow> jwo \<Rightarrow> uuid \<Rightarrow> send_line list \<Rightarrow> decimal" where
  "shipped P j loc ls = (\<Sum>l\<leftarrow>ls. if P (line_key j (snd_item l) loc (snd_lot l)) then snd_qty l else 0)"

lemma shipped_Cons: "shipped P j loc (l # ls) =
    (if P (line_key j (snd_item l) loc (snd_lot l)) then snd_qty l else 0) + shipped P j loc ls"
  by (simp add: shipped_def)

lemma shipped_anywhere: "anywhere P \<Longrightarrow> shipped P j loc ls = shipped P j loc' ls"
  by (simp add: shipped_def anywhere_line_key [of P j _ loc _ loc'])

lemma send_one_effect:
  assumes "send_one today j idx l s = Inr s'" and ok: "inv_ok (jw_stock s)"
  shows "inv_ok (jw_stock s')"
    and "held P (jw_stock s') = held P (jw_stock s) - shipped P j (from_location j) [l] + shipped P j (to_location j) [l]"
    and "0 < snd_qty l"
    and "\<exists>i. jwo_lines s' = jwo_lines s @ [new_line j idx i l]"
    and "jwos s' = jwos s"
proof -
  let ?kf = "line_key j (snd_item l) (from_location j) (snd_lot l)"
  let ?kt = "line_key j (snd_item l) (to_location j) (snd_lot l)"
  obtain st i where m: "mint (jw_stock s) = (st, i)" by (cases "mint (jw_stock s)")
  from assms(1) m obtain st1 r1 c ref ref' st2 r2 where pos: "0 < snd_qty l"
    and out: "remove_stock today ?kf (snd_qty l) ref st = Inr (st1, r1)"
    and inn: "add_stock today ?kt (snd_qty l) c ref' st1 = Inr (st2, r2)"
    and s': "s' = s\<lparr>jw_stock := st2, jwo_lines := jwo_lines s @ [new_line j idx i l]\<rparr>"
    by (auto simp: send_one_def Let_def)
  have ok0: "inv_ok st" by (rule mint_inv_ok [OF m ok])
  note ok1 = remove_stock_ok [OF out ok0]
  note ok2 = add_stock_ok [OF inn ok1]
  note b = remove_stock_effect(1) [OF out inv_ok_parts(1) [OF ok0]]
    add_stock_effect(1) [OF inn inv_ok_parts(1) [OF ok1]]
  have "held P st = held P (jw_stock s)" by (rule held_same) (simp add: mint_tables [OF m])
  then show "held P (jw_stock s')
      = held P (jw_stock s) - shipped P j (from_location j) [l] + shipped P j (to_location j) [l]"
    by (simp add: s' shipped_def held_booked [OF b(2)] held_booked [OF b(1)])
  show "inv_ok (jw_stock s')" using ok2 by (simp add: s')
  show "0 < snd_qty l" by (rule pos)
  show "\<exists>i. jwo_lines s' = jwo_lines s @ [new_line j idx i l]"
    by (rule exI [of _ i]) (simp add: s')
  show "jwos s' = jwos s" by (simp add: s')
qed

lemma send_all_effect:
  "send_all today j idx ls s = Inr s' \<Longrightarrow> inv_ok (jw_stock s) \<Longrightarrow>
   inv_ok (jw_stock s') \<and>
   held P (jw_stock s') = held P (jw_stock s) - shipped P j (from_location j) ls + shipped P j (to_location j) ls \<and>
   (\<forall>l \<in> set ls. 0 < snd_qty l) \<and> jwos s' = jwos s \<and>
   (\<exists>new. jwo_lines s' = jwo_lines s @ new \<and> map jwl_item new = map snd_item ls \<and>
     map jwl_lot new = map snd_lot ls \<and> map qty_sent new = map snd_qty ls \<and>
     (\<forall>l \<in> set new. jwl_jwo l = jwo_id j \<and> jwl_received l = 0 \<and> jwl_wastage l = 0 \<and> \<not> jwl_deleted l))"
proof (induction today j idx ls s rule: send_all.induct)
  case (1 today j idx s)
  then show ?case by (simp add: shipped_def)
next
  case (2 today j idx l ls s)
  from 2(2) obtain s1 where one: "send_one today j idx l s = Inr s1"
    and rest: "send_all today j (Suc idx) ls s1 = Inr s'" by auto
  note e = send_one_effect [OF one 2(3)]
  from e(4) obtain r where r: "jwo_lines s1 = jwo_lines s @ [r]" "jwl_item r = snd_item l" "jwl_lot r = snd_lot l"
    "qty_sent r = snd_qty l" "jwl_jwo r = jwo_id j" "jwl_received r = 0" "jwl_wastage r = 0" "\<not> jwl_deleted r"
    by (auto simp: new_line_def)
  note ih = "2.IH" [OF rest e(1)]
  from ih obtain new where n: "jwo_lines s' = jwo_lines s1 @ new"
    "map jwl_item new = map snd_item ls" "map jwl_lot new = map snd_lot ls" "map qty_sent new = map snd_qty ls"
    "\<forall>l \<in> set new. jwl_jwo l = jwo_id j \<and> jwl_received l = 0 \<and> jwl_wastage l = 0 \<and> \<not> jwl_deleted l"
    by blast
  have h: "held P (jw_stock s')
      = held P (jw_stock s) - shipped P j (from_location j) (l # ls) + shipped P j (to_location j) (l # ls)"
    using ih e(2) [of P] by (simp add: shipped_def)
  have q: "\<forall>x \<in> set (l # ls). 0 < snd_qty x" using ih e(3) by auto
  have w: "jwos s' = jwos s" using ih e(5) by simp
  show ?case
    by (intro conjI exI [of _ "r # new"]) (use ih h q w r n in \<open>simp_all\<close>)
qed


text \<open>The two locations of a challan: the firm's MAIN and its JOBWORK, found or made.\<close>

definition challan_locations :: "uuid \<Rightarrow> uuid \<Rightarrow> jwo \<Rightarrow> jobwork \<Rightarrow> bool" where
  "challan_locations org firm j s \<longleftrightarrow>
     (\<exists>st1 src st2 dst. get_or_create_default_location org firm (jw_stock s) = Inr (st1, src) \<and>
        get_or_create_jobwork_location org firm st1 = Inr (st2, dst) \<and>
        from_location j = location_id src \<and> location_code src = ''MAIN'' \<and>
        to_location j = location_id dst \<and> location_code dst = ''JOBWORK'' \<and>
        {(location_org src, location_firm src), (location_org dst, location_firm dst)} = {(org, firm)})"

lemma found_location:
  "find_location_by_code org firm code s = Inr (Some l) \<Longrightarrow>
   location_org l = org \<and> location_firm l = firm \<and> location_code l = code"
  unfolding find_location_by_code_def by (auto dest: scalar_one_or_none_mem)

lemma made_location:
  "new_location org firm code name ty s = (s', l) \<Longrightarrow>
   location_org l = org \<and> location_firm l = firm \<and> location_code l = code"
  by (auto simp: new_location_def mint_def Let_def)

lemma default_location_row:
  "get_or_create_default_location org firm s = Inr (s', l) \<Longrightarrow>
   location_org l = org \<and> location_firm l = firm \<and> location_code l = ''MAIN''"
  unfolding get_or_create_default_location_def
  by (auto split: option.splits dest!: found_location made_location)

lemma jobwork_location_row:
  "get_or_create_jobwork_location org firm s = Inr (s', l) \<Longrightarrow>
   location_org l = org \<and> location_firm l = firm \<and> location_code l = ''JOBWORK''"
  unfolding get_or_create_jobwork_location_def
  by (auto split: option.splits dest!: found_location made_location)

lemma create_send_out_effect:
  assumes "create_send_out today org firm karigar d lines series s = Inr (s', j)" and ok: "inv_ok (jw_stock s)"
  shows "inv_ok (jw_stock s')"
    and "held P (jw_stock s')
      = held P (jw_stock s) - shipped P j (from_location j) lines + shipped P j (to_location j) lines"
    and "j \<in> set (jwos s')" and "jwo_status j = SENT" and "\<forall>l \<in> set lines. 0 < snd_qty l"
    and "\<exists>new. jwo_lines s' = jwo_lines s @ new \<and> map jwl_item new = map snd_item lines \<and>
      map jwl_lot new = map snd_lot lines \<and> map qty_sent new = map snd_qty lines \<and>
      (\<forall>l \<in> set new. jwl_jwo l = jwo_id j \<and> jwl_received l = 0 \<and> jwl_wastage l = 0 \<and> \<not> jwl_deleted l)"
    and "\<forall>w \<in> set (jwos s). jwo_org w = org \<and> jwo_firm w = firm \<and> jwo_series w = jwo_series j \<longrightarrow>
      jwo_number w \<noteq> jwo_number j"
    and "challan_locations org firm j s" and "jwo_org j = org" and "jwo_firm j = firm"
proof -
  from assms(1) obtain st1 from_loc st2 to_loc series' n s1 where
    l1: "get_or_create_default_location org firm (jw_stock s) = Inr (st1, from_loc)"
    and l2: "get_or_create_jobwork_location org firm st1 = Inr (st2, to_loc)"
    and ins0: "insert_jwo (new_jwo org firm karigar series' n d (location_id from_loc) (location_id to_loc))
      (s\<lparr>jw_stock := st2\<rparr>) = Inr (s1, j)"
    and snd: "send_all today j 0 lines s1 = Inr s'"
    by (auto simp: create_send_out_def Let_def)
  define j0 where "j0 = new_jwo org firm karigar series' n d (location_id from_loc) (location_id to_loc)"
  have j0: "jwo_status j0 = SENT" "jwo_org j0 = org" "jwo_firm j0 = firm" "from_location j0 = location_id from_loc"
    "to_location j0 = location_id to_loc" by (simp_all add: j0_def new_jwo_def)
  note ins = ins0 [folded j0_def]
  obtain st3 i where m: "mint st2 = (st3, i)" by (cases "mint st2")
  from ins m have j: "j = j0\<lparr>jwo_id := i\<rparr>"
    and s1: "s1 = s\<lparr>jw_stock := st3, jwos := jwos s @ [j]\<rparr>"
    and uniq: "\<forall>w \<in> set (jwos s). jwo_org w = org \<and> jwo_firm w = firm \<and> jwo_series w = jwo_series j0 \<longrightarrow>
      jwo_number w \<noteq> jwo_number j0"
    using j0(2,3) by (auto simp: insert_jwo_def Let_def split: if_splits)
  have same: "positions st3 = positions (jw_stock s)" "stock_ledger st3 = stock_ledger (jw_stock s)"
    using table_frames(2) [OF l1] table_frames(3) [OF l2] table_frames(1) [OF m] by simp_all
  have ok3: "inv_ok (jw_stock s1)" using same_tables_ok [OF same ok] by (simp add: s1)
  note e = send_all_effect [OF snd ok3]
  show "inv_ok (jw_stock s')" and "\<forall>l \<in> set lines. 0 < snd_qty l" using e by blast+
  show "held P (jw_stock s')
      = held P (jw_stock s) - shipped P j (from_location j) lines + shipped P j (to_location j) lines"
    using e [of P] held_same [OF same(1), of P] by (simp add: s1)
  show "j \<in> set (jwos s')" using e by (simp add: s1)
  show "jwo_status j = SENT" "jwo_org j = org" "jwo_firm j = firm" by (simp_all add: j j0)
  show "challan_locations org firm j s"
    unfolding challan_locations_def
    by (intro exI [of _ st1] exI [of _ from_loc] exI [of _ st2] exI [of _ to_loc])
      (use l1 l2 default_location_row [OF l1] jobwork_location_row [OF l2] in \<open>simp add: j j0\<close>)
  show "\<exists>new. jwo_lines s' = jwo_lines s @ new \<and> map jwl_item new = map snd_item lines \<and>
      map jwl_lot new = map snd_lot lines \<and> map qty_sent new = map snd_qty lines \<and>
      (\<forall>l \<in> set new. jwl_jwo l = jwo_id j \<and> jwl_received l = 0 \<and> jwl_wastage l = 0 \<and> \<not> jwl_deleted l)"
    using e by (simp add: s1)
  show "\<forall>w \<in> set (jwos s). jwo_org w = org \<and> jwo_firm w = firm \<and> jwo_series w = jwo_series j \<longrightarrow>
      jwo_number w \<noteq> jwo_number j" using uniq by (simp add: j)
qed

section \<open>Receive-back\<close>

text \<open>What the entries of a receipt book at a location, over the keys a predicate picks.\<close>

definition line_matches :: "(stock_key \<Rightarrow> bool) \<Rightarrow> jwo \<Rightarrow> uuid \<Rightarrow> jobwork \<Rightarrow> return_line \<Rightarrow> bool" where
  "line_matches P j loc s r =
     (case find (\<lambda>l. jwl_id l = ret_line r) (get_jwo_lines (jwo_id j) s) of
        None \<Rightarrow> False | Some l \<Rightarrow> P (line_key j (jwl_item l) loc (jwl_lot l)))"

definition booked_back ::
  "(stock_key \<Rightarrow> bool) \<Rightarrow> jwo \<Rightarrow> uuid \<Rightarrow> (return_line \<Rightarrow> decimal) \<Rightarrow> jobwork \<Rightarrow> return_line list \<Rightarrow> decimal" where
  "booked_back P j loc q s rs = (\<Sum>r\<leftarrow>rs. if line_matches P j loc s r then q r else 0)"

definition ret_both :: "return_line \<Rightarrow> decimal" where
  "ret_both r = ret_received r + ret_wastage r"

lemma line_matches_anywhere: "anywhere P \<Longrightarrow> line_matches P j loc s r = line_matches P j loc' s r"
  by (auto simp: line_matches_def anywhere_line_key [of P j _ loc _ loc'] split: option.splits)

lemma booked_back_anywhere:
  "anywhere P \<Longrightarrow> booked_back P j loc ret_both s rs - booked_back P j loc' ret_received s rs
     = booked_back P j loc ret_wastage s rs"
  by (induction rs) (auto simp: booked_back_def ret_both_def line_matches_anywhere [of P j loc' s _ loc])

lemma sort_key_map_same: "(\<And>x. f (g x) = f x) \<Longrightarrow> sort_key f (map g xs) = map g (sort_key f xs)"
proof (induction xs)
  case (Cons x xs)
  have "insort_key f (g y) (map g ys) = map g (insort_key f y ys)" for y ys
    using Cons.prems by (induction ys) auto
  with Cons show ?case by simp
qed simp

lemma find_map_same: "(\<And>x. p (g x) = p x) \<Longrightarrow> find p (map g xs) = map_option g (find p xs)"
  by (induction xs) auto

text \<open>All entries of a receipt together.\<close>

definition total_tally :: "return_line list \<Rightarrow> jwo_line \<Rightarrow> jwo_line" where
  "total_tally rs l = fold (\<lambda>r l. if jwl_id l = ret_line r then tally r l else l) rs l"

lemma tally_fields [simp]:
  "jwl_id (tally r l) = jwl_id l" "jwl_jwo (tally r l) = jwl_jwo l" "jwl_no (tally r l) = jwl_no l"
  "jwl_item (tally r l) = jwl_item l" "jwl_lot (tally r l) = jwl_lot l" "qty_sent (tally r l) = qty_sent l"
  "jwl_deleted (tally r l) = jwl_deleted l"
  by (simp_all add: tally_def)

lemma tally_blank [simp]: "blank_return r \<Longrightarrow> tally r l = l"
  by (simp add: tally_def blank_return_def)

lemma total_tally_Cons [simp]:
  "total_tally [] l = l"
  "total_tally (r # rs) l = total_tally rs (if jwl_id l = ret_line r then tally r l else l)"
  by (simp_all add: total_tally_def)

lemma total_tally_fields [simp]:
  "jwl_id (total_tally rs l) = jwl_id l" "jwl_jwo (total_tally rs l) = jwl_jwo l"
  "jwl_no (total_tally rs l) = jwl_no l" "jwl_item (total_tally rs l) = jwl_item l"
  "jwl_lot (total_tally rs l) = jwl_lot l" "qty_sent (total_tally rs l) = qty_sent l"
  "jwl_deleted (total_tally rs l) = jwl_deleted l"
  by (induction rs arbitrary: l) auto

lemma get_jwo_lines_map:
  assumes "jwo_lines s' = map g (jwo_lines s)"
    and "\<And>l. jwl_jwo (g l) = jwl_jwo l" and "\<And>l. jwl_deleted (g l) = jwl_deleted l" and "\<And>l. jwl_no (g l) = jwl_no l"
  shows "get_jwo_lines i s' = map g (get_jwo_lines i s)"
  using assms by (simp add: get_jwo_lines_def filter_map o_def sort_key_map_same)

lemma line_matches_map:
  assumes "jwo_lines s' = map (total_tally rs) (jwo_lines s)"
  shows "line_matches P j loc s' r = line_matches P j loc s r"
proof -
  have "get_jwo_lines (jwo_id j) s' = map (total_tally rs) (get_jwo_lines (jwo_id j) s)"
    by (rule get_jwo_lines_map [OF assms]) simp_all
  then show ?thesis
    by (cases "find (\<lambda>l. jwl_id l = ret_line r) (get_jwo_lines (jwo_id j) s)")
      (simp_all add: line_matches_def find_map_same)
qed

lemma return_one_effect:
  assumes "return_one today j rcpt no r s = Inr s'" and ok: "inv_ok (jw_stock s)"
    and nn: "0 \<le> ret_received r"
  shows "inv_ok (jw_stock s')"
    and "held P (jw_stock s') = held P (jw_stock s) - booked_back P j (to_location j) ret_both s [r]
      + booked_back P j (from_location j) ret_received s [r]"
    and "jwo_lines s' = map (total_tally [r]) (jwo_lines s)" and "jwos s' = jwos s"
proof -
  from assms(1) obtain l st1 r1 st2 c ref ref' where l: "find (\<lambda>l. jwl_id l = ret_line r) (get_jwo_lines (jwo_id j) s) = Some l"
    and out: "remove_stock today (line_key j (jwl_item l) (to_location j) (jwl_lot l))
      (ret_received r + ret_wastage r) ref (jw_stock s) = Inr (st1, r1)"
    and inn: "if ret_received r > 0
      then \<exists>r2. add_stock today (line_key j (jwl_item l) (from_location j) (jwl_lot l)) (ret_received r) c ref' st1 = Inr (st2, r2)
      else st2 = st1"
    and s': "jw_stock s' = st2" "jwos s' = jwos s"
      "jwo_lines s' = update_where (\<lambda>m. jwl_id m = jwl_id l) (tally r) (jwo_lines s)"
    by (auto simp: return_one_def Let_def split: option.splits if_splits) blast+
  let ?kt = "line_key j (jwl_item l) (to_location j) (jwl_lot l)"
  let ?kf = "line_key j (jwl_item l) (from_location j) (jwl_lot l)"
  have id: "jwl_id l = ret_line r" using l by (auto simp: find_Some_iff)
  note ok1 = remove_stock_ok [OF out ok]
  note b1 = remove_stock_effect(1) [OF out inv_ok_parts(1) [OF ok]]
  have match: "line_matches P j loc s r \<longleftrightarrow> P (line_key j (jwl_item l) loc (jwl_lot l))" for loc
    by (simp add: line_matches_def l)
  have two: "inv_ok st2 \<and> held P st2 = held P st1 + (if P ?kf then ret_received r else 0)" for P
  proof (cases "ret_received r > 0")
    case True
    with inn obtain r2 where a: "add_stock today ?kf (ret_received r) c ref' st1 = Inr (st2, r2)" by auto
    show ?thesis
      using add_stock_ok [OF a ok1] held_booked [OF add_stock_effect(1) [OF a inv_ok_parts(1) [OF ok1]]] by simp
  next
    case False
    with inn nn ok1 show ?thesis by simp
  qed
  show "inv_ok (jw_stock s')" using two by (simp add: s')
  show "held P (jw_stock s') = held P (jw_stock s) - booked_back P j (to_location j) ret_both s [r]
      + booked_back P j (from_location j) ret_received s [r]"
    using two [of P] held_booked [OF b1, of P] by (simp add: s' booked_back_def match ret_both_def)
  show "jwo_lines s' = map (total_tally [r]) (jwo_lines s)" by (simp add: s' update_where_def id)
  show "jwos s' = jwos s" by (simp add: s')
qed

lemma booked_back_blank: "blank_return r \<Longrightarrow>
    booked_back P j loc ret_both s (r # rs) = booked_back P j loc ret_both s rs \<and>
    booked_back P j loc ret_received s (r # rs) = booked_back P j loc ret_received s rs"
  by (simp add: booked_back_def ret_both_def blank_return_def)

lemma booked_back_tallied:
  "jwo_lines s' = map (total_tally rs) (jwo_lines s) \<Longrightarrow> booked_back P j loc q s' qs = booked_back P j loc q s qs"
  by (simp add: booked_back_def line_matches_map)

lemma return_all_effect:
  "return_all today j rcpt no rs s = Inr s' \<Longrightarrow> inv_ok (jw_stock s) \<Longrightarrow>
   \<forall>r \<in> set rs. 0 \<le> ret_received r \<Longrightarrow>
   inv_ok (jw_stock s') \<and>
   held P (jw_stock s') = held P (jw_stock s) - booked_back P j (to_location j) ret_both s rs
     + booked_back P j (from_location j) ret_received s rs \<and>
   jwo_lines s' = map (total_tally rs) (jwo_lines s) \<and> jwos s' = jwos s"
proof (induction today j rcpt no rs s rule: return_all.induct)
  case (1 today j rcpt no s)
  then show ?case by (simp add: booked_back_def map_idI)
next
  case (2 today j rcpt no r rs s)
  show ?case
  proof (cases "blank_return r")
    case True
    have t: "total_tally (r # rs) = total_tally rs" using True by (simp add: fun_eq_iff)
    from True 2 show ?thesis unfolding t by (simp add: booked_back_blank)
  next
    case False
    with 2 obtain s1 where one: "return_one today j rcpt (Suc no) r s = Inr s1"
      and rest: "return_all today j rcpt (Suc no) rs s1 = Inr s'" by auto
    have nn: "0 \<le> ret_received r" "\<forall>r \<in> set rs. 0 \<le> ret_received r" using 2 by auto
    note e = return_one_effect [OF one "2.prems"(2) nn(1)]
    note ih = "2.IH"(2) [OF False rest e(1) nn(2)]
    have cons: "booked_back P j loc q s (r # rs) = booked_back P j loc q s [r] + booked_back P j loc q s rs" for loc q
      by (simp add: booked_back_def)
    have w: "held P (jw_stock s') = held P (jw_stock s) - booked_back P j (to_location j) ret_both s (r # rs)
        + booked_back P j (from_location j) ret_received s (r # rs)"
      using ih e(2) [of P] booked_back_tallied [OF e(3)] by (simp add: cons)
    have "map (total_tally rs) (map (total_tally [r]) (jwo_lines s)) = map (total_tally (r # rs)) (jwo_lines s)"
      by simp
    with ih e w show ?thesis by metis
  qed
qed


text \<open>The parts of a successful receive-back.\<close>

lemma receive_back_parts:
  assumes "receive_back today org firm i d lines s = Inr (s', rcpt)" and ok: "inv_ok (jw_stock s)"
  obtains j s1 where "get_jwo org i s = Inr (Some j)" and "jwo_id j = i" and "jwo_firm j = firm"
    and "jwo_status j \<in> {SENT, PARTIAL_RECEIVED}"
    and "\<forall>r \<in> set lines. check_return (get_jwo_lines i s) r = Inr ()"
    and "\<forall>r \<in> set lines. 0 \<le> ret_received r \<and> 0 \<le> ret_wastage r"
    and "inv_ok (jw_stock s')"
    and "\<And>P. held P (jw_stock s') = held P (jw_stock s) - booked_back P j (to_location j) ret_both s lines
      + booked_back P j (from_location j) ret_received s lines"
    and "jwo_lines s' = map (total_tally lines) (jwo_lines s)"
    and "jwos s' = update_where (\<lambda>w. jwo_id w = i) (\<lambda>w. w\<lparr>jwo_status :=
      (if \<forall>l \<in> set (get_jwo_lines i s'). accounted l then CLOSED else PARTIAL_RECEIVED)\<rparr>) (jwos s)"
proof -
  obtain st rid where m: "mint (jw_stock s) = (st, rid)" by (cases "mint (jw_stock s)")
  define s0 where "s0 = s\<lparr>jw_stock := st, jw_receipts := jw_receipts s @ [rcpt]\<rparr>"
  from assms(1) m obtain j s1 us where get: "get_jwo org i s = Inr (Some j)" and f: "jwo_firm j = firm"
    and st: "jwo_status j \<in> {SENT, PARTIAL_RECEIVED}"
    and chk: "mapE (check_return (get_jwo_lines i s)) lines = Inr us"
    and all: "return_all today j rcpt 0 lines s0 = Inr s1"
    and s': "s' = s1\<lparr>jwos := update_where (\<lambda>w. jwo_id w = i) (\<lambda>w. w\<lparr>jwo_status :=
      (if \<forall>l \<in> set (get_jwo_lines i s1). accounted l then CLOSED else PARTIAL_RECEIVED)\<rparr>) (jwos s1)\<rparr>"
    by (auto simp: receive_back_def s0_def Let_def split: option.splits)
  from get have id: "jwo_id j = i"
    by (auto simp: get_jwo_def scalar_one_or_none_def filter_eq_Cons_iff split: list.splits)
  have c: "\<forall>r \<in> set lines. check_return (get_jwo_lines i s) r = Inr ()"
    by (rule mapE_checks [OF chk])
  then have nn: "\<forall>r \<in> set lines. 0 \<le> ret_received r \<and> 0 \<le> ret_wastage r"
    by (auto simp: check_return_def split: if_splits)
  have ok0: "inv_ok (jw_stock s0)" using mint_inv_ok [OF m ok] by (simp add: s0_def)
  have pos: "positions (jw_stock s0) = positions (jw_stock s)" using mint_tables [OF m] by (simp add: s0_def)
  have lm: "booked_back P j loc q s0 lines = booked_back P j loc q s lines" for P loc q
    by (simp add: booked_back_def line_matches_def get_jwo_lines_def s0_def)
  have same: "jwo_lines s0 = jwo_lines s" "jwos s0 = jwos s" by (simp_all add: s0_def)
  have e: "inv_ok (jw_stock s1) \<and>
    held P (jw_stock s1) = held P (jw_stock s) - booked_back P j (to_location j) ret_both s lines
      + booked_back P j (from_location j) ret_received s lines \<and>
    jwo_lines s1 = map (total_tally lines) (jwo_lines s) \<and> jwos s1 = jwos s" for P
    using return_all_effect [OF all ok0, of P] nn unfolding lm same held_same [OF pos] by blast
  have g: "get_jwo_lines i s' = get_jwo_lines i s1" by (simp add: s' get_jwo_lines_def)
  have t: "jw_stock s' = jw_stock s1" "jwo_lines s' = jwo_lines s1" by (simp_all add: s')
  have st': "jwos s' = update_where (\<lambda>w. jwo_id w = i) (\<lambda>w. w\<lparr>jwo_status :=
      (if \<forall>l \<in> set (get_jwo_lines i s'). accounted l then CLOSED else PARTIAL_RECEIVED)\<rparr>) (jwos s)"
    unfolding g using e by (simp add: s')
  show thesis
    using that [OF get id f st c nn _ _ _ st'] e unfolding t by blast
qed


text \<open>A line is within bounds when its tallies are and together stay within what was sent.\<close>

definition line_ok :: "jwo_line \<Rightarrow> bool" where
  "line_ok l \<longleftrightarrow> 0 \<le> jwl_received l \<and> 0 \<le> jwl_wastage l \<and> jwl_received l + jwl_wastage l \<le> qty_sent l"

lemma total_tally_other: "jwl_id l \<notin> ret_line ` set rs \<Longrightarrow> total_tally rs l = l"
  by (induction rs) auto

text \<open>With every line named once, one entry only reaches a line.\<close>

lemma total_tally_once:
  "distinct (map ret_line rs) \<Longrightarrow> r \<in> set rs \<Longrightarrow> ret_line r = jwl_id l \<Longrightarrow> total_tally rs l = tally r l"
  by (induction rs arbitrary: l) (auto simp: total_tally_other image_iff)

lemma find_by_id:
  "distinct (map jwl_id ls) \<Longrightarrow> l \<in> set ls \<Longrightarrow> find (\<lambda>m. jwl_id m = jwl_id l) ls = Some l"
  by (induction ls) (auto simp: image_iff)

lemma checked_return_fits:
  assumes "check_return ls r = Inr ()" and "distinct (map jwl_id ls)" and "l \<in> set ls"
    and "ret_line r = jwl_id l" and "line_ok l"
  shows "line_ok (tally r l)"
  using assms find_by_id [OF assms(2,3)]
  by (auto simp: check_return_def line_ok_def tally_def open_qty_def split: if_splits)

lemma distinct_get_jwo_lines: "distinct (map jwl_id (jwo_lines s)) \<Longrightarrow> distinct (map jwl_id (get_jwo_lines i s))"
  by (auto simp: get_jwo_lines_def distinct_map inj_on_def)

lemma tallied_within_sent:
  assumes "\<forall>r \<in> set rs. check_return ls r = Inr ()" and "distinct (map ret_line rs)"
    and "distinct (map jwl_id ls)" and "\<forall>l \<in> set ls. line_ok l"
  shows "\<forall>l \<in> set (map (total_tally rs) ls). line_ok l"
proof -
  have "line_ok (total_tally rs l)" if l: "l \<in> set ls" for l
  proof (cases "jwl_id l \<in> ret_line ` set rs")
    case True
    then obtain r where r: "r \<in> set rs" "ret_line r = jwl_id l" by auto
    have "line_ok (tally r l)" by (rule checked_return_fits [OF _ assms(3) l r(2)]) (use assms r l in blast)+
    then show ?thesis by (simp add: total_tally_once [OF assms(2) r])
  next
    case False
    then show ?thesis using assms(4) l by (simp add: total_tally_other)
  qed
  then show ?thesis by simp
qed


section \<open>Properties\<close>

text \<open>A firm with a karigar, and a challan for 5 of an item of which 12 are at the karigar.\<close>

definition demo_job :: jwo where
  "demo_job = \<lparr>jwo_id = 50, jwo_org = 1, jwo_firm = 2, jwo_karigar = 6, jwo_series = ''JW'', jwo_number = ''0001'',
     challan_date = Date 2026 5 1, jwo_status = SENT, from_location = 4, to_location = 5, jwo_deleted = False\<rparr>"

definition demo_job_line :: jwo_line where
  "demo_job_line = \<lparr>jwl_id = 51, jwl_org = 1, jwl_firm = 2, jwl_jwo = 50, jwl_no = 1, jwl_item = 3, jwl_lot = None,
     qty_sent = 5, jwl_received = 0, jwl_wastage = 0, jwl_notes = None, jwl_deleted = False\<rparr>"

definition demo_pos :: "uuid \<Rightarrow> uuid \<Rightarrow> decimal \<Rightarrow> stock_position" where
  "demo_pos i loc q =
     \<lparr>stock_position_id = i, pos_key = (demo_key None)\<lparr>k_location := loc\<rparr>, on_hand_qty = q, reserved_qty_mo = 0,
      reserved_qty_so = 0, in_transit_qty = 0, current_cost = Some 2, as_of_date = Date 2026 5 1\<rparr>"

definition demo_moved_in :: "uuid \<Rightarrow> decimal \<Rightarrow> ledger_row" where
  "demo_moved_in loc q =
     \<lparr>sl_key = (demo_key None)\<lparr>k_location := loc\<rparr>, txn_type = ''IN'', txn_date = Date 2026 5 1,
      ledger_row.reference_type = ''GRN'', reference_id = 77, qty_in = q, qty_out = 0, unit_cost = Some 2,
      sl_notes = None\<rparr>"

definition demo_jobwork :: jobwork where
  "demo_jobwork =
     \<lparr>jw_stock = demo_empty
        \<lparr>locations := locations demo_empty @
           [\<lparr>location_id = 5, location_org = 1, location_firm = 2, location_code = ''JOBWORK'',
             location_name = ''Job-work at karigar'', location_type = IN_TRANSIT, location_active = True,
             location_deleted = False\<rparr>],
         positions := [demo_pos 101 4 4, demo_pos 102 5 12],
         stock_ledger := [demo_moved_in 4 4, demo_moved_in 5 12], minted := 3\<rparr>,
      parties = [\<lparr>party_id = 6, party_org = 1, is_karigar = True, party_deleted = False\<rparr>],
      jwos = [demo_job], jwo_lines = [demo_job_line], jw_receipts = [], jw_receipt_lines = []\<rparr>"

lemmas eval_jobwork = demo_jobwork_def demo_job_def demo_job_line_def demo_pos_def demo_moved_in_def demo_empty_def
  demo_key_def demo_lot_def Let_def scalar_one_or_none_def bindE_def guardE_def
  assert_firm_in_org_def mint_def get_position_def position_rows_def position_cost_def
  check_movement_def ensure_item_in_org_def ensure_location_in_firm_def ensure_lot_in_org_def
  lock_or_create_position_def or_zero_def validate_qty_def insert_ledger_def update_position_def update_where_def
  add_stock_def weighted_cost_def remove_stock_def less_eq_date_def find_location_by_code_def
  get_or_create_default_location_def get_or_create_jobwork_location_def
  create_send_out_def ensure_firm_in_org_def ensure_karigar_def ensure_items_in_org_def new_jwo_def insert_jwo_def
  send_one_def new_line_def line_key_def challan_ref_def allocate_jwo_number_def jwo_numbers_def
  next_by_text_def text_max_def
  receive_back_def get_jwo_def get_jwo_lines_def check_return_def blank_return_def open_qty_def return_one_def
  tally_def accounted_def

lemma demo_jobwork_ok: "inv_ok (jw_stock demo_jobwork)"
  by (rule inv_okI)
    (auto simp: demo_jobwork_def demo_pos_def demo_moved_in_def demo_empty_def demo_key_def on_hand_def moved_def
      position_rows_def)

text \<open>C27: Sending goods out to a karigar moves them from the firm's MAIN location to its JOBWORK
  location: on every key (organisation, firm, item, location, lot) the stock on hand falls by what the
  entries take at that key from MAIN and rises by what they put there at JOBWORK, so no other key moves,
  and an item's total over the locations stays what it was. The stock tables stay in order, and the challan stands as SENT with one
  untouched line per entry.\<close>

theorem send_out_conserves_stock:
  assumes "create_send_out today org firm karigar d lines series s = Inr (s', j)"
    and "inv_ok (jw_stock s)"
  shows "inv_ok (jw_stock s') \<and> challan_locations org firm j s \<and> jwo_org j = org \<and> jwo_firm j = firm \<and>
    (\<forall>k. on_hand (jw_stock s') k = on_hand (jw_stock s) k - shipped (\<lambda>h. h = k) j (from_location j) lines
      + shipped (\<lambda>h. h = k) j (to_location j) lines) \<and>
    (\<forall>P. anywhere P \<longrightarrow> held P (jw_stock s') = held P (jw_stock s)) \<and>
    j \<in> set (jwos s') \<and> jwo_status j = SENT \<and>
    (\<exists>new. jwo_lines s' = jwo_lines s @ new \<and> map jwl_item new = map snd_item lines \<and>
      map jwl_lot new = map snd_lot lines \<and> map qty_sent new = map snd_qty lines \<and>
      (\<forall>l \<in> set new. jwl_jwo l = jwo_id j \<and> open_qty l = qty_sent l \<and> 0 < qty_sent l))"
proof -
  note e = create_send_out_effect [OF assms]
  from e(6) obtain new where n: "jwo_lines s' = jwo_lines s @ new" "map jwl_item new = map snd_item lines"
    "map jwl_lot new = map snd_lot lines" "map qty_sent new = map snd_qty lines"
    "\<forall>l \<in> set new. jwl_jwo l = jwo_id j \<and> jwl_received l = 0 \<and> jwl_wastage l = 0 \<and> \<not> jwl_deleted l" by blast
  have "qty_sent ` set new = snd_qty ` set lines" using arg_cong [OF n(4), of set] by simp
  with e(5) have "\<forall>l \<in> set new. 0 < qty_sent l" by (metis (no_types, lifting) imageE imageI)
  moreover have "held P (jw_stock s') = held P (jw_stock s)" if "anywhere P" for P
    using e(2) [of P] shipped_anywhere [OF that, of j "from_location j" lines "to_location j"] by simp
  ultimately show ?thesis using n e(1,3,4,8-10) e(2) [of "\<lambda>h. h = _", unfolded held_key] by (auto simp: open_qty_def)
qed

text \<open>The four pieces at MAIN join the twelve that are already out.\<close>

lemma send_out_conserves_stock_witness:
  "\<exists>s' j. create_send_out (Date 2026 5 2) 1 2 6 (Date 2026 5 2) [\<lparr>snd_item = 3, snd_qty = 4, snd_lot = None,
       snd_notes = None\<rparr>] (Some ''JW2'') demo_jobwork = Inr (s', j) \<and>
     on_hand (jw_stock s') ((demo_key None)\<lparr>k_location := 4\<rparr>) = 0 \<and>
     on_hand (jw_stock s') ((demo_key None)\<lparr>k_location := 5\<rparr>) = 16"
proof -
  let ?ls = "[\<lparr>snd_item = 3, snd_qty = 4, snd_lot = None, snd_notes = None\<rparr>]"
  let ?r = "create_send_out (Date 2026 5 2) 1 2 6 (Date 2026 5 2) ?ls (Some ''JW2'') demo_jobwork"
  have "\<not> isl ?r" by (simp add: eval_jobwork)
  then obtain s' j where r: "?r = Inr (s', j)" by (cases ?r) auto
  note e = send_out_conserves_stock [OF r demo_jobwork_ok]
  have loc: "from_location j = 4" "to_location j = 5" "jwo_org j = 1" "jwo_firm j = 2"
    using e by (simp_all add: challan_locations_def eval_jobwork)
  have h: "on_hand (jw_stock demo_jobwork) ((demo_key None)\<lparr>k_location := 4\<rparr>) = 4"
    "on_hand (jw_stock demo_jobwork) ((demo_key None)\<lparr>k_location := 5\<rparr>) = 12"
    by (simp_all add: on_hand_def eval_jobwork)
  have "on_hand (jw_stock s') ((demo_key None)\<lparr>k_location := 4\<rparr>) = 0"
    using e loc h by (simp add: shipped_def line_key_def demo_key_def)
  moreover have "on_hand (jw_stock s') ((demo_key None)\<lparr>k_location := 5\<rparr>) = 16"
    using e loc h by (simp add: shipped_def line_key_def demo_key_def)
  ultimately show ?thesis using r by blast
qed


text \<open>C33: A receive-back takes what it received and wrote off from the challan's job-work location and
  puts what it received back at the location it was sent from: on every key (organisation, firm, item,
  location, lot) the stock on hand changes by exactly these two sums. So the firm as a whole loses
  exactly the wastage, item by item and lot by lot, and the stock tables stay in order.\<close>

theorem receive_back_writes_off:
  assumes "receive_back today org firm i d lines s = Inr (s', rcpt)" and "inv_ok (jw_stock s)"
  shows "\<exists>j. get_jwo org i s = Inr (Some j) \<and> inv_ok (jw_stock s') \<and>
    (\<forall>k. on_hand (jw_stock s') k = on_hand (jw_stock s) k
       - booked_back (\<lambda>h. h = k) j (to_location j) ret_both s lines
       + booked_back (\<lambda>h. h = k) j (from_location j) ret_received s lines) \<and>
    (\<forall>P. anywhere P \<longrightarrow> held P (jw_stock s')
       = held P (jw_stock s) - booked_back P j (to_location j) ret_wastage s lines)"
proof (rule receive_back_parts [OF assms])
  fix j
  assume get: "get_jwo org i s = Inr (Some j)" and ok: "inv_ok (jw_stock s')"
    and h: "\<And>P. held P (jw_stock s') = held P (jw_stock s) - booked_back P j (to_location j) ret_both s lines
      + booked_back P j (from_location j) ret_received s lines"
  have "held P (jw_stock s') = held P (jw_stock s) - booked_back P j (to_location j) ret_wastage s lines"
    if "anywhere P" for P
    using h [of P] booked_back_anywhere [OF that, of j "to_location j" s lines "from_location j"] by simp
  with get ok h [of "\<lambda>h. h = _", unfolded held_key] show ?thesis by blast
qed

definition demo_back :: "decimal \<Rightarrow> decimal \<Rightarrow> return_line" where
  "demo_back r w = \<lparr>ret_line = 51, ret_received = r, ret_wastage = w\<rparr>"

lemma demo_back_runs:
  "\<exists>s' rcpt. receive_back (Date 2026 5 2) 1 2 50 (Date 2026 5 2) [demo_back 3 1] demo_jobwork = Inr (s', rcpt) \<and>
     map (\<lambda>l. (jwl_received l, jwl_wastage l)) (get_jwo_lines 50 s') = [(3, 1)] \<and>
     map jwo_status (jwos s') = [PARTIAL_RECEIVED]"
proof -
  let ?r = "receive_back (Date 2026 5 2) 1 2 50 (Date 2026 5 2) [demo_back 3 1] demo_jobwork"
  have "(case ?r of Inl _ \<Rightarrow> False | Inr (s', rcpt) \<Rightarrow>
      map (\<lambda>l. (jwl_received l, jwl_wastage l)) (get_jwo_lines 50 s') = [(3, 1)] \<and>
      map jwo_status (jwos s') = [PARTIAL_RECEIVED])"
    by (simp add: demo_back_def eval_jobwork)
  then show ?thesis by (cases ?r) auto
qed

text \<open>Three pieces come home and one is written off.\<close>

lemma receive_back_writes_off_witness:
  "\<exists>s' rcpt. receive_back (Date 2026 5 2) 1 2 50 (Date 2026 5 2) [demo_back 3 1] demo_jobwork = Inr (s', rcpt) \<and>
     on_hand (jw_stock s') ((demo_key None)\<lparr>k_location := 4\<rparr>) = 7 \<and>
     on_hand (jw_stock s') ((demo_key None)\<lparr>k_location := 5\<rparr>) = 8"
proof -
  obtain s' rcpt where r:
    "receive_back (Date 2026 5 2) 1 2 50 (Date 2026 5 2) [demo_back 3 1] demo_jobwork = Inr (s', rcpt)"
    using demo_back_runs by blast
  have g: "get_jwo 1 50 demo_jobwork = Inr (Some demo_job)" by (simp add: eval_jobwork)
  have h: "on_hand (jw_stock demo_jobwork) ((demo_key None)\<lparr>k_location := 4\<rparr>) = 4"
    "on_hand (jw_stock demo_jobwork) ((demo_key None)\<lparr>k_location := 5\<rparr>) = 12"
    by (simp_all add: on_hand_def eval_jobwork)
  have w: "line_matches (\<lambda>h. h = (demo_key None)\<lparr>k_location := a\<rparr>) demo_job b demo_jobwork (demo_back 3 1) \<longleftrightarrow> a = b" for a b
    by (auto simp: line_matches_def demo_back_def eval_jobwork)
  from receive_back_writes_off [OF r demo_jobwork_ok] g
  have k: "on_hand (jw_stock s') k = on_hand (jw_stock demo_jobwork) k
       - booked_back (\<lambda>h. h = k) demo_job (to_location demo_job) ret_both demo_jobwork [demo_back 3 1]
       + booked_back (\<lambda>h. h = k) demo_job (from_location demo_job) ret_received demo_jobwork [demo_back 3 1]" for k
    by auto
  have "on_hand (jw_stock s') ((demo_key None)\<lparr>k_location := 4\<rparr>) = 7"
    using k [of "(demo_key None)\<lparr>k_location := 4\<rparr>"] h w by (simp add: booked_back_def demo_job_def demo_back_def ret_both_def)
  moreover have "on_hand (jw_stock s') ((demo_key None)\<lparr>k_location := 5\<rparr>) = 8"
    using k [of "(demo_key None)\<lparr>k_location := 5\<rparr>"] h w by (simp add: booked_back_def demo_job_def demo_back_def ret_both_def)
  ultimately show ?thesis using r by blast
qed

text \<open>C15: As long as no receipt names a line twice, the tallies of a challan stay non-negative and
  together within what was sent, and after a receipt the challan is CLOSED exactly when every line is
  accounted for to the last unit, PARTIAL_RECEIVED otherwise.\<close>

theorem receive_back_within_sent:
  assumes "receive_back today org firm i d lines s = Inr (s', rcpt)"
    and "inv_ok (jw_stock s)"
    and "distinct (map ret_line lines)" and "distinct (map jwl_id (jwo_lines s))"
    and "\<forall>l \<in> set (get_jwo_lines i s). line_ok l"
  shows "(\<forall>l \<in> set (get_jwo_lines i s'). line_ok l) \<and>
    (\<forall>j \<in> set (jwos s'). jwo_id j = i \<longrightarrow> jwo_status j =
      (if \<forall>l \<in> set (get_jwo_lines i s'). open_qty l = 0 then CLOSED else PARTIAL_RECEIVED))"
proof (rule receive_back_parts [OF assms(1,2)])
  fix j
  assume chk: "\<forall>r \<in> set lines. check_return (get_jwo_lines i s) r = Inr ()"
    and l: "jwo_lines s' = map (total_tally lines) (jwo_lines s)"
    and st: "jwos s' = update_where (\<lambda>w. jwo_id w = i) (\<lambda>w. w\<lparr>jwo_status :=
      (if \<forall>l \<in> set (get_jwo_lines i s'). accounted l then CLOSED else PARTIAL_RECEIVED)\<rparr>) (jwos s)"
  have "get_jwo_lines i s' = map (total_tally lines) (get_jwo_lines i s)"
    by (rule get_jwo_lines_map [OF l]) simp_all
  then have ok: "\<forall>l \<in> set (get_jwo_lines i s'). line_ok l"
    using tallied_within_sent [OF chk assms(3) distinct_get_jwo_lines [OF assms(4)] assms(5)] by simp
  then have "accounted l \<longleftrightarrow> open_qty l = 0" if "l \<in> set (get_jwo_lines i s')" for l
    using that by (auto simp: line_ok_def accounted_def open_qty_def)
  then have closed: "(\<forall>l \<in> set (get_jwo_lines i s'). accounted l) \<longleftrightarrow>
      (\<forall>l \<in> set (get_jwo_lines i s'). open_qty l = 0)" by blast
  have "jwo_status j = st"
    if "j \<in> set (update_where (\<lambda>w. jwo_id w = i) (\<lambda>w. w\<lparr>jwo_status := st\<rparr>) (jwos s))" "jwo_id j = i" for j st
    using update_where_hit [OF that(1) _ that(2)] by auto
  with ok show ?thesis unfolding st closed by blast
qed

lemma receive_back_within_sent_witness:
  "\<exists>s' rcpt. receive_back (Date 2026 5 2) 1 2 50 (Date 2026 5 2) [demo_back 3 1] demo_jobwork = Inr (s', rcpt) \<and>
     (\<forall>l \<in> set (get_jwo_lines 50 s'). line_ok l \<and> open_qty l = 1)"
proof -
  obtain s' rcpt where r:
    "receive_back (Date 2026 5 2) 1 2 50 (Date 2026 5 2) [demo_back 3 1] demo_jobwork = Inr (s', rcpt)"
    using demo_back_runs by blast
  let ?v = "receive_back (Date 2026 5 2) 1 2 50 (Date 2026 5 2) [demo_back 3 1] demo_jobwork"
  have "(case ?v of Inl _ \<Rightarrow> False | Inr (s', rcpt) \<Rightarrow> map open_qty (get_jwo_lines 50 s') = [1])"
    by (simp add: demo_back_def eval_jobwork)
  with r have o: "map open_qty (get_jwo_lines 50 s') = [1]" by simp
  have "distinct (map ret_line [demo_back 3 1])" "distinct (map jwl_id (jwo_lines demo_jobwork))"
    "\<forall>l \<in> set (get_jwo_lines 50 demo_jobwork). line_ok l"
    by (simp_all add: line_ok_def eval_jobwork)
  from receive_back_within_sent [OF r demo_jobwork_ok this] r o show ?thesis by auto
qed


text \<open>The check of a receipt reads the tallies from before the receipt, entry by entry, so a
  receipt that names a line twice passes it when each entry alone fits: two entries that each return
  all that is open leave the line with twice as much accounted for, more than was sent.\<close>

theorem duplicate_return_overruns:
  assumes "receive_back today org firm i d [r, r] s = Inr (s', rcpt)" and "inv_ok (jw_stock s)"
    and "l \<in> set (get_jwo_lines i s)" and "ret_line r = jwl_id l"
    and "ret_received r + ret_wastage r = open_qty l" and "0 < open_qty l"
  shows "\<exists>l' \<in> set (get_jwo_lines i s'). jwl_id l' = jwl_id l \<and>
    jwl_received l' + jwl_wastage l' = qty_sent l' + open_qty l \<and> \<not> line_ok l'"
proof (rule receive_back_parts [OF assms(1,2)])
  assume l: "jwo_lines s' = map (total_tally [r, r]) (jwo_lines s)"
  have g: "get_jwo_lines i s' = map (total_tally [r, r]) (get_jwo_lines i s)"
    by (rule get_jwo_lines_map [OF l]) simp_all
  show ?thesis
    by (rule bexI [of _ "total_tally [r, r] l"])
      (use assms(3-6) in \<open>auto simp: g tally_def line_ok_def open_qty_def\<close>)
qed

text \<open>Five were sent and ten are booked back, the other three coming from another challan's goods.\<close>

lemma duplicate_return_overruns_witness:
  "\<exists>s' rcpt. receive_back (Date 2026 5 2) 1 2 50 (Date 2026 5 2) [demo_back 5 0, demo_back 5 0] demo_jobwork
      = Inr (s', rcpt) \<and>
     (\<exists>l \<in> set (get_jwo_lines 50 s'). jwl_received l + jwl_wastage l = qty_sent l + 5)"
proof -
  let ?r = "receive_back (Date 2026 5 2) 1 2 50 (Date 2026 5 2) [demo_back 5 0, demo_back 5 0] demo_jobwork"
  have "\<not> isl ?r" by (simp add: demo_back_def eval_jobwork)
  then obtain s' rcpt where r: "?r = Inr (s', rcpt)" by (cases ?r) auto
  have "demo_job_line \<in> set (get_jwo_lines 50 demo_jobwork)" "open_qty demo_job_line = 5"
    "jwl_id demo_job_line = 51" by (simp_all add: eval_jobwork)
  with duplicate_return_overruns [OF r demo_jobwork_ok, of demo_job_line] r show ?thesis
    by (auto simp: demo_back_def)
qed

end
