(* ===== verification/Manufacturing.thy ===== *)
theory Manufacturing
  imports JobWorkProps StockAdjProps Dag "HOL-Library.Product_Lexorder"
begin

text \<open>
  The tables of the manufacturing module, \<^verbatim>\<open>app/models/manufacturing.py\<close>, over which the
  routing, BOM, order, progress, karigar and QC services work, and the lookups they share. One state
  holds them with the job-work tables (and the stock below those) and the general ledger. The
  free-text mirror of an operation's state, its dates and the production events without a reader are
  not modelled.
\<close>

section \<open>Enumerations\<close>

datatype MoStatus = DRAFT | RELEASED | IN_PROGRESS | COMPLETED | CLOSED

datatype RoutingEdgeType = FINISH_TO_START | START_TO_START | PARTIAL_FINISH_TO_START

datatype MoOperationState =
    PENDING | READY | DISPATCHED | ACKNOWLEDGED | IN_PROGRESS | RECEIVED_PARTIAL | RECEIVED_FULL
  | QC_PENDING | REWORK | CLOSED | SKIPPED | CANCELLED

datatype OperationType = WEAVING | DYEING | EMBROIDERY | STITCHING | QC | PACKING | OTHER

section \<open>Rows\<close>

record design_row =
  design_id :: uuid
  design_org :: uuid
  design_firm :: uuid
  design_deleted :: bool

record op_master =
  opm_id :: uuid
  opm_org :: uuid
  opm_firm :: uuid
  opm_type :: OperationType
  opm_deleted :: bool

record bom_row =
  bom_id :: uuid
  bom_org :: uuid
  bom_firm :: uuid
  bom_design :: uuid
  bom_item :: uuid
  bom_version :: int
  bom_active :: bool
  bom_deleted :: bool

record bom_line =
  bl_bom :: uuid
  bl_org :: uuid
  bl_item :: uuid
  bl_qty :: decimal
  bl_optional :: bool
  bl_deleted :: bool

record routing_row =
  routing_id :: uuid
  routing_org :: uuid
  routing_firm :: uuid
  routing_design :: uuid
  routing_code :: string
  version_number :: int
  routing_active :: bool
  routing_deleted :: bool

record edge_row =
  edge_id :: uuid
  edge_org :: uuid
  edge_routing :: uuid
  from_op :: uuid
  to_op :: uuid
  edge_type :: "RoutingEdgeType option"
  threshold_qty :: "decimal option"
  threshold_pct :: "decimal option"
  edge_deleted :: bool

record mo_row =
  mo_id :: uuid
  mo_org :: uuid
  mo_firm :: uuid
  mo_series :: string
  mo_number :: string
  mo_design :: uuid
  mo_item :: uuid
  mo_bom :: "uuid option"
  mo_routing :: "uuid option"
  mo_status :: MoStatus
  planned_qty :: decimal
  produced_qty :: decimal
  mo_scrap :: decimal
  mo_byproduct :: decimal
  mo_cost_pool :: decimal
  completion_policy :: "string option"
  planned_start :: "date option"
  planned_end :: "date option"
  mo_closed :: bool
  mo_deleted :: bool

record material_line =
  mml_id :: uuid
  mml_org :: uuid
  mml_mo :: uuid
  mml_item :: uuid
  qty_required :: decimal
  qty_issued :: decimal
  mml_optional :: bool
  mml_deleted :: bool

record mo_op =
  mop_id :: uuid
  mop_org :: uuid
  mop_firm :: uuid
  mop_mo :: uuid
  mop_master :: uuid
  mop_sequence :: "nat option"
  mop_state :: MoOperationState
  executor :: string
  mop_karigar :: "uuid option"
  outward_challan :: "uuid option"
  inward_challan :: "uuid option"
  mop_in :: decimal
  mop_out :: decimal
  mop_rejected :: decimal
  mop_byproduct :: decimal
  mop_wastage :: decimal
  rework_of :: "uuid option"
  input_item :: "uuid option"
  output_item :: "uuid option"
  in_record_count :: nat
  mop_version :: nat
  mop_deleted :: bool

text \<open>The one production event that is read back: the verdict of an inspection.\<close>

record qc_event =
  qe_org :: uuid
  qe_firm :: uuid
  qe_op :: uuid
  qe_rework :: decimal

record material_issue =
  mi_id :: uuid
  mi_org :: uuid
  mi_firm :: uuid
  mi_mo :: uuid
  mi_series :: string
  mi_number :: string
  mi_date :: date
  mi_voucher :: "uuid option"
  mi_deleted :: bool

record material_issue_line =
  mil_org :: uuid
  mil_issue :: uuid
  mil_line :: uuid
  mil_item :: uuid
  mil_lot :: "uuid option"
  mil_qty :: decimal
  mil_cost :: decimal
  mil_value :: decimal

record plant =
  shop :: jobwork
  plant_books :: books
  designs :: "design_row list"
  op_masters :: "op_master list"
  boms :: "bom_row list"
  bom_lines :: "bom_line list"
  routings :: "routing_row list"
  routing_edges :: "edge_row list"
  mos :: "mo_row list"
  material_lines :: "material_line list"
  mo_ops :: "mo_op list"
  material_issues :: "material_issue list"
  issue_lines :: "material_issue_line list"
  qc_events :: "qc_event list"

definition IN_HOUSE :: string where "IN_HOUSE = ''IN_HOUSE''"
definition KARIGAR :: string where "KARIGAR = ''KARIGAR''"

section \<open>Ids\<close>

definition plant_mint :: "plant \<Rightarrow> plant \<times> uuid" where
  "plant_mint s = (case mint (jw_stock (shop s)) of
     (st, i) \<Rightarrow> (s\<lparr>shop := (shop s)\<lparr>jw_stock := st\<rparr>\<rparr>, i))"

text \<open>The ids handed out so far; a new one differs from them all.\<close>

definition issued_ids :: "plant \<Rightarrow> uuid set" where
  "issued_ids s = uuid_supply (jw_stock (shop s)) ` {..<minted (jw_stock (shop s))}"

definition ids_ok :: "plant \<Rightarrow> bool" where
  "ids_ok s \<longleftrightarrow> inj (uuid_supply (jw_stock (shop s)))"

lemma plant_mint_effect:
  assumes "plant_mint s = (s', i)" and "ids_ok s"
  shows "ids_ok s'" and "i \<notin> issued_ids s" and "issued_ids s' = insert i (issued_ids s)"
    and "\<exists>h. s' = s\<lparr>shop := h\<rparr>"
proof -
  from assms(1) have s': "s' = s\<lparr>shop := (shop s)\<lparr>jw_stock := (jw_stock (shop s))\<lparr>minted := Suc (minted (jw_stock (shop s)))\<rparr>\<rparr>\<rparr>"
    and i: "i = uuid_supply (jw_stock (shop s)) (minted (jw_stock (shop s)))"
    by (auto simp: plant_mint_def mint_def)
  show "ids_ok s'" using assms(2) by (simp add: s' ids_ok_def)
  show "i \<notin> issued_ids s" using assms(2) by (auto simp: i issued_ids_def ids_ok_def dest: injD)
  show "issued_ids s' = insert i (issued_ids s)" by (auto simp: s' i issued_ids_def less_Suc_eq)
  show "\<exists>h. s' = s\<lparr>shop := h\<rparr>" unfolding s' by blast
qed

section \<open>Lookups\<close>

definition get_design :: "uuid \<Rightarrow> uuid \<Rightarrow> plant \<Rightarrow> error + design_row" where
  "get_design org d s =
     bindE (scalar_one_or_none
              (filter (\<lambda>r. design_id r = d \<and> design_org r = org \<and> \<not> design_deleted r) (designs s)))
       (\<lambda>r. case r of None \<Rightarrow> Inl (AppValidationError ''Design not found'') | Some d \<Rightarrow> Inr d)"

definition get_operation_master :: "uuid \<Rightarrow> uuid \<Rightarrow> plant \<Rightarrow> error + op_master" where
  "get_operation_master org i s =
     bindE (scalar_one_or_none
              (filter (\<lambda>r. opm_id r = i \<and> opm_org r = org \<and> \<not> opm_deleted r) (op_masters s)))
       (\<lambda>r. case r of None \<Rightarrow> Inl (AppValidationError ''Operation not found'') | Some m \<Rightarrow> Inr m)"

definition get_item :: "uuid \<Rightarrow> uuid \<Rightarrow> plant \<Rightarrow> error + item_row" where
  "get_item org i s =
     bindE (scalar_one_or_none
              (filter (\<lambda>r. item_id r = i \<and> item_org r = org \<and> \<not> item_deleted r) (items (jw_stock (shop s)))))
       (\<lambda>r. case r of None \<Rightarrow> Inl (AppValidationError ''Item not found'') | Some m \<Rightarrow> Inr m)"

definition get_mo :: "uuid \<Rightarrow> uuid \<Rightarrow> plant \<Rightarrow> error + mo_row" where
  "get_mo org i s =
     bindE (scalar_one_or_none
              (filter (\<lambda>m. mo_id m = i \<and> mo_org m = org \<and> \<not> mo_deleted m) (mos s)))
       (\<lambda>r. case r of None \<Rightarrow> Inl (AppValidationError ''Manufacturing order not found'') | Some m \<Rightarrow> Inr m)"

definition load_operation :: "uuid \<Rightarrow> uuid \<Rightarrow> plant \<Rightarrow> error + mo_op" where
  "load_operation org i s =
     bindE (scalar_one_or_none
              (filter (\<lambda>r. mop_id r = i \<and> mop_org r = org \<and> \<not> mop_deleted r) (mo_ops s)))
       (\<lambda>r. case r of None \<Rightarrow> Inl (AppValidationError ''MO operation not found'') | Some m \<Rightarrow> Inr m)"

lemma get_mo_mem: "get_mo org i s = Inr m \<Longrightarrow> m \<in> set (mos s) \<and> mo_id m = i \<and> mo_org m = org \<and> \<not> mo_deleted m"
  unfolding get_mo_def by (auto dest: scalar_one_or_none_mem split: option.splits)

lemma load_operation_mem:
  "load_operation org i s = Inr m \<Longrightarrow> m \<in> set (mo_ops s) \<and> mop_id m = i \<and> mop_org m = org \<and> \<not> mop_deleted m"
  unfolding load_operation_def by (auto dest: scalar_one_or_none_mem split: option.splits)

text \<open>The guard on an order that is still open, of the routing, BOM and master services.\<close>

definition blocking_mo :: "(mo_row \<Rightarrow> bool) \<Rightarrow> uuid \<Rightarrow> plant \<Rightarrow> bool" where
  "blocking_mo p org s \<longleftrightarrow>
     (\<exists>m \<in> set (mos s). mo_org m = org \<and> p m \<and> \<not> mo_deleted m \<and> mo_status m \<noteq> MoStatus.CLOSED)"

text \<open>Saving a row by its primary key.\<close>

definition put_mo :: "mo_row \<Rightarrow> plant \<Rightarrow> plant" where
  "put_mo m s = s\<lparr>mos := update_where (\<lambda>r. mo_id r = mo_id m) (\<lambda>_. m) (mos s)\<rparr>"

definition put_op :: "mo_op \<Rightarrow> plant \<Rightarrow> plant" where
  "put_op m s = s\<lparr>mo_ops := update_where (\<lambda>r. mop_id r = mop_id m) (\<lambda>_. m) (mo_ops s)\<rparr>"

end
