(* ===== verification/Routing.thy ===== *)
theory Routing
  imports Manufacturing
begin

text \<open>
  Routings, \<^verbatim>\<open>app/service/routing_service.py\<close>: the operation graph of a design, created,
  replaced and soft-deleted as a whole. Listing with its paging is left out, as are the audit rows.
\<close>

section \<open>Edges\<close>

record edge_input =
  ei_from :: uuid
  ei_to :: uuid
  ei_type :: RoutingEdgeType
  ei_qty :: "decimal option"
  ei_pct :: "decimal option"

definition validate_edge_thresholds :: "edge_input \<Rightarrow> error + unit" where
  "validate_edge_thresholds e =
     (if ei_type e = PARTIAL_FINISH_TO_START
      then (case (ei_qty e, ei_pct e) of
              (None, None) \<Rightarrow> Inl (AppValidationError ''PARTIAL_FINISH_TO_START requires a threshold'')
            | (Some _, Some _) \<Rightarrow> Inl (AppValidationError ''PARTIAL_FINISH_TO_START must set exactly one'')
            | (Some q, None) \<Rightarrow> guardE (\<not> q \<le> 0) (AppValidationError ''threshold_qty must be > 0'')
            | (None, Some p) \<Rightarrow>
                if p \<le> 0 then Inl (AppValidationError ''threshold_pct must be > 0'')
                else guardE (\<not> p > 100) (AppValidationError ''threshold_pct cannot exceed 100''))
      else guardE (ei_qty e = None \<and> ei_pct e = None)
             (AppValidationError ''edges must not carry a threshold''))"

definition input_arcs :: "edge_input list \<Rightarrow> arcs" where
  "input_arcs es = map (\<lambda>e. (ei_from e, ei_to e)) es"

text \<open>The first loop of \<^verbatim>\<open>_validate_edges\<close>; \<open>seen\<close> is the set of pairs met so far.\<close>

fun check_pairs :: "(uuid \<times> uuid) set \<Rightarrow> edge_input list \<Rightarrow> error + unit" where
  "check_pairs seen [] = Inr ()"
| "check_pairs seen (e # es) =
     (if ei_from e = ei_to e then Inl (AppValidationError ''Routing edge is a self-loop'')
      else if (ei_from e, ei_to e) \<in> seen then Inl (AppValidationError ''Duplicate edge pair'')
      else bindE (validate_edge_thresholds e) (\<lambda>_. check_pairs (insert (ei_from e, ei_to e) seen) es))"

definition check_op_firm :: "uuid \<Rightarrow> uuid \<Rightarrow> plant \<Rightarrow> uuid \<Rightarrow> error + unit" where
  "check_op_firm org firm s i =
     bindE (get_operation_master org i s)
       (\<lambda>m. guardE (opm_firm m = firm) (AppValidationError ''Operation does not belong to firm''))"

text \<open>Python iterates a set of operations, in no fixed order; it decides which of several failing
  operations is named, and the start nodes of the search, not the verdict.\<close>

definition validate_edges :: "uuid \<Rightarrow> uuid \<Rightarrow> edge_input list \<Rightarrow> plant \<Rightarrow> error + unit" where
  "validate_edges org firm es s =
     bindE (guardE (es \<noteq> []) (AppValidationError ''Routing must have at least one edge'')) (\<lambda>_.
     bindE (check_pairs {} es) (\<lambda>_.
     bindE (mapE (check_op_firm org firm s) (node_list (input_arcs es))) (\<lambda>_.
     guardE (\<not> detect_cycle (input_arcs es) (node_list (input_arcs es)))
       (AppValidationError ''Routing edges form a cycle''))))"

section \<open>Operations\<close>

definition next_version_number :: "uuid \<Rightarrow> uuid \<Rightarrow> string \<Rightarrow> plant \<Rightarrow> int" where
  "next_version_number org firm code s =
     fold max (map version_number
       (filter (\<lambda>r. routing_org r = org \<and> routing_firm r = firm \<and> routing_code r = code) (routings s))) 0 + 1"

definition routing_has_blocking_mo :: "uuid \<Rightarrow> uuid \<Rightarrow> plant \<Rightarrow> bool" where
  "routing_has_blocking_mo org r s = blocking_mo (\<lambda>m. mo_routing m = Some r) org s"

definition new_edge :: "uuid \<Rightarrow> uuid \<Rightarrow> uuid \<Rightarrow> edge_input \<Rightarrow> edge_row" where
  "new_edge org r i e =
     \<lparr>edge_id = i, edge_org = org, edge_routing = r, from_op = ei_from e, to_op = ei_to e,
      edge_type = Some (ei_type e), threshold_qty = ei_qty e, threshold_pct = ei_pct e,
      edge_deleted = False\<rparr>"

fun add_edges :: "uuid \<Rightarrow> uuid \<Rightarrow> edge_input list \<Rightarrow> plant \<Rightarrow> plant" where
  "add_edges org r [] s = s"
| "add_edges org r (e # es) s =
     (case plant_mint s of (s', i) \<Rightarrow>
        add_edges org r es (s'\<lparr>routing_edges := routing_edges s' @ [new_edge org r i e]\<rparr>))"

definition find_live_routing :: "uuid \<Rightarrow> uuid \<Rightarrow> string \<Rightarrow> plant \<Rightarrow> error + routing_row option" where
  "find_live_routing org firm code s =
     scalar_one_or_none
       (filter (\<lambda>r. routing_org r = org \<and> routing_firm r = firm \<and> routing_code r = code \<and> \<not> routing_deleted r)
          (routings s))"

definition create_routing ::
  "uuid \<Rightarrow> uuid \<Rightarrow> uuid \<Rightarrow> string \<Rightarrow> edge_input list \<Rightarrow> plant \<Rightarrow> error + plant \<times> routing_row" where
  "create_routing org firm design code es s =
     bindE (assert_firm_in_org org firm (jw_stock (shop s))) (\<lambda>_.
     bindE (guardE (code \<noteq> []) (AppValidationError ''Routing code is required'')) (\<lambda>_.
     bindE (get_design org design s) (\<lambda>d.
     bindE (guardE (design_firm d = firm) (AppValidationError ''Design does not belong to firm'')) (\<lambda>_.
     bindE (validate_edges org firm es s) (\<lambda>_.
     bindE (find_live_routing org firm code s) (\<lambda>existing.
     bindE (guardE (existing = None) (AppValidationError ''Routing with code already exists'')) (\<lambda>_.
     let v = next_version_number org firm code s in
     bindE (guardE (\<not> (\<exists>r \<in> set (routings s). routing_firm r = firm \<and> routing_code r = code \<and> version_number r = v))
              (AppValidationError ''Routing version race detected'')) (\<lambda>_.
     case plant_mint s of (s', i) \<Rightarrow>
     let r = \<lparr>routing_id = i, routing_org = org, routing_firm = firm, routing_design = design,
              routing_code = code, version_number = v, routing_active = True, routing_deleted = False\<rparr>
     in Inr (add_edges org i es (s'\<lparr>routings := routings s' @ [r]\<rparr>), r)))))))))"

definition get_routing :: "uuid \<Rightarrow> uuid \<Rightarrow> plant \<Rightarrow> error + routing_row" where
  "get_routing org i s =
     bindE (scalar_one_or_none
              (filter (\<lambda>r. routing_id r = i \<and> routing_org r = org \<and> \<not> routing_deleted r) (routings s)))
       (\<lambda>r. case r of None \<Rightarrow> Inl (AppValidationError ''Routing not found'') | Some r \<Rightarrow> Inr r)"

text \<open>\<^verbatim>\<open>routing.edges\<close>, ordered by the ids of its ends.\<close>

definition edges_of :: "uuid \<Rightarrow> plant \<Rightarrow> edge_row list" where
  "edges_of r s = sort_key (\<lambda>e. (from_op e, to_op e)) (filter (\<lambda>e. edge_routing e = r) (routing_edges s))"

definition update_routing_edges ::
  "uuid \<Rightarrow> uuid \<Rightarrow> edge_input list \<Rightarrow> plant \<Rightarrow> error + plant \<times> routing_row" where
  "update_routing_edges org i es s =
     bindE (get_routing org i s) (\<lambda>r.
     bindE (guardE (\<not> routing_has_blocking_mo org i s)
              (AppValidationError ''Routing is in use by an active manufacturing order'')) (\<lambda>_.
     bindE (validate_edges org (routing_firm r) es s) (\<lambda>_.
     Inr (add_edges org i es (s\<lparr>routing_edges := filter (\<lambda>e. edge_routing e \<noteq> i) (routing_edges s)\<rparr>), r))))"

definition delete_routing :: "uuid \<Rightarrow> uuid \<Rightarrow> plant \<Rightarrow> error + plant" where
  "delete_routing org i s =
     bindE (scalar_one_or_none (filter (\<lambda>r. routing_id r = i \<and> routing_org r = org) (routings s))) (\<lambda>found.
     case found of
       None \<Rightarrow> Inl (AppValidationError ''Routing not found'')
     | Some r \<Rightarrow>
         if routing_deleted r then Inr s
         else bindE (guardE (\<not> routing_has_blocking_mo org i s)
                       (AppValidationError ''Routing is in use by an active manufacturing order'')) (\<lambda>_.
              Inr (s\<lparr>routings := update_where (\<lambda>w. routing_id w = i)
                       (\<lambda>w. w\<lparr>routing_deleted := True, routing_active := False\<rparr>) (routings s)\<rparr>)))"

section \<open>What a stored routing is\<close>

definition edge_arcs :: "edge_row list \<Rightarrow> arcs" where
  "edge_arcs es = map (\<lambda>e. (from_op e, to_op e)) es"

text \<open>The abstract contract of an edge set: the docstring's invariants 1 and 3.\<close>

definition threshold_ok :: "edge_row \<Rightarrow> bool" where
  "threshold_ok e \<longleftrightarrow>
     (if edge_type e = Some PARTIAL_FINISH_TO_START
      then (\<exists>q. threshold_qty e = Some q \<and> 0 < q \<and> threshold_pct e = None) \<or>
           (\<exists>p. threshold_pct e = Some p \<and> 0 < p \<and> p \<le> 100 \<and> threshold_qty e = None)
      else threshold_qty e = None \<and> threshold_pct e = None)"

definition edges_ok :: "edge_row list \<Rightarrow> bool" where
  "edges_ok es \<longleftrightarrow>
     es \<noteq> [] \<and> distinct (edge_arcs es) \<and> acyclic (set (edge_arcs es)) \<and>
     (\<forall>e \<in> set es. threshold_ok e \<and> edge_type e \<noteq> None \<and> \<not> edge_deleted e)"

definition routings_ok :: "plant \<Rightarrow> bool" where
  "routings_ok s \<longleftrightarrow>
     ids_ok s \<and> routing_id ` set (routings s) \<union> edge_routing ` set (routing_edges s) \<subseteq> issued_ids s \<and>
     distinct (map routing_id (routings s)) \<and>
     (\<forall>r \<in> set (routings s). edges_ok (edges_of (routing_id r) s)) \<and>
     (\<forall>r \<in> set (routings s). \<forall>t \<in> set (routings s). \<not> routing_deleted r \<and> \<not> routing_deleted t \<and>
        routing_org r = routing_org t \<and> routing_firm r = routing_firm t \<and> routing_code r = routing_code t
        \<longrightarrow> r = t)"

lemma validate_edge_thresholds_ok:
  "validate_edge_thresholds e = Inr u \<Longrightarrow> threshold_ok (new_edge org r i e)"
  by (auto simp: validate_edge_thresholds_def threshold_ok_def new_edge_def split: if_splits option.splits)

lemma check_pairs_ok:
  "check_pairs seen es = Inr u \<Longrightarrow>
   distinct (input_arcs es) \<and> set (input_arcs es) \<inter> seen = {} \<and>
   (\<forall>e \<in> set es. validate_edge_thresholds e = Inr ())"
proof (induction seen es rule: check_pairs.induct)
  case (2 seen e es)
  then show ?case by (auto simp: input_arcs_def split: if_splits)
qed (simp add: input_arcs_def)

lemma validate_edges_ok:
  assumes "validate_edges org firm es s = Inr u"
  shows "es \<noteq> []" and "distinct (input_arcs es)" and "acyclic (set (input_arcs es))"
    and "\<forall>e \<in> set es. validate_edge_thresholds e = Inr ()"
    and "\<forall>n \<in> nodes (input_arcs es). \<exists>m. get_operation_master org n s = Inr m \<and> opm_firm m = firm"
proof -
  from assms obtain u1 u2 where ne: "es \<noteq> []" and p: "check_pairs {} es = Inr u1"
    and m: "mapE (check_op_firm org firm s) (node_list (input_arcs es)) = Inr u2"
    and c: "\<not> detect_cycle (input_arcs es) (node_list (input_arcs es))"
    by (auto simp: validate_edges_def)
  show "es \<noteq> []" by (rule ne)
  show "distinct (input_arcs es)" "\<forall>e \<in> set es. validate_edge_thresholds e = Inr ()"
    using check_pairs_ok [OF p] by blast+
  show "acyclic (set (input_arcs es))" using c detect_cycle_iff [of "input_arcs es" "node_list (input_arcs es)"] by simp
  have "\<forall>n \<in> set (node_list (input_arcs es)). check_op_firm org firm s n = Inr ()" by (rule mapE_checks [OF m])
  then show "\<forall>n \<in> nodes (input_arcs es). \<exists>m. get_operation_master org n s = Inr m \<and> opm_firm m = firm"
    by (auto simp: check_op_firm_def)
qed

section \<open>Every operation keeps the contract\<close>

lemma add_edges_effect:
  "ids_ok s \<Longrightarrow> \<exists>h new. add_edges org r es s = s\<lparr>shop := h, routing_edges := routing_edges s @ new\<rparr> \<and>
     list_all2 (\<lambda>e n. \<exists>i. n = new_edge org r i e) es new \<and>
     ids_ok (add_edges org r es s) \<and> issued_ids s \<subseteq> issued_ids (add_edges org r es s)"
proof (induction org r es s rule: add_edges.induct)
  case (1 org r s)
  have "s = s\<lparr>shop := shop s, routing_edges := routing_edges s @ []\<rparr>" by simp
  then show ?case using 1 by (intro exI [of _ "shop s"] exI [of _ "[]"]) simp
next
  case (2 org r e es s)
  obtain s' i where m: "plant_mint s = (s', i)" by (cases "plant_mint s")
  define s1 where "s1 = s'\<lparr>routing_edges := routing_edges s' @ [new_edge org r i e]\<rparr>"
  from plant_mint_effect(4) [OF m 2(2)] obtain h0 where h0: "s' = s\<lparr>shop := h0\<rparr>" by blast
  have s1: "s1 = s\<lparr>shop := h0, routing_edges := routing_edges s @ [new_edge org r i e]\<rparr>"
    by (simp add: s1_def h0)
  have ids: "ids_ok s1" "issued_ids s \<subseteq> issued_ids s1"
    using plant_mint_effect(1,3) [OF m 2(2)] by (auto simp: s1_def ids_ok_def issued_ids_def)
  from 2(1) [OF m [symmetric], folded s1_def, OF ids(1)] obtain h new where
    n: "add_edges org r es s1 = s1\<lparr>shop := h, routing_edges := routing_edges s1 @ new\<rparr>"
      "list_all2 (\<lambda>e n. \<exists>i. n = new_edge org r i e) es new" "ids_ok (add_edges org r es s1)"
      "issued_ids s1 \<subseteq> issued_ids (add_edges org r es s1)" by blast
  have a: "add_edges org r (e # es) s = add_edges org r es s1" by (simp add: m s1_def)
  have f: "add_edges org r es s1 = s\<lparr>shop := h, routing_edges := routing_edges s @ (new_edge org r i e # new)\<rparr>"
    unfolding n(1) by (simp add: s1)
  have l: "list_all2 (\<lambda>e n. \<exists>i. n = new_edge org r i e) (e # es) (new_edge org r i e # new)" using n(2) by auto
  from f l n(3) subset_trans [OF ids(2) n(4)] show ?case unfolding a by blast
qed

text \<open>The edges a validated request stores honour the contract.\<close>

lemma stored_edges_ok:
  assumes "validate_edges org firm es s = Inr u" and "list_all2 (\<lambda>e n. \<exists>i. n = new_edge org' r i e) es new"
  shows "edges_ok new"
proof -
  note v = validate_edges_ok [OF assms(1)]
  have "edge_arcs new = input_arcs es"
    using assms(2) by (induction rule: list_all2_induct) (auto simp: edge_arcs_def input_arcs_def new_edge_def)
  moreover have "\<forall>n \<in> set new. threshold_ok n \<and> edge_type n \<noteq> None \<and> \<not> edge_deleted n"
    using assms(2) v(4) validate_edge_thresholds_ok
    by (induction rule: list_all2_induct) (auto simp: new_edge_def intro: validate_edge_thresholds_ok [unfolded new_edge_def])
  moreover have "new \<noteq> []" using assms(2) v(1) by auto
  ultimately show ?thesis using v(2,3) by (simp add: edges_ok_def)
qed

lemma edges_ok_perm:
  assumes "mset es = mset es'"
  shows "edges_ok es = edges_ok es'"
proof -
  have "set es = set es'" using assms by (rule mset_eq_setD)
  moreover have "mset (edge_arcs es) = mset (edge_arcs es')" using assms by (simp add: edge_arcs_def)
  then have "distinct (edge_arcs es) = distinct (edge_arcs es')" "set (edge_arcs es) = set (edge_arcs es')"
    by (auto dest: mset_eq_setD mset_eq_imp_distinct_iff)
  moreover have "es = [] \<longleftrightarrow> es' = []" using assms by auto
  ultimately show ?thesis by (simp add: edges_ok_def)
qed

lemma edges_ok_edges_of:
  "edges_ok (edges_of r s) = edges_ok (filter (\<lambda>e. edge_routing e = r) (routing_edges s))"
  by (rule edges_ok_perm) (simp add: edges_of_def)

lemma new_edges_routing:
  "list_all2 (\<lambda>e n. \<exists>i. n = new_edge org r i e) es new \<Longrightarrow> filter (\<lambda>e. edge_routing e = t) new = (if t = r then new else [])"
  by (induction rule: list_all2_induct) (auto simp: new_edge_def)


lemma create_routing_cases:
  assumes "create_routing org firm design code es s = Inr (s', r)" and "ids_ok s"
  obtains h new where "validate_edges org firm es s = Inr ()"
    and "s' = s\<lparr>shop := h, routings := routings s @ [r], routing_edges := routing_edges s @ new\<rparr>"
    and "list_all2 (\<lambda>e n. \<exists>i. n = new_edge org (routing_id r) i e) es new"
    and "ids_ok s'" and "insert (routing_id r) (issued_ids s) \<subseteq> issued_ids s'" and "routing_id r \<notin> issued_ids s"
    and "routing_org r = org" and "routing_firm r = firm" and "routing_code r = code" and "\<not> routing_deleted r"
    and "\<forall>t \<in> set (routings s). routing_org t = org \<and> routing_firm t = firm \<and> routing_code t = code \<longrightarrow> routing_deleted t"
    and "version_number r = next_version_number org firm code s"
proof -
  obtain s0 i where m: "plant_mint s = (s0, i)" by (cases "plant_mint s")
  define v where "v = next_version_number org firm code s"
  define r' where "r' = \<lparr>routing_id = i, routing_org = org, routing_firm = firm, routing_design = design,
              routing_code = code, version_number = v, routing_active = True, routing_deleted = False\<rparr>"
  define s1 where "s1 = s0\<lparr>routings := routings s0 @ [r']\<rparr>"
  from assms(1) have val: "validate_edges org firm es s = Inr ()"
    and free: "find_live_routing org firm code s = Inr None"
    and s': "s' = add_edges org i es s1" and r: "r = r'"
    by (auto simp: create_routing_def Let_def m s1_def r'_def v_def)
  note e = plant_mint_effect [OF m assms(2)]
  from e(4) obtain h0 where h0: "s0 = s\<lparr>shop := h0\<rparr>" by blast
  have ids: "ids_ok s1" "issued_ids s1 = insert i (issued_ids s)"
    using e(1,3) by (simp_all add: s1_def ids_ok_def issued_ids_def)
  from add_edges_effect [OF ids(1), of org i es] obtain h new where
    a: "s' = s1\<lparr>shop := h, routing_edges := routing_edges s1 @ new\<rparr>"
      "list_all2 (\<lambda>e n. \<exists>j. n = new_edge org i j e) es new" "ids_ok s'" "issued_ids s1 \<subseteq> issued_ids s'"
    unfolding s' by blast
  show thesis
  proof (rule that [OF val])
    show "s' = s\<lparr>shop := h, routings := routings s @ [r], routing_edges := routing_edges s @ new\<rparr>"
      by (simp add: a(1) s1_def h0 r)
    show "\<forall>t \<in> set (routings s). routing_org t = org \<and> routing_firm t = firm \<and> routing_code t = code \<longrightarrow> routing_deleted t"
      using free by (auto simp: find_live_routing_def scalar_one_or_none_None filter_empty_conv)
  qed (use a ids(2) e(2) in \<open>simp_all add: r r'_def v_def\<close>)
qed

lemma create_routing_ok:
  assumes "create_routing org firm design code es s = Inr (s', r)" and ok: "routings_ok s"
  shows "routings_ok s'"
proof -
  have "ids_ok s" using ok by (simp add: routings_ok_def)
  from assms(1) this show ?thesis
  proof (rule create_routing_cases)
    fix h new
    assume val: "validate_edges org firm es s = Inr ()"
      and s': "s' = s\<lparr>shop := h, routings := routings s @ [r], routing_edges := routing_edges s @ new\<rparr>"
      and new: "list_all2 (\<lambda>e n. \<exists>i. n = new_edge org (routing_id r) i e) es new"
      and ids: "ids_ok s'" "insert (routing_id r) (issued_ids s) \<subseteq> issued_ids s'" "routing_id r \<notin> issued_ids s"
      and r: "routing_org r = org" "routing_firm r = firm" "routing_code r = code" "\<not> routing_deleted r"
      and free: "\<forall>t \<in> set (routings s). routing_org t = org \<and> routing_firm t = firm \<and> routing_code t = code \<longrightarrow> routing_deleted t"
    have old: "routing_id ` set (routings s) \<union> edge_routing ` set (routing_edges s) \<subseteq> issued_ids s"
      using ok by (simp add: routings_ok_def)
    have fresh: "routing_id t \<noteq> routing_id r" if "t \<in> set (routings s)" for t
    proof -
      have "routing_id t \<in> issued_ids s" using old that by auto
      with ids(3) show ?thesis by metis
    qed
    have none: "filter (\<lambda>e. edge_routing e = routing_id r) (routing_edges s) = []"
      using old ids(3) by (auto simp: filter_empty_conv)
    have E: "edges_ok (edges_of (routing_id t) s')" if "t \<in> set (routings s')" for t
    proof (cases "t = r")
      case True
      then show ?thesis using none stored_edges_ok [OF val new]
        by (simp add: edges_ok_edges_of s' new_edges_routing [OF new])
    next
      case False
      with that have t: "t \<in> set (routings s)" by (simp add: s')
      then have "edges_ok (edges_of (routing_id t) s)" using ok by (simp add: routings_ok_def)
      then show ?thesis using fresh [OF t] by (simp add: edges_ok_edges_of s' new_edges_routing [OF new])
    qed
    have "edge_routing ` set new \<subseteq> {routing_id r}"
      using new by (induction rule: list_all2_induct) (auto simp: new_edge_def)
    then have "routing_id ` set (routings s') \<union> edge_routing ` set (routing_edges s') \<subseteq> issued_ids s'"
      using old ids(2) by (auto simp: s')
    moreover have "routing_id r \<notin> routing_id ` set (routings s)" using fresh by (metis image_iff)
    then have "distinct (map routing_id (routings s'))" using ok by (simp add: routings_ok_def s')
    moreover have "t = u" if "t \<in> set (routings s')" "u \<in> set (routings s')" "\<not> routing_deleted t" "\<not> routing_deleted u"
      "routing_org t = routing_org u" "routing_firm t = routing_firm u" "routing_code t = routing_code u" for t u
    proof (cases "t = r \<or> u = r")
      case True
      then show ?thesis using that free r by (auto simp: s')
    next
      case False
      with that have "t \<in> set (routings s)" "u \<in> set (routings s)" by (simp_all add: s')
      with that ok show ?thesis by (simp add: routings_ok_def)
    qed
    ultimately show ?thesis using E ids(1) unfolding routings_ok_def by blast
  qed
qed

lemma get_routing_mem:
  "get_routing org i s = Inr r \<Longrightarrow> r \<in> set (routings s) \<and> routing_id r = i \<and> routing_org r = org \<and> \<not> routing_deleted r"
  unfolding get_routing_def by (auto dest: scalar_one_or_none_mem split: option.splits)

lemma update_routing_cases:
  assumes "update_routing_edges org i es s = Inr (s', r)" and "ids_ok s"
  obtains h new where "get_routing org i s = Inr r" and "\<not> routing_has_blocking_mo org i s"
    and "validate_edges org (routing_firm r) es s = Inr ()"
    and "s' = s\<lparr>shop := h, routing_edges := filter (\<lambda>e. edge_routing e \<noteq> i) (routing_edges s) @ new\<rparr>"
    and "list_all2 (\<lambda>e n. \<exists>j. n = new_edge org i j e) es new"
    and "ids_ok s'" and "issued_ids s \<subseteq> issued_ids s'"
proof -
  define s1 where "s1 = s\<lparr>routing_edges := filter (\<lambda>e. edge_routing e \<noteq> i) (routing_edges s)\<rparr>"
  from assms(1) have g: "get_routing org i s = Inr r" "\<not> routing_has_blocking_mo org i s"
    "validate_edges org (routing_firm r) es s = Inr ()" and s': "s' = add_edges org i es s1"
    by (auto simp: update_routing_edges_def s1_def)
  have ids: "ids_ok s1" "issued_ids s1 = issued_ids s" using assms(2) by (simp_all add: s1_def ids_ok_def issued_ids_def)
  from add_edges_effect [OF ids(1), of org i es] obtain h new where
    "s' = s1\<lparr>shop := h, routing_edges := routing_edges s1 @ new\<rparr>"
    "list_all2 (\<lambda>e n. \<exists>j. n = new_edge org i j e) es new" "ids_ok s'" "issued_ids s1 \<subseteq> issued_ids s'"
    unfolding s' by blast
  with that [OF g, of new h] ids(2) show thesis by (simp add: s1_def)
qed

lemma update_routing_ok:
  assumes "update_routing_edges org i es s = Inr (s', r)" and ok: "routings_ok s"
  shows "routings_ok s'"
proof -
  have "ids_ok s" using ok by (simp add: routings_ok_def)
  from assms(1) this show ?thesis
  proof (rule update_routing_cases)
    fix h new
    assume g: "get_routing org i s = Inr r" and val: "validate_edges org (routing_firm r) es s = Inr ()"
      and s': "s' = s\<lparr>shop := h, routing_edges := filter (\<lambda>e. edge_routing e \<noteq> i) (routing_edges s) @ new\<rparr>"
      and new: "list_all2 (\<lambda>e n. \<exists>j. n = new_edge org i j e) es new"
      and ids: "ids_ok s'" "issued_ids s \<subseteq> issued_ids s'"
    have E: "edges_ok (edges_of (routing_id t) s')" if t: "t \<in> set (routings s)" for t
    proof (cases "routing_id t = i")
      case True
      then show ?thesis using stored_edges_ok [OF val new] by (simp add: edges_ok_edges_of s' new_edges_routing [OF new])
    next
      case False
      then have "filter (\<lambda>e. edge_routing e = routing_id t) (filter (\<lambda>e. edge_routing e \<noteq> i) (routing_edges s))
        = filter (\<lambda>e. edge_routing e = routing_id t) (routing_edges s)"
        by (auto simp: intro!: filter_cong)
      moreover have "edges_ok (edges_of (routing_id t) s)" using ok t by (simp add: routings_ok_def)
      ultimately show ?thesis using False by (simp add: edges_ok_edges_of s' new_edges_routing [OF new])
    qed
    have i: "i \<in> issued_ids s" using get_routing_mem [OF g] ok by (auto simp: routings_ok_def)
    have "edge_routing ` set new \<subseteq> {i}"
      using new by (induction rule: list_all2_induct) (auto simp: new_edge_def)
    then have "routing_id ` set (routings s') \<union> edge_routing ` set (routing_edges s') \<subseteq> issued_ids s'"
      using ok ids(2) i by (auto simp: s' routings_ok_def)
    moreover have "routings s' = routings s" by (simp add: s')
    ultimately show ?thesis using E ids(1) ok by (simp add: routings_ok_def)
  qed
qed

lemma delete_routing_ok:
  assumes "delete_routing org i s = Inr s'" and ok: "routings_ok s"
  shows "routings_ok s'"
proof -
  from assms(1) consider "s' = s"
    | "s' = s\<lparr>routings := update_where (\<lambda>w. routing_id w = i)
        (\<lambda>w. w\<lparr>routing_deleted := True, routing_active := False\<rparr>) (routings s)\<rparr>"
    by (auto simp: delete_routing_def split: option.splits if_splits)
  then show ?thesis
  proof cases
    case 2
    let ?del = "\<lambda>w. if routing_id w = i then w\<lparr>routing_deleted := True, routing_active := False\<rparr> else w"
    have r: "routings s' = map ?del (routings s)" by (simp add: 2 update_where_def)
    have id: "routing_id (?del w) = routing_id w" for w by simp
    have live: "\<not> routing_deleted (?del w) \<Longrightarrow> ?del w = w" for w by (simp split: if_splits)
    have "edges_of j s' = edges_of j s" for j by (simp add: 2 edges_of_def)
    moreover have "map routing_id (routings s') = map routing_id (routings s)" by (simp add: r o_def id)
    moreover have "issued_ids s' = issued_ids s" "ids_ok s' = ids_ok s" "routing_edges s' = routing_edges s"
      by (simp_all add: 2 issued_ids_def ids_ok_def)
    moreover have "\<forall>t \<in> set (routings s'). \<forall>u \<in> set (routings s'). \<not> routing_deleted t \<and> \<not> routing_deleted u \<and>
        routing_org t = routing_org u \<and> routing_firm t = routing_firm u \<and> routing_code t = routing_code u
        \<longrightarrow> t = u"
      using ok live unfolding r routings_ok_def by (auto split: if_splits)
    moreover have "\<forall>t \<in> set (routings s'). edges_ok (edges_of (routing_id t) s)"
      using ok by (auto simp: r routings_ok_def)
    moreover have "routing_id ` set (routings s') = routing_id ` set (routings s)" by (metis calculation(2) set_map)
    ultimately show ?thesis using ok by (simp add: routings_ok_def)
  qed (use ok in simp)
qed


text \<open>Requests on routings, each a transaction.\<close>

datatype routing_call =
    CreateRouting uuid uuid uuid string "edge_input list"
  | ReplaceEdges uuid uuid "edge_input list"
  | DeleteRouting uuid uuid

fun routing_step :: "routing_call \<Rightarrow> plant \<Rightarrow> error + plant" where
  "routing_step (CreateRouting org firm design code es) s =
     bindE (create_routing org firm design code es s) (\<lambda>(s', _). Inr s')"
| "routing_step (ReplaceEdges org i es) s = bindE (update_routing_edges org i es s) (\<lambda>(s', _). Inr s')"
| "routing_step (DeleteRouting org i) s = delete_routing org i s"

lemma routing_step_ok: "routing_step c s = Inr s' \<Longrightarrow> routings_ok s \<Longrightarrow> routings_ok s'"
  by (cases c) (auto dest: create_routing_ok update_routing_ok delete_routing_ok)

interpretation routing: transactional routing_step routings_ok
  by unfold_locales (rule routing_step_ok)

section \<open>Properties\<close>

definition demo_op :: "uuid \<Rightarrow> op_master" where
  "demo_op i = \<lparr>opm_id = i, opm_org = 1, opm_firm = 2, opm_type = STITCHING, opm_deleted = False\<rparr>"

text \<open>A firm with one design and the operations 41 to 44.\<close>

definition demo_shop :: jobwork where
  "demo_shop = \<lparr>jw_stock = demo_empty, parties = [\<lparr>party_id = 6, party_org = 1, is_karigar = True, party_deleted = False\<rparr>],
     jwos = [], jwo_lines = [], jw_receipts = [], jw_receipt_lines = []\<rparr>"

definition demo_plant :: plant where
  "demo_plant = \<lparr>shop = demo_shop, plant_books = demo_books,
     designs = [\<lparr>design_id = 7, design_org = 1, design_firm = 2, design_deleted = False\<rparr>],
     op_masters = map demo_op [41, 42, 43, 44], boms = [], bom_lines = [], routings = [], routing_edges = [],
     mos = [], material_lines = [], mo_ops = [], material_issues = [], issue_lines = [], qc_events = []\<rparr>"

definition fs :: "uuid \<Rightarrow> uuid \<Rightarrow> edge_input" where
  "fs a b = \<lparr>ei_from = a, ei_to = b, ei_type = FINISH_TO_START, ei_qty = None, ei_pct = None\<rparr>"

definition demo_diamond :: "edge_input list" where
  "demo_diamond = [fs 41 42, fs 41 43, fs 42 44, fs 43 44]"

lemmas eval_routing = demo_plant_def demo_shop_def demo_op_def demo_diamond_def fs_def demo_empty_def demo_lot_def
  Let_def scalar_one_or_none_def bindE_def guardE_def mint_def plant_mint_def assert_firm_in_org_def
  create_routing_def get_design_def validate_edges_def validate_edge_thresholds_def input_arcs_def
  check_op_firm_def get_operation_master_def node_list_def detect_cycle_def adj_def
  find_live_routing_def next_version_number_def new_edge_def

lemma demo_plant_routings_ok: "routings_ok demo_plant"
  by (auto simp: routings_ok_def ids_ok_def inj_def demo_plant_def demo_shop_def demo_empty_def)

text \<open>C14: A set of edges is accepted for a routing exactly when it is non-empty, names no pair of
  operations twice, carries thresholds on partial edges only (one of the two, positive, at most 100 per
  cent), names operations of the firm alone, and has no cycle, self-loops included.\<close>

theorem accepted_edges:
  "validate_edges org firm es s = Inr () \<longleftrightarrow>
     es \<noteq> [] \<and> distinct (input_arcs es) \<and> acyclic (set (input_arcs es)) \<and>
     (\<forall>e \<in> set es. threshold_ok (new_edge org 0 0 e)) \<and>
     (\<forall>n \<in> nodes (input_arcs es). \<exists>m. get_operation_master org n s = Inr m \<and> opm_firm m = firm)"
  (is "?v \<longleftrightarrow> ?ne \<and> ?d \<and> ?a \<and> ?t \<and> ?o")
proof
  assume v: ?v
  show "?ne \<and> ?d \<and> ?a \<and> ?t \<and> ?o"
    using validate_edges_ok [OF v] validate_edge_thresholds_ok by blast
next
  assume r: "?ne \<and> ?d \<and> ?a \<and> ?t \<and> ?o"
  then have loopfree: "\<forall>e \<in> set es. ei_from e \<noteq> ei_to e"
    by (auto simp: acyclic_def input_arcs_def intro: r_into_trancl)
  have t: "\<forall>e \<in> set es. validate_edge_thresholds e = Inr ()"
    using r by (auto simp: validate_edge_thresholds_def threshold_ok_def new_edge_def split: if_splits option.splits)
  have "check_pairs seen xs = Inr ()"
    if "distinct (input_arcs xs)" "set (input_arcs xs) \<inter> seen = {}" "set xs \<subseteq> set es" for seen xs
    using that loopfree t
    by (induction seen xs rule: check_pairs.induct) (auto simp: input_arcs_def)
  then have "check_pairs {} es = Inr ()" using r by blast
  moreover have "mapE (check_op_firm org firm s) xs = Inr (map (\<lambda>_. ()) xs)" if "set xs \<subseteq> nodes (input_arcs es)" for xs
    using that r by (induction xs) (auto simp: check_op_firm_def)
  then have "mapE (check_op_firm org firm s) (node_list (input_arcs es)) = Inr (map (\<lambda>_. ()) (node_list (input_arcs es)))"
    by simp
  ultimately show ?v using r detect_cycle_iff [of "input_arcs es" "node_list (input_arcs es)"]
    by (simp add: validate_edges_def)
qed

lemma accepted_edges_witness:
  "acyclic (set (input_arcs demo_diamond)) \<and> validate_edges 1 2 (demo_diamond @ [fs 44 41]) demo_plant \<noteq> Inr ()"
proof
  have "validate_edges 1 2 demo_diamond demo_plant = Inr ()" by (simp add: eval_routing)
  with accepted_edges show "acyclic (set (input_arcs demo_diamond))" by blast
  have "\<not> acyclic (set (input_arcs (demo_diamond @ [fs 44 41])))"
  proof
    assume a: "acyclic (set (input_arcs (demo_diamond @ [fs 44 41])))"
    have "{(41, 42), (42, 44), (44, 41)} \<subseteq> set (input_arcs (demo_diamond @ [fs 44 41]))"
      by (simp add: demo_diamond_def fs_def input_arcs_def)
    then have "(41, 41) \<in> (set (input_arcs (demo_diamond @ [fs 44 41])))\<^sup>+" by (meson insert_subset r_into_trancl' trancl_into_trancl)
    with a show False by (simp add: acyclic_def)
  qed
  with accepted_edges show "validate_edges 1 2 (demo_diamond @ [fs 44 41]) demo_plant \<noteq> Inr ()" by blast
qed

text \<open>C25: Whatever calls create, replace and delete routings, in whatever order and with whatever
  failures, every stored routing keeps a non-empty acyclic set of distinct edges with lawful
  thresholds, and no two live routings of a firm share a code.\<close>

theorem routings_stay_dags:
  assumes "routings_ok s"
  shows "routings_ok (fold (commit routing_step) calls s)"
  using assms by (rule routing.run_inv)

lemma routings_stay_dags_witness:
  "\<exists>r. routings (fold (commit routing_step)
        [CreateRouting 1 2 7 ''R1'' demo_diamond, CreateRouting 1 2 7 ''R2'' [fs 41 42, fs 42 41]] demo_plant) = [r] \<and>
     edges_ok (edges_of (routing_id r) (fold (commit routing_step)
        [CreateRouting 1 2 7 ''R1'' demo_diamond, CreateRouting 1 2 7 ''R2'' [fs 41 42, fs 42 41]] demo_plant))"
proof -
  let ?t = "fold (commit routing_step)
        [CreateRouting 1 2 7 ''R1'' demo_diamond, CreateRouting 1 2 7 ''R2'' [fs 41 42, fs 42 41]] demo_plant"
  have "length (routings ?t) = 1" by (simp add: commit_def eval_routing)
  then obtain r where "routings ?t = [r]" by (cases "routings ?t") auto
  with routings_stay_dags [OF demo_plant_routings_ok] show ?thesis
    unfolding routings_ok_def by (metis list.set_intros(1))
qed


text \<open>C28: For every stored routing the ordering of its operations ends, never raises, and lists each
  operation once with every edge pointing forward.\<close>

theorem stored_routings_order:
  assumes "routings_ok s" and "r \<in> set (routings s)"
  shows "\<exists>ord. topological_order (edge_arcs (edges_of (routing_id r) s)) = Some (Inr ord) \<and> distinct ord \<and>
    set ord = nodes (edge_arcs (edges_of (routing_id r) s)) \<and>
    (\<forall>e \<in> set (edges_of (routing_id r) s). before ord (from_op e) (to_op e))"
proof -
  let ?es = "edge_arcs (edges_of (routing_id r) s)"
  have "acyclic (set ?es)" using assms by (simp add: routings_ok_def edges_ok_def)
  with topological_order_spec [of ?es] obtain ord where "topological_order ?es = Some (Inr ord)" "distinct ord"
    "set ord = nodes ?es" "\<forall>(a, b) \<in> set ?es. before ord a b" by auto
  then show ?thesis by (auto simp: edge_arcs_def)
qed

text \<open>The state after the routing of the diamond was created.\<close>

definition demo_routed :: plant where
  "demo_routed = commit routing_step (CreateRouting 1 2 7 ''R1'' demo_diamond) demo_plant"

lemma demo_routed_routings:
  "routings demo_routed = [\<lparr>routing_id = 100, routing_org = 1, routing_firm = 2, routing_design = 7,
     routing_code = ''R1'', version_number = 1, routing_active = True, routing_deleted = False\<rparr>]"
  "map (\<lambda>e. (edge_routing e, from_op e, to_op e, edge_type e)) (routing_edges demo_routed)
     = map (\<lambda>(a, b). (100, a, b, Some FINISH_TO_START)) [(41, 42), (41, 43), (42, 44), (43, 44)]"
  by (simp_all add: demo_routed_def commit_def eval_routing)

lemma demo_routed_ok: "routings_ok demo_routed"
  unfolding demo_routed_def by (rule routing.commit_inv [OF demo_plant_routings_ok])

lemma stored_routings_order_witness:
  "\<exists>ord. topological_order (edge_arcs (edges_of 100 demo_routed)) = Some (Inr ord) \<and> distinct ord"
proof -
  let ?r = "hd (routings demo_routed)"
  have "?r \<in> set (routings demo_routed)" "routing_id ?r = 100" by (simp_all add: demo_routed_routings)
  with stored_routings_order [OF demo_routed_ok this(1)] show ?thesis by auto
qed

text \<open>C34: While an open order of the organisation uses a routing, no call changes its edges or removes
  it: replacing and deleting raise, and the other calls touch other rows only.\<close>

theorem open_order_freezes_routing:
  assumes "routing_step c s = Inr s'" and "routings_ok s"
    and "r \<in> set (routings s)" and "\<not> routing_deleted r"
    and "routing_has_blocking_mo (routing_org r) (routing_id r) s"
  shows "r \<in> set (routings s') \<and> edges_of (routing_id r) s' = edges_of (routing_id r) s"
proof (cases c)
  case (CreateRouting org firm design code es)
  then obtain q where c: "create_routing org firm design code es s = Inr (s', q)" using assms(1) by auto
  have ids: "ids_ok s" using assms(2) by (simp add: routings_ok_def)
  show ?thesis
  proof (rule create_routing_cases [OF c ids])
    fix h new
    assume s': "s' = s\<lparr>shop := h, routings := routings s @ [q], routing_edges := routing_edges s @ new\<rparr>"
      and new: "list_all2 (\<lambda>e n. \<exists>i. n = new_edge org (routing_id q) i e) es new"
      and fresh: "routing_id q \<notin> issued_ids s"
    have "routing_id r \<in> issued_ids s" using assms(2,3) by (auto simp: routings_ok_def)
    with fresh have "routing_id r \<noteq> routing_id q" by metis
    then show ?thesis using assms(3) by (simp add: s' edges_of_def new_edges_routing [OF new])
  qed
next
  case (ReplaceEdges org i es)
  then obtain q where c: "update_routing_edges org i es s = Inr (s', q)" using assms(1) by auto
  have ids: "ids_ok s" using assms(2) by (simp add: routings_ok_def)
  show ?thesis
  proof (rule update_routing_cases [OF c ids])
    fix h new
    assume g: "get_routing org i s = Inr q" and free: "\<not> routing_has_blocking_mo org i s"
      and s': "s' = s\<lparr>shop := h, routing_edges := filter (\<lambda>e. edge_routing e \<noteq> i) (routing_edges s) @ new\<rparr>"
      and new: "list_all2 (\<lambda>e n. \<exists>j. n = new_edge org i j e) es new"
    have "routing_id r \<noteq> i"
    proof
      assume i: "routing_id r = i"
      note q = get_routing_mem [OF g]
      have "q = r" using q i assms(2,3) unfolding routings_ok_def by (metis distinct_map inj_on_def)
      with free assms(5) i q show False by simp
    qed
    then have "filter (\<lambda>e. edge_routing e = routing_id r) (filter (\<lambda>e. edge_routing e \<noteq> i) (routing_edges s))
        = filter (\<lambda>e. edge_routing e = routing_id r) (routing_edges s)"
      by (auto intro!: filter_cong)
    with \<open>routing_id r \<noteq> i\<close> show ?thesis using assms(3) by (simp add: s' edges_of_def new_edges_routing [OF new])
  qed
next
  case (DeleteRouting org i)
  then have d: "delete_routing org i s = Inr s'" using assms(1) by simp
  show ?thesis
  proof (cases "routing_id r = i")
    case True
    from d obtain q where q: "filter (\<lambda>w. routing_id w = i \<and> routing_org w = org) (routings s) = [q]"
      by (auto simp: delete_routing_def scalar_one_or_none_Some split: option.splits)
    have "q = r"
      using filter_oneD [OF q] True assms(2,3) unfolding routings_ok_def by (metis distinct_map inj_on_def)
    with d q assms(4,5) filter_oneD [OF q] True show ?thesis
      by (auto simp: delete_routing_def scalar_one_or_none_def)
  next
    case False
    with d assms(3) show ?thesis
      by (auto simp: delete_routing_def edges_of_def set_update_where split: option.splits if_splits)
  qed
qed

definition demo_mo :: "uuid \<Rightarrow> MoStatus \<Rightarrow> mo_row" where
  "demo_mo i st = \<lparr>mo_id = i, mo_org = 1, mo_firm = 2, mo_series = ''MO'', mo_number = ''0001'', mo_design = 7,
     mo_item = 3, mo_bom = None, mo_routing = Some 100, mo_status = st, planned_qty = 10, produced_qty = 0,
     mo_scrap = 0, mo_byproduct = 0, mo_cost_pool = 0, completion_policy = None, planned_start = None, planned_end = None,
     mo_closed = False, mo_deleted = False\<rparr>"

lemma routings_ok_frame:
  assumes "routings_ok s" and "shop s' = shop s" and "routings s' = routings s" and "routing_edges s' = routing_edges s"
  shows "routings_ok s'"
  using assms by (simp add: routings_ok_def ids_ok_def issued_ids_def edges_of_def)

lemma open_order_freezes_routing_witness:
  "\<exists>s'. routing_step (CreateRouting 1 2 7 ''R2'' [fs 41 42]) (demo_routed\<lparr>mos := [demo_mo 60 MoStatus.RELEASED]\<rparr>) = Inr s' \<and>
     edges_of 100 s' = edges_of 100 demo_routed"
proof -
  let ?s = "demo_routed\<lparr>mos := [demo_mo 60 MoStatus.RELEASED]\<rparr>" and ?c = "CreateRouting 1 2 7 ''R2'' [fs 41 42]"
  have "\<not> isl (routing_step ?c ?s)" by (simp add: demo_routed_def commit_def demo_mo_def eval_routing)
  then obtain s' where s': "routing_step ?c ?s = Inr s'" by (cases "routing_step ?c ?s") auto
  have ok: "routings_ok ?s" by (rule routings_ok_frame [OF demo_routed_ok]) simp_all
  let ?r = "hd (routings demo_routed)"
  have r: "?r \<in> set (routings ?s)" "\<not> routing_deleted ?r" "routing_id ?r = 100"
    "routing_has_blocking_mo (routing_org ?r) (routing_id ?r) ?s"
    by (simp_all add: demo_routed_routings routing_has_blocking_mo_def blocking_mo_def demo_mo_def)
  from open_order_freezes_routing [OF s' ok r(1,2,4)] s' r(3) show ?thesis by (simp add: edges_of_def)
qed

end
