(* ===== verification/RoutingFlow.thy ===== *)
theory RoutingFlow
  imports Routing
begin

text \<open>
  The flow engine, \<^verbatim>\<open>app/service/routing_flow_service.py\<close>: whether an operation of an order may
  start, from the incoming edges of its routing and the state of its predecessors. A verdict is
  \<open>None\<close> for \<^verbatim>\<open>(True, None)\<close> and \<open>Some reason\<close> for \<^verbatim>\<open>(False, reason)\<close>, with the reasons
  shortened to their fixed part.
\<close>

definition TERMINAL_STATES :: "MoOperationState set" where
  "TERMINAL_STATES = {MoOperationState.CLOSED, SKIPPED, MoOperationState.CANCELLED}"

definition IN_PROGRESS_OR_BEYOND_STATES :: "MoOperationState set" where
  "IN_PROGRESS_OR_BEYOND_STATES =
     {MoOperationState.IN_PROGRESS, DISPATCHED, ACKNOWLEDGED, RECEIVED_PARTIAL, RECEIVED_FULL, QC_PENDING, REWORK,
      MoOperationState.CLOSED, SKIPPED, MoOperationState.CANCELLED}"

definition load_routing_with_edges :: "uuid \<Rightarrow> uuid \<Rightarrow> plant \<Rightarrow> error + routing_row option" where
  "load_routing_with_edges org i s =
     scalar_one_or_none (filter (\<lambda>r. routing_id r = i \<and> routing_org r = org \<and> \<not> routing_deleted r) (routings s))"

text \<open>The original operations of an order: rework clones carry the catalogue id of their parent and
  are left out.\<close>

definition original_ops :: "uuid \<Rightarrow> plant \<Rightarrow> mo_op list" where
  "original_ops mo s = filter (\<lambda>p. mop_mo p = mo \<and> \<not> mop_deleted p \<and> rework_of p = None) (mo_ops s)"

text \<open>The dictionary by catalogue id; a later row overwrites an earlier one.\<close>

definition load_mo_operations :: "uuid \<Rightarrow> plant \<Rightarrow> (uuid \<times> mo_op) list" where
  "load_mo_operations mo s = map (\<lambda>p. (mop_master p, p)) (rev (original_ops mo s))"

definition incoming_edges :: "uuid \<Rightarrow> uuid \<Rightarrow> plant \<Rightarrow> edge_row list" where
  "incoming_edges r master s = filter (\<lambda>e. to_op e = master \<and> \<not> edge_deleted e) (edges_of r s)"

definition effective_type :: "edge_row \<Rightarrow> RoutingEdgeType" where
  "effective_type e = (case edge_type e of None \<Rightarrow> FINISH_TO_START | Some t \<Rightarrow> t)"

text \<open>The denominator of a percentage threshold.\<close>

definition pct_baseline :: "mo_op \<Rightarrow> decimal \<Rightarrow> decimal" where
  "pct_baseline p planned =
     (if executor p = KARIGAR then planned else if mop_in p \<le> 0 then planned else mop_in p)"

definition check_edge :: "edge_row \<Rightarrow> mo_op option \<Rightarrow> decimal \<Rightarrow> string option" where
  "check_edge e pred mo_planned =
     (case pred of
        None \<Rightarrow> Some ''predecessor has no instantiated MoOperation''
      | Some p \<Rightarrow>
          (case effective_type e of
             FINISH_TO_START \<Rightarrow>
               if mop_state p \<notin> TERMINAL_STATES then Some ''FINISH_TO_START requires CLOSED / SKIPPED / CANCELLED''
               else None
           | START_TO_START \<Rightarrow>
               if mop_state p \<notin> IN_PROGRESS_OR_BEYOND_STATES
               then Some ''START_TO_START requires the upstream to be IN_PROGRESS or beyond'' else None
           | PARTIAL_FINISH_TO_START \<Rightarrow>
               if threshold_qty e \<noteq> None \<and> threshold_pct e \<noteq> None then Some ''both thresholds set''
               else if mop_state p \<notin> IN_PROGRESS_OR_BEYOND_STATES
               then Some ''PARTIAL_FINISH_TO_START requires the upstream to be IN_PROGRESS or beyond''
               else (case threshold_qty e of
                       Some q \<Rightarrow> if mop_out p < q then Some ''qty_out below threshold'' else None
                     | None \<Rightarrow>
                         (case threshold_pct e of
                            Some pct \<Rightarrow>
                              let planned = pct_baseline p mo_planned
                              in if planned \<le> 0 then Some ''no planning figure''
                                 else if ctx (ctx (mop_out p / planned) * 100) < pct
                                 then Some ''produced below threshold'' else None
                          | None \<Rightarrow> Some ''no threshold set''))))"

text \<open>The queue of incoming edges, with the safety counter.\<close>

fun walk_edges ::
  "(uuid \<times> mo_op) list \<Rightarrow> decimal \<Rightarrow> nat \<Rightarrow> nat \<Rightarrow> uuid set \<Rightarrow> edge_row list \<Rightarrow> string option" where
  "walk_edges ops planned max_steps steps visited [] = None"
| "walk_edges ops planned max_steps steps visited (e # queue) =
     (if Suc steps > max_steps then Some ''routing DAG traversal exceeded safety cap''
      else if edge_id e \<in> visited then walk_edges ops planned max_steps (Suc steps) visited queue
      else case check_edge e (map_of ops (from_op e)) planned of
             Some reason \<Rightarrow> Some reason
           | None \<Rightarrow> walk_edges ops planned max_steps (Suc steps) (insert (edge_id e) visited) queue)"

definition can_start_operation :: "mo_op \<Rightarrow> plant \<Rightarrow> error + string option" where
  "can_start_operation p s =
     (if rework_of p \<noteq> None then Inr None
      else bindE (scalar_one_or_none (filter (\<lambda>m. mo_id m = mop_mo p \<and> \<not> mo_deleted m) (mos s))) (\<lambda>found.
        case found of
          None \<Rightarrow> Inr (Some ''parent manufacturing order not found'')
        | Some m \<Rightarrow>
            (case mo_routing m of
               None \<Rightarrow> Inr None
             | Some r \<Rightarrow>
                 bindE (load_routing_with_edges (mop_org p) r s) (\<lambda>routing.
                 case routing of
                   None \<Rightarrow> Inr None
                 | Some _ \<Rightarrow>
                     let incoming = incoming_edges r (mop_master p) s
                     in if incoming = [] then Inr None
                        else
                          let ops = load_mo_operations (mop_mo p) s;
                              cap = max (max (length (remdups (map fst ops)) * 2) (length incoming * 2)) 8
                          in Inr (walk_edges ops (planned_qty m) cap 0 {} incoming)))))"

section \<open>The engine against its specification\<close>

text \<open>What an edge demands of its predecessor, as the table of the module states it.\<close>

definition threshold_met :: "edge_row \<Rightarrow> mo_op \<Rightarrow> decimal \<Rightarrow> bool" where
  "threshold_met e p planned \<longleftrightarrow>
     (\<exists>q. threshold_qty e = Some q \<and> threshold_pct e = None \<and> q \<le> mop_out p) \<or>
     (\<exists>pct. threshold_pct e = Some pct \<and> threshold_qty e = None \<and> 0 < pct_baseline p planned \<and>
        pct \<le> ctx (ctx (mop_out p / pct_baseline p planned) * 100))"

definition edge_satisfied :: "edge_row \<Rightarrow> mo_op \<Rightarrow> decimal \<Rightarrow> bool" where
  "edge_satisfied e p planned \<longleftrightarrow>
     (effective_type e = FINISH_TO_START \<longrightarrow> mop_state p \<in> TERMINAL_STATES) \<and>
     (effective_type e \<noteq> FINISH_TO_START \<longrightarrow> mop_state p \<notin> {PENDING, READY}) \<and>
     (effective_type e = PARTIAL_FINISH_TO_START \<longrightarrow> threshold_met e p planned)"

lemma beyond_iff: "st \<in> IN_PROGRESS_OR_BEYOND_STATES \<longleftrightarrow> st \<notin> {PENDING, READY}"
  by (cases st) (simp_all add: IN_PROGRESS_OR_BEYOND_STATES_def)

lemma terminal_beyond: "st \<in> TERMINAL_STATES \<Longrightarrow> st \<notin> {PENDING, READY}"
  by (auto simp: TERMINAL_STATES_def)

lemma check_edge_iff: "check_edge e pred planned = None \<longleftrightarrow> (\<exists>p. pred = Some p \<and> edge_satisfied e p planned)"
proof (cases pred)
  case (Some p)
  show ?thesis
    by (cases "effective_type e")
      (auto simp: Some check_edge_def edge_satisfied_def threshold_met_def beyond_iff Let_def split: option.splits)
qed (simp add: check_edge_def)

definition ready :: "uuid \<Rightarrow> mo_row \<Rightarrow> mo_op \<Rightarrow> plant \<Rightarrow> bool" where
  "ready r m p s \<longleftrightarrow>
     (\<forall>e \<in> set (incoming_edges r (mop_master p) s).
        \<exists>q. map_of (load_mo_operations (mop_mo p) s) (from_op e) = Some q \<and> edge_satisfied e q (planned_qty m))"

text \<open>The counter stays below its cap and no edge is skipped.\<close>

lemma walk_edges_all:
  assumes "steps + length queue \<le> max_steps" and "distinct (map edge_id queue)" and "edge_id ` set queue \<inter> visited = {}"
  shows "walk_edges ops planned max_steps steps visited queue = None \<longleftrightarrow>
    (\<forall>e \<in> set queue. check_edge e (map_of ops (from_op e)) planned = None)"
  using assms
proof (induction queue arbitrary: steps visited)
  case (Cons e queue)
  have "walk_edges ops planned max_steps (Suc steps) (insert (edge_id e) visited) queue = None \<longleftrightarrow>
    (\<forall>e \<in> set queue. check_edge e (map_of ops (from_op e)) planned = None)"
    by (rule Cons.IH) (use Cons.prems in \<open>auto simp: image_iff\<close>)
  with Cons.prems show ?case by (auto split: option.splits)
qed simp

lemma edges_of_ids: "distinct (map edge_id (routing_edges s)) \<Longrightarrow> distinct (map edge_id (edges_of r s))"
  by (auto simp: edges_of_def distinct_map inj_on_def)

lemma can_start_iff:
  assumes "rework_of p = None" and "filter (\<lambda>m. mo_id m = mop_mo p \<and> \<not> mo_deleted m) (mos s) = [m]"
    and "mo_routing m = Some r" and "load_routing_with_edges (mop_org p) r s = Inr (Some rt)"
    and "distinct (map edge_id (routing_edges s))"
  shows "\<exists>v. can_start_operation p s = Inr v \<and> (v = None \<longleftrightarrow> ready r m p s)"
proof -
  let ?in = "incoming_edges r (mop_master p) s" and ?ops = "load_mo_operations (mop_mo p) s"
  have "distinct (map edge_id ?in)"
    using edges_of_ids [OF assms(5), of r] by (auto simp: incoming_edges_def distinct_map inj_on_def)
  then have "walk_edges ?ops (planned_qty m) (max (max (length (remdups (map fst ?ops)) * 2) (length ?in * 2)) 8) 0 {} ?in = None
      \<longleftrightarrow> (\<forall>e \<in> set ?in. check_edge e (map_of ?ops (from_op e)) (planned_qty m) = None)"
    by (intro walk_edges_all) auto
  then show ?thesis
    using assms(1-4) by (auto simp: can_start_operation_def scalar_one_or_none_def Let_def ready_def check_edge_iff)
qed


text \<open>The setting of a routed order: its row, its routing, and one original operation per node.\<close>

definition order_routed :: "mo_row \<Rightarrow> routing_row \<Rightarrow> plant \<Rightarrow> bool" where
  "order_routed m rt s \<longleftrightarrow>
     filter (\<lambda>w. mo_id w = mo_id m \<and> \<not> mo_deleted w) (mos s) = [m] \<and> mo_routing m = Some (routing_id rt) \<and>
     load_routing_with_edges (mo_org m) (routing_id rt) s = Inr (Some rt) \<and> distinct (map edge_id (routing_edges s))"

definition materialised :: "mo_row \<Rightarrow> routing_row \<Rightarrow> plant \<Rightarrow> bool" where
  "materialised m rt s \<longleftrightarrow>
     distinct (map mop_master (original_ops (mo_id m) s)) \<and>
     nodes (edge_arcs (edges_of (routing_id rt) s)) \<subseteq> mop_master ` set (original_ops (mo_id m) s) \<and>
     (\<forall>p \<in> set (original_ops (mo_id m) s). mop_org p = mo_org m)"

lemma load_mo_operations_get:
  assumes "materialised m rt s" and "p \<in> set (original_ops (mo_id m) s)"
  shows "map_of (load_mo_operations (mo_id m) s) (mop_master p) = Some p"
proof -
  have "distinct (map fst (load_mo_operations (mo_id m) s))"
    using assms(1) by (simp add: load_mo_operations_def materialised_def o_def flip: rev_map)
  then show ?thesis using assms(2) by (intro map_of_is_SomeI) (auto simp: load_mo_operations_def)
qed

lemma original_op: "p \<in> set (original_ops mo s) \<Longrightarrow> mop_mo p = mo \<and> rework_of p = None"
  by (simp add: original_ops_def)

lemma can_start_ready:
  assumes "order_routed m rt s" and "materialised m rt s" and "p \<in> set (original_ops (mo_id m) s)"
  shows "\<exists>v. can_start_operation p s = Inr v \<and> (v = None \<longleftrightarrow> ready (routing_id rt) m p s)"
proof -
  have o: "mop_mo p = mo_id m" "rework_of p = None" "mop_org p = mo_org m"
    using assms(2,3) original_op [OF assms(3)] by (auto simp: materialised_def)
  show ?thesis
    by (rule can_start_iff [of p s m "routing_id rt" rt]) (use assms(1) o in \<open>simp_all add: order_routed_def\<close>)
qed

section \<open>Properties\<close>

definition demo_mop :: "uuid \<Rightarrow> uuid \<Rightarrow> MoOperationState \<Rightarrow> decimal \<Rightarrow> mo_op" where
  "demo_mop i master st out =
     \<lparr>mop_id = i, mop_org = 1, mop_firm = 2, mop_mo = 60, mop_master = master, mop_sequence = None, mop_state = st,
      executor = IN_HOUSE, mop_karigar = None, outward_challan = None, inward_challan = None, mop_in = out,
      mop_out = out, mop_rejected = 0, mop_byproduct = 0, mop_wastage = 0, rework_of = None, input_item = None,
      output_item = None, in_record_count = 0, mop_version = 0, mop_deleted = False\<rparr>"

text \<open>An order on the diamond whose first operation is closed.\<close>

definition demo_flow :: plant where
  "demo_flow = demo_routed\<lparr>mos := [demo_mo 60 MoStatus.IN_PROGRESS],
     mo_ops := [demo_mop 61 41 MoOperationState.CLOSED 9, demo_mop 62 42 PENDING 0, demo_mop 63 43 PENDING 0,
                demo_mop 64 44 PENDING 0]\<rparr>"

lemma demo_edges:
  "map edge_id (routing_edges demo_routed) = [101, 102, 103, 104]"
  "edges_of 100 demo_routed = routing_edges demo_routed"
  "map (\<lambda>e. (threshold_qty e, threshold_pct e, edge_deleted e)) (routing_edges demo_routed) = replicate 4 (None, None, False)"
  by (simp_all add: demo_routed_def commit_def edges_of_def eval_routing numeral_eq_Suc)

lemma demo_flow_same: "edges_of i demo_flow = edges_of i demo_routed" "routings demo_flow = routings demo_routed"
  "routing_edges demo_flow = routing_edges demo_routed"
  by (simp_all add: demo_flow_def edges_of_def)

lemma demo_flow_ok: "routings_ok demo_flow"
  by (rule routings_ok_frame [OF demo_routed_ok]) (simp_all add: demo_flow_def)

lemma demo_flow_ops:
  "original_ops 60 demo_flow = [demo_mop 61 41 MoOperationState.CLOSED 9, demo_mop 62 42 PENDING 0, demo_mop 63 43 PENDING 0,
     demo_mop 64 44 PENDING 0]"
  by (simp add: original_ops_def demo_flow_def demo_mop_def)

lemma demo_arcs: "edge_arcs (edges_of 100 demo_routed) = [(41, 42), (41, 43), (42, 44), (43, 44)]"
proof -
  have "edge_arcs (edges_of 100 demo_routed)
      = map (\<lambda>(r, a, b, t). (a, b)) (map (\<lambda>e. (edge_routing e, from_op e, to_op e, edge_type e)) (routing_edges demo_routed))"
    by (simp add: edge_arcs_def demo_edges(2) o_def)
  then show ?thesis by (simp add: demo_routed_routings(2))
qed

lemma demo_flow_setting:
  "order_routed (demo_mo 60 MoStatus.IN_PROGRESS) (hd (routings demo_routed)) demo_flow"
  "materialised (demo_mo 60 MoStatus.IN_PROGRESS) (hd (routings demo_routed)) demo_flow"
proof -
  show "order_routed (demo_mo 60 MoStatus.IN_PROGRESS) (hd (routings demo_routed)) demo_flow"
    using demo_edges(1)
    by (simp add: order_routed_def demo_flow_same load_routing_with_edges_def scalar_one_or_none_def demo_routed_routings(1))
      (simp add: demo_flow_def demo_mo_def)
  have "mo_id (demo_mo 60 MoStatus.IN_PROGRESS) = 60" "mo_org (demo_mo 60 MoStatus.IN_PROGRESS) = 1"
    by (simp_all add: demo_mo_def)
  then show "materialised (demo_mo 60 MoStatus.IN_PROGRESS) (hd (routings demo_routed)) demo_flow"
    by (simp add: materialised_def demo_flow_ops demo_flow_same demo_routed_routings(1) demo_arcs nodes_def)
      (simp add: demo_mop_def)
qed

text \<open>C26: An operation of a routed order may start exactly when every live incoming edge is satisfied by
  the operation it comes from: finished for FINISH_TO_START, begun for START_TO_START, begun with the
  threshold met for PARTIAL_FINISH_TO_START. The safety cap of the walk is never hit.\<close>

theorem can_start_exact:
  assumes "order_routed m rt s" and "materialised m rt s" and "p \<in> set (original_ops (mo_id m) s)"
  shows "\<exists>v. can_start_operation p s = Inr v \<and>
    (v = None \<longleftrightarrow> (\<forall>e \<in> set (edges_of (routing_id rt) s). to_op e = mop_master p \<and> \<not> edge_deleted e \<longrightarrow>
       (\<exists>q \<in> set (original_ops (mo_id m) s). mop_master q = from_op e \<and> edge_satisfied e q (planned_qty m))))"
proof -
  have "(\<exists>q. map_of (load_mo_operations (mo_id m) s) n = Some q \<and> P q) \<longleftrightarrow>
      (\<exists>q \<in> set (original_ops (mo_id m) s). mop_master q = n \<and> P q)" for n P
    using load_mo_operations_get [OF assms(2)] map_of_SomeD [of "load_mo_operations (mo_id m) s" n]
    by (auto simp: load_mo_operations_def)
  moreover have "mop_mo p = mo_id m" using original_op [OF assms(3)] by simp
  ultimately show ?thesis using can_start_ready [OF assms] by (auto simp: ready_def incoming_edges_def)
qed

lemma can_start_exact_witness:
  "can_start_operation (demo_mop 62 42 PENDING 0) demo_flow = Inr None \<and>
   (\<exists>reason. can_start_operation (demo_mop 64 44 PENDING 0) demo_flow = Inr (Some reason))"
proof -
  let ?m = "demo_mo 60 MoStatus.IN_PROGRESS" and ?rt = "hd (routings demo_routed)"
  have ids: "routing_id ?rt = 100" "mo_id ?m = 60" by (simp_all add: demo_routed_routings(1) demo_mo_def)
  have es: "\<forall>e \<in> set (edges_of 100 demo_flow). (from_op e, to_op e) \<in> {(41, 42), (41, 43), (42, 44), (43, 44)} \<and>
      effective_type e = FINISH_TO_START \<and> \<not> edge_deleted e"
    "\<exists>e \<in> set (edges_of 100 demo_flow). from_op e = 42 \<and> to_op e = 44 \<and> \<not> edge_deleted e \<and> effective_type e = FINISH_TO_START"
  proof -
    have "set (map (\<lambda>e. (edge_routing e, from_op e, to_op e, edge_type e)) (routing_edges demo_routed))
      = {(100, 41, 42, Some FINISH_TO_START), (100, 41, 43, Some FINISH_TO_START), (100, 42, 44, Some FINISH_TO_START),
         (100, 43, 44, Some FINISH_TO_START)}" by (simp add: demo_routed_routings(2))
    moreover have "\<forall>e \<in> set (routing_edges demo_routed). \<not> edge_deleted e"
      using demo_routed_ok by (auto simp: routings_ok_def edges_ok_def demo_routed_routings(1) demo_edges(2))
    ultimately show "\<forall>e \<in> set (edges_of 100 demo_flow). (from_op e, to_op e) \<in> {(41, 42), (41, 43), (42, 44), (43, 44)} \<and>
        effective_type e = FINISH_TO_START \<and> \<not> edge_deleted e"
      "\<exists>e \<in> set (edges_of 100 demo_flow). from_op e = 42 \<and> to_op e = 44 \<and> \<not> edge_deleted e \<and> effective_type e = FINISH_TO_START"
      unfolding demo_flow_same demo_edges(2) set_map by (auto simp: effective_type_def set_eq_iff image_iff) (metis option.case(2))+
  qed
  have sat: "edge_satisfied e q x \<longleftrightarrow> mop_state q \<in> TERMINAL_STATES" if "effective_type e = FINISH_TO_START" for e q x
    using that by (simp add: edge_satisfied_def)
  have "\<exists>v. can_start_operation (demo_mop 62 42 PENDING 0) demo_flow = Inr v \<and> v = None"
    using can_start_exact [OF demo_flow_setting, of "demo_mop 62 42 PENDING 0"] es(1) sat
    by (auto simp: ids demo_flow_ops) (auto simp: demo_mop_def TERMINAL_STATES_def)
  moreover have "\<exists>v. can_start_operation (demo_mop 64 44 PENDING 0) demo_flow = Inr v \<and> v \<noteq> None"
    using can_start_exact [OF demo_flow_setting, of "demo_mop 64 44 PENDING 0"] es(2) sat
    by (auto simp: ids demo_flow_ops) (auto simp: demo_mop_def TERMINAL_STATES_def)
  ultimately show ?thesis by auto
qed

text \<open>C5: A routed order wedges only at a short source: on an accepted routing with one operation per
  node, as long as some operation is not finished there is an unfinished one that the engine lets start,
  or one that only waits for a partial edge whose source is already finished with the edge's threshold
  not met: its other predecessors are finished too.\<close>

theorem order_wedges_only_at_short_source:
  assumes "routings_ok s" and "rt \<in> set (routings s)"
    and "order_routed m rt s" and "materialised m rt s"
    and "\<exists>p \<in> set (original_ops (mo_id m) s). mop_state p \<notin> TERMINAL_STATES"
  shows "\<exists>p \<in> set (original_ops (mo_id m) s). mop_state p \<notin> TERMINAL_STATES \<and>
    (\<forall>e \<in> set (edges_of (routing_id rt) s). \<forall>q \<in> set (original_ops (mo_id m) s).
       to_op e = mop_master p \<and> mop_master q = from_op e \<longrightarrow> mop_state q \<in> TERMINAL_STATES) \<and>
    (can_start_operation p s = Inr None \<or>
     (\<exists>e \<in> set (edges_of (routing_id rt) s). \<exists>q \<in> set (original_ops (mo_id m) s).
        effective_type e = PARTIAL_FINISH_TO_START \<and> to_op e = mop_master p \<and> mop_master q = from_op e \<and>
        \<not> threshold_met e q (planned_qty m)))"
proof -
  let ?ops = "set (original_ops (mo_id m) s)" and ?es = "edge_arcs (edges_of (routing_id rt) s)"
  define M where "M = mop_master ` {p \<in> ?ops. mop_state p \<notin> TERMINAL_STATES}"
  have "\<exists>p \<in> ?ops. mop_state p \<notin> TERMINAL_STATES \<and> (\<forall>a \<in> M. (a, mop_master p) \<notin> set ?es)"
  proof (cases "M \<subseteq> nodes ?es")
    case True
    have ac: "acyclic (set ?es)" using assms(1,2) by (simp add: routings_ok_def edges_ok_def)
    have "M \<noteq> {}" using assms(5) by (auto simp: M_def)
    from acyclic_source [OF ac this True] obtain n where n: "n \<in> M" "\<And>a. a \<in> M \<Longrightarrow> (a, n) \<notin> set ?es" by metis
    from n(1) obtain p where "p \<in> ?ops" "mop_state p \<notin> TERMINAL_STATES" "mop_master p = n" by (auto simp: M_def)
    with n(2) show ?thesis by blast
  next
    case False
    then obtain p where p: "p \<in> ?ops" "mop_state p \<notin> TERMINAL_STATES" "mop_master p \<notin> nodes ?es" by (auto simp: M_def)
    then show ?thesis using arc_nodes by blast
  qed
  then obtain p where p: "p \<in> ?ops" "mop_state p \<notin> TERMINAL_STATES" and src: "\<forall>a \<in> M. (a, mop_master p) \<notin> set ?es" by blast
  have done_before: "mop_state q \<in> TERMINAL_STATES"
    if "e \<in> set (edges_of (routing_id rt) s)" "q \<in> ?ops" "to_op e = mop_master p" "mop_master q = from_op e" for e q
  proof (rule ccontr)
    assume "mop_state q \<notin> TERMINAL_STATES"
    then have "from_op e \<in> M" unfolding M_def using that by (auto intro: image_eqI [of _ _ q])
    moreover have "(from_op e, mop_master p) \<in> set ?es" using that by (force simp: edge_arcs_def)
    ultimately show False using src by blast
  qed
  have "ready (routing_id rt) m p s" if enough: "\<And>e q. e \<in> set (edges_of (routing_id rt) s) \<Longrightarrow> q \<in> ?ops \<Longrightarrow>
    effective_type e = PARTIAL_FINISH_TO_START \<Longrightarrow> to_op e = mop_master p \<Longrightarrow> mop_master q = from_op e \<Longrightarrow>
    threshold_met e q (planned_qty m)"
    unfolding ready_def
  proof
    fix e assume "e \<in> set (incoming_edges (routing_id rt) (mop_master p) s)"
    then have e: "e \<in> set (edges_of (routing_id rt) s)" "to_op e = mop_master p" by (simp_all add: incoming_edges_def)
    then have "from_op e \<in> nodes ?es" using arc_nodes by (force simp: edge_arcs_def)
    then obtain q where q: "q \<in> ?ops" "mop_master q = from_op e" using assms(4) by (auto simp: materialised_def)
    have "edge_satisfied e q (planned_qty m)"
      using done_before [OF e(1) q(1) e(2) q(2)] enough [OF e(1) q(1) _ e(2) q(2)] terminal_beyond [of "mop_state q"]
      by (auto simp: edge_satisfied_def)
    moreover have "mop_mo p = mo_id m" using original_op [OF p(1)] by simp
    ultimately show "\<exists>q. map_of (load_mo_operations (mop_mo p) s) (from_op e) = Some q \<and> edge_satisfied e q (planned_qty m)"
      using load_mo_operations_get [OF assms(4) q(1)] q(2) by auto
  qed
  with can_start_ready [OF assms(3,4) p(1)] p done_before show ?thesis by (intro bexI [of _ p]) auto
qed

lemma order_wedges_only_at_short_source_witness:
  "\<exists>p \<in> set (original_ops 60 demo_flow). mop_state p \<notin> TERMINAL_STATES \<and> can_start_operation p demo_flow = Inr None"
proof -
  let ?m = "demo_mo 60 MoStatus.IN_PROGRESS" and ?rt = "hd (routings demo_routed)"
  have ids: "routing_id ?rt = 100" "mo_id ?m = 60" by (simp_all add: demo_routed_routings(1) demo_mo_def)
  have rt: "?rt \<in> set (routings demo_flow)" by (simp add: demo_flow_same demo_routed_routings(1))
  have "\<forall>e \<in> set (edges_of (routing_id ?rt) demo_flow). edge_type e = Some FINISH_TO_START"
  proof -
    have "map edge_type (routing_edges demo_routed) = replicate 4 (Some FINISH_TO_START)"
      using arg_cong [OF demo_routed_routings(2), of "map (\<lambda>(r, a, b, t). t)"] by (simp add: o_def numeral_eq_Suc)
    then have "set (map edge_type (routing_edges demo_routed)) = {Some FINISH_TO_START}" by simp
    then show ?thesis by (auto simp: ids demo_flow_same demo_edges(2))
  qed
  then have "\<forall>e \<in> set (edges_of (routing_id ?rt) demo_flow). effective_type e \<noteq> PARTIAL_FINISH_TO_START"
    by (simp add: effective_type_def)
  moreover have "\<exists>p \<in> set (original_ops (mo_id ?m) demo_flow). mop_state p \<notin> TERMINAL_STATES"
    by (simp add: ids demo_flow_ops) (simp add: demo_mop_def TERMINAL_STATES_def)
  ultimately show ?thesis
    using order_wedges_only_at_short_source [OF demo_flow_ok rt demo_flow_setting] unfolding ids by blast
qed

text \<open>The second case does wedge the order: once the source of a partial edge has its final output
  below the threshold quantity, closed or skipped, the engine refuses the target in every state with
  those rows, whatever else happens.\<close>

theorem short_source_blocks_target:
  assumes "order_routed m rt s" and "materialised m rt s" and "p \<in> set (original_ops (mo_id m) s)"
    and "e \<in> set (edges_of (routing_id rt) s)" and "to_op e = mop_master p" and "\<not> edge_deleted e"
    and "effective_type e = PARTIAL_FINISH_TO_START" and "threshold_qty e = Some k"
    and "q \<in> set (original_ops (mo_id m) s)" and "mop_master q = from_op e" and "mop_out q < k"
  shows "\<exists>reason. can_start_operation p s = Inr (Some reason)"
proof -
  have "map_of (load_mo_operations (mo_id m) s) (from_op e) = Some q"
    using load_mo_operations_get [OF assms(2,9)] assms(10) by simp
  moreover have "\<not> edge_satisfied e q (planned_qty m)"
    using assms(7,8,11) by (auto simp: edge_satisfied_def threshold_met_def)
  moreover have "e \<in> set (incoming_edges (routing_id rt) (mop_master p) s)" using assms(4-6) by (simp add: incoming_edges_def)
  moreover have "mop_mo p = mo_id m" using original_op [OF assms(3)] by simp
  ultimately have "\<not> ready (routing_id rt) m p s" unfolding ready_def by (auto intro!: bexI [of _ e])
  with can_start_ready [OF assms(1-3)] show ?thesis by auto
qed


text \<open>Ten pieces were asked of the first operation; it was closed with nine.\<close>

definition demo_edge :: edge_row where
  "demo_edge = \<lparr>edge_id = 103, edge_org = 1, edge_routing = 102, from_op = 41, to_op = 42,
     edge_type = Some PARTIAL_FINISH_TO_START, threshold_qty = Some 10, threshold_pct = None, edge_deleted = False\<rparr>"

definition demo_routing :: routing_row where
  "demo_routing = \<lparr>routing_id = 102, routing_org = 1, routing_firm = 2, routing_design = 7, routing_code = ''R2'',
     version_number = 1, routing_active = True, routing_deleted = False\<rparr>"

definition demo_short :: plant where
  "demo_short = demo_plant\<lparr>routings := [demo_routing], routing_edges := [demo_edge],
     mos := [(demo_mo 60 MoStatus.IN_PROGRESS)\<lparr>mo_routing := Some 102\<rparr>],
     mo_ops := [demo_mop 61 41 MoOperationState.CLOSED 9, demo_mop 62 42 PENDING 0]\<rparr>"

lemma short_source_blocks_target_witness:
  "\<exists>reason. can_start_operation (demo_mop 62 42 PENDING 0) demo_short = Inr (Some reason)"
proof -
  let ?m = "(demo_mo 60 MoStatus.IN_PROGRESS)\<lparr>mo_routing := Some 102\<rparr>"
  have es: "edges_of 102 demo_short = [demo_edge]" by (simp add: edges_of_def demo_short_def demo_edge_def)
  have ops: "original_ops 60 demo_short = [demo_mop 61 41 MoOperationState.CLOSED 9, demo_mop 62 42 PENDING 0]"
    by (simp add: original_ops_def demo_short_def demo_mop_def)
  have m: "mo_id ?m = 60" by (simp add: demo_mo_def)
  have 1: "order_routed ?m demo_routing demo_short"
    by (simp add: order_routed_def load_routing_with_edges_def scalar_one_or_none_def demo_short_def demo_mo_def
        demo_routing_def)
  have 2: "materialised ?m demo_routing demo_short"
    by (simp add: materialised_def m ops) (simp add: demo_routing_def es edge_arcs_def nodes_def demo_edge_def demo_mop_def demo_mo_def)
  show ?thesis
    by (rule short_source_blocks_target [OF 1 2, of _ demo_edge 10 "demo_mop 61 41 MoOperationState.CLOSED 9"])
      (simp_all add: m ops es demo_routing_def, simp_all add: demo_edge_def demo_mop_def effective_type_def)
qed

end
