(* ===== verification/OperationProgress.thy ===== *)
theory OperationProgress
  imports RoutingFlow
begin

text \<open>
  In-house operations, \<^verbatim>\<open>app/service/operation_progress_service.py\<close>: start, quantities in, quantities
  out, complete. Quantities are exact, as sums of stored four-place numbers are. The reads, the event
  log and the audit rows are left out.
\<close>

section \<open>Operations\<close>

definition ensure_in_house :: "mo_op \<Rightarrow> error + unit" where
  "ensure_in_house p = guardE (executor p = IN_HOUSE) (AppValidationError ''use the karigar endpoints'')"

text \<open>The head the four operations share: load, firm, lane.\<close>

definition load_in_house :: "uuid \<Rightarrow> uuid \<Rightarrow> uuid \<Rightarrow> plant \<Rightarrow> error + mo_op" where
  "load_in_house org firm i s =
     bindE (load_operation org i s) (\<lambda>p.
     bindE (guardE (mop_firm p = firm) (AppValidationError ''Operation does not belong to firm'')) (\<lambda>_.
     bindE (ensure_in_house p) (\<lambda>_. Inr p)))"

definition start_operation :: "uuid \<Rightarrow> uuid \<Rightarrow> uuid \<Rightarrow> plant \<Rightarrow> error + plant" where
  "start_operation org firm i s =
     bindE (load_in_house org firm i s) (\<lambda>p.
     bindE (guardE (mop_state p = PENDING) (AppValidationError ''Cannot start operation: expected PENDING'')) (\<lambda>_.
     bindE (get_mo org (mop_mo p) s) (\<lambda>m.
     bindE (guardE (mo_status m = MoStatus.IN_PROGRESS)
              (AppValidationError ''Cannot start operation: parent MO not IN_PROGRESS'')) (\<lambda>_.
     bindE (can_start_operation p s) (\<lambda>verdict.
     case verdict of
       Some reason \<Rightarrow> Inl (AppValidationError reason)
     | None \<Rightarrow> Inr (put_op (p\<lparr>mop_state := MoOperationState.IN_PROGRESS, mop_version := Suc (mop_version p)\<rparr>) s))))))"

definition receive_ceiling :: "mo_row \<Rightarrow> decimal" where
  "receive_ceiling m = quantize round_half_even 4 (ctx (planned_qty m * (105 / 100)))"

definition record_qty_in :: "uuid \<Rightarrow> uuid \<Rightarrow> uuid \<Rightarrow> decimal \<Rightarrow> plant \<Rightarrow> error + plant" where
  "record_qty_in org firm i q s =
     bindE (guardE (\<not> q < 0) (AppValidationError ''qty_in must be >= 0'')) (\<lambda>_.
     bindE (load_in_house org firm i s) (\<lambda>p.
     bindE (guardE (mop_state p = MoOperationState.IN_PROGRESS)
              (AppValidationError ''Cannot record qty_in: expected IN_PROGRESS'')) (\<lambda>_.
     bindE (get_mo org (mop_mo p) s) (\<lambda>m.
     let new_total = (if in_record_count p = 0 then q else mop_in p + q) in
     bindE (guardE (\<not> new_total > receive_ceiling m)
              (AppValidationError ''qty_in cumulative exceeds planned x 1.05'')) (\<lambda>_.
     Inr (put_op (p\<lparr>mop_in := new_total, in_record_count := Suc (in_record_count p),
                    mop_version := Suc (mop_version p)\<rparr>) s))))))"

definition accounted_qty :: "mo_op \<Rightarrow> decimal" where
  "accounted_qty p = mop_out p + mop_rejected p + mop_byproduct p + mop_wastage p"

definition record_qty_out ::
  "uuid \<Rightarrow> uuid \<Rightarrow> uuid \<Rightarrow> decimal \<Rightarrow> decimal \<Rightarrow> decimal \<Rightarrow> decimal \<Rightarrow> plant \<Rightarrow> error + plant" where
  "record_qty_out org firm i out scrap byproduct wastage s =
     bindE (guardE (\<not> (out < 0 \<or> scrap < 0 \<or> byproduct < 0 \<or> wastage < 0))
              (AppValidationError ''must be >= 0'')) (\<lambda>_.
     bindE (guardE (\<not> out + scrap + byproduct + wastage \<le> 0)
              (AppValidationError ''record_qty_out requires at least one non-zero qty'')) (\<lambda>_.
     bindE (load_in_house org firm i s) (\<lambda>p.
     bindE (guardE (mop_state p = MoOperationState.IN_PROGRESS)
              (AppValidationError ''Cannot record qty_out: expected IN_PROGRESS'')) (\<lambda>_.
     let p' = p\<lparr>mop_out := mop_out p + out, mop_rejected := mop_rejected p + scrap,
                mop_byproduct := mop_byproduct p + byproduct, mop_wastage := mop_wastage p + wastage,
                mop_version := Suc (mop_version p)\<rparr>
     in bindE (guardE (\<not> accounted_qty p' > mop_in p)
                 (AppValidationError ''Cannot dispatch more units than received'')) (\<lambda>_.
        Inr (put_op p' s))))))"

definition complete_operation :: "uuid \<Rightarrow> uuid \<Rightarrow> uuid \<Rightarrow> plant \<Rightarrow> error + plant" where
  "complete_operation org firm i s =
     bindE (load_in_house org firm i s) (\<lambda>p.
     bindE (guardE (mop_state p = MoOperationState.IN_PROGRESS)
              (AppValidationError ''Cannot complete operation: expected IN_PROGRESS'')) (\<lambda>_.
     bindE (guardE (accounted_qty p = mop_in p)
              (AppValidationError ''Every unit received must be accounted for'')) (\<lambda>_.
     Inr (put_op (p\<lparr>mop_state := MoOperationState.CLOSED, mop_version := Suc (mop_version p)\<rparr>) s))))"

text \<open>The requests of the shop floor.\<close>

datatype floor_call =
    StartOp uuid uuid uuid
  | QtyIn uuid uuid uuid decimal
  | QtyOut uuid uuid uuid decimal decimal decimal decimal
  | CompleteOp uuid uuid uuid

fun floor_step :: "floor_call \<Rightarrow> plant \<Rightarrow> error + plant" where
  "floor_step (StartOp org firm i) s = start_operation org firm i s"
| "floor_step (QtyIn org firm i q) s = record_qty_in org firm i q s"
| "floor_step (QtyOut org firm i out scrap byp wst) s = record_qty_out org firm i out scrap byp wst s"
| "floor_step (CompleteOp org firm i) s = complete_operation org firm i s"

fun call_op :: "floor_call \<Rightarrow> uuid" where
  "call_op (StartOp org firm i) = i"
| "call_op (QtyIn org firm i q) = i"
| "call_op (QtyOut org firm i out scrap byp wst) = i"
| "call_op (CompleteOp org firm i) = i"

section \<open>The abstract life of an operation\<close>

text \<open>The four buckets units leave an operation through: good output, scrap, byproduct, wastage.\<close>

type_synonym buckets = "decimal \<times> decimal \<times> decimal \<times> decimal"

fun together :: "buckets \<Rightarrow> decimal" where
  "together (a, b, c, d) = a + b + c + d"

fun poured :: "buckets \<Rightarrow> buckets \<Rightarrow> buckets" where
  "poured (a, b, c, d) (a', b', c', d') = (a + a', b + b', c + c', d + d')"

fun no_less :: "buckets \<Rightarrow> bool" where
  "no_less (a, b, c, d) \<longleftrightarrow> 0 \<le> a \<and> 0 \<le> b \<and> 0 \<le> c \<and> 0 \<le> d"

lemma together_poured [simp]: "together (poured b d) = together b + together d"
  by (cases b; cases d) simp

text \<open>An operation waits, runs with so much received and its buckets so full, or is done. A step is
  labelled by what it does: enter, receive an amount, pour amounts into the buckets, finish.\<close>

datatype stage = Waiting | Running decimal buckets | Done decimal buckets | Elsewhere

datatype effect = Enter | Receive decimal | Pour buckets | Finish

inductive life :: "effect \<Rightarrow> stage \<Rightarrow> stage \<Rightarrow> bool" where
  enter: "life Enter Waiting (Running 0 (0, 0, 0, 0))"
| receive: "0 \<le> q \<Longrightarrow> life (Receive q) (Running i b) (Running (i + q) b)"
| pour: "no_less d \<Longrightarrow> 0 < together d \<Longrightarrow> together b + together d \<le> i \<Longrightarrow>
    life (Pour d) (Running i b) (Running i (poured b d))"
| finish: "together b = i \<Longrightarrow> life Finish (Running i b) (Done i b)"

inductive_cases life_Waiting: "life e Waiting t"
inductive_cases life_Running: "life e (Running i b) t"
inductive_cases life_Done: "life e (Done i b) t"

lemma done_is_final: "\<not> life e (Done i b) t"
  by (auto elim: life_Done)

text \<open>The effect a request asks for.\<close>

fun effect_of :: "floor_call \<Rightarrow> effect" where
  "effect_of (StartOp org firm i) = Enter"
| "effect_of (QtyIn org firm i q) = Receive q"
| "effect_of (QtyOut org firm i out scrap byp wst) = Pour (out, scrap, byp, wst)"
| "effect_of (CompleteOp org firm i) = Finish"

definition buckets_of :: "mo_op \<Rightarrow> buckets" where
  "buckets_of p = (mop_out p, mop_rejected p, mop_byproduct p, mop_wastage p)"

lemma together_buckets [simp]: "together (buckets_of p) = accounted_qty p"
  by (simp add: buckets_of_def accounted_qty_def)

definition stage_of :: "mo_op \<Rightarrow> stage" where
  "stage_of p =
     (case mop_state p of
        PENDING \<Rightarrow> Waiting
      | MoOperationState.IN_PROGRESS \<Rightarrow> Running (mop_in p) (buckets_of p)
      | MoOperationState.CLOSED \<Rightarrow> Done (mop_in p) (buckets_of p)
      | _ \<Rightarrow> Elsewhere)"

text \<open>The units the verdicts of an inspection sent back for rework, as the events record them.\<close>

definition sent_back :: "plant \<Rightarrow> mo_op \<Rightarrow> decimal" where
  "sent_back s p = (\<Sum>e\<leftarrow>filter (\<lambda>e. qe_op e = mop_id p) (qc_events s). qe_rework e)"

lemma sent_back_same: "qc_events s' = qc_events s \<Longrightarrow> mop_id p' = mop_id p \<Longrightarrow> sent_back s' p' = sent_back s p"
  by (simp add: sent_back_def)

text \<open>An operation is in order when its buckets are non-negative and, with what was sent back, within
  what came in, all of it once it is closed or waits for a rework; nothing came in before the first
  receipt, nor while it waits or awaits its first inspection; and nothing was sent back from one that
  runs on the shop floor.\<close>

definition op_ok :: "plant \<Rightarrow> mo_op \<Rightarrow> bool" where
  "op_ok s p \<longleftrightarrow>
     no_less (buckets_of p) \<and> 0 \<le> sent_back s p \<and> accounted_qty p + sent_back s p \<le> mop_in p \<and>
     (in_record_count p = 0 \<longrightarrow> mop_in p = 0) \<and>
     (mop_state p \<in> {PENDING, QC_PENDING} \<longrightarrow> mop_in p = 0) \<and>
     (mop_state p = MoOperationState.IN_PROGRESS \<longrightarrow> sent_back s p = 0) \<and>
     (mop_state p \<in> {MoOperationState.CLOSED, REWORK} \<longrightarrow> accounted_qty p + sent_back s p = mop_in p)"

definition floor_ok :: "plant \<Rightarrow> bool" where
  "floor_ok s \<longleftrightarrow>
     distinct (map mop_id (mo_ops s)) \<and>
     (\<forall>p \<in> set (mo_ops s). executor p = IN_HOUSE \<and> rework_of p = None \<longrightarrow> op_ok s p)"

lemma accounted_nonneg: "no_less (buckets_of p) \<Longrightarrow> 0 \<le> accounted_qty p"
  by (simp add: buckets_of_def accounted_qty_def)

text \<open>One that has received nothing has nothing booked.\<close>

lemma op_ok_empty:
  assumes "op_ok s p" and "mop_in p = 0"
  shows "buckets_of p = (0, 0, 0, 0)" and "sent_back s p = 0" and "accounted_qty p = 0"
proof -
  from assms have b: "no_less (buckets_of p)" "0 \<le> sent_back s p" "accounted_qty p + sent_back s p \<le> 0"
    by (simp_all add: op_ok_def)
  with accounted_nonneg [OF b(1)] show s: "sent_back s p = 0" and a: "accounted_qty p = 0" by simp_all
  with b(1) show "buckets_of p = (0, 0, 0, 0)" by (auto simp: buckets_of_def accounted_qty_def)
qed

lemma load_in_house_Inr:
  "load_in_house org firm i s = Inr p \<longleftrightarrow> load_operation org i s = Inr p \<and> mop_firm p = firm \<and> executor p = IN_HOUSE"
  by (auto simp: load_in_house_def ensure_in_house_def bindE_Inr_iff)

text \<open>A call saves one operation it loaded, in the same lane, and its life takes the step the call
  asks for.\<close>

definition floor_wrote :: "floor_call \<Rightarrow> plant \<Rightarrow> mo_op \<Rightarrow> mo_op \<Rightarrow> bool" where
  "floor_wrote c s p p' \<longleftrightarrow>
     executor p = IN_HOUSE \<and> mop_id p' = mop_id p \<and> executor p' = executor p \<and> rework_of p' = rework_of p \<and>
     mop_state p \<in> {PENDING, MoOperationState.IN_PROGRESS} \<and>
     (op_ok s p \<longrightarrow> op_ok s p' \<and> life (effect_of c) (stage_of p) (stage_of p'))"

lemma start_operation_wrote:
  assumes "start_operation org firm i s = Inr s'"
  shows "\<exists>p p'. load_operation org i s = Inr p \<and> s' = put_op p' s \<and> floor_wrote (StartOp org firm i) s p p'"
proof -
  from assms obtain p where l: "load_in_house org firm i s = Inr p" "mop_state p = PENDING"
    "s' = put_op (p\<lparr>mop_state := MoOperationState.IN_PROGRESS, mop_version := Suc (mop_version p)\<rparr>) s"
    by (auto simp: start_operation_def split: option.splits)
  let ?p' = "p\<lparr>mop_state := MoOperationState.IN_PROGRESS, mop_version := Suc (mop_version p)\<rparr>"
  have same: "buckets_of ?p' = buckets_of p" "accounted_qty ?p' = accounted_qty p" "sent_back s ?p' = sent_back s p"
    by (simp_all add: buckets_of_def accounted_qty_def sent_back_def)
  have "op_ok s ?p' \<and> life Enter (stage_of p) (stage_of ?p')" if ok: "op_ok s p"
  proof -
    have z: "mop_in p = 0" using ok l(2) by (simp add: op_ok_def)
    note e = op_ok_empty [OF ok z]
    have "stage_of p = Waiting" "stage_of ?p' = Running 0 (0, 0, 0, 0)"
      using l(2) same(1) e(1) z by (simp_all add: stage_of_def)
    moreover have "op_ok s ?p'" using ok l(2) e(2) by (simp add: op_ok_def same)
    ultimately show ?thesis using life.enter by simp
  qed
  with l show ?thesis by (intro exI [of _ p] exI [of _ ?p']) (simp add: floor_wrote_def load_in_house_Inr)
qed

lemma record_qty_in_wrote:
  assumes "record_qty_in org firm i q s = Inr s'"
  shows "\<exists>p p'. load_operation org i s = Inr p \<and> s' = put_op p' s \<and> floor_wrote (QtyIn org firm i q) s p p'"
proof -
  let ?f = "\<lambda>p. p\<lparr>mop_in := (if in_record_count p = 0 then q else mop_in p + q),
       in_record_count := Suc (in_record_count p), mop_version := Suc (mop_version p)\<rparr>"
  from assms obtain p where l: "load_in_house org firm i s = Inr p" "mop_state p = MoOperationState.IN_PROGRESS" "0 \<le> q"
    "s' = put_op (?f p) s"
    by (auto simp: record_qty_in_def Let_def)
  have same: "buckets_of (?f p) = buckets_of p" "accounted_qty (?f p) = accounted_qty p" "sent_back s (?f p) = sent_back s p"
    by (simp_all add: buckets_of_def accounted_qty_def sent_back_def)
  have "op_ok s (?f p) \<and> life (Receive q) (stage_of p) (stage_of (?f p))" if ok: "op_ok s p"
  proof -
    have t: "mop_in (?f p) = mop_in p + q" using ok by (simp add: op_ok_def)
    then have "stage_of (?f p) = Running (mop_in p + q) (buckets_of p)" "stage_of p = Running (mop_in p) (buckets_of p)"
      using l(2) same(1) by (simp_all add: stage_of_def)
    moreover have "op_ok s (?f p)" using ok l(2,3) unfolding op_ok_def same t by simp
    ultimately show ?thesis using life.receive [OF l(3)] by simp
  qed
  with l show ?thesis by (intro exI [of _ p] exI [of _ "?f p"]) (simp add: floor_wrote_def load_in_house_Inr)
qed

lemma record_qty_out_wrote:
  assumes "record_qty_out org firm i out scrap byp wst s = Inr s'"
  shows "\<exists>p p'. load_operation org i s = Inr p \<and> s' = put_op p' s \<and>
    floor_wrote (QtyOut org firm i out scrap byp wst) s p p'"
proof -
  let ?f = "\<lambda>p. p\<lparr>mop_out := mop_out p + out, mop_rejected := mop_rejected p + scrap,
       mop_byproduct := mop_byproduct p + byp, mop_wastage := mop_wastage p + wst, mop_version := Suc (mop_version p)\<rparr>"
  let ?d = "(out, scrap, byp, wst)"
  from assms obtain p where l: "load_in_house org firm i s = Inr p" "mop_state p = MoOperationState.IN_PROGRESS"
    "no_less ?d" "0 < together ?d" "accounted_qty (?f p) \<le> mop_in p" "s' = put_op (?f p) s"
    by (auto simp: record_qty_out_def Let_def not_less not_le)
  have a: "accounted_qty (?f p) = accounted_qty p + together ?d" by (simp add: accounted_qty_def)
  have b: "buckets_of (?f p) = poured (buckets_of p) ?d" "sent_back s (?f p) = sent_back s p"
    by (simp_all add: buckets_of_def sent_back_def)
  have "stage_of (?f p) = Running (mop_in p) (poured (buckets_of p) ?d)" "stage_of p = Running (mop_in p) (buckets_of p)"
    using l(2) b(1) by (simp_all add: stage_of_def)
  then have "life (Pour ?d) (stage_of p) (stage_of (?f p))" using l(3-5) unfolding a by (simp add: life.pour)
  moreover have "op_ok s (?f p)" if ok: "op_ok s p"
  proof -
    have "no_less (buckets_of (?f p))" using ok l(3) by (simp add: op_ok_def buckets_of_def)
    then show ?thesis using ok l(2,5) unfolding op_ok_def b(2) by simp
  qed
  ultimately show ?thesis
    using l by (intro exI [of _ p] exI [of _ "?f p"]) (simp add: floor_wrote_def load_in_house_Inr)
qed

lemma complete_operation_wrote:
  assumes "complete_operation org firm i s = Inr s'"
  shows "\<exists>p p'. load_operation org i s = Inr p \<and> s' = put_op p' s \<and> floor_wrote (CompleteOp org firm i) s p p'"
proof -
  from assms obtain p where l: "load_in_house org firm i s = Inr p" "mop_state p = MoOperationState.IN_PROGRESS"
    "accounted_qty p = mop_in p"
    "s' = put_op (p\<lparr>mop_state := MoOperationState.CLOSED, mop_version := Suc (mop_version p)\<rparr>) s"
    by (auto simp: complete_operation_def)
  let ?p' = "p\<lparr>mop_state := MoOperationState.CLOSED, mop_version := Suc (mop_version p)\<rparr>"
  have same: "buckets_of ?p' = buckets_of p" "accounted_qty ?p' = accounted_qty p" "sent_back s ?p' = sent_back s p"
    by (simp_all add: buckets_of_def accounted_qty_def sent_back_def)
  have "life Finish (stage_of p) (stage_of ?p')" using l(2,3) same(1) by (simp add: stage_of_def life.finish)
  moreover have "op_ok s p \<Longrightarrow> op_ok s ?p'" using l(2,3) by (simp add: op_ok_def same)
  ultimately show ?thesis
    using l by (intro exI [of _ p] exI [of _ ?p']) (simp add: floor_wrote_def load_in_house_Inr)
qed

lemma floor_step_wrote:
  assumes "floor_step c s = Inr s'"
  obtains org p p' where "load_operation org (call_op c) s = Inr p" and "s' = put_op p' s" and "floor_wrote c s p p'"
proof (cases c)
  case (StartOp org firm i)
  with assms that start_operation_wrote [of org firm i s s'] show thesis by auto
next
  case (QtyIn org firm i q)
  with assms that record_qty_in_wrote [of org firm i q s s'] show thesis by auto
next
  case (QtyOut org firm i out scrap byp wst)
  with assms that record_qty_out_wrote [of org firm i out scrap byp wst s s'] show thesis by auto
next
  case (CompleteOp org firm i)
  with assms that complete_operation_wrote [of org firm i s s'] show thesis by auto
qed

lemma put_op_ids: "map mop_id (mo_ops (put_op p' s)) = map mop_id (mo_ops s)"
  by (simp add: put_op_def) (rule map_update_where, simp)

lemma op_ok_same: "qc_events s' = qc_events s \<Longrightarrow> op_ok s' p = op_ok s p"
  by (simp add: op_ok_def sent_back_def)

lemma put_op_floor:
  assumes "floor_ok s" and "executor p' = IN_HOUSE \<and> rework_of p' = None \<Longrightarrow> op_ok s p'"
  shows "floor_ok (put_op p' s)"
proof -
  have "qc_events (put_op p' s) = qc_events s" by (simp add: put_op_def)
  note same = op_ok_same [OF this]
  have "set (mo_ops (put_op p' s)) \<subseteq> insert p' (set (mo_ops s))" by (auto simp: put_op_def set_update_where)
  with assms show ?thesis unfolding floor_ok_def put_op_ids same by blast
qed

lemma floor_step_ok: "floor_step c s = Inr s' \<Longrightarrow> floor_ok s \<Longrightarrow> floor_ok s'"
proof (erule floor_step_wrote)
  fix org p p'
  assume ok: "floor_ok s" and l: "load_operation org (call_op c) s = Inr p" and s': "s' = put_op p' s"
    and w: "floor_wrote c s p p'"
  have "op_ok s p'" if "executor p' = IN_HOUSE \<and> rework_of p' = None"
    using w ok load_operation_mem [OF l] that by (auto simp: floor_ok_def floor_wrote_def)
  from put_op_floor [OF ok this] show "floor_ok s'" by (simp add: s')
qed

interpretation shop_floor: transactional floor_step floor_ok
  by unfold_locales (rule floor_step_ok)

section \<open>Properties\<close>

definition demo_floor :: plant where
  "demo_floor = demo_plant\<lparr>mos := [(demo_mo 60 MoStatus.IN_PROGRESS)\<lparr>mo_routing := None, planned_qty := 100\<rparr>],
     mo_ops := [demo_mop 61 41 PENDING 0]\<rparr>"

lemma demo_floor_ok: "floor_ok demo_floor"
  by (simp add: floor_ok_def op_ok_def demo_floor_def demo_plant_def demo_mop_def accounted_qty_def buckets_of_def sent_back_def)

lemmas eval_floor = demo_floor_def demo_mo_def demo_mop_def Let_def scalar_one_or_none_def bindE_def guardE_def
  start_operation_def record_qty_in_def record_qty_out_def complete_operation_def load_in_house_def
  ensure_in_house_def load_operation_def get_mo_def can_start_operation_def put_op_def update_where_def
  receive_ceiling_def accounted_qty_def commit_def

text \<open>C13: The shop floor refines the abstract life of an operation: a call that succeeds saves one
  in-house operation and changes nothing else, never one that is closed; and when that operation is an
  original (no rework clone) it stays in order and takes exactly the step the call asks for: started from
  empty, what is received raised by the call's quantity, each bucket by the call's amount for it and
  together within what was received, finished when the two are equal.\<close>

theorem floor_refines_life:
  assumes "floor_step c s = Inr s'" and "floor_ok s"
  shows "\<exists>p p'. p \<in> set (mo_ops s) \<and> mop_id p = call_op c \<and> mop_state p \<noteq> MoOperationState.CLOSED \<and>
    executor p = IN_HOUSE \<and> executor p' = IN_HOUSE \<and> rework_of p' = rework_of p \<and>
    s' = s\<lparr>mo_ops := update_where (\<lambda>r. mop_id r = call_op c) (\<lambda>_. p') (mo_ops s)\<rparr> \<and>
    (rework_of p = None \<longrightarrow> op_ok s' p' \<and> life (effect_of c) (stage_of p) (stage_of p'))"
  using assms(1)
proof (rule floor_step_wrote)
  fix org p p'
  assume l: "load_operation org (call_op c) s = Inr p" and s': "s' = put_op p' s" and w: "floor_wrote c s p p'"
  note p = load_operation_mem [OF l]
  have "op_ok s' p' \<and> life (effect_of c) (stage_of p) (stage_of p')" if "rework_of p = None"
    using w p that assms(2) op_ok_same [of s' s p'] by (auto simp: floor_ok_def floor_wrote_def s' put_op_def)
  moreover have "mop_id p' = call_op c" using w p by (simp add: floor_wrote_def)
  ultimately show ?thesis using w p
    by (intro exI [of _ p] exI [of _ p']) (auto simp: floor_wrote_def s' put_op_def)
qed

text \<open>Eight good pieces, one of scrap and one of wastage, out of the ten received.\<close>

lemma floor_refines_life_witness:
  "\<exists>s' p'. floor_step (QtyOut 1 2 61 8 1 0 1) (fold (commit floor_step) [StartOp 1 2 61, QtyIn 1 2 61 10] demo_floor)
       = Inr s' \<and> p' \<in> set (mo_ops s') \<and> stage_of p' = Running 10 (8, 1, 0, 1)"
proof -
  let ?s = "fold (commit floor_step) [StartOp 1 2 61, QtyIn 1 2 61 10] demo_floor"
  have "\<not> isl (floor_step (QtyOut 1 2 61 8 1 0 1) ?s)" by (simp add: eval_floor)
  then obtain s' where s': "floor_step (QtyOut 1 2 61 8 1 0 1) ?s = Inr s'"
    by (cases "floor_step (QtyOut 1 2 61 8 1 0 1) ?s") auto
  have ops: "\<forall>p \<in> set (mo_ops ?s). stage_of p = Running 10 (0, 0, 0, 0) \<and> rework_of p = None"
    by (simp add: eval_floor stage_of_def buckets_of_def)
  from floor_refines_life [OF s' shop_floor.run_inv [OF demo_floor_ok]] obtain p p' where
    p: "p \<in> set (mo_ops ?s)" "mop_id p = 61" and m: "mo_ops s' = update_where (\<lambda>r. mop_id r = 61) (\<lambda>_. p') (mo_ops ?s)"
    and l: "rework_of p = None \<longrightarrow> life (Pour (8, 1, 0, 1)) (stage_of p) (stage_of p')" by auto
  have "stage_of p' = Running 10 (8, 1, 0, 1)" using l ops p(1) by (auto elim: life_Running)
  moreover have "p' \<in> set (mo_ops s')" using p by (auto simp: m set_update_where)
  ultimately show ?thesis using s' by blast
qed

text \<open>The first receipt of an operation overwrites what its row says came in. A rework clone starts
  with its quantity already in that column, so it can put units out before any receipt, and a first
  receipt below what went out is accepted: the operation has then put out more than it received.\<close>

theorem first_receipt_overwrites:
  assumes "load_in_house org firm i s = Inr p" and "mop_state p = MoOperationState.IN_PROGRESS"
    and "in_record_count p = 0" and "get_mo org (mop_mo p) s = Inr m"
    and "0 \<le> q" and "q \<le> receive_ceiling m" and "q < accounted_qty p"
  shows "\<exists>s'. record_qty_in org firm i q s = Inr s' \<and>
    (\<exists>p' \<in> set (mo_ops s'). mop_id p' = i \<and> mop_in p' = q \<and> mop_in p' < accounted_qty p')"
proof -
  let ?p' = "p\<lparr>mop_in := q, in_record_count := Suc (in_record_count p), mop_version := Suc (mop_version p)\<rparr>"
  have "record_qty_in org firm i q s = Inr (put_op ?p' s)"
    using assms by (simp add: record_qty_in_def Let_def not_less)
  moreover have p: "p \<in> set (mo_ops s)" "mop_id p = i"
    using load_operation_mem assms(1) by (auto simp: load_in_house_Inr)
  then have "?p' \<in> set (mo_ops (put_op ?p' s))" by (auto simp: put_op_def set_update_where)
  moreover have "accounted_qty ?p' = accounted_qty p" by (simp add: accounted_qty_def)
  ultimately show ?thesis using assms(7) p(2)
    by (intro exI [of _ "put_op ?p' s"] conjI bexI [of _ ?p']) auto
qed

text \<open>A clone of five units puts five out, then records a receipt of three.\<close>

definition demo_clone :: plant where
  "demo_clone = demo_floor\<lparr>mo_ops := [(demo_mop 61 41 PENDING 0)\<lparr>mop_in := 5, rework_of := Some 59\<rparr>]\<rparr>"

definition demo_cloned :: plant where
  "demo_cloned = fold (commit floor_step) [StartOp 1 2 61, QtyOut 1 2 61 5 0 0 0] demo_clone"

lemma first_receipt_overwrites_witness:
  "\<exists>s'. record_qty_in 1 2 61 3 demo_cloned = Inr s' \<and>
     (\<exists>p \<in> set (mo_ops s'). mop_id p = 61 \<and> mop_in p = 3 \<and> mop_in p < accounted_qty p)"
proof -
  let ?p = "(demo_mop 61 41 MoOperationState.IN_PROGRESS 5)\<lparr>rework_of := Some 59, mop_version := 2\<rparr>"
  let ?m = "(demo_mo 60 MoStatus.IN_PROGRESS)\<lparr>mo_routing := None, planned_qty := 100\<rparr>"
  have "load_in_house 1 2 61 demo_cloned = Inr ?p" "get_mo 1 60 demo_cloned = Inr ?m"
    by (simp_all add: demo_cloned_def demo_clone_def eval_floor)
  moreover have "receive_ceiling ?m = 105" by (simp add: receive_ceiling_def)
  ultimately show ?thesis
    using first_receipt_overwrites [of 1 2 61 demo_cloned ?p ?m 3]
    by (auto simp: accounted_qty_def demo_mop_def)
qed

end
