(* ===== verification/Inspection.thy ===== *)
theory Inspection
  imports OperationProgress
begin

text \<open>
  Quality control, \<^verbatim>\<open>app/service/qc_service.py\<close>: the start of an inspection, the verdict, the clone
  a rework verdict spawns, and the read of the source the next verdict must account for. The event of
  a verdict is kept (its rework quantity has no column); the other events, the audit rows, the dates
  and the reads that list rows are left out, and so are a clone's billing columns, which no modelled service
  reads. The lock of the operation is the atomicity of a step.
\<close>

section \<open>Lookups\<close>

definition MAX_REWORK_DEPTH :: nat where "MAX_REWORK_DEPTH = 5"

definition qty_grid :: "decimal \<Rightarrow> decimal" where
  "qty_grid = quantize round_half_even 4"

definition load_operation_master :: "uuid \<Rightarrow> uuid \<Rightarrow> plant \<Rightarrow> error + op_master" where
  "load_operation_master org i s =
     bindE (scalar_one_or_none
              (filter (\<lambda>r. opm_id r = i \<and> opm_org r = org \<and> \<not> opm_deleted r) (op_masters s)))
       (\<lambda>r. case r of None \<Rightarrow> Inl (AppValidationError ''Operation master not found'') | Some m \<Rightarrow> Inr m)"

definition ensure_qc_operation :: "uuid \<Rightarrow> mo_op \<Rightarrow> plant \<Rightarrow> error + op_master" where
  "ensure_qc_operation org p s =
     bindE (load_operation_master org (mop_master p) s) (\<lambda>m.
     bindE (guardE (opm_type m = QC) (AppValidationError ''Operation is not a QC operation'')) (\<lambda>_. Inr m))"

text \<open>The one original operation on the one incoming edge.\<close>

definition find_qc_predecessor :: "uuid \<Rightarrow> mo_op \<Rightarrow> plant \<Rightarrow> error + mo_op" where
  "find_qc_predecessor org p s =
     bindE (get_mo org (mop_mo p) s) (\<lambda>m.
     case mo_routing m of
       None \<Rightarrow> Inl (AppValidationError ''parent MO has no routing'')
     | Some r \<Rightarrow>
         (case filter (\<lambda>e. edge_routing e = r \<and> to_op e = mop_master p \<and> \<not> edge_deleted e) (routing_edges s) of
            [] \<Rightarrow> Inl (AppValidationError ''no incoming routing edge'')
          | [e] \<Rightarrow>
              bindE (scalar_one_or_none
                       (filter (\<lambda>q. mop_mo q = mop_mo p \<and> mop_master q = from_op e \<and> rework_of q = None \<and>
                                    \<not> mop_deleted q) (mo_ops s)))
                (\<lambda>found. case found of
                   None \<Rightarrow> Inl (AppValidationError ''predecessor has no instantiated MoOperation'')
                 | Some q \<Rightarrow> Inr q)
          | _ \<Rightarrow> Inl (AppValidationError ''multi-input QC is not supported'')))"

text \<open>The most recently created clone of an operation; rows stand in the order of creation.\<close>

definition latest_clone_of :: "uuid \<Rightarrow> plant \<Rightarrow> mo_op option" where
  "latest_clone_of i s =
     (case filter (\<lambda>q. rework_of q = Some i \<and> \<not> mop_deleted q) (mo_ops s) of [] \<Rightarrow> None | qs \<Rightarrow> Some (last qs))"

text \<open>The loop down the clones, with as much fuel as there are operations; \<open>descend_end\<close> below shows
  that it is enough.\<close>

fun descend :: "plant \<Rightarrow> nat \<Rightarrow> mo_op \<Rightarrow> mo_op" where
  "descend s 0 leaf = leaf"
| "descend s (Suc n) leaf =
     (case latest_clone_of (mop_id leaf) s of None \<Rightarrow> leaf | Some deeper \<Rightarrow> descend s n deeper)"

definition resolve_rework_leaf :: "uuid \<Rightarrow> mo_op \<Rightarrow> plant \<Rightarrow> error + mo_op \<times> mo_op" where
  "resolve_rework_leaf org p s =
     bindE (find_qc_predecessor org p s) (\<lambda>original.
     case latest_clone_of (mop_id original) s of
       None \<Rightarrow> Inl (AppValidationError ''QC operation is in REWORK state but no rework clone exists'')
     | Some leaf \<Rightarrow> Inr (original, descend s (length (mo_ops s)) leaf))"

text \<open>What the next verdict must account for: the predecessor and, before the last verdict, the
  quantity arriving. A validation error of the lookup means nothing to inspect.\<close>

definition get_qc_source_context :: "uuid \<Rightarrow> uuid \<Rightarrow> plant \<Rightarrow> error + (uuid \<times> decimal option) option" where
  "get_qc_source_context org i s =
     bindE (load_operation org i s) (\<lambda>p.
     case (if mop_state p = REWORK
           then bindE (resolve_rework_leaf org p s) (\<lambda>(original, leaf).
                  Inr (mop_id original, Some (qty_grid (mop_out leaf))))
           else bindE (find_qc_predecessor org p s) (\<lambda>q.
                  Inr (mop_id q, if mop_state p \<in> {PENDING, READY, QC_PENDING} then Some (qty_grid (mop_out q))
                                 else None))) of
       Inl (AppValidationError _) \<Rightarrow> Inr None
     | Inl e \<Rightarrow> Inl e
     | Inr c \<Rightarrow> Inr (Some c))"

section \<open>Rework clones\<close>

text \<open>The walk up the clones, capped two above the guard; a missing parent counts as too deep.\<close>

function walk_depth :: "plant \<Rightarrow> mo_op \<Rightarrow> nat \<Rightarrow> error + nat" where
  "walk_depth s p depth =
     (case rework_of p of
        None \<Rightarrow> Inr depth
      | Some i \<Rightarrow>
          if depth > MAX_REWORK_DEPTH + 2 then Inr depth
          else bindE (scalar_one_or_none (filter (\<lambda>q. mop_id q = i \<and> \<not> mop_deleted q) (mo_ops s))) (\<lambda>found.
               case found of None \<Rightarrow> Inr (MAX_REWORK_DEPTH + 1) | Some q \<Rightarrow> walk_depth s q (Suc depth)))"
  by pat_completeness auto
termination by (relation "measure (\<lambda>(s, p, depth). MAX_REWORK_DEPTH + 3 - depth)") auto

definition compute_rework_depth :: "plant \<Rightarrow> mo_op \<Rightarrow> error + nat" where
  "compute_rework_depth s p = walk_depth s p 0"

definition new_clone :: "mo_op \<Rightarrow> decimal \<Rightarrow> uuid \<Rightarrow> mo_op" where
  "new_clone parent q i =
     \<lparr>mop_id = i, mop_org = mop_org parent, mop_firm = mop_firm parent, mop_mo = mop_mo parent,
      mop_master = mop_master parent, mop_sequence = None, mop_state = PENDING, executor = executor parent,
      mop_karigar = mop_karigar parent, outward_challan = None, inward_challan = None, mop_in = q, mop_out = 0,
      mop_rejected = 0, mop_byproduct = 0, mop_wastage = 0, rework_of = Some (mop_id parent),
      input_item = input_item parent, output_item = output_item parent, in_record_count = 0, mop_version = 0,
      mop_deleted = False\<rparr>"

definition clone_for_rework :: "mo_op \<Rightarrow> decimal \<Rightarrow> plant \<Rightarrow> error + plant" where
  "clone_for_rework parent q s =
     bindE (guardE (\<not> q \<le> 0) (AppValidationError ''_clone_for_rework requires qty_rework > 0'')) (\<lambda>_.
     bindE (compute_rework_depth s parent) (\<lambda>parent_depth.
     bindE (guardE (\<not> parent_depth + 1 > MAX_REWORK_DEPTH) (AppValidationError ''Rework depth cap reached'')) (\<lambda>_.
     case plant_mint s of (s', i) \<Rightarrow> Inr (s'\<lparr>mo_ops := mo_ops s' @ [new_clone parent q i]\<rparr>))))"

section \<open>Inspection\<close>

definition start_qc_inspection :: "uuid \<Rightarrow> uuid \<Rightarrow> uuid \<Rightarrow> plant \<Rightarrow> error + plant" where
  "start_qc_inspection org firm i s =
     bindE (load_operation org i s) (\<lambda>p.
     bindE (guardE (mop_firm p = firm) (AppValidationError ''Operation does not belong to firm'')) (\<lambda>_.
     bindE (ensure_qc_operation org p s) (\<lambda>_.
     bindE (guardE (mop_state p = PENDING) (AppValidationError ''Cannot start QC: expected PENDING'')) (\<lambda>_.
     bindE (get_mo org (mop_mo p) s) (\<lambda>m.
     bindE (guardE (mo_status m = MoStatus.IN_PROGRESS)
              (AppValidationError ''Cannot start QC: parent MO not IN_PROGRESS'')) (\<lambda>_.
     bindE (can_start_operation p s) (\<lambda>verdict.
     case verdict of
       Some reason \<Rightarrow> Inl (AppValidationError reason)
     | None \<Rightarrow>
         bindE (find_qc_predecessor org p s) (\<lambda>pred.
         bindE (guardE (\<not> mop_out pred \<le> 0) (AppValidationError ''record upstream output before starting QC'')) (\<lambda>_.
         Inr (put_op (p\<lparr>mop_state := QC_PENDING, mop_version := Suc (mop_version p)\<rparr>) s))))))))))"

record verdict =
  qty_passed :: decimal
  qty_rejected :: decimal
  qty_byproduct :: decimal
  qty_wastage :: decimal
  qty_rework :: decimal

definition verdict_sum :: "verdict \<Rightarrow> decimal" where
  "verdict_sum v = qty_passed v + qty_rejected v + qty_byproduct v + qty_wastage v + qty_rework v"

text \<open>The operation whose output the verdict inspects: the predecessor on the first one, the last clone,
  which must be closed, on a re-record.\<close>

definition rework_source :: "uuid \<Rightarrow> mo_op \<Rightarrow> plant \<Rightarrow> error + mo_op" where
  "rework_source org p s =
     (if mop_state p = REWORK
      then bindE (resolve_rework_leaf org p s) (\<lambda>(_, leaf).
           bindE (guardE (mop_state leaf = MoOperationState.CLOSED)
                    (AppValidationError ''Finish the rework operation before re-inspecting'')) (\<lambda>_. Inr leaf))
      else find_qc_predecessor org p s)"

text \<open>The row after the verdict: quantities add up over the rounds but for the first, which overwrites.\<close>

definition judged :: "mo_op \<Rightarrow> verdict \<Rightarrow> decimal \<Rightarrow> mo_op" where
  "judged p v source_out =
     p\<lparr>mop_out := (if mop_state p = REWORK then mop_out p + qty_passed v else qty_passed v),
       mop_rejected := mop_rejected p + qty_rejected v, mop_byproduct := mop_byproduct p + qty_byproduct v,
       mop_wastage := mop_wastage p + qty_wastage v,
       mop_in := (if mop_state p = REWORK then mop_in p + source_out else source_out),
       in_record_count := Suc (in_record_count p),
       mop_state := (if qty_rework v > 0 then REWORK else MoOperationState.CLOSED),
       mop_version := Suc (mop_version p)\<rparr>"

definition record_qc_result :: "uuid \<Rightarrow> uuid \<Rightarrow> uuid \<Rightarrow> verdict \<Rightarrow> plant \<Rightarrow> error + plant" where
  "record_qc_result org firm i v s =
     bindE (guardE (\<not> (qty_passed v < 0 \<or> qty_rejected v < 0 \<or> qty_byproduct v < 0 \<or> qty_wastage v < 0 \<or> qty_rework v < 0))
              (AppValidationError ''must be >= 0'')) (\<lambda>_.
     let tot = qty_grid (verdict_sum v) in
     bindE (guardE (\<not> tot \<le> 0) (AppValidationError ''record_qc_result requires at least one non-zero qty'')) (\<lambda>_.
     bindE (load_operation org i s) (\<lambda>p.
     bindE (guardE (mop_firm p = firm) (AppValidationError ''Operation does not belong to firm'')) (\<lambda>_.
     bindE (ensure_qc_operation org p s) (\<lambda>_.
     bindE (guardE (mop_state p \<in> {QC_PENDING, REWORK}) (AppValidationError ''Cannot record QC result'')) (\<lambda>_.
     bindE (rework_source org p s) (\<lambda>src.
     let source_out = qty_grid (mop_out src) in
     bindE (guardE (tot = source_out) (AppValidationError ''QC bucket sum does not equal source qty_out'')) (\<lambda>_.
     bindE (guardE (\<not> (qty_rework v > 0 \<and> mop_state src \<in> {SKIPPED, MoOperationState.CANCELLED}))
              (AppValidationError ''Cannot apply REWORK verdict: no work to redo'')) (\<lambda>_.
     bindE (guardE (\<not> (qty_rework v > 0 \<and> mop_state p \<noteq> REWORK \<and>
                       (case latest_clone_of (mop_id src) s of
                          None \<Rightarrow> False | Some c \<Rightarrow> mop_state c \<noteq> MoOperationState.CLOSED)))
              (AppValidationError ''Finish the existing rework cycle first'')) (\<lambda>_.
     let s1 = put_op (judged p v source_out) s;
         s2 = s1\<lparr>qc_events := qc_events s1 @ [\<lparr>qe_org = org, qe_firm = firm, qe_op = mop_id p, qe_rework = qty_rework v\<rparr>]\<rparr>
     in if qty_rework v > 0 then clone_for_rework src (qty_rework v) s2 else Inr s2))))))))))"

text \<open>The requests of the shop floor and of quality control together.\<close>

datatype shop_call =
    Floor floor_call
  | StartQc uuid uuid uuid
  | Verdict uuid uuid uuid verdict

fun shop_step :: "shop_call \<Rightarrow> plant \<Rightarrow> error + plant" where
  "shop_step (Floor c) s = floor_step c s"
| "shop_step (StartQc org firm i) s = start_qc_inspection org firm i s"
| "shop_step (Verdict org firm i v) s = record_qc_result org firm i v s"

section \<open>The chain of clones\<close>

text \<open>Every clone stands after the operation it reworks, as rows are only appended.\<close>

definition clones_follow :: "mo_op list \<Rightarrow> bool" where
  "clones_follow ps \<longleftrightarrow> (\<forall>k < length ps. \<forall>a. rework_of (ps ! k) = Some a \<longrightarrow> a \<in> set (map mop_id (take k ps)))"

lemma clones_follow_same:
  assumes "map (\<lambda>p. (mop_id p, rework_of p)) ps = map (\<lambda>p. (mop_id p, rework_of p)) qs"
  shows "clones_follow ps = clones_follow qs"
proof -
  have ids: "map mop_id (take k ps) = map mop_id (take k qs)" for k
    using arg_cong [OF assms, of "\<lambda>xs. map fst (take k xs)"] by (simp add: take_map o_def)
  have len: "length ps = length qs" using assms by (rule map_eq_imp_length_eq)
  have "rework_of (ps ! k) = rework_of (qs ! k)" if "k < length qs" for k
    using arg_cong [OF assms, of "\<lambda>xs. snd (xs ! k)"] that len by simp
  with ids len show ?thesis unfolding clones_follow_def by (metis (no_types, lifting))
qed

lemma clones_follow_append:
  assumes "clones_follow ps" and "\<And>a. rework_of p = Some a \<Longrightarrow> a \<in> mop_id ` set ps"
  shows "clones_follow (ps @ [p])"
  using assms by (auto simp: clones_follow_def nth_append less_Suc_eq)

lemma latest_clone_of_Some:
  "latest_clone_of i s = Some q \<Longrightarrow> q \<in> set (mo_ops s) \<and> rework_of q = Some i \<and> \<not> mop_deleted q"
proof -
  assume q: "latest_clone_of i s = Some q"
  define F where "F = filter (\<lambda>q. rework_of q = Some i \<and> \<not> mop_deleted q) (mo_ops s)"
  have "F \<noteq> [] \<and> q = last F" using q unfolding latest_clone_of_def F_def [symmetric] by (cases F) simp_all
  then have "q \<in> set F" by simp
  then show ?thesis by (simp add: F_def)
qed

lemma clone_position:
  assumes "clones_follow (mo_ops s)" and "distinct (map mop_id (mo_ops s))"
    and "latest_clone_of (mop_id (mo_ops s ! i)) s = Some q" and "i < length (mo_ops s)"
  obtains k where "i < k" and "k < length (mo_ops s)" and "mo_ops s ! k = q"
proof -
  from latest_clone_of_Some [OF assms(3)] obtain k where k: "k < length (mo_ops s)" "mo_ops s ! k = q"
    and r: "rework_of q = Some (mop_id (mo_ops s ! i))" by (auto simp: in_set_conv_nth)
  with assms(1) have "mop_id (mo_ops s ! i) \<in> set (map mop_id (take k (mo_ops s)))" by (auto simp: clones_follow_def)
  then obtain h where h: "h < k" "mop_id (mo_ops s ! h) = mop_id (mo_ops s ! i)" by (auto simp: in_set_conv_nth)
  have "h = i" using nth_eq_iff_index_eq [OF assms(2), of h i] h k(1) assms(4) by simp
  with h(1) k that show thesis by blast
qed

lemma descend_end:
  assumes "clones_follow (mo_ops s)" and "distinct (map mop_id (mo_ops s))"
  shows "i < length (mo_ops s) \<Longrightarrow> length (mo_ops s) \<le> i + n \<Longrightarrow>
    descend s n (mo_ops s ! i) \<in> set (mo_ops s) \<and> latest_clone_of (mop_id (descend s n (mo_ops s ! i))) s = None"
proof (induction n arbitrary: i)
  case (Suc n)
  show ?case
  proof (cases "latest_clone_of (mop_id (mo_ops s ! i)) s")
    case (Some q)
    from clone_position [OF assms Some Suc.prems(1)] obtain k where k: "i < k" "k < length (mo_ops s)" "mo_ops s ! k = q" .
    have "length (mo_ops s) \<le> k + n" using Suc.prems(2) k(1) by simp
    from Suc.IH [OF k(2) this] k(3) Some show ?thesis by simp
  next
    case None
    then show ?thesis using Suc.prems(1) by simp
  qed
qed simp

section \<open>The invariant of the run\<close>

definition ids_ahead :: "plant \<Rightarrow> bool" where
  "ids_ahead s \<longleftrightarrow> ids_ok s \<and>
     (\<forall>n \<ge> minted (jw_stock (shop s)). uuid_supply (jw_stock (shop s)) n \<notin> mop_id ` set (mo_ops s))"

definition inspect_ok :: "plant \<Rightarrow> bool" where
  "inspect_ok s \<longleftrightarrow> floor_ok s \<and> ids_ahead s \<and> clones_follow (mo_ops s)"

lemma put_op_same:
  assumes "distinct (map mop_id (mo_ops s))" and "p \<in> set (mo_ops s)"
    and "mop_id p' = mop_id p" and "rework_of p' = rework_of p"
  shows "map (\<lambda>r. (mop_id r, rework_of r)) (mo_ops (put_op p' s)) = map (\<lambda>r. (mop_id r, rework_of r)) (mo_ops s)"
proof -
  have "r = p" if "r \<in> set (mo_ops s)" "mop_id r = mop_id p" for r
    using that assms(1,2) by (auto simp: distinct_map dest: inj_onD)
  then show ?thesis
    using assms(3,4) by (simp add: put_op_def) (rule map_update_where, auto)
qed

text \<open>Saving a row of the same operation keeps all but its quantities.\<close>

lemma inspect_ok_put:
  assumes "inspect_ok s" and "p \<in> set (mo_ops s)" and "mop_id p' = mop_id p" and "rework_of p' = rework_of p"
  shows "ids_ahead (put_op p' s)" and "clones_follow (mo_ops (put_op p' s))"
    and "distinct (map mop_id (mo_ops (put_op p' s)))"
proof -
  have d: "distinct (map mop_id (mo_ops s))" using assms(1) by (simp add: inspect_ok_def floor_ok_def)
  note same = put_op_same [OF d assms(2-4)]
  show "clones_follow (mo_ops (put_op p' s))"
    using assms(1) clones_follow_same [OF same] by (simp add: inspect_ok_def)
  show "distinct (map mop_id (mo_ops (put_op p' s)))" using d by (simp add: put_op_ids)
  have "mop_id ` set (mo_ops (put_op p' s)) = mop_id ` set (mo_ops s)"
    using arg_cong [OF put_op_ids [of p' s], of set] by simp
  moreover have "shop (put_op p' s) = shop s" by (simp add: put_op_def)
  ultimately show "ids_ahead (put_op p' s)" using assms(1) by (simp add: inspect_ok_def ids_ahead_def ids_ok_def)
qed

lemma put_op_inspect:
  assumes "inspect_ok s" and "p \<in> set (mo_ops s)" and "mop_id p' = mop_id p" and "rework_of p' = rework_of p"
    and "executor p' = IN_HOUSE \<and> rework_of p' = None \<Longrightarrow> op_ok s p'"
  shows "inspect_ok (put_op p' s)"
  using inspect_ok_put [OF assms(1-4)] put_op_floor [OF _ assms(5)] assms(1) by (simp add: inspect_ok_def)

lemma floor_inspect:
  assumes "floor_step c s = Inr s'" and "inspect_ok s"
  shows "inspect_ok s'"
  using assms(1)
proof (rule floor_step_wrote)
  fix org p p'
  assume l: "load_operation org (call_op c) s = Inr p" and s': "s' = put_op p' s" and w: "floor_wrote c s p p'"
  have "op_ok s p'" if "executor p' = IN_HOUSE \<and> rework_of p' = None"
    using w load_operation_mem [OF l] that assms(2) by (auto simp: inspect_ok_def floor_ok_def floor_wrote_def)
  with w load_operation_mem [OF l] show "inspect_ok s'"
    unfolding s' by (intro put_op_inspect [OF assms(2)]) (auto simp: floor_wrote_def)
qed

lemma start_qc_inspect:
  assumes "start_qc_inspection org firm i s = Inr s'" and "inspect_ok s"
  shows "inspect_ok s'"
proof -
  from assms(1) obtain p where l: "load_operation org i s = Inr p" "mop_state p = PENDING"
    "s' = put_op (p\<lparr>mop_state := QC_PENDING, mop_version := Suc (mop_version p)\<rparr>) s"
    by (auto simp: start_qc_inspection_def split: option.splits)
  let ?p' = "p\<lparr>mop_state := QC_PENDING, mop_version := Suc (mop_version p)\<rparr>"
  have p: "p \<in> set (mo_ops s)" using load_operation_mem [OF l(1)] by simp
  have "op_ok s ?p'" if "executor p = IN_HOUSE" "rework_of p = None"
  proof -
    have "op_ok s p" using assms(2) p that by (simp add: inspect_ok_def floor_ok_def)
    then show ?thesis using l(2) by (simp add: op_ok_def buckets_of_def accounted_qty_def sent_back_def)
  qed
  then show ?thesis unfolding l(3) by (intro put_op_inspect [OF assms(2) p]) auto
qed

section \<open>The verdict\<close>

definition verdict_grid :: "verdict \<Rightarrow> bool" where
  "verdict_grid v \<longleftrightarrow> places 4 (qty_passed v) \<and> places 4 (qty_rejected v) \<and> places 4 (qty_byproduct v) \<and>
     places 4 (qty_wastage v) \<and> places 4 (qty_rework v)"

lemma verdict_grid_sum: "verdict_grid v \<Longrightarrow> qty_grid (verdict_sum v) = verdict_sum v"
  by (auto simp: verdict_grid_def qty_grid_def verdict_sum_def intro!: quantize_half_even_fix places_add)

definition verdict_event :: "uuid \<Rightarrow> uuid \<Rightarrow> mo_op \<Rightarrow> verdict \<Rightarrow> qc_event" where
  "verdict_event org firm p v = \<lparr>qe_org = org, qe_firm = firm, qe_op = mop_id p, qe_rework = qty_rework v\<rparr>"

definition with_event :: "qc_event \<Rightarrow> plant \<Rightarrow> plant" where
  "with_event e s = s\<lparr>qc_events := qc_events s @ [e]\<rparr>"

lemma with_event_fields [simp]:
  "mo_ops (with_event e s) = mo_ops s" "shop (with_event e s) = shop s"
  "qc_events (with_event e s) = qc_events s @ [e]"
  by (simp_all add: with_event_def)

lemma sent_back_event: "qc_events s' = qc_events s @ [e] \<Longrightarrow>
    sent_back s' p = sent_back s p + (if qe_op e = mop_id p then qe_rework e else 0)"
  by (simp add: sent_back_def)

text \<open>The parts of a successful verdict.\<close>

lemma record_qc_result_cases:
  assumes "record_qc_result org firm i v s = Inr s'"
  obtains p src s2 where "load_operation org i s = Inr p" and "mop_state p \<in> {QC_PENDING, REWORK}"
    and "0 \<le> qty_passed v" and "0 \<le> qty_rejected v" and "0 \<le> qty_byproduct v" and "0 \<le> qty_wastage v" and "0 \<le> qty_rework v"
    and "0 < qty_grid (verdict_sum v)"
    and "rework_source org p s = Inr src" and "qty_grid (verdict_sum v) = qty_grid (mop_out src)"
    and "s2 = with_event (verdict_event org firm p v) (put_op (judged p v (qty_grid (mop_out src))) s)"
    and "if qty_rework v > 0 then clone_for_rework src (qty_rework v) s2 = Inr s' else s' = s2"
  using assms unfolding record_qc_result_def Let_def
  by (auto simp: with_event_def verdict_event_def not_less not_le split: if_splits)

text \<open>The row stays in order: what the verdict books and sends back is what arrived.\<close>

lemma judged_ok:
  assumes "op_ok s p" and "mop_state p \<in> {QC_PENDING, REWORK}"
    and "0 \<le> qty_passed v" and "0 \<le> qty_rejected v" and "0 \<le> qty_byproduct v" and "0 \<le> qty_wastage v" and "0 \<le> qty_rework v"
    and "qc_events s' = qc_events s @ [verdict_event org firm p v]"
  shows "op_ok s' (judged p v (verdict_sum v))"
proof -
  let ?q = "judged p v (verdict_sum v)"
  have sb: "sent_back s' ?q = sent_back s p + qty_rework v"
    using sent_back_event [OF assms(8), of ?q] by (simp add: verdict_event_def judged_def sent_back_def)
  have fields: "mop_state ?q \<in> {MoOperationState.CLOSED, REWORK}" "in_record_count ?q \<noteq> 0"
    by (auto simp: judged_def)
  have "no_less (buckets_of ?q) \<and> accounted_qty ?q + sent_back s' ?q = mop_in ?q"
  proof (cases "mop_state p = REWORK")
    case True
    then have "accounted_qty p + sent_back s p = mop_in p" "no_less (buckets_of p)" using assms(1) by (simp_all add: op_ok_def)
    with True assms(3-7) show ?thesis unfolding sb by (simp add: judged_def accounted_qty_def buckets_of_def verdict_sum_def)
  next
    case False
    then have z: "mop_in p = 0" using assms(1,2) by (simp add: op_ok_def)
    note e = op_ok_empty [OF assms(1) z]
    from False e assms(3-7) show ?thesis
      unfolding sb by (simp add: judged_def accounted_qty_def buckets_of_def verdict_sum_def)
  qed
  moreover have "0 \<le> sent_back s' ?q" using assms(1,7) unfolding sb by (simp add: op_ok_def)
  ultimately show ?thesis using fields by (auto simp: op_ok_def)
qed

lemma clone_for_rework_cases:
  assumes "clone_for_rework parent q s = Inr s'"
  obtains h i where "plant_mint s = (s\<lparr>shop := h\<rparr>, i)" and "s' = s\<lparr>shop := h, mo_ops := mo_ops s @ [new_clone parent q i]\<rparr>"
    and "0 < q"
proof -
  obtain s0 i where m: "plant_mint s = (s0, i)" by (cases "plant_mint s")
  then obtain h where h: "s0 = s\<lparr>shop := h\<rparr>" by (auto simp: plant_mint_def split: prod.splits)
  from assms m h show thesis by (intro that [of h i]) (auto simp: clone_for_rework_def not_le)
qed

lemma clone_inspect:
  assumes "clone_for_rework parent q s = Inr s'" and "inspect_ok s" and "mop_id parent \<in> mop_id ` set (mo_ops s)"
  shows "inspect_ok s'"
  using assms(1)
proof (rule clone_for_rework_cases)
  fix h i
  assume m: "plant_mint s = (s\<lparr>shop := h\<rparr>, i)" and s': "s' = s\<lparr>shop := h, mo_ops := mo_ops s @ [new_clone parent q i]\<rparr>"
  let ?st = "jw_stock (shop s)"
  have i: "i = uuid_supply ?st (minted ?st)" and h: "jw_stock h = ?st\<lparr>minted := Suc (minted ?st)\<rparr>"
    using m by (auto simp: plant_mint_def mint_def dest!: arg_cong [of _ _ shop])
  have ahead: "inj (uuid_supply ?st)" "\<And>n. n \<ge> minted ?st \<Longrightarrow> uuid_supply ?st n \<notin> mop_id ` set (mo_ops s)"
    using assms(2) by (simp_all add: inspect_ok_def ids_ahead_def ids_ok_def)
  have clone: "mop_id (new_clone parent q j) = j" "rework_of (new_clone parent q j) = Some (mop_id parent)" for j
    by (simp_all add: new_clone_def)
  have "ids_ahead s'"
    using ahead by (auto simp: s' ids_ahead_def ids_ok_def h clone i Suc_le_eq dest: injD)
  moreover have "op_ok s' p = op_ok s p" for p by (rule op_ok_same) (simp add: s')
  then have "floor_ok s'"
    using assms(2) ahead(2) [of "minted ?st"] by (auto simp: inspect_ok_def floor_ok_def s' clone i)
  moreover have "a \<in> mop_id ` set (mo_ops s)" if "rework_of (new_clone parent q i) = Some a" for a
    using that assms(3) clone(2) by simp
  then have "clones_follow (mo_ops s')"
    using clones_follow_append [of "mo_ops s" "new_clone parent q i"] assms(2) by (simp add: s' inspect_ok_def)
  ultimately show ?thesis by (simp add: inspect_ok_def)
qed

lemma find_qc_predecessor_mem:
  assumes "find_qc_predecessor org p s = Inr q"
  shows "q \<in> set (mo_ops s)"
proof -
  from assms obtain P where "scalar_one_or_none (filter P (mo_ops s)) = Inr (Some q)"
    by (auto simp: find_qc_predecessor_def split: option.splits list.splits)
  then show ?thesis by (auto dest: scalar_one_or_none_mem)
qed

text \<open>A re-record inspects the end of the chain of clones.\<close>

lemma resolve_rework_leaf_end:
  assumes "resolve_rework_leaf org p s = Inr (q, leaf)" and "inspect_ok s"
  shows "leaf \<in> set (mo_ops s)" and "latest_clone_of (mop_id leaf) s = None"
    and "find_qc_predecessor org p s = Inr q"
proof -
  from assms(1) obtain c where q: "find_qc_predecessor org p s = Inr q" and c: "latest_clone_of (mop_id q) s = Some c"
    and leaf: "leaf = descend s (length (mo_ops s)) c"
    by (auto simp: resolve_rework_leaf_def split: option.splits)
  from latest_clone_of_Some [OF c] obtain k where k: "k < length (mo_ops s)" "mo_ops s ! k = c"
    by (auto simp: in_set_conv_nth)
  have ok: "clones_follow (mo_ops s)" "distinct (map mop_id (mo_ops s))"
    using assms(2) by (simp_all add: inspect_ok_def floor_ok_def)
  show "leaf \<in> set (mo_ops s)" and "latest_clone_of (mop_id leaf) s = None"
    using descend_end [OF ok k(1), of "length (mo_ops s)"] by (simp_all add: leaf k(2))
  show "find_qc_predecessor org p s = Inr q" by (rule q)
qed

lemma rework_source_mem:
  "rework_source org p s = Inr src \<Longrightarrow> inspect_ok s \<Longrightarrow> src \<in> set (mo_ops s)"
  unfolding rework_source_def
  by (auto split: if_splits dest: find_qc_predecessor_mem resolve_rework_leaf_end(1))

lemma verdict_inspect:
  assumes "record_qc_result org firm i v s = Inr s'" and "inspect_ok s" and "verdict_grid v"
  shows "inspect_ok s'"
  using assms(1)
proof (rule record_qc_result_cases)
  fix p src s2
  assume l: "load_operation org i s = Inr p" and st: "mop_state p \<in> {QC_PENDING, REWORK}"
    and nn: "0 \<le> qty_passed v" "0 \<le> qty_rejected v" "0 \<le> qty_byproduct v" "0 \<le> qty_wastage v" "0 \<le> qty_rework v"
    and src: "rework_source org p s = Inr src" and eq: "qty_grid (verdict_sum v) = qty_grid (mop_out src)"
    and s2: "s2 = with_event (verdict_event org firm p v) (put_op (judged p v (qty_grid (mop_out src))) s)"
    and last: "if qty_rework v > 0 then clone_for_rework src (qty_rework v) s2 = Inr s' else s' = s2"
  let ?q = "judged p v (verdict_sum v)"
  have q: "judged p v (qty_grid (mop_out src)) = ?q" using eq verdict_grid_sum [OF assms(3)] by simp
  have p: "p \<in> set (mo_ops s)" using load_operation_mem [OF l] by simp
  have same: "mop_id ?q = mop_id p" "rework_of ?q = rework_of p" "executor ?q = executor p" by (simp_all add: judged_def)
  have ev: "qc_events s2 = qc_events s @ [verdict_event org firm p v]" by (simp add: s2 put_op_def)
  note put = inspect_ok_put [OF assms(2) p same(1,2)]
  have ops: "mo_ops s2 = mo_ops (put_op ?q s)" "shop s2 = shop (put_op ?q s)" by (simp_all add: s2 q)
  have "op_ok s2 r" if r: "r \<in> set (mo_ops s2)" "executor r = IN_HOUSE" "rework_of r = None" for r
  proof (cases "mop_id r = mop_id p")
    case True
    then have "r = ?q" using r(1) same(1) by (auto simp: ops put_op_def update_where_def)
    moreover have "op_ok s p" using assms(2) p r(2,3) same by (simp add: \<open>r = ?q\<close> inspect_ok_def floor_ok_def)
    ultimately show ?thesis using judged_ok [OF _ st nn ev] by simp
  next
    case False
    then have "r \<in> set (mo_ops s)" using r(1) same(1) by (auto simp: ops put_op_def set_update_where)
    moreover have "sent_back s2 r = sent_back s r" using sent_back_event [OF ev, of r] False by (simp add: verdict_event_def)
    ultimately show ?thesis using assms(2) r(2,3) by (simp add: inspect_ok_def floor_ok_def op_ok_def)
  qed
  with put have ok2: "inspect_ok s2" unfolding inspect_ok_def floor_ok_def ids_ahead_def ids_ok_def ops by blast
  have "mop_id src \<in> mop_id ` set (mo_ops s)" using rework_source_mem [OF src assms(2)] by simp
  then have "mop_id src \<in> mop_id ` set (mo_ops s2)"
    unfolding ops using arg_cong [OF put_op_ids [of ?q s], of set] by simp
  with last ok2 clone_inspect show "inspect_ok s'" by (auto split: if_splits)
qed

text \<open>A call whose quantities have four decimals, as the columns hold.\<close>

fun on_grid :: "shop_call \<Rightarrow> bool" where
  "on_grid (Verdict org firm i v) = verdict_grid v"
| "on_grid _ = True"

lemma shop_step_inspect: "shop_step c s = Inr s' \<Longrightarrow> on_grid c \<Longrightarrow> inspect_ok s \<Longrightarrow> inspect_ok s'"
  by (cases c) (auto intro: floor_inspect start_qc_inspect verdict_inspect)

lemma shop_run_inspect:
  "\<forall>c \<in> set calls. on_grid c \<Longrightarrow> inspect_ok s \<Longrightarrow> inspect_ok (fold (commit shop_step) calls s)"
  by (induction calls arbitrary: s) (auto simp: commit_def intro: shop_step_inspect split: sum.splits)

section \<open>Properties\<close>

text \<open>C19: No unit is lost between the shop floor and quality control: whatever calls start, fill, complete
  and inspect operations, in whatever order and with whatever failures, as long as verdicts are given to
  four decimals, an original in-house operation never accounts for more than it received, counting as
  accounted what it put out, scrapped, made as byproduct and wasted, and what its verdicts sent back for
  rework; and once it is closed the two are equal.\<close>

theorem units_conserved:
  assumes "inspect_ok s" and "\<forall>c \<in> set calls. on_grid c"
    and "p \<in> set (mo_ops (fold (commit shop_step) calls s))" and "executor p = IN_HOUSE" and "rework_of p = None"
  shows "0 \<le> accounted_qty p \<and> 0 \<le> sent_back (fold (commit shop_step) calls s) p \<and>
    accounted_qty p + sent_back (fold (commit shop_step) calls s) p \<le> mop_in p \<and>
    (mop_state p = MoOperationState.CLOSED \<longrightarrow>
       accounted_qty p + sent_back (fold (commit shop_step) calls s) p = mop_in p)"
proof -
  have "op_ok (fold (commit shop_step) calls s) p"
    using shop_run_inspect [OF assms(2,1)] assms(3-5) by (simp add: inspect_ok_def floor_ok_def)
  then show ?thesis using accounted_nonneg [of p] by (simp add: op_ok_def)
qed

text \<open>Stitching, then an inspection of it.\<close>

definition demo_qc_edge :: edge_row where
  "demo_qc_edge = demo_edge\<lparr>edge_type := Some FINISH_TO_START, threshold_qty := None\<rparr>"

definition demo_qc :: plant where
  "demo_qc = demo_plant\<lparr>
     op_masters := [\<lparr>opm_id = 41, opm_org = 1, opm_firm = 2, opm_type = STITCHING, opm_deleted = False\<rparr>,
                    \<lparr>opm_id = 42, opm_org = 1, opm_firm = 2, opm_type = QC, opm_deleted = False\<rparr>],
     routings := [demo_routing], routing_edges := [demo_qc_edge],
     mos := [(demo_mo 60 MoStatus.IN_PROGRESS)\<lparr>mo_routing := Some 102, planned_qty := 100\<rparr>],
     mo_ops := [demo_mop 61 41 PENDING 0, demo_mop 62 42 PENDING 0]\<rparr>"

definition demo_verdict :: "decimal \<Rightarrow> decimal \<Rightarrow> verdict" where
  "demo_verdict passed rework =
     \<lparr>qty_passed = passed, qty_rejected = 0, qty_byproduct = 0, qty_wastage = 0, qty_rework = rework\<rparr>"

lemmas eval_qc = demo_qc_def demo_qc_edge_def demo_verdict_def demo_edge_def demo_routing_def demo_plant_def demo_shop_def
  demo_empty_def eval_floor incoming_edges_def edges_of_def load_mo_operations_def original_ops_def check_edge_def
  effective_type_def TERMINAL_STATES_def load_routing_with_edges_def plant_mint_def mint_def
  start_qc_inspection_def record_qc_result_def load_operation_master_def ensure_qc_operation_def find_qc_predecessor_def
  latest_clone_of_def resolve_rework_leaf_def rework_source_def judged_def clone_for_rework_def compute_rework_depth_def
  new_clone_def MAX_REWORK_DEPTH_def qty_grid_def verdict_sum_def

declare walk_depth.simps [simp del]

lemma walk_depth_original [simp]: "rework_of p = None \<Longrightarrow> walk_depth s p d = Inr d"
  by (subst walk_depth.simps) simp

text \<open>Ten pieces are stitched; the inspection passes eight and sends two back, and passes them after the
  rework by the clone, whose id is the first minted.\<close>

definition demo_rounds :: "shop_call list" where
  "demo_rounds = [Floor (StartOp 1 2 61), Floor (QtyIn 1 2 61 10), Floor (QtyOut 1 2 61 10 0 0 0), Floor (CompleteOp 1 2 61),
     StartQc 1 2 62, Verdict 1 2 62 (demo_verdict 8 2),
     Floor (StartOp 1 2 100), Floor (QtyOut 1 2 100 2 0 0 0), Floor (CompleteOp 1 2 100), Verdict 1 2 62 (demo_verdict 2 0)]"

lemma demo_rounds_run:
  "map (\<lambda>p. (mop_id p, mop_state p, mop_in p, accounted_qty p)) (mo_ops (fold (commit shop_step) demo_rounds demo_qc))
     = [(61, MoOperationState.CLOSED, 10, 10), (62, MoOperationState.CLOSED, 12, 10), (100, MoOperationState.CLOSED, 2, 2)]"
  "map (\<lambda>p. (executor p, rework_of p)) (mo_ops (fold (commit shop_step) demo_rounds demo_qc))
     = [(IN_HOUSE, None), (IN_HOUSE, None), (IN_HOUSE, Some 61)]"
  by (simp_all add: demo_rounds_def eval_qc)

lemma demo_qc_ok: "inspect_ok demo_qc"
  by (auto simp: inspect_ok_def floor_ok_def op_ok_def ids_ahead_def ids_ok_def inj_def clones_follow_def demo_qc_def
      demo_plant_def demo_shop_def demo_empty_def demo_mop_def accounted_qty_def buckets_of_def sent_back_def
      nth_Cons' less_Suc_eq)

text \<open>The inspection closes with twelve received, ten accounted for and two sent back: the units that came
  round again are counted twice in what it received.\<close>

lemma units_conserved_witness:
  "\<exists>p \<in> set (mo_ops (fold (commit shop_step) demo_rounds demo_qc)).
     mop_id p = 62 \<and> mop_state p = MoOperationState.CLOSED \<and> mop_in p = 12 \<and> accounted_qty p = 10 \<and>
     sent_back (fold (commit shop_step) demo_rounds demo_qc) p = 2"
proof -
  let ?t = "fold (commit shop_step) demo_rounds demo_qc"
  have grid: "\<forall>c \<in> set demo_rounds. on_grid c" by (simp add: demo_rounds_def demo_verdict_def verdict_grid_def)
  obtain p q r where ps: "mo_ops ?t = [p, q, r]" using demo_rounds_run(1) by (auto simp: map_eq_Cons_conv)
  then have q: "mop_id q = 62" "mop_state q = MoOperationState.CLOSED" "mop_in q = 12" "accounted_qty q = 10"
    "executor q = IN_HOUSE" "rework_of q = None" using demo_rounds_run by simp_all
  have "sent_back ?t q = 2" using units_conserved [OF demo_qc_ok grid, of q] q ps by simp
  with q ps show ?thesis by simp
qed

text \<open>C40: The read of the source of an inspection and the check of its verdict agree: whenever a verdict
  is accepted, first or repeated, the quantity the read shows just before, resolved from the routing and
  the clones, is the sum of the verdict's five amounts; so a verdict with another sum is refused.\<close>

theorem verdict_matches_context:
  assumes "record_qc_result org firm i v s = Inr s'"
  shows "\<exists>q. get_qc_source_context org i s = Inr (Some (q, Some (qty_grid (verdict_sum v))))"
  using assms
proof (rule record_qc_result_cases)
  fix p src
  assume l: "load_operation org i s = Inr p" and st: "mop_state p \<in> {QC_PENDING, REWORK}"
    and src: "rework_source org p s = Inr src" and eq: "qty_grid (verdict_sum v) = qty_grid (mop_out src)"
  show ?thesis
  proof (cases "mop_state p = REWORK")
    case True
    with src obtain q where "resolve_rework_leaf org p s = Inr (q, src)" by (auto simp: rework_source_def)
    with True l eq show ?thesis by (simp add: get_qc_source_context_def)
  next
    case False
    with src have "find_qc_predecessor org p s = Inr src" by (simp add: rework_source_def)
    with False l st eq show ?thesis by (simp add: get_qc_source_context_def)
  qed
qed

text \<open>Once the clone is closed, the read shows its two pieces, not the ten of the predecessor.\<close>

lemma verdict_matches_context_witness:
  "\<exists>q. get_qc_source_context 1 62 (fold (commit shop_step) (butlast demo_rounds) demo_qc) = Inr (Some (q, Some 2))"
proof -
  let ?s = "fold (commit shop_step) (butlast demo_rounds) demo_qc"
  have "\<not> isl (record_qc_result 1 2 62 (demo_verdict 2 0) ?s)" by (simp add: demo_rounds_def eval_qc)
  then obtain s' where "record_qc_result 1 2 62 (demo_verdict 2 0) ?s = Inr s'"
    by (cases "record_qc_result 1 2 62 (demo_verdict 2 0) ?s") auto
  from verdict_matches_context [OF this] show ?thesis by (simp add: verdict_sum_def demo_verdict_def qty_grid_def)
qed

end
