(* ===== verification/Bom.thy ===== *)
theory Bom
  imports Routing
begin

text \<open>
  Bills of materials, \<^verbatim>\<open>app/service/bom_service.py\<close>: versioned by firm and finished item, with one
  active version per design and finished item. The locks, the listing and the audit rows are left out.
\<close>

section \<open>Operations\<close>

record bom_input =
  bi_item :: uuid
  bi_qty :: decimal
  bi_optional :: bool

text \<open>The live rows of a partition, newest version first.\<close>

definition in_partition :: "uuid \<Rightarrow> uuid \<Rightarrow> uuid \<Rightarrow> bom_row \<Rightarrow> bool" where
  "in_partition org design item b \<longleftrightarrow>
     bom_org b = org \<and> bom_design b = design \<and> bom_item b = item \<and> \<not> bom_deleted b"

definition max_version_including_deleted :: "uuid \<Rightarrow> uuid \<Rightarrow> uuid \<Rightarrow> plant \<Rightarrow> int" where
  "max_version_including_deleted org firm item s =
     fold max (map bom_version (filter (\<lambda>b. bom_org b = org \<and> bom_firm b = firm \<and> bom_item b = item) (boms s))) 0"

definition demote_other_active_boms :: "uuid \<Rightarrow> uuid \<Rightarrow> uuid \<Rightarrow> uuid \<Rightarrow> plant \<Rightarrow> plant" where
  "demote_other_active_boms org design item keep s =
     s\<lparr>boms := update_where (\<lambda>b. in_partition org design item b \<and> bom_id b \<noteq> keep)
                (\<lambda>b. b\<lparr>bom_active := False\<rparr>) (boms s)\<rparr>"

definition promote_next_active_bom :: "uuid \<Rightarrow> uuid \<Rightarrow> uuid \<Rightarrow> plant \<Rightarrow> plant" where
  "promote_next_active_bom org design item s =
     (case sort_key (\<lambda>b. - bom_version b) (filter (in_partition org design item) (boms s)) of
        [] \<Rightarrow> s
      | c # _ \<Rightarrow> s\<lparr>boms := update_where (\<lambda>b. bom_id b = bom_id c) (\<lambda>b. b\<lparr>bom_active := True\<rparr>) (boms s)\<rparr>)"

definition item_in_firm :: "uuid \<Rightarrow> uuid \<Rightarrow> uuid \<Rightarrow> plant \<Rightarrow> error + unit" where
  "item_in_firm org firm i s =
     bindE (get_item org i s) (\<lambda>r.
     guardE (item_firm r = None \<or> item_firm r = Some firm) (AppValidationError ''does not belong to firm''))"

fun check_bom_lines :: "uuid \<Rightarrow> uuid \<Rightarrow> uuid \<Rightarrow> uuid set \<Rightarrow> bom_input list \<Rightarrow> plant \<Rightarrow> error + unit" where
  "check_bom_lines org firm item seen [] s = Inr ()"
| "check_bom_lines org firm item seen (l # ls) s =
     (if bi_item l = item then Inl (AppValidationError ''a finished good cannot be its own component'')
      else if bi_item l \<in> seen then Inl (AppValidationError ''Duplicate item_id in BOM lines'')
      else bindE (item_in_firm org firm (bi_item l) s) (\<lambda>_.
           bindE (guardE (\<not> bi_qty l \<le> 0) (AppValidationError ''BOM line qty_required must be > 0'')) (\<lambda>_.
           check_bom_lines org firm item (insert (bi_item l) seen) ls s)))"

definition new_bom_line :: "uuid \<Rightarrow> uuid \<Rightarrow> bom_input \<Rightarrow> bom_line" where
  "new_bom_line org b l =
     \<lparr>bl_bom = b, bl_org = org, bl_item = bi_item l, bl_qty = bi_qty l, bl_optional = bi_optional l,
      bl_deleted = False\<rparr>"

definition create_bom ::
  "uuid \<Rightarrow> uuid \<Rightarrow> uuid \<Rightarrow> uuid \<Rightarrow> bom_input list \<Rightarrow> plant \<Rightarrow> error + plant \<times> bom_row" where
  "create_bom org firm design item ls s =
     bindE (assert_firm_in_org org firm (jw_stock (shop s))) (\<lambda>_.
     bindE (guardE (ls \<noteq> []) (AppValidationError ''BOM must have at least one line'')) (\<lambda>_.
     bindE (get_design org design s) (\<lambda>d.
     bindE (guardE (design_firm d = firm) (AppValidationError ''Design does not belong to firm'')) (\<lambda>_.
     bindE (item_in_firm org firm item s) (\<lambda>_.
     bindE (check_bom_lines org firm item {} ls s) (\<lambda>_.
     let v = max_version_including_deleted org firm item s + 1 in
     bindE (guardE (\<not> (\<exists>b \<in> set (boms s). bom_firm b = firm \<and> bom_item b = item \<and> bom_version b = v))
              (AppValidationError ''BOM version race detected'')) (\<lambda>_.
     case plant_mint s of (s', i) \<Rightarrow>
     let b = \<lparr>bom_id = i, bom_org = org, bom_firm = firm, bom_design = design, bom_item = item, bom_version = v,
              bom_active = True, bom_deleted = False\<rparr>
     in Inr (demote_other_active_boms org design item i
               (s'\<lparr>boms := boms s' @ [b], bom_lines := bom_lines s' @ map (new_bom_line org i) ls\<rparr>), b))))))))"

definition get_bom :: "uuid \<Rightarrow> uuid \<Rightarrow> plant \<Rightarrow> error + bom_row" where
  "get_bom org i s =
     bindE (scalar_one_or_none (filter (\<lambda>b. bom_id b = i \<and> bom_org b = org \<and> \<not> bom_deleted b) (boms s)))
       (\<lambda>r. case r of None \<Rightarrow> Inl (AppValidationError ''BOM not found'') | Some b \<Rightarrow> Inr b)"

definition bom_lines_of :: "uuid \<Rightarrow> plant \<Rightarrow> bom_line list" where
  "bom_lines_of b s = filter (\<lambda>l. bl_bom l = b) (bom_lines s)"

definition activate_bom :: "uuid \<Rightarrow> uuid \<Rightarrow> plant \<Rightarrow> error + plant" where
  "activate_bom org i s =
     (case filter (\<lambda>b. bom_id b = i \<and> bom_org b = org) (boms s) of
        [] \<Rightarrow> Inl (AppValidationError ''BOM not found'')
      | c # _ \<Rightarrow>
          bindE (get_bom org i s) (\<lambda>b.
          Inr (demote_other_active_boms org (bom_design c) (bom_item c) i
                 (s\<lparr>boms := update_where (\<lambda>r. bom_id r = i) (\<lambda>r. r\<lparr>bom_active := True\<rparr>) (boms s)\<rparr>))))"

definition bom_has_blocking_mo :: "uuid \<Rightarrow> uuid \<Rightarrow> plant \<Rightarrow> bool" where
  "bom_has_blocking_mo org b s = blocking_mo (\<lambda>m. mo_bom m = Some b) org s"

definition delete_bom :: "uuid \<Rightarrow> uuid \<Rightarrow> plant \<Rightarrow> error + plant" where
  "delete_bom org i s =
     bindE (scalar_one_or_none (filter (\<lambda>b. bom_id b = i \<and> bom_org b = org) (boms s))) (\<lambda>found.
     case found of
       None \<Rightarrow> Inl (AppValidationError ''BOM not found'')
     | Some b \<Rightarrow>
         if bom_deleted b then Inr s
         else bindE (guardE (\<not> bom_has_blocking_mo org i s)
                       (AppValidationError ''BOM is in use by an active manufacturing order'')) (\<lambda>_.
              let s1 = s\<lparr>boms := update_where (\<lambda>r. bom_id r = i)
                                  (\<lambda>r. r\<lparr>bom_deleted := True, bom_active := False\<rparr>) (boms s)\<rparr>
              in Inr (if bom_active b then promote_next_active_bom org (bom_design b) (bom_item b) s1 else s1)))"

section \<open>One active version\<close>

definition actives :: "uuid \<Rightarrow> uuid \<Rightarrow> uuid \<Rightarrow> bom_row list \<Rightarrow> bom_row list" where
  "actives org design item bs = filter (\<lambda>b. in_partition org design item b \<and> bom_active b) bs"

definition boms_ok :: "plant \<Rightarrow> bool" where
  "boms_ok s \<longleftrightarrow>
     ids_ok s \<and> bom_id ` set (boms s) \<subseteq> issued_ids s \<and> distinct (map bom_id (boms s)) \<and>
     (\<forall>b \<in> set (boms s). bom_deleted b \<longrightarrow> \<not> bom_active b) \<and>
     (\<forall>org design item. length (actives org design item (boms s))
        = (if \<exists>b \<in> set (boms s). in_partition org design item b then 1 else 0))"

lemma one_active:
  assumes "distinct (map bom_id bs)" and "c \<in> set bs" and "in_partition org design item c" and "bom_active c"
    and "\<And>b. b \<in> set bs \<Longrightarrow> in_partition org design item b \<Longrightarrow> bom_active b \<Longrightarrow> bom_id b = bom_id c"
  shows "length (actives org design item bs) = 1"
proof -
  have "distinct (actives org design item bs)" using assms(1) by (simp add: actives_def distinct_map)
  moreover have "set (actives org design item bs) = {c}"
    using assms by (auto simp: actives_def distinct_map dest: inj_onD)
  ultimately show ?thesis using distinct_card by fastforce
qed

lemma actives_update_other:
  assumes "\<And>b. b \<in> set bs \<Longrightarrow> p b \<Longrightarrow> \<not> in_partition org design item b \<and> \<not> in_partition org design item (f b)"
  shows "actives org design item (update_where p f bs) = actives org design item bs"
  using assms by (induction bs) (auto simp: actives_def update_where_def)

text \<open>Partitions are disjoint.\<close>

lemma in_partition_eq:
  "in_partition org design item b \<Longrightarrow> in_partition org' design' item' b \<longleftrightarrow> (org', design', item') = (org, design, item)"
  by (auto simp: in_partition_def)

lemma in_partition_active [simp]: "in_partition org design item (b\<lparr>bom_active := x\<rparr>) = in_partition org design item b"
  by (simp add: in_partition_def)

definition demoted :: "uuid \<Rightarrow> uuid \<Rightarrow> uuid \<Rightarrow> uuid \<Rightarrow> bom_row list \<Rightarrow> bom_row list" where
  "demoted org design item keep bs =
     update_where (\<lambda>b. in_partition org design item b \<and> bom_id b \<noteq> keep) (\<lambda>b. b\<lparr>bom_active := False\<rparr>) bs"

lemma demote_boms: "demote_other_active_boms org design item keep s = s\<lparr>boms := demoted org design item keep (boms s)\<rparr>"
  by (simp add: demote_other_active_boms_def demoted_def)

lemma demoted_ids [simp]: "map bom_id (demoted org design item keep bs) = map bom_id bs"
  unfolding demoted_def by (rule map_update_where) simp

lemma demoted_id_set [simp]: "bom_id ` set (demoted org design item keep bs) = bom_id ` set bs"
  by (metis demoted_ids set_map)

lemma ex_update_where:
  assumes "\<And>r. q (f r) = q r"
  shows "(\<exists>r \<in> set (update_where p f rs). q r) \<longleftrightarrow> (\<exists>r \<in> set rs. q r)"
  using assms by (induction rs) (auto simp: update_where_def)

lemma demoted_partition: "(\<exists>b \<in> set (demoted o1 d1 i1 keep bs). in_partition o2 d2 i2 b) \<longleftrightarrow> (\<exists>b \<in> set bs. in_partition o2 d2 i2 b)"
  unfolding demoted_def by (rule ex_update_where) simp

lemma demoted_one:
  assumes "distinct (map bom_id bs)" and "c \<in> set bs" and "in_partition org design item c" and "bom_active c"
  shows "length (actives org design item (demoted org design item (bom_id c) bs)) = 1"
proof (rule one_active)
  show "distinct (map bom_id (demoted org design item (bom_id c) bs))" using assms(1) by simp
  show "c \<in> set (demoted org design item (bom_id c) bs)" using assms(2) by (simp add: demoted_def set_update_where)
qed (use assms in \<open>auto simp: demoted_def set_update_where\<close>)

lemma demoted_other:
  "(o2, d2, i2) \<noteq> (o1, d1, i1) \<Longrightarrow> actives o2 d2 i2 (demoted o1 d1 i1 keep bs) = actives o2 d2 i2 bs"
  unfolding demoted_def by (rule actives_update_other) (auto simp: in_partition_def)

text \<open>A table of BOM rows in order, apart from the ids handed out.\<close>

definition bom_table_ok :: "bom_row list \<Rightarrow> bool" where
  "bom_table_ok bs \<longleftrightarrow>
     distinct (map bom_id bs) \<and> (\<forall>b \<in> set bs. bom_deleted b \<longrightarrow> \<not> bom_active b) \<and>
     (\<forall>org design item. length (actives org design item bs)
        = (if \<exists>b \<in> set bs. in_partition org design item b then 1 else 0))"

lemma boms_ok_iff: "boms_ok s \<longleftrightarrow> ids_ok s \<and> bom_id ` set (boms s) \<subseteq> issued_ids s \<and> bom_table_ok (boms s)"
  by (auto simp: boms_ok_def bom_table_ok_def)

lemma bom_table_okI:
  assumes "distinct (map bom_id bs)" and "\<forall>b \<in> set bs. bom_deleted b \<longrightarrow> \<not> bom_active b"
    and "length (actives org design item bs) = (if \<exists>b \<in> set bs. in_partition org design item b then 1 else 0)"
    and "\<And>o2 d2 i2. (o2, d2, i2) \<noteq> (org, design, item) \<Longrightarrow>
      length (actives o2 d2 i2 bs) = (if \<exists>b \<in> set bs. in_partition o2 d2 i2 b then 1 else 0)"
  shows "bom_table_ok bs"
proof -
  have "length (actives o2 d2 i2 bs) = (if \<exists>b \<in> set bs. in_partition o2 d2 i2 b then 1 else 0)" for o2 d2 i2
    by (cases "(o2, d2, i2) = (org, design, item)") (use assms(3) assms(4) [of o2 d2 i2] in auto)
  with assms(1,2) show ?thesis by (simp add: bom_table_ok_def)
qed

lemma demoted_ok:
  assumes "distinct (map bom_id bs)" and "\<forall>b \<in> set bs. bom_deleted b \<longrightarrow> \<not> bom_active b"
    and "c \<in> set bs" and "in_partition org design item c" and "bom_active c"
    and "\<And>o2 d2 i2. (o2, d2, i2) \<noteq> (org, design, item) \<Longrightarrow>
      length (actives o2 d2 i2 bs) = (if \<exists>b \<in> set bs. in_partition o2 d2 i2 b then 1 else 0)"
  shows "bom_table_ok (demoted org design item (bom_id c) bs)"
proof -
  have "length (actives o2 d2 i2 (demoted org design item (bom_id c) bs))
      = (if \<exists>b \<in> set (demoted org design item (bom_id c) bs). in_partition o2 d2 i2 b then 1 else 0)" for o2 d2 i2
  proof (cases "(o2, d2, i2) = (org, design, item)")
    case True
    then have "\<exists>b \<in> set bs. in_partition o2 d2 i2 b" using assms(3,4) by auto
    then show ?thesis using True demoted_one [OF assms(1,3,4,5)] by (simp add: demoted_partition)
  next
    case False
    then show ?thesis using assms(6) [OF False] demoted_other [OF False] by (simp add: demoted_partition)
  qed
  moreover have "\<forall>b \<in> set (demoted org design item (bom_id c) bs). bom_deleted b \<longrightarrow> \<not> bom_active b"
    using assms(2) by (auto simp: demoted_def set_update_where)
  ultimately show ?thesis using assms(1) by (simp add: bom_table_ok_def)
qed

lemma create_bom_ok:
  assumes "create_bom org firm design item ls s = Inr (s', b)" and ok: "boms_ok s"
  shows "boms_ok s'"
proof -
  obtain s0 i where m: "plant_mint s = (s0, i)" by (cases "plant_mint s")
  have "ids_ok s" using ok by (simp add: boms_ok_iff)
  note e = plant_mint_effect [OF m this]
  from e(4) obtain h where h: "s0 = s\<lparr>shop := h\<rparr>" by blast
  from assms(1) have b: "in_partition org design item b" "bom_active b" "bom_id b = i" "\<not> bom_deleted b"
    and s': "boms s' = demoted org design item i (boms s @ [b])" "shop s' = shop s0"
    by (auto simp: create_bom_def Let_def m demote_boms in_partition_def h)
  have t: "bom_table_ok (boms s)" using ok by (simp add: boms_ok_iff)
  have fresh: "i \<notin> bom_id ` set (boms s)" using ok e(2) by (auto simp: boms_ok_iff)
  have oth: "length (actives o2 d2 i2 (boms s @ [b])) = (if \<exists>c \<in> set (boms s @ [b]). in_partition o2 d2 i2 c then 1 else 0)"
    if "(o2, d2, i2) \<noteq> (org, design, item)" for o2 d2 i2
  proof -
    have "\<not> in_partition o2 d2 i2 b" using in_partition_eq [OF b(1)] that by blast
    then show ?thesis using t by (simp add: actives_def bom_table_ok_def)
  qed
  have "bom_table_ok (demoted org design item (bom_id b) (boms s @ [b]))"
    by (rule demoted_ok) (use t fresh b oth in \<open>auto simp: bom_table_ok_def\<close>)
  moreover have "ids_ok s' = ids_ok s0" "issued_ids s' = issued_ids s0" by (simp_all add: ids_ok_def issued_ids_def s'(2))
  moreover have "bom_id ` set (boms s') \<subseteq> insert i (issued_ids s)"
    using ok b(3) by (auto simp: s'(1) boms_ok_iff)
  ultimately show ?thesis using e(1,3) b(3) s'(1) by (simp add: boms_ok_iff)
qed

lemma get_bom_mem:
  "get_bom org i s = Inr b \<Longrightarrow> b \<in> set (boms s) \<and> bom_id b = i \<and> bom_org b = org \<and> \<not> bom_deleted b"
  unfolding get_bom_def by (auto dest: scalar_one_or_none_mem split: option.splits)

lemma bom_by_id: "bom_table_ok bs \<Longrightarrow> b \<in> set bs \<Longrightarrow> c \<in> set bs \<Longrightarrow> bom_id b = bom_id c \<Longrightarrow> b = c"
  by (auto simp: bom_table_ok_def distinct_map dest: inj_onD)

lemma activate_bom_ok:
  assumes "activate_bom org i s = Inr s'" and ok: "boms_ok s"
  shows "boms_ok s'"
proof -
  have t: "bom_table_ok (boms s)" using ok by (simp add: boms_ok_iff)
  from assms(1) obtain c rest b where c: "filter (\<lambda>b. bom_id b = i \<and> bom_org b = org) (boms s) = c # rest"
    and g: "get_bom org i s = Inr b"
    and s': "s' = demote_other_active_boms org (bom_design c) (bom_item c) i
      (s\<lparr>boms := update_where (\<lambda>r. bom_id r = i) (\<lambda>r. r\<lparr>bom_active := True\<rparr>) (boms s)\<rparr>)"
    by (auto simp: activate_bom_def split: list.splits)
  have "c \<in> set (filter (\<lambda>b. bom_id b = i \<and> bom_org b = org) (boms s))" by (simp add: c)
  then have cm: "c \<in> set (boms s)" "bom_id c = i" by auto
  note bm = get_bom_mem [OF g]
  have "b = c" by (rule bom_by_id [OF t]) (use cm bm in auto)
  let ?bs = "update_where (\<lambda>r. bom_id r = i) (\<lambda>r. r\<lparr>bom_active := True\<rparr>) (boms s)"
  let ?c = "c\<lparr>bom_active := True\<rparr>"
  have p: "in_partition org (bom_design c) (bom_item c) ?c" using bm \<open>b = c\<close> by (simp add: in_partition_def)
  have ids: "map bom_id ?bs = map bom_id (boms s)" by (rule map_update_where) simp
  have only: "r = c" if "r \<in> set (boms s)" "bom_id r = i" for r
    by (rule bom_by_id [OF t]) (use that cm in auto)
  have ex: "(\<exists>r \<in> set ?bs. in_partition o2 d2 i2 r) \<longleftrightarrow> (\<exists>r \<in> set (boms s). in_partition o2 d2 i2 r)" for o2 d2 i2
    by (rule ex_update_where) simp
  have oth: "length (actives o2 d2 i2 ?bs) = (if \<exists>r \<in> set ?bs. in_partition o2 d2 i2 r then 1 else 0)"
    if "(o2, d2, i2) \<noteq> (org, bom_design c, bom_item c)" for o2 d2 i2
  proof -
    have "\<not> in_partition o2 d2 i2 c" using that bm \<open>b = c\<close> by (auto simp: in_partition_def)
    then have "actives o2 d2 i2 ?bs = actives o2 d2 i2 (boms s)" by (intro actives_update_other) (auto dest: only)
    then show ?thesis using t by (simp add: ex bom_table_ok_def)
  qed
  have "bom_table_ok (demoted org (bom_design c) (bom_item c) (bom_id ?c) ?bs)"
  proof (rule demoted_ok)
    show "\<forall>r \<in> set ?bs. bom_deleted r \<longrightarrow> \<not> bom_active r"
    proof -
      have "\<not> bom_deleted r" if "r \<in> set (boms s)" "bom_id r = i" for r
        using only [OF that] bm \<open>b = c\<close> by simp
      then show ?thesis using t by (auto simp: set_update_where bom_table_ok_def)
    qed
  qed (use t ids cm p oth in \<open>auto simp: bom_table_ok_def set_update_where\<close>)
  then have "bom_table_ok (boms s')" using cm by (simp add: s' demote_boms)
  moreover have "bom_id ` set (boms s') = bom_id ` set (boms s)"
    using arg_cong [OF ids, of set] by (simp add: s' demote_boms)
  moreover have "ids_ok s' = ids_ok s" "issued_ids s' = issued_ids s"
    by (simp_all add: s' demote_boms ids_ok_def issued_ids_def)
  ultimately show ?thesis using ok by (simp add: boms_ok_iff)
qed


lemma promote_ok:
  assumes "distinct (map bom_id bs)" and "\<forall>b \<in> set bs. bom_deleted b \<longrightarrow> \<not> bom_active b"
    and "actives org design item bs = []" and "c \<in> set bs" and "in_partition org design item c"
    and "\<And>o2 d2 i2. (o2, d2, i2) \<noteq> (org, design, item) \<Longrightarrow>
      length (actives o2 d2 i2 bs) = (if \<exists>b \<in> set bs. in_partition o2 d2 i2 b then 1 else 0)"
  shows "bom_table_ok (update_where (\<lambda>b. bom_id b = bom_id c) (\<lambda>b. b\<lparr>bom_active := True\<rparr>) bs)"
proof -
  let ?bs = "update_where (\<lambda>b. bom_id b = bom_id c) (\<lambda>b. b\<lparr>bom_active := True\<rparr>) bs"
  have only: "r = c" if "r \<in> set bs" "bom_id r = bom_id c" for r
    using that assms(1,4) by (auto simp: distinct_map dest: inj_onD)
  have ids: "map bom_id ?bs = map bom_id bs" by (rule map_update_where) simp
  have ex: "(\<exists>r \<in> set ?bs. in_partition o2 d2 i2 r) \<longleftrightarrow> (\<exists>r \<in> set bs. in_partition o2 d2 i2 r)" for o2 d2 i2
    by (rule ex_update_where) simp
  have "length (actives org design item ?bs) = 1"
  proof (rule one_active [of _ "c\<lparr>bom_active := True\<rparr>"])
    show "bom_id b = bom_id (c\<lparr>bom_active := True\<rparr>)"
      if "b \<in> set ?bs" "in_partition org design item b" "bom_active b" for b
      using that assms(3) by (auto simp: set_update_where actives_def filter_empty_conv)
  qed (use assms ids in \<open>auto simp: set_update_where\<close>)
  moreover have "length (actives o2 d2 i2 ?bs) = (if \<exists>b \<in> set ?bs. in_partition o2 d2 i2 b then 1 else 0)"
    if "(o2, d2, i2) \<noteq> (org, design, item)" for o2 d2 i2
  proof -
    have "\<not> in_partition o2 d2 i2 c" using that assms(5) by (auto simp: in_partition_def)
    then have "actives o2 d2 i2 ?bs = actives o2 d2 i2 bs" by (intro actives_update_other) (auto dest: only)
    then show ?thesis using assms(6) [OF that] by (simp add: ex)
  qed
  moreover have "\<not> bom_deleted r" if "r \<in> set bs" "bom_id r = bom_id c" for r
    using only [OF that] assms(5) by (simp add: in_partition_def)
  then have "\<forall>r \<in> set ?bs. bom_deleted r \<longrightarrow> \<not> bom_active r" using assms(2) by (auto simp: set_update_where)
  moreover have "\<exists>b \<in> set ?bs. in_partition org design item b" using assms(4,5) by (auto simp: ex)
  ultimately show ?thesis
    by (intro bom_table_okI [of _ org design item]) (simp_all add: ids assms(1))
qed

text \<open>A row taken out of a table in order: only its own partition is touched.\<close>

definition removed :: "uuid \<Rightarrow> bom_row list \<Rightarrow> bom_row list" where
  "removed i bs = update_where (\<lambda>r. bom_id r = i) (\<lambda>r. r\<lparr>bom_deleted := True, bom_active := False\<rparr>) bs"

lemma removed_ids [simp]: "map bom_id (removed i bs) = map bom_id bs"
  unfolding removed_def by (rule map_update_where) simp

lemma removed_mem: "r \<in> set (removed i bs) \<and> in_partition o2 d2 i2 r \<longleftrightarrow> r \<in> set bs \<and> bom_id r \<noteq> i \<and> in_partition o2 d2 i2 r"
  by (auto simp: removed_def set_update_where in_partition_def)

lemma removed_actives:
  assumes "bom_table_ok bs" and "b \<in> set bs"
  shows "set (actives o2 d2 i2 (removed (bom_id b) bs)) = set (actives o2 d2 i2 bs) - {b}"
proof -
  have "r \<in> set bs \<Longrightarrow> bom_id r \<noteq> bom_id b \<longleftrightarrow> r \<noteq> b" for r using bom_by_id [OF assms(1), of r b] assms(2) by auto
  then show ?thesis unfolding actives_def set_filter using removed_mem [of _ "bom_id b" bs o2 d2 i2] by blast
qed

lemma removed_other:
  assumes "bom_table_ok bs" and "b \<in> set bs" and "\<not> in_partition o2 d2 i2 b"
  shows "length (actives o2 d2 i2 (removed (bom_id b) bs))
    = (if \<exists>r \<in> set (removed (bom_id b) bs). in_partition o2 d2 i2 r then 1 else 0)"
proof -
  have n: "\<not> in_partition o2 d2 i2 r" if "r \<in> set bs" "bom_id r = bom_id b" for r
    using bom_by_id [OF assms(1) that(1) assms(2) that(2)] assms(3) by simp
  have "actives o2 d2 i2 (removed (bom_id b) bs) = actives o2 d2 i2 bs"
    unfolding removed_def by (rule actives_update_other) (auto dest: n simp: in_partition_def)
  moreover have "(\<exists>r \<in> set (removed (bom_id b) bs). in_partition o2 d2 i2 r) \<longleftrightarrow> (\<exists>r \<in> set bs. in_partition o2 d2 i2 r)"
    using removed_mem [of _ "bom_id b" bs o2 d2 i2] n by blast
  ultimately show ?thesis using assms(1) by (simp add: bom_table_ok_def)
qed

lemma removed_props:
  assumes "bom_table_ok bs"
  shows "distinct (map bom_id (removed i bs))" and "\<forall>r \<in> set (removed i bs). bom_deleted r \<longrightarrow> \<not> bom_active r"
  using assms by (auto simp: bom_table_ok_def removed_def set_update_where) (simp flip: removed_def)

lemma distinct_actives: "distinct (map bom_id bs) \<Longrightarrow> distinct (actives o2 d2 i2 bs)"
  by (simp add: actives_def distinct_map)

lemma removed_active:
  assumes "bom_table_ok bs" and "b \<in> set bs" and "in_partition org design item b" and "bom_active b"
  shows "actives org design item (removed (bom_id b) bs) = []"
proof -
  have b: "b \<in> set (actives org design item bs)" using assms by (simp add: actives_def)
  have "length (actives org design item bs) = 1" using assms by (auto simp: bom_table_ok_def)
  then have "set (actives org design item bs) = {b}" using b by (cases "actives org design item bs") auto
  then show ?thesis using removed_actives [OF assms(1,2), of org design item] by simp
qed

lemma removed_inactive:
  assumes "bom_table_ok bs" and "b \<in> set bs" and "in_partition org design item b" and "\<not> bom_active b"
  shows "bom_table_ok (removed (bom_id b) bs)"
proof (rule bom_table_okI [of _ org design item])
  have "set (actives org design item (removed (bom_id b) bs)) = set (actives org design item bs)"
    using removed_actives [OF assms(1,2), of org design item] assms(4) by (auto simp: actives_def)
  then have l: "length (actives org design item (removed (bom_id b) bs)) = length (actives org design item bs)"
    using distinct_actives removed_props(1) [OF assms(1)] assms(1) by (metis bom_table_ok_def distinct_card)
  moreover have "length (actives org design item bs) = 1" using assms(1-3) by (auto simp: bom_table_ok_def)
  ultimately have one: "length (actives org design item (removed (bom_id b) bs)) = 1" by simp
  then obtain r where "actives org design item (removed (bom_id b) bs) = [r]"
    by (cases "actives org design item (removed (bom_id b) bs)") auto
  then have "r \<in> set (removed (bom_id b) bs)" "in_partition org design item r"
    unfolding actives_def by (auto dest: filter_oneD)
  then have "\<exists>r \<in> set (removed (bom_id b) bs). in_partition org design item r" by blast
  with one show "length (actives org design item (removed (bom_id b) bs))
      = (if \<exists>r \<in> set (removed (bom_id b) bs). in_partition org design item r then 1 else 0)"
    by (simp only: if_True)
next
  show "length (actives o2 d2 i2 (removed (bom_id b) bs))
      = (if \<exists>r \<in> set (removed (bom_id b) bs). in_partition o2 d2 i2 r then 1 else 0)"
    if "(o2, d2, i2) \<noteq> (org, design, item)" for o2 d2 i2
    by (rule removed_other [OF assms(1,2)]) (use that assms(3) in \<open>auto simp: in_partition_def\<close>)
qed (use removed_props [OF assms(1)] in auto)

lemma removed_promoted:
  assumes t: "bom_table_ok bs" and b: "b \<in> set bs" and p: "in_partition org design item b" and a: "bom_active b"
  shows "bom_table_ok (boms (promote_next_active_bom org design item (s\<lparr>boms := removed (bom_id b) bs\<rparr>)))"
proof -
  let ?bs = "removed (bom_id b) bs" and ?c = "sort_key (\<lambda>b. - bom_version b) (filter (in_partition org design item) (removed (bom_id b) bs))"
  have none: "actives org design item ?bs = []" by (rule removed_active [OF assms])
  have oth: "length (actives o2 d2 i2 ?bs) = (if \<exists>r \<in> set ?bs. in_partition o2 d2 i2 r then 1 else 0)"
    if "(o2, d2, i2) \<noteq> (org, design, item)" for o2 d2 i2
    by (rule removed_other [OF t b]) (use that p in \<open>auto simp: in_partition_def\<close>)
  show ?thesis
  proof (cases ?c)
    case Nil
    then have "set ?c = {}" by (metis list.set(1))
    then have no: "\<not> (\<exists>r \<in> set ?bs. in_partition org design item r)" by auto
    have "bom_table_ok ?bs"
      by (rule bom_table_okI [OF removed_props [OF t] _ oth]) (use no none in auto)
    then show ?thesis using Nil by (simp add: promote_next_active_bom_def)
  next
    case (Cons c cs)
    have "c \<in> set ?c" by (simp add: Cons)
    then have c: "c \<in> set ?bs" "in_partition org design item c" by auto
    show ?thesis using promote_ok [OF removed_props [OF t] none c oth] Cons by (simp add: promote_next_active_bom_def)
  qed
qed

lemma promote_frame:
  "bom_id ` set (boms (promote_next_active_bom org design item s)) = bom_id ` set (boms s)"
  "ids_ok (promote_next_active_bom org design item s) = ids_ok s"
  "issued_ids (promote_next_active_bom org design item s) = issued_ids s"
proof -
  have "map bom_id (update_where (\<lambda>b. bom_id b = k) (\<lambda>b. b\<lparr>bom_active := True\<rparr>) bs) = map bom_id bs" for k bs
    by (rule map_update_where) simp
  then have u: "bom_id ` set (update_where (\<lambda>b. bom_id b = k) (\<lambda>b. b\<lparr>bom_active := True\<rparr>) bs) = bom_id ` set bs" for k bs
    by (metis set_map)
  show "bom_id ` set (boms (promote_next_active_bom org design item s)) = bom_id ` set (boms s)"
    by (cases "sort_key (\<lambda>b. - bom_version b) (filter (in_partition org design item) (boms s))")
      (simp_all add: promote_next_active_bom_def u)
qed (simp_all add: promote_next_active_bom_def ids_ok_def issued_ids_def split: list.splits)

lemma boms_frame: "ids_ok (s\<lparr>boms := bs\<rparr>) = ids_ok s" "issued_ids (s\<lparr>boms := bs\<rparr>) = issued_ids s"
  by (simp_all add: ids_ok_def issued_ids_def)

lemma delete_bom_ok:
  assumes "delete_bom org i s = Inr s'" and ok: "boms_ok s"
  shows "boms_ok s'"
proof -
  have t: "bom_table_ok (boms s)" using ok by (simp add: boms_ok_iff)
  from assms(1) obtain b where b: "filter (\<lambda>b. bom_id b = i \<and> bom_org b = org) (boms s) = [b]"
    and s': "s' = s \<and> bom_deleted b \<or> \<not> bom_deleted b \<and> s' = (if bom_active b
      then promote_next_active_bom org (bom_design b) (bom_item b) (s\<lparr>boms := removed i (boms s)\<rparr>)
      else s\<lparr>boms := removed i (boms s)\<rparr>)"
    by (auto simp: delete_bom_def Let_def removed_def scalar_one_or_none_Some split: option.splits if_splits)
  have bm: "b \<in> set (boms s)" "bom_id b = i" "bom_org b = org" using filter_oneD [OF b] by simp_all
  have rid: "bom_id ` set (removed i (boms s)) = bom_id ` set (boms s)" by (metis removed_ids set_map)
  show ?thesis
  proof (cases "bom_deleted b")
    case live: False
    then have part: "in_partition org (bom_design b) (bom_item b) b" using bm by (simp add: in_partition_def)
    have "bom_table_ok (boms s')"
      using s' live removed_promoted [OF t bm(1) part, of s] removed_inactive [OF t bm(1) part] bm(2) by auto
    moreover have "bom_id ` set (boms s') = bom_id ` set (boms s)" "ids_ok s' = ids_ok s" "issued_ids s' = issued_ids s"
      using s' live by (auto simp: promote_frame rid boms_frame)
    ultimately show ?thesis using ok by (simp add: boms_ok_iff)
  qed (use s' ok in auto)
qed


datatype bom_call =
    CreateBom uuid uuid uuid uuid "bom_input list"
  | ActivateBom uuid uuid
  | DeleteBom uuid uuid

fun bom_step :: "bom_call \<Rightarrow> plant \<Rightarrow> error + plant" where
  "bom_step (CreateBom org firm design item ls) s = bindE (create_bom org firm design item ls s) (\<lambda>(s', _). Inr s')"
| "bom_step (ActivateBom org i) s = activate_bom org i s"
| "bom_step (DeleteBom org i) s = delete_bom org i s"

lemma bom_step_ok: "bom_step c s = Inr s' \<Longrightarrow> boms_ok s \<Longrightarrow> boms_ok s'"
  by (cases c) (auto dest: create_bom_ok activate_bom_ok delete_bom_ok)

interpretation bom: transactional bom_step boms_ok
  by unfold_locales (rule bom_step_ok)

section \<open>Properties\<close>

text \<open>C20: Whatever calls create, activate and delete bills of materials, every design and finished item
  with a live version has exactly one active version, and deleted versions are inactive.\<close>

theorem one_active_bom:
  assumes "boms_ok s"
  shows "length (actives org design item (boms (fold (commit bom_step) calls s)))
      = (if \<exists>b \<in> set (boms (fold (commit bom_step) calls s)). in_partition org design item b then 1 else 0) \<and>
    (\<forall>b \<in> set (boms (fold (commit bom_step) calls s)). bom_deleted b \<longrightarrow> \<not> bom_active b)"
  using bom.run_inv [OF assms, of calls] by (simp add: boms_ok_def)

text \<open>Two versions of item 3 made of item 8; the second, active one is deleted.\<close>

definition demo_makers :: plant where
  "demo_makers = demo_plant\<lparr>shop := demo_shop\<lparr>jw_stock := demo_empty\<lparr>items := items demo_empty @
     [\<lparr>item_id = 8, item_org = 1, item_firm = Some 2, item_type = RAW, item_deleted = False\<rparr>]\<rparr>\<rparr>\<rparr>"

definition demo_bom_calls :: "bom_call list" where
  "demo_bom_calls = [CreateBom 1 2 7 3 [\<lparr>bi_item = 8, bi_qty = 2, bi_optional = False\<rparr>],
     CreateBom 1 2 7 3 [\<lparr>bi_item = 8, bi_qty = 3, bi_optional = False\<rparr>], DeleteBom 1 101]"

lemmas eval_bom = demo_makers_def demo_bom_calls_def create_bom_def activate_bom_def delete_bom_def get_bom_def
  item_in_firm_def get_item_def max_version_including_deleted_def new_bom_line_def demote_other_active_boms_def
  promote_next_active_bom_def in_partition_def update_where_def bom_has_blocking_mo_def blocking_mo_def
  eval_routing

lemma one_active_bom_witness:
  "map (\<lambda>b. (bom_version b, bom_active b, bom_deleted b)) (boms (fold (commit bom_step) demo_bom_calls demo_makers))
     = [(1, True, False), (2, False, True)] \<and>
   length (actives 1 7 3 (boms (fold (commit bom_step) demo_bom_calls demo_makers))) = 1"
proof -
  let ?bs = "boms (fold (commit bom_step) demo_bom_calls demo_makers)"
  have m: "map (\<lambda>b. (bom_version b, bom_active b, bom_deleted b, bom_org b, bom_design b, bom_item b)) ?bs
      = [(1, True, False, 1, 7, 3), (2, False, True, 1, 7, 3)]"
    by (simp add: commit_def eval_bom)
  have ok: "boms_ok demo_makers"
    by (simp add: boms_ok_def actives_def ids_ok_def inj_def demo_makers_def demo_plant_def demo_empty_def)
  from m obtain b c where bs: "?bs = [b, c]" and p: "in_partition 1 7 3 b"
    and v: "map (\<lambda>b. (bom_version b, bom_active b, bom_deleted b)) [b, c] = [(1, True, False), (2, False, True)]"
    by (auto simp: in_partition_def map_eq_Cons_conv)
  from one_active_bom [OF ok, where calls = demo_bom_calls] bs p v show ?thesis by auto
qed

end
