(* ===== verification/Mo.thy ===== *)
theory Mo
  imports OperationProgress Bom
begin

text \<open>
  Manufacturing orders, \<^verbatim>\<open>app/service/mo_service.py\<close>: creation with the materialised lines and
  operations, the choice of the lane of an operation, and the header's status machine. The locks,
  the listing, the dates of the header and the audit rows are left out.
\<close>

section \<open>Creation\<close>

definition MO_NUMBER_KEY :: string where
  "MO_NUMBER_KEY = ''manufacturing_order_org_id_firm_id_series_number_key''"

definition mo_numbers :: "uuid \<Rightarrow> uuid \<Rightarrow> string \<Rightarrow> plant \<Rightarrow> string list" where
  "mo_numbers org firm series s =
     map mo_number (filter (\<lambda>m. mo_org m = org \<and> mo_firm m = firm \<and> mo_series m = series) (mos s))"

definition allocate_mo_number :: "uuid \<Rightarrow> uuid \<Rightarrow> string \<Rightarrow> plant \<Rightarrow> string" where
  "allocate_mo_number org firm series s = next_by_text (mo_numbers org firm series s)"

text \<open>The loop always ends (\<open>topological_order_spec\<close>), so the last branch is never taken.\<close>

definition topological_order_operations :: "edge_row list \<Rightarrow> error + uuid list" where
  "topological_order_operations es =
     (case topological_order (edge_arcs es) of Some r \<Rightarrow> r | None \<Rightarrow> Inl (ValueError ''loop without end''))"

definition validate_executor_choice :: "uuid \<Rightarrow> string \<Rightarrow> uuid option \<Rightarrow> plant \<Rightarrow> error + unit" where
  "validate_executor_choice org ex karigar s =
     bindE (guardE (ex = IN_HOUSE \<or> ex = KARIGAR) (AppValidationError ''executor must be one of'')) (\<lambda>_.
     bindE (guardE (\<not> (karigar \<noteq> None \<and> ex \<noteq> KARIGAR))
              (AppValidationError ''karigar_party_id may only be supplied when executor=KARIGAR'')) (\<lambda>_.
     case karigar of
       None \<Rightarrow> Inr ()
     | Some k \<Rightarrow>
         bindE (scalar_one_or_none
                  (filter (\<lambda>p. party_id p = k \<and> party_org p = org \<and> \<not> party_deleted p) (parties (shop s)))) (\<lambda>found.
         case found of
           None \<Rightarrow> Inl (AppValidationError ''Karigar party not found'')
         | Some p \<Rightarrow> guardE (is_karigar p) (AppValidationError ''not flagged as a karigar''))))"

type_synonym overrides = "(uuid \<times> string \<times> uuid option) list"

definition check_override :: "uuid \<Rightarrow> uuid list \<Rightarrow> plant \<Rightarrow> uuid \<times> string \<times> uuid option \<Rightarrow> error + unit" where
  "check_override org op_order s ov =
     (case ov of (master, ex, karigar) \<Rightarrow>
        bindE (guardE (master \<in> set op_order) (AppValidationError ''is not part of routing''))
          (\<lambda>_. validate_executor_choice org ex karigar s))"

definition live_lines :: "bom_line list \<Rightarrow> bom_line list" where
  "live_lines ls = filter (\<lambda>l. \<not> bl_deleted l) ls"

definition new_material_line :: "uuid \<Rightarrow> uuid \<Rightarrow> decimal \<Rightarrow> uuid \<Rightarrow> bom_line \<Rightarrow> material_line" where
  "new_material_line org mo qty i l =
     \<lparr>mml_id = i, mml_org = org, mml_mo = mo, mml_item = bl_item l,
      qty_required = quantize round_half_up 4 (ctx (bl_qty l * qty)), qty_issued = 0,
      mml_optional = bl_optional l, mml_deleted = False\<rparr>"

fun add_material_lines :: "uuid \<Rightarrow> uuid \<Rightarrow> decimal \<Rightarrow> bom_line list \<Rightarrow> plant \<Rightarrow> plant" where
  "add_material_lines org mo qty [] s = s"
| "add_material_lines org mo qty (l # ls) s =
     (case plant_mint s of (s', i) \<Rightarrow>
        add_material_lines org mo qty ls
          (s'\<lparr>material_lines := material_lines s' @ [new_material_line org mo qty i l]\<rparr>))"

text \<open>The item the first operation consumes: the first required line's, else the first live line's.\<close>

definition primary_raw :: "bom_line list \<Rightarrow> uuid option" where
  "primary_raw ls =
     (case find (\<lambda>l. \<not> bl_optional l) (live_lines ls) of
        Some l \<Rightarrow> Some (bl_item l)
      | None \<Rightarrow> (case live_lines ls of [] \<Rightarrow> None | l # _ \<Rightarrow> Some (bl_item l)))"

definition new_operation ::
  "uuid \<Rightarrow> uuid \<Rightarrow> uuid \<Rightarrow> uuid \<Rightarrow> overrides \<Rightarrow> nat \<Rightarrow> uuid option \<Rightarrow> uuid \<Rightarrow> uuid \<Rightarrow> mo_op" where
  "new_operation org firm mo item ovs sq input i master =
     (case (case map_of ovs master of Some c \<Rightarrow> c | None \<Rightarrow> (IN_HOUSE, None)) of (ex, karigar) \<Rightarrow>
       \<lparr>mop_id = i, mop_org = org, mop_firm = firm, mop_mo = mo, mop_master = master, mop_sequence = Some sq,
        mop_state = PENDING, executor = ex, mop_karigar = karigar, outward_challan = None, inward_challan = None,
        mop_in = 0, mop_out = 0, mop_rejected = 0, mop_byproduct = 0, mop_wastage = 0, rework_of = None,
        input_item = input, output_item = Some item, in_record_count = 0, mop_version = 0, mop_deleted = False\<rparr>)"

fun add_operations ::
  "uuid \<Rightarrow> uuid \<Rightarrow> uuid \<Rightarrow> uuid \<Rightarrow> overrides \<Rightarrow> nat \<Rightarrow> uuid option \<Rightarrow> uuid list \<Rightarrow> plant \<Rightarrow> plant" where
  "add_operations org firm mo item ovs sq input [] s = s"
| "add_operations org firm mo item ovs sq input (master # ms) s =
     (case plant_mint s of (s', i) \<Rightarrow>
        add_operations org firm mo item ovs (Suc sq) (Some item) ms
          (s'\<lparr>mo_ops := mo_ops s' @ [new_operation org firm mo item ovs sq input i master]\<rparr>))"

record mo_request =
  rq_design :: uuid
  rq_item :: uuid
  rq_qty :: decimal
  rq_bom :: uuid
  rq_routing :: uuid
  rq_start :: date
  rq_end :: "date option"
  rq_series :: string
  rq_overrides :: overrides

definition new_mo :: "uuid \<Rightarrow> uuid \<Rightarrow> mo_request \<Rightarrow> string \<Rightarrow> uuid \<Rightarrow> mo_row" where
  "new_mo org firm q number i =
     \<lparr>mo_id = i, mo_org = org, mo_firm = firm, mo_series = rq_series q, mo_number = number, mo_design = rq_design q,
      mo_item = rq_item q, mo_bom = Some (rq_bom q), mo_routing = Some (rq_routing q), mo_status = MoStatus.DRAFT,
      planned_qty = rq_qty q, produced_qty = 0, mo_scrap = 0, mo_byproduct = 0, mo_cost_pool = 0,
      completion_policy = Some ''ALL_OR_NONE'',
      planned_start = Some (rq_start q), planned_end = rq_end q, mo_closed = False, mo_deleted = False\<rparr>"

text \<open>The checks of the request, in the order of the code.\<close>

definition check_mo_request :: "uuid \<Rightarrow> uuid \<Rightarrow> mo_request \<Rightarrow> plant \<Rightarrow> error + routing_row" where
  "check_mo_request org firm q s =
     bindE (assert_firm_in_org org firm (jw_stock (shop s))) (\<lambda>_.
     bindE (guardE (\<not> rq_qty q \<le> 0) (AppValidationError ''qty_to_produce must be > 0'')) (\<lambda>_.
     bindE (guardE (\<not> (case rq_end q of None \<Rightarrow> False | Some e \<Rightarrow> e < rq_start q))
              (AppValidationError ''planned_end_date cannot be before planned_start_date'')) (\<lambda>_.
     bindE (guardE (rq_series q \<noteq> []) (AppValidationError ''MO number series is required'')) (\<lambda>_.
     bindE (get_item org (rq_item q) s) (\<lambda>item.
     bindE (guardE (item_firm item = None \<or> item_firm item = Some firm)
              (AppValidationError ''finished_item_id does not belong to firm'')) (\<lambda>_.
     bindE (get_bom org (rq_bom q) s) (\<lambda>b.
     bindE (guardE (bom_firm b = firm) (AppValidationError ''BOM does not belong to firm'')) (\<lambda>_.
     bindE (guardE (bom_item b = rq_item q) (AppValidationError ''BOM is for another finished_item'')) (\<lambda>_.
     bindE (guardE (bom_active b) (AppValidationError ''BOM is not active'')) (\<lambda>_.
     bindE (get_routing org (rq_routing q) s) (\<lambda>r.
     bindE (guardE (routing_firm r = firm) (AppValidationError ''Routing does not belong to firm'')) (\<lambda>_.
     bindE (guardE (routing_design r = rq_design q) (AppValidationError ''Routing is for another design'')) (\<lambda>_.
     Inr r)))))))))))))"

definition create_mo :: "uuid \<Rightarrow> uuid \<Rightarrow> mo_request \<Rightarrow> plant \<Rightarrow> error + plant \<times> mo_row" where
  "create_mo org firm q s =
     bindE (check_mo_request org firm q s) (\<lambda>r.
     let number = allocate_mo_number org firm (rq_series q) s in
     bindE (guardE (\<not> (\<exists>m \<in> set (mos s). mo_org m = org \<and> mo_firm m = firm \<and> mo_series m = rq_series q \<and>
                                        mo_number m = number))
              (AppValidationError ''MO number race detected'')) (\<lambda>_.
     case plant_mint s of (s1, i) \<Rightarrow>
     let m = new_mo org firm q number i;
         ls = live_lines (bom_lines_of (rq_bom q) s);
         s2 = add_material_lines org i (rq_qty q) ls (s1\<lparr>mos := mos s1 @ [m]\<rparr>)
     in bindE (guardE (\<exists>l \<in> set ls. \<not> bl_optional l) (AppValidationError ''BOM has no active required lines'')) (\<lambda>_.
        bindE (topological_order_operations (edges_of (rq_routing q) s)) (\<lambda>op_order.
        bindE (mapE (check_override org op_order s2) (rq_overrides q)) (\<lambda>_.
        Inr (add_operations org firm i (rq_item q) (rq_overrides q) 1 (primary_raw (bom_lines_of (rq_bom q) s))
               op_order s2, m))))))"

section \<open>The lane of an operation\<close>

definition set_operation_executor ::
  "uuid \<Rightarrow> uuid \<Rightarrow> uuid \<Rightarrow> string \<Rightarrow> uuid option \<Rightarrow> plant \<Rightarrow> error + plant" where
  "set_operation_executor org firm i ex karigar s =
     bindE (validate_executor_choice org ex karigar s) (\<lambda>_.
     bindE (load_operation org i s) (\<lambda>p.
     bindE (guardE (mop_firm p = firm) (AppValidationError ''Operation does not belong to firm'')) (\<lambda>_.
     bindE (guardE (mop_state p = PENDING) (AppValidationError ''only un-started operations can switch lanes'')) (\<lambda>_.
     bindE (guardE (\<not> (in_record_count p \<noteq> 0 \<or> mop_out p \<noteq> 0 \<or> outward_challan p \<noteq> None))
              (AppValidationError ''it already has recorded work'')) (\<lambda>_.
     bindE (get_mo org (mop_mo p) s) (\<lambda>m.
     bindE (guardE (mo_status m \<notin> {MoStatus.COMPLETED, MoStatus.CLOSED})
              (AppValidationError ''Cannot change executor: parent MO is in status'')) (\<lambda>_.
     Inr (put_op (p\<lparr>executor := ex, mop_karigar := (if ex = KARIGAR then karigar else None),
                    mop_version := Suc (mop_version p)\<rparr>) s))))))))"

section \<open>The header's status\<close>

definition transition :: "uuid \<Rightarrow> uuid \<Rightarrow> MoStatus \<Rightarrow> MoStatus \<Rightarrow> bool \<Rightarrow> plant \<Rightarrow> error + plant" where
  "transition org i from_status to_status set_closed s =
     bindE (get_mo org i s) (\<lambda>m.
     bindE (guardE (mo_status m = from_status) (AppValidationError ''Cannot change MO: unexpected status'')) (\<lambda>_.
     Inr (put_mo (m\<lparr>mo_status := to_status, mo_closed := (mo_closed m \<or> set_closed)\<rparr>) s)))"

definition release_mo :: "uuid \<Rightarrow> uuid \<Rightarrow> plant \<Rightarrow> error + plant" where
  "release_mo org i s = transition org i MoStatus.DRAFT MoStatus.RELEASED False s"

definition start_mo :: "uuid \<Rightarrow> uuid \<Rightarrow> plant \<Rightarrow> error + plant" where
  "start_mo org i s = transition org i MoStatus.RELEASED MoStatus.IN_PROGRESS False s"

definition complete_mo :: "uuid \<Rightarrow> uuid \<Rightarrow> plant \<Rightarrow> error + plant" where
  "complete_mo org i s = transition org i MoStatus.IN_PROGRESS MoStatus.COMPLETED False s"

definition close_mo :: "uuid \<Rightarrow> uuid \<Rightarrow> plant \<Rightarrow> error + plant" where
  "close_mo org i s = transition org i MoStatus.COMPLETED MoStatus.CLOSED True s"


section \<open>What creation materialises\<close>

text \<open>The keys of orders and operations: unique and handed out.\<close>

definition mos_ok :: "plant \<Rightarrow> bool" where
  "mos_ok s \<longleftrightarrow>
     ids_ok s \<and> mo_id ` set (mos s) \<union> mop_id ` set (mo_ops s) \<union> mop_mo ` set (mo_ops s) \<subseteq> issued_ids s \<and>
     distinct (map mo_id (mos s)) \<and> distinct (map mop_id (mo_ops s))"

lemma add_material_lines_effect:
  "ids_ok s \<Longrightarrow> \<exists>h new. add_material_lines org mo qty ls s = s\<lparr>shop := h, material_lines := material_lines s @ new\<rparr> \<and>
     list_all2 (\<lambda>l n. \<exists>i. n = new_material_line org mo qty i l) ls new \<and>
     ids_ok (add_material_lines org mo qty ls s) \<and> issued_ids s \<subseteq> issued_ids (add_material_lines org mo qty ls s)"
proof (induction org mo qty ls s rule: add_material_lines.induct)
  case (1 org mo qty s)
  then show ?case by (intro exI [of _ "shop s"] exI [of _ "[]"]) simp
next
  case (2 org mo qty l ls s)
  obtain s' i where m: "plant_mint s = (s', i)" by (cases "plant_mint s")
  define s1 where "s1 = s'\<lparr>material_lines := material_lines s' @ [new_material_line org mo qty i l]\<rparr>"
  from plant_mint_effect(4) [OF m 2(2)] obtain h0 where h0: "s' = s\<lparr>shop := h0\<rparr>" by blast
  have ids: "ids_ok s1" "issued_ids s \<subseteq> issued_ids s1"
    using plant_mint_effect(1,3) [OF m 2(2)] by (auto simp: s1_def ids_ok_def issued_ids_def)
  from 2(1) [OF m [symmetric], folded s1_def, OF ids(1)] obtain h new where
    n: "add_material_lines org mo qty ls s1 = s1\<lparr>shop := h, material_lines := material_lines s1 @ new\<rparr>"
      "list_all2 (\<lambda>l n. \<exists>i. n = new_material_line org mo qty i l) ls new" "ids_ok (add_material_lines org mo qty ls s1)"
      "issued_ids s1 \<subseteq> issued_ids (add_material_lines org mo qty ls s1)" by blast
  have a: "add_material_lines org mo qty (l # ls) s = add_material_lines org mo qty ls s1" by (simp add: m s1_def)
  have f: "add_material_lines org mo qty ls s1
      = s\<lparr>shop := h, material_lines := material_lines s @ (new_material_line org mo qty i l # new)\<rparr>"
    unfolding n(1) by (simp add: s1_def h0)
  have "list_all2 (\<lambda>l n. \<exists>i. n = new_material_line org mo qty i l) (l # ls) (new_material_line org mo qty i l # new)"
    using n(2) by auto
  from f this n(3) subset_trans [OF ids(2) n(4)] show ?case unfolding a by blast
qed

definition fresh_op :: "uuid \<Rightarrow> uuid \<Rightarrow> uuid \<Rightarrow> uuid \<Rightarrow> overrides \<Rightarrow> mo_op \<Rightarrow> bool" where
  "fresh_op org firm mo item ovs p \<longleftrightarrow>
     (\<exists>sq input i. p = new_operation org firm mo item ovs sq input i (mop_master p))"

lemma fresh_op_fields:
  assumes "fresh_op org firm mo item ovs p"
  shows "mop_org p = org" "mop_firm p = firm" "mop_mo p = mo" "mop_state p = PENDING" "rework_of p = None"
    "\<not> mop_deleted p" "accounted_qty p = 0" "mop_in p = 0" "in_record_count p = 0"
    "(executor p, mop_karigar p) = (case map_of ovs (mop_master p) of Some c \<Rightarrow> c | None \<Rightarrow> (IN_HOUSE, None))"
proof -
  from assms obtain sq input i where p: "p = new_operation org firm mo item ovs sq input i (mop_master p)"
    unfolding fresh_op_def by blast
  let ?c = "case map_of ovs (mop_master p) of Some c \<Rightarrow> c | None \<Rightarrow> (IN_HOUSE, None)"
  obtain ex k where c: "?c = (ex, k)" by (cases ?c)
  have q: "p = \<lparr>mop_id = i, mop_org = org, mop_firm = firm, mop_mo = mo, mop_master = mop_master p, mop_sequence = Some sq,
        mop_state = PENDING, executor = ex, mop_karigar = k, outward_challan = None, inward_challan = None,
        mop_in = 0, mop_out = 0, mop_rejected = 0, mop_byproduct = 0, mop_wastage = 0, rework_of = None,
        input_item = input, output_item = Some item, in_record_count = 0, mop_version = 0, mop_deleted = False\<rparr>"
    using p c by (simp add: new_operation_def)
  have f: "mop_org p = org" "mop_firm p = firm" "mop_mo p = mo" "mop_state p = PENDING" "rework_of p = None" "\<not> mop_deleted p"
    "mop_in p = 0" "mop_out p = 0" "mop_rejected p = 0" "mop_byproduct p = 0" "mop_wastage p = 0" "executor p = ex"
    "mop_karigar p = k" "in_record_count p = 0"
    by (subst q, simp)+
  then show "mop_org p = org" "mop_firm p = firm" "mop_mo p = mo" "mop_state p = PENDING" "rework_of p = None"
    "\<not> mop_deleted p" "accounted_qty p = 0" "mop_in p = 0" "in_record_count p = 0" "(executor p, mop_karigar p) = ?c"
    by (simp_all add: accounted_qty_def c)
qed

lemma new_operation_fields [simp]:
  "mop_id (new_operation org firm mo item ovs sq input i master) = i"
  "mop_master (new_operation org firm mo item ovs sq input i master) = master"
  "mop_sequence (new_operation org firm mo item ovs sq input i master) = Some sq"
  by (simp_all add: new_operation_def split: prod.splits)

lemma add_operations_effect:
  "ids_ok s \<Longrightarrow> \<exists>h new. add_operations org firm mo item ovs sq input ms s = s\<lparr>shop := h, mo_ops := mo_ops s @ new\<rparr> \<and>
     map mop_master new = ms \<and> map mop_sequence new = map Some [sq..<sq + length ms] \<and>
     (\<forall>p \<in> set new. fresh_op org firm mo item ovs p) \<and> distinct (map mop_id new) \<and>
     mop_id ` set new \<inter> issued_ids s = {} \<and>
     ids_ok (add_operations org firm mo item ovs sq input ms s) \<and>
     issued_ids s \<union> mop_id ` set new \<subseteq> issued_ids (add_operations org firm mo item ovs sq input ms s)"
proof (induction org firm mo item ovs sq input ms s rule: add_operations.induct)
  case (1 org firm mo item ovs sq input s)
  then show ?case by (intro exI [of _ "shop s"] exI [of _ "[]"]) simp
next
  case (2 org firm mo item ovs sq input master ms s)
  obtain s' i where m: "plant_mint s = (s', i)" by (cases "plant_mint s")
  let ?p = "new_operation org firm mo item ovs sq input i master"
  define s1 where "s1 = s'\<lparr>mo_ops := mo_ops s' @ [?p]\<rparr>"
  note e = plant_mint_effect [OF m 2(2)]
  from e(4) obtain h0 where h0: "s' = s\<lparr>shop := h0\<rparr>" by blast
  have ids: "ids_ok s1" "issued_ids s1 = insert i (issued_ids s)"
    using e(1,3) by (auto simp: s1_def ids_ok_def issued_ids_def)
  from 2(1) [OF m [symmetric], folded s1_def, OF ids(1)] obtain h new where
    n: "add_operations org firm mo item ovs (Suc sq) (Some item) ms s1 = s1\<lparr>shop := h, mo_ops := mo_ops s1 @ new\<rparr>"
      "map mop_master new = ms" "map mop_sequence new = map Some [Suc sq..<Suc sq + length ms]"
      "\<forall>p \<in> set new. fresh_op org firm mo item ovs p" "distinct (map mop_id new)" "mop_id ` set new \<inter> issued_ids s1 = {}"
      "ids_ok (add_operations org firm mo item ovs (Suc sq) (Some item) ms s1)"
      "issued_ids s1 \<union> mop_id ` set new \<subseteq> issued_ids (add_operations org firm mo item ovs (Suc sq) (Some item) ms s1)" by blast
  have a: "add_operations org firm mo item ovs sq input (master # ms) s
      = add_operations org firm mo item ovs (Suc sq) (Some item) ms s1" by (simp add: m s1_def)
  have f: "add_operations org firm mo item ovs (Suc sq) (Some item) ms s1 = s\<lparr>shop := h, mo_ops := mo_ops s @ (?p # new)\<rparr>"
    unfolding n(1) by (simp add: s1_def h0)
  have sq: "map mop_sequence (?p # new) = map Some [sq..<sq + length (master # ms)]"
    using n(3) by (simp add: upt_conv_Cons del: upt_Suc)
  have fresh: "\<forall>p \<in> set (?p # new). fresh_op org firm mo item ovs p"
    using n(4) by (auto simp: fresh_op_def)
  have d: "distinct (map mop_id (?p # new))" "mop_id ` set (?p # new) \<inter> issued_ids s = {}"
    using n(5,6) e(2) ids(2) by auto
  have iss: "issued_ids s \<union> mop_id ` set (?p # new) \<subseteq> issued_ids (add_operations org firm mo item ovs (Suc sq) (Some item) ms s1)"
    using n(8) ids(2) by auto
  show ?case unfolding a
    by (rule exI [of _ h], rule exI [of _ "?p # new"]) (use f n(2,7) sq fresh d iss in simp)
qed


lemma add_material_lines_parties: "parties (shop (add_material_lines org mo qty ls s)) = parties (shop s)"
  by (induction org mo qty ls s rule: add_material_lines.induct) (auto simp: plant_mint_def mint_def)

lemma validate_executor_parties:
  "parties (shop s') = parties (shop s) \<Longrightarrow> validate_executor_choice org ex k s' = validate_executor_choice org ex k s"
  by (simp add: validate_executor_choice_def cong: option.case_cong)

text \<open>The parts of a successful creation.\<close>

lemma create_mo_cases:
  assumes "create_mo org firm q s = Inr (s', m)" and "mos_ok s"
  obtains r ord h lines new where "get_routing org (rq_routing q) s = Inr r"
    and "topological_order_operations (edges_of (rq_routing q) s) = Inr ord"
    and "s' = s\<lparr>shop := h, mos := mos s @ [m], material_lines := material_lines s @ lines, mo_ops := mo_ops s @ new\<rparr>"
    and "m = new_mo org firm q (mo_number m) (mo_id m)" and "mo_id m \<notin> issued_ids s"
    and "list_all2 (\<lambda>l n. \<exists>i. n = new_material_line org (mo_id m) (rq_qty q) i l) (live_lines (bom_lines_of (rq_bom q) s)) lines"
    and "map mop_master new = ord" and "map mop_sequence new = map Some [1..<1 + length ord]"
    and "\<forall>p \<in> set new. fresh_op org firm (mo_id m) (rq_item q) (rq_overrides q) p"
    and "\<forall>ov \<in> set (rq_overrides q). validate_executor_choice org (fst (snd ov)) (snd (snd ov)) s = Inr ()"
    and "0 < rq_qty q" and "mos_ok s'" and "issued_ids s \<subseteq> issued_ids s'"
proof -
  have ids: "ids_ok s" using assms(2) by (simp add: mos_ok_def)
  obtain s1 i where m1: "plant_mint s = (s1, i)" by (cases "plant_mint s")
  note e1 = plant_mint_effect [OF m1 ids]
  from e1(4) obtain h1 where h1: "s1 = s\<lparr>shop := h1\<rparr>" by blast
  let ?ls = "live_lines (bom_lines_of (rq_bom q) s)" and ?no = "allocate_mo_number org firm (rq_series q) s"
  define m' where "m' = new_mo org firm q ?no i"
  define s2 where "s2 = add_material_lines org i (rq_qty q) ?ls (s1\<lparr>mos := mos s1 @ [m']\<rparr>)"
  from assms(1) obtain r ord u where chk: "check_mo_request org firm q s = Inr r"
    and ord: "topological_order_operations (edges_of (rq_routing q) s) = Inr ord"
    and ovs: "mapE (check_override org ord s2) (rq_overrides q) = Inr u"
    and s': "s' = add_operations org firm i (rq_item q) (rq_overrides q) 1 (primary_raw (bom_lines_of (rq_bom q) s)) ord s2"
    and m: "m = m'"
    by (auto simp: create_mo_def Let_def m1 m'_def s2_def)
  from chk have r: "get_routing org (rq_routing q) s = Inr r" and pos: "0 < rq_qty q"
    by (auto simp: check_mo_request_def)
  have ids1: "ids_ok (s1\<lparr>mos := mos s1 @ [m']\<rparr>)" "issued_ids (s1\<lparr>mos := mos s1 @ [m']\<rparr>) = insert i (issued_ids s)"
    using e1(1,3) by (simp_all add: ids_ok_def issued_ids_def)
  from add_material_lines_effect [OF ids1(1), of org i "rq_qty q" ?ls] obtain h2 lines where
    l: "s2 = (s1\<lparr>mos := mos s1 @ [m']\<rparr>)\<lparr>shop := h2, material_lines := material_lines s1 @ lines\<rparr>"
      "list_all2 (\<lambda>l n. \<exists>j. n = new_material_line org i (rq_qty q) j l) ?ls lines"
      "ids_ok s2" "insert i (issued_ids s) \<subseteq> issued_ids s2"
    unfolding s2_def [symmetric] ids1(2) by auto
  from add_operations_effect [OF l(3), of org firm i "rq_item q" "rq_overrides q" 1 "primary_raw (bom_lines_of (rq_bom q) s)" ord]
  obtain h3 new where
    n: "s' = s2\<lparr>shop := h3, mo_ops := mo_ops s2 @ new\<rparr>" "map mop_master new = ord"
      "map mop_sequence new = map Some [1..<1 + length ord]"
      "\<forall>p \<in> set new. fresh_op org firm i (rq_item q) (rq_overrides q) p" "distinct (map mop_id new)"
      "mop_id ` set new \<inter> issued_ids s2 = {}" "ids_ok s'" "issued_ids s2 \<union> mop_id ` set new \<subseteq> issued_ids s'"
    unfolding s' [symmetric] by blast
  have mi: "mo_id m = i" "m = new_mo org firm q (mo_number m) (mo_id m)" by (simp_all add: m m'_def new_mo_def)
  have eq: "s' = s\<lparr>shop := h3, mos := mos s @ [m], material_lines := material_lines s @ lines, mo_ops := mo_ops s @ new\<rparr>"
    unfolding n(1) l(1) h1 by (simp add: m)
  have pa: "parties (shop s2) = parties (shop s)"
    unfolding s2_def add_material_lines_parties using m1 by (auto simp: plant_mint_def mint_def)
  have ov: "\<forall>ov \<in> set (rq_overrides q). validate_executor_choice org (fst (snd ov)) (snd (snd ov)) s = Inr ()"
  proof
    fix ov assume "ov \<in> set (rq_overrides q)"
    then have "check_override org ord s2 ov = Inr ()" using mapE_checks [OF ovs] by simp
    then show "validate_executor_choice org (fst (snd ov)) (snd (snd ov)) s = Inr ()"
      using validate_executor_parties [OF pa] by (cases ov) (simp add: check_override_def bindE_Inr_iff)
  qed
  have old: "mo_id ` set (mos s) \<union> mop_id ` set (mo_ops s) \<union> mop_mo ` set (mo_ops s) \<subseteq> issued_ids s"
    "distinct (map mo_id (mos s))" "distinct (map mop_id (mo_ops s))" using assms(2) by (simp_all add: mos_ok_def)
  have iss: "insert i (issued_ids s) \<union> mop_id ` set new \<subseteq> issued_ids s'" using l(4) n(8) by auto
  have "mos_ok s'"
    unfolding mos_ok_def
  proof (intro conjI)
    show "ids_ok s'" by (rule n(7))
    have "mop_mo ` set new \<subseteq> {i}" using n(4) fresh_op_fields(3) by blast
    then show "mo_id ` set (mos s') \<union> mop_id ` set (mo_ops s') \<union> mop_mo ` set (mo_ops s') \<subseteq> issued_ids s'"
      using old(1) iss mi(1) by (auto simp: eq)
    have "i \<notin> mo_id ` set (mos s)" using old(1) e1(2) by blast
    then show "distinct (map mo_id (mos s'))" using old(2) mi(1) by (simp add: eq)
    have "mop_id ` set new \<inter> mop_id ` set (mo_ops s) = {}" using old(1) n(6) l(4) by blast
    then show "distinct (map mop_id (mo_ops s'))" using old(3) n(5) by (auto simp: eq)
  qed
  moreover have "issued_ids s \<subseteq> issued_ids s'" using iss by blast
  ultimately show thesis
    using that [OF r ord eq mi(2)] e1(2) l(2) n(2-4) ov pos unfolding mi(1) by blast
qed


lemma created_ops:
  assumes "mos_ok s" and "mo_ops s' = mo_ops s @ new" and "\<forall>p \<in> set new. fresh_op org firm i item ovs p" and "i \<notin> issued_ids s"
  shows "original_ops i s' = new"
proof -
  have "\<forall>p \<in> set (mo_ops s). mop_mo p \<noteq> i" using assms(1,4) by (auto simp: mos_ok_def)
  moreover have "\<forall>p \<in> set new. mop_mo p = i \<and> \<not> mop_deleted p \<and> rework_of p = None"
    using assms(3) fresh_op_fields(3,5,6) by fast
  ultimately show ?thesis by (simp add: original_ops_def assms(2))
qed

lemma upt_positions:
  assumes "map f xs = map Some [1..<1 + length xs]" and "map g xs = ord" and "before ord a b" and "distinct ord"
    and "p \<in> set xs" and "q \<in> set xs" and "g p = a" and "g q = b"
  shows "\<exists>i j. f p = Some i \<and> f q = Some j \<and> i < (j :: nat)"
proof -
  from assms(5,6) obtain k l where k: "k < length xs" "xs ! k = p" and l: "l < length xs" "xs ! l = q"
    by (auto simp: in_set_conv_nth)
  from assms(3) obtain ys zs where o: "ord = ys @ b # zs" and a: "a \<in> set ys" by (auto simp: before_def)
  then obtain k' where k': "k' < length ys" "ys ! k' = a" by (auto simp: in_set_conv_nth)
  have len: "length ord = length xs" using assms(2) by auto
  have "ord ! k = a" "ord ! l = b" using assms(2,7,8) k l by auto
  moreover have "ord ! k' = a" "ord ! length ys = b" "k' < length ord" "length ys < length ord" using o k' by (auto simp: nth_append)
  ultimately have "k = k'" "l = length ys" using assms(4) k(1) l(1) len by (metis nth_eq_iff_index_eq)+
  then have "k < l" using k' by simp
  moreover have "f (xs ! n) = Some (1 + n)" if "n < length xs" for n
    using arg_cong [OF assms(1), of "\<lambda>ys. ys ! n"] that by (simp del: upt_Suc)
  ultimately show ?thesis using k l by auto
qed

lemma topological_order_operations_Inr:
  assumes "topological_order_operations es = Inr ord"
  shows "distinct ord" and "set ord = nodes (edge_arcs es)" and "\<forall>e \<in> set es. before ord (from_op e) (to_op e)"
proof -
  have d: "distinct ord \<and> set ord = nodes (edge_arcs es) \<and> (\<forall>(a, b) \<in> set (edge_arcs es). before ord a b)"
    using assms topological_order_spec [of "edge_arcs es"] by (auto simp: topological_order_operations_def split: if_splits)
  then show "distinct ord" "set ord = nodes (edge_arcs es)" by auto
  show "\<forall>e \<in> set es. before ord (from_op e) (to_op e)" using d by (auto simp: edge_arcs_def)
qed

section \<open>The calls of the service\<close>

datatype mo_call =
    CreateMo uuid uuid mo_request
  | SetExecutor uuid uuid uuid string "uuid option"
  | ReleaseMo uuid uuid
  | StartMo uuid uuid
  | CompleteMo uuid uuid
  | CloseMo uuid uuid

fun mo_step :: "mo_call \<Rightarrow> plant \<Rightarrow> error + plant" where
  "mo_step (CreateMo org firm q) s = bindE (create_mo org firm q s) (\<lambda>(s', _). Inr s')"
| "mo_step (SetExecutor org firm i ex k) s = set_operation_executor org firm i ex k s"
| "mo_step (ReleaseMo org i) s = release_mo org i s"
| "mo_step (StartMo org i) s = start_mo org i s"
| "mo_step (CompleteMo org i) s = complete_mo org i s"
| "mo_step (CloseMo org i) s = close_mo org i s"

text \<open>The typing of an operation's lane: one of the two lanes, a named karigar only on the karigars'.\<close>

definition lane_ok :: "mo_op \<Rightarrow> bool" where
  "lane_ok p \<longleftrightarrow> (executor p = IN_HOUSE \<or> executor p = KARIGAR) \<and> (mop_karigar p \<noteq> None \<longrightarrow> executor p = KARIGAR)"

definition orders_ok :: "plant \<Rightarrow> bool" where
  "orders_ok s \<longleftrightarrow> mos_ok s \<and> (\<forall>p \<in> set (mo_ops s). lane_ok p)"

text \<open>The chain of the header's statuses.\<close>

inductive advance :: "MoStatus \<Rightarrow> MoStatus \<Rightarrow> bool" where
  "advance MoStatus.DRAFT MoStatus.RELEASED"
| "advance MoStatus.RELEASED MoStatus.IN_PROGRESS"
| "advance MoStatus.IN_PROGRESS MoStatus.COMPLETED"
| "advance MoStatus.COMPLETED MoStatus.CLOSED"

inductive_cases advance_closedE: "advance MoStatus.CLOSED t"

lemma closed_is_final: "advance\<^sup>*\<^sup>* MoStatus.CLOSED t \<Longrightarrow> t = MoStatus.CLOSED"
  by (erule converse_rtranclpE) (auto elim: advance_closedE)

lemma validate_executor_lane:
  "validate_executor_choice org ex k s = Inr u \<Longrightarrow> (ex = IN_HOUSE \<or> ex = KARIGAR) \<and> (k \<noteq> None \<longrightarrow> ex = KARIGAR)"
  by (auto simp: validate_executor_choice_def)

lemma fresh_lane:
  assumes "fresh_op org firm mo item ovs p" and "\<forall>ov \<in> set ovs. validate_executor_choice org (fst (snd ov)) (snd (snd ov)) s = Inr ()"
  shows "lane_ok p"
proof (cases "map_of ovs (mop_master p)")
  case None
  then show ?thesis using fresh_op_fields(10) [OF assms(1)] by (simp add: lane_ok_def)
next
  case (Some c)
  then have "(mop_master p, c) \<in> set ovs" by (rule map_of_SomeD)
  with assms(2) have "validate_executor_choice org (fst c) (snd c) s = Inr ()" by fastforce
  moreover have "executor p = fst c" "mop_karigar p = snd c" using fresh_op_fields(10) [OF assms(1)] Some by auto
  ultimately show ?thesis by (metis lane_ok_def validate_executor_lane)
qed

lemma create_mo_ok:
  assumes "create_mo org firm q s = Inr (s', m)" and "orders_ok s"
  shows "orders_ok s'" and "mos s' = mos s @ [m]"
proof -
  have ok: "mos_ok s" "\<forall>p \<in> set (mo_ops s). lane_ok p" using assms(2) by (simp_all add: orders_ok_def)
  have "orders_ok s' \<and> mos s' = mos s @ [m]"
  proof (rule create_mo_cases [OF assms(1) ok(1)])
    fix h lines new
    assume "s' = s\<lparr>shop := h, mos := mos s @ [m], material_lines := material_lines s @ lines, mo_ops := mo_ops s @ new\<rparr>"
      "\<forall>p \<in> set new. fresh_op org firm (mo_id m) (rq_item q) (rq_overrides q) p"
      "\<forall>ov \<in> set (rq_overrides q). validate_executor_choice org (fst (snd ov)) (snd (snd ov)) s = Inr ()" "mos_ok s'"
    then show ?thesis using ok(2) fresh_lane unfolding orders_ok_def by auto
  qed
  then show "orders_ok s'" "mos s' = mos s @ [m]" by auto
qed

lemma put_op_orders:
  assumes "orders_ok s" and "load_operation org i s = Inr p" and "mop_id p' = mop_id p" and "mop_mo p' = mop_mo p" and "lane_ok p'"
  shows "orders_ok (put_op p' s)"
proof -
  have ids: "map mop_id (mo_ops (put_op p' s)) = map mop_id (mo_ops s)"
    by (simp add: put_op_def) (rule map_update_where, simp)
  have m: "p \<in> set (mo_ops s)" using load_operation_mem [OF assms(2)] by simp
  have "mop_mo ` set (mo_ops (put_op p' s)) \<subseteq> mop_mo ` set (mo_ops s)"
    using m assms(4) by (auto simp: put_op_def set_update_where)
  then have "mop_mo ` set (mo_ops (put_op p' s)) \<subseteq> issued_ids s"
    by (rule subset_trans) (use assms(1) in \<open>simp add: orders_ok_def mos_ok_def\<close>)
  moreover have "mop_id ` set (mo_ops (put_op p' s)) = mop_id ` set (mo_ops s)" by (metis ids list.set_map)
  moreover have "ids_ok (put_op p' s) = ids_ok s" "issued_ids (put_op p' s) = issued_ids s" "mos (put_op p' s) = mos s"
    by (simp_all add: put_op_def ids_ok_def issued_ids_def)
  moreover have "\<forall>q \<in> set (mo_ops (put_op p' s)). lane_ok q"
    using assms(1,5) by (auto simp: put_op_def set_update_where orders_ok_def)
  moreover have "distinct (map mop_id (mo_ops (put_op p' s)))" using assms(1) ids by (simp add: orders_ok_def mos_ok_def)
  ultimately show ?thesis using assms(1) unfolding orders_ok_def mos_ok_def by simp
qed

lemma put_mo_orders:
  assumes "orders_ok s" and "mo_id m' = i"
  shows "orders_ok (put_mo m' s)"
proof -
  have "map mo_id (mos (put_mo m' s)) = map mo_id (mos s)"
    by (simp add: put_mo_def) (rule map_update_where, simp)
  moreover from this have "mo_id ` set (mos (put_mo m' s)) = mo_id ` set (mos s)" by (metis list.set_map)
  ultimately show ?thesis using assms(1) by (simp add: orders_ok_def mos_ok_def put_mo_def ids_ok_def issued_ids_def)
qed

lemma set_operation_executor_cases:
  assumes "set_operation_executor org firm i ex k s = Inr s'"
  obtains p p' where "load_operation org i s = Inr p" and "s' = put_op p' s" and "mop_id p' = mop_id p"
    and "mop_mo p' = mop_mo p" and "lane_ok p'"
proof -
  from assms obtain p where l: "load_operation org i s = Inr p" "validate_executor_choice org ex k s = Inr ()"
    "s' = put_op (p\<lparr>executor := ex, mop_karigar := (if ex = KARIGAR then k else None), mop_version := Suc (mop_version p)\<rparr>) s"
    by (auto simp: set_operation_executor_def)
  with validate_executor_lane [OF l(2)] that [OF l(1,3)] show thesis by (auto simp: lane_ok_def)
qed

lemma transition_cases:
  assumes "transition org i st st' c s = Inr s'"
  obtains m where "get_mo org i s = Inr m" and "mo_status m = st"
    and "s' = put_mo (m\<lparr>mo_status := st', mo_closed := (mo_closed m \<or> c)\<rparr>) s"
  using assms by (auto simp: transition_def)

lemma mo_step_ok: "mo_step c s = Inr s' \<Longrightarrow> orders_ok s \<Longrightarrow> orders_ok s'"
  by (cases c) (auto simp: release_mo_def start_mo_def complete_mo_def close_mo_def
      intro: create_mo_ok(1) put_op_orders put_mo_orders elim!: set_operation_executor_cases transition_cases)

lemma mo_step_advances:
  assumes "mo_step c s = Inr s'" and "orders_ok s" and "m \<in> set (mos s)"
  shows "\<exists>m' \<in> set (mos s'). mo_id m' = mo_id m \<and> advance\<^sup>=\<^sup>= (mo_status m) (mo_status m')"
proof -
  have tr: ?thesis if "transition org i st st' b s = Inr s' \<and> advance st st'" for org i st st' b
  proof (rule transition_cases [OF conjunct1 [OF that]])
    fix r assume r: "get_mo org i s = Inr r" "mo_status r = st"
      and s': "s' = put_mo (r\<lparr>mo_status := st', mo_closed := (mo_closed r \<or> b)\<rparr>) s"
    have mem: "r \<in> set (mos s)" using get_mo_mem [OF r(1)] by simp
    show ?thesis
    proof (cases "mo_id m = mo_id r")
      case True
      have "distinct (map mo_id (mos s))" using assms(2) by (simp add: orders_ok_def mos_ok_def)
      then have "m = r" using True assms(3) mem by (meson distinct_map inj_onD)
      moreover have "r\<lparr>mo_status := st', mo_closed := (mo_closed r \<or> b)\<rparr> \<in> set (mos s')"
        using mem by (auto simp: s' put_mo_def set_update_where)
      ultimately show ?thesis using r(2) that by (auto intro: bexI [rotated])
    next
      case False
      then show ?thesis using assms(3) by (auto simp: s' put_mo_def set_update_where intro!: bexI [of _ m])
    qed
  qed
  show ?thesis
  proof (cases c)
    case (CreateMo org firm q)
    with assms(1) obtain r where "create_mo org firm q s = Inr (s', r)" by auto
    from create_mo_ok(2) [OF this assms(2)] assms(3) show ?thesis by auto
  next
    case (SetExecutor org firm i ex k)
    with assms(1) have "set_operation_executor org firm i ex k s = Inr s'" by simp
    then have "mos s' = mos s" by (rule set_operation_executor_cases) (simp add: put_op_def)
    then show ?thesis using assms(3) by auto
  next
    case (ReleaseMo org i)
    with assms(1) show ?thesis by (intro tr) (auto simp: release_mo_def intro: advance.intros)
  next
    case (StartMo org i)
    with assms(1) show ?thesis by (intro tr) (auto simp: start_mo_def intro: advance.intros)
  next
    case (CompleteMo org i)
    with assms(1) show ?thesis by (intro tr) (auto simp: complete_mo_def intro: advance.intros)
  next
    case (CloseMo org i)
    with assms(1) show ?thesis by (intro tr) (auto simp: close_mo_def intro: advance.intros)
  qed
qed

interpretation orders: transactional mo_step orders_ok
  by unfold_locales (rule mo_step_ok)

section \<open>Properties\<close>

text \<open>C12: Creating an order materialises its routing: the new draft has exactly one pending operation with
  nothing booked for every node of the routing's graph, numbered so that every edge goes upwards, which
  is the setting the properties of the routing flow's engine ask for.\<close>

theorem create_mo_materialises:
  assumes "create_mo org firm q s = Inr (s', m)" and "mos_ok s" and "distinct (map edge_id (routing_edges s))"
  shows "mo_status m = MoStatus.DRAFT \<and>
    (\<exists>rt \<in> set (routings s'). routing_id rt = rq_routing q \<and> order_routed m rt s' \<and> materialised m rt s') \<and>
    (\<forall>p \<in> set (original_ops (mo_id m) s'). mop_state p = PENDING \<and> accounted_qty p = 0 \<and> mop_in p = 0) \<and>
    (\<forall>e \<in> set (edges_of (rq_routing q) s'). \<forall>a \<in> set (original_ops (mo_id m) s'). \<forall>b \<in> set (original_ops (mo_id m) s').
       mop_master a = from_op e \<and> mop_master b = to_op e \<longrightarrow>
       (\<exists>i j. mop_sequence a = Some i \<and> mop_sequence b = Some j \<and> i < j))"
proof (rule create_mo_cases [OF assms(1,2)])
  fix r ord h lines new
  assume r: "get_routing org (rq_routing q) s = Inr r"
    and ord: "topological_order_operations (edges_of (rq_routing q) s) = Inr ord"
    and s': "s' = s\<lparr>shop := h, mos := mos s @ [m], material_lines := material_lines s @ lines, mo_ops := mo_ops s @ new\<rparr>"
    and m: "m = new_mo org firm q (mo_number m) (mo_id m)" and new: "mo_id m \<notin> issued_ids s"
    and masters: "map mop_master new = ord" and seqs: "map mop_sequence new = map Some [1..<1 + length ord]"
    and fresh: "\<forall>p \<in> set new. fresh_op org firm (mo_id m) (rq_item q) (rq_overrides q) p"
  note top = topological_order_operations_Inr [OF ord]
  have fields: "mo_status m = MoStatus.DRAFT" "mo_org m = org" "mo_routing m = Some (rq_routing q)" "\<not> mo_deleted m"
    by (subst m, simp add: new_mo_def)+
  have same: "edges_of i s' = edges_of i s" "routings s' = routings s" "routing_edges s' = routing_edges s" for i
    by (simp_all add: s' edges_of_def)
  have ops: "original_ops (mo_id m) s' = new" by (rule created_ops [OF assms(2) _ fresh new]) (simp add: s')
  have mem: "r \<in> set (routings s') \<and> routing_id r = rq_routing q" using get_routing_mem [OF r] by (simp add: same)
  have "mo_id m \<notin> mo_id ` set (mos s)" using assms(2) new by (auto simp: mos_ok_def)
  then have "filter (\<lambda>w. mo_id w = mo_id m \<and> \<not> mo_deleted w) (mos s') = [m]"
    using fields(4) by (auto simp: s' filter_empty_conv image_iff)
  moreover have "load_routing_with_edges org (rq_routing q) s' = Inr (Some r)"
    using r by (auto simp: load_routing_with_edges_def get_routing_def same split: option.splits)
  ultimately have 1: "order_routed m r s'" using assms(3) mem fields by (simp add: order_routed_def same)
  have orgs: "\<forall>p \<in> set new. mop_org p = org \<and> mop_state p = PENDING \<and> accounted_qty p = 0 \<and> mop_in p = 0"
    using fresh fresh_op_fields(1,4,7,8) by fast
  have 2: "materialised m r s'"
    using top(1,2) masters orgs fields(2) mem by (auto simp: materialised_def ops same)
  have "mop_master a = from_op e \<and> mop_master b = to_op e \<longrightarrow>
      (\<exists>i j. mop_sequence a = Some i \<and> mop_sequence b = Some j \<and> i < j)"
    if "e \<in> set (edges_of (rq_routing q) s')" "a \<in> set new" "b \<in> set new" for e a b
    using upt_positions [of mop_sequence new mop_master ord "from_op e" "to_op e" a b] seqs masters top that
    by (auto simp: same)
  with fields(1) 1 2 mem orgs show ?thesis unfolding ops by blast
qed

text \<open>A BOM of one line and the two-operation routing.\<close>

definition demo_request :: mo_request where
  "demo_request = \<lparr>rq_design = 7, rq_item = 3, rq_qty = 10, rq_bom = 50, rq_routing = 102, rq_start = Date 2025 4 1,
     rq_end = None, rq_series = ''MO'', rq_overrides = [(42, KARIGAR, Some 6)]\<rparr>"

definition demo_bench :: plant where
  "demo_bench = demo_plant\<lparr>routings := [demo_routing], routing_edges := [demo_edge],
     boms := [\<lparr>bom_id = 50, bom_org = 1, bom_firm = 2, bom_design = 7, bom_item = 3, bom_version = 1,
               bom_active = True, bom_deleted = False\<rparr>],
     bom_lines := [\<lparr>bl_bom = 50, bl_org = 1, bl_item = 8, bl_qty = 2, bl_optional = False, bl_deleted = False\<rparr>]\<rparr>"

lemma demo_bench_order: "\<exists>ord. topological_order_operations (edges_of 102 demo_bench) = Inr ord \<and> 42 \<in> set ord"
proof -
  have e: "edge_arcs (edges_of 102 demo_bench) = [(41, 42)]"
    by (simp add: edge_arcs_def edges_of_def demo_bench_def demo_edge_def)
  have "acyclic {(41, 42 :: nat)}"
    unfolding acyclic_insert by (simp add: acyclic_def rtrancl_empty)
  with topological_order_spec [of "[(41, 42)]"] show ?thesis
    by (auto simp: topological_order_operations_def e nodes_def)
qed

lemmas eval_mo = demo_bench_def demo_request_def demo_routing_def create_mo_def check_mo_request_def Let_def bindE_def
  guardE_def assert_firm_in_org_def get_item_def get_bom_def get_routing_def scalar_one_or_none_def bom_lines_of_def
  live_lines_def plant_mint_def mint_def new_material_line_def check_override_def validate_executor_choice_def
  IN_HOUSE_def KARIGAR_def demo_plant_def demo_shop_def demo_empty_def

lemma demo_created: "\<exists>s' m. create_mo 1 2 demo_request demo_bench = Inr (s', m)"
proof -
  obtain ord where o: "topological_order_operations (edges_of 102 demo_bench) = Inr ord" "42 \<in> set ord"
    using demo_bench_order by blast
  show ?thesis using o by (simp add: eval_mo)
qed

lemma demo_bench_ok: "mos_ok demo_bench" "distinct (map edge_id (routing_edges demo_bench))"
  by (simp_all add: mos_ok_def ids_ok_def inj_def demo_bench_def demo_plant_def demo_shop_def demo_empty_def)

lemma create_mo_materialises_witness:
  "\<exists>s' m rt. create_mo 1 2 demo_request demo_bench = Inr (s', m) \<and> order_routed m rt s' \<and> materialised m rt s'"
proof -
  obtain s' m where c: "create_mo 1 2 demo_request demo_bench = Inr (s', m)" using demo_created by blast
  from create_mo_materialises [OF c demo_bench_ok] c show ?thesis by blast
qed


text \<open>Creating an order explodes its BOM: it adds one requirement per live BOM line, in order, of the
  line's item and of the line's quantity times the ordered quantity, with nothing issued yet.\<close>

theorem create_mo_explodes_bom:
  assumes "create_mo org firm q s = Inr (s', m)" and "mos_ok s"
  shows "\<exists>lines. material_lines s' = material_lines s @ lines \<and>
    map (\<lambda>l. (mml_mo l, mml_item l, qty_required l, qty_issued l, mml_optional l)) lines =
    map (\<lambda>b. (mo_id m, bl_item b, quantize round_half_up 4 (ctx (bl_qty b * rq_qty q)), 0, bl_optional b))
      (filter (\<lambda>b. \<not> bl_deleted b) (bom_lines_of (rq_bom q) s))"
proof (rule create_mo_cases [OF assms])
  fix h lines new
  let ?ls = "live_lines (bom_lines_of (rq_bom q) s)"
  assume s': "s' = s\<lparr>shop := h, mos := mos s @ [m], material_lines := material_lines s @ lines, mo_ops := mo_ops s @ new\<rparr>"
    and l: "list_all2 (\<lambda>l n. \<exists>i. n = new_material_line org (mo_id m) (rq_qty q) i l) ?ls lines"
  from l have "map (\<lambda>l. (mml_mo l, mml_item l, qty_required l, qty_issued l, mml_optional l)) lines =
    map (\<lambda>b. (mo_id m, bl_item b, quantize round_half_up 4 (ctx (bl_qty b * rq_qty q)), 0, bl_optional b)) ?ls"
    by (induction rule: list_all2_induct) (auto simp: new_material_line_def)
  then show ?thesis by (simp add: s' live_lines_def)
qed

lemma create_mo_explodes_bom_witness:
  "\<exists>s' m l. create_mo 1 2 demo_request demo_bench = Inr (s', m) \<and> material_lines s' = [l] \<and> mml_item l = 8"
proof -
  obtain s' m where c: "create_mo 1 2 demo_request demo_bench = Inr (s', m)" using demo_created by blast
  from create_mo_explodes_bom [OF c demo_bench_ok(1)] c show ?thesis
    by (auto simp: demo_bench_def demo_plant_def bom_lines_of_def demo_request_def map_eq_Cons_conv)
qed


text \<open>C35: The lane of every operation is well typed in every state the order calls can reach: it is one of
  the two lanes, and a named karigar stands only on the karigars' lane.\<close>

theorem lanes_stay_typed:
  assumes "orders_ok s"
  shows "\<forall>p \<in> set (mo_ops (fold (commit mo_step) calls s)).
    (executor p = IN_HOUSE \<or> executor p = KARIGAR) \<and> (mop_karigar p \<noteq> None \<longrightarrow> executor p = KARIGAR)"
  using orders.run_inv [OF assms, of calls] by (simp add: orders_ok_def lane_ok_def)

lemma demo_bench_orders_ok: "orders_ok demo_bench"
  using demo_bench_ok(1) by (simp add: orders_ok_def demo_bench_def demo_plant_def)

lemma lanes_stay_typed_witness:
  "executor ` set (mo_ops (fold (commit mo_step) [CreateMo 1 2 demo_request, SetExecutor 1 2 103 ''CHEF'' None] demo_bench))
     \<subseteq> {IN_HOUSE, KARIGAR}"
  using lanes_stay_typed [OF demo_bench_orders_ok, of "[CreateMo 1 2 demo_request, SetExecutor 1 2 103 ''CHEF'' None]"]
  by blast

text \<open>C36: Whatever the calls, an order stays in the table, its status only moves along draft, released, in
  progress, completed, closed, and a closed order is final.\<close>

theorem order_status_advances:
  assumes "orders_ok s" and "m \<in> set (mos s)"
  shows "\<exists>m' \<in> set (mos (fold (commit mo_step) calls s)). mo_id m' = mo_id m \<and>
    advance\<^sup>*\<^sup>* (mo_status m) (mo_status m') \<and> (mo_status m = MoStatus.CLOSED \<longrightarrow> mo_status m' = MoStatus.CLOSED)"
proof -
  have "\<exists>m' \<in> set (mos (fold (commit mo_step) calls s)). mo_id m' = mo_id m \<and> advance\<^sup>*\<^sup>* (mo_status m) (mo_status m')"
    using assms
  proof (induction calls arbitrary: s m)
    case (Cons c calls)
    have "\<exists>m1 \<in> set (mos (commit mo_step c s)). mo_id m1 = mo_id m \<and> advance\<^sup>*\<^sup>* (mo_status m) (mo_status m1)"
    proof (cases "mo_step c s")
      case (Inr t)
      then show ?thesis using mo_step_advances [OF Inr Cons.prems] by (auto simp: commit_def)
    qed (use Cons.prems(2) in \<open>auto simp: commit_def\<close>)
    then obtain m1 where m1: "m1 \<in> set (mos (commit mo_step c s))" "mo_id m1 = mo_id m" "advance\<^sup>*\<^sup>* (mo_status m) (mo_status m1)"
      by blast
    from Cons.IH [OF orders.commit_inv [OF Cons.prems(1)] m1(1)] m1(2,3) show ?case by (auto intro: rtranclp_trans)
  qed auto
  then show ?thesis using closed_is_final by metis
qed

definition demo_orders :: plant where
  "demo_orders = demo_plant\<lparr>shop := demo_shop\<lparr>jw_stock := demo_empty\<lparr>minted := 1, uuid_supply := (\<lambda>n. 60 + n)\<rparr>\<rparr>,
     mos := [demo_mo 60 MoStatus.DRAFT]\<rparr>"

lemma order_status_advances_witness:
  "map mo_status (mos (fold (commit mo_step) [StartMo 1 60, ReleaseMo 1 60, StartMo 1 60, CompleteMo 1 60] demo_orders))
     = [MoStatus.COMPLETED] \<and>
   (\<exists>m' \<in> set (mos (fold (commit mo_step) [StartMo 1 60, ReleaseMo 1 60] demo_orders)).
      advance\<^sup>*\<^sup>* MoStatus.DRAFT (mo_status m'))"
proof
  show "map mo_status (mos (fold (commit mo_step) [StartMo 1 60, ReleaseMo 1 60, StartMo 1 60, CompleteMo 1 60] demo_orders))
     = [MoStatus.COMPLETED]"
    by (simp add: commit_def release_mo_def start_mo_def complete_mo_def transition_def get_mo_def bindE_def guardE_def
        scalar_one_or_none_def put_mo_def update_where_def demo_orders_def demo_mo_def)
  have "orders_ok demo_orders"
    by (auto simp: orders_ok_def mos_ok_def ids_ok_def inj_def issued_ids_def demo_orders_def demo_plant_def demo_shop_def demo_empty_def demo_mo_def)
  moreover have "demo_mo 60 MoStatus.DRAFT \<in> set (mos demo_orders)" "mo_status (demo_mo 60 MoStatus.DRAFT) = MoStatus.DRAFT"
    by (simp_all add: demo_orders_def demo_mo_def)
  ultimately show "\<exists>m' \<in> set (mos (fold (commit mo_step) [StartMo 1 60, ReleaseMo 1 60] demo_orders)).
      advance\<^sup>*\<^sup>* MoStatus.DRAFT (mo_status m')"
    using order_status_advances [of demo_orders "demo_mo 60 MoStatus.DRAFT" "[StartMo 1 60, ReleaseMo 1 60]"]
    by (simp del: fold.simps) blast
qed

end
