(* ===== verification/StockMoves.thy ===== *)
theory StockMoves
  imports JobWorkProps
begin

text \<open>
  Removing a quantity of an item from one location, the branch the services share: exactly the lot
  that is named, or first in, first out across the lots. What it takes, in total and by item, is
  proved once here; the issue of material and the dispatch of a challan use it.
\<close>

definition take_at ::
  "date \<Rightarrow> uuid \<Rightarrow> uuid \<Rightarrow> uuid \<Rightarrow> uuid \<Rightarrow> uuid option \<Rightarrow> decimal \<Rightarrow> movement_ref \<Rightarrow> inv \<Rightarrow> error + inv \<times> ledger_row list" where
  "take_at today org firm item loc lot qty ref s =
     (case lot of
        Some l \<Rightarrow>
          bindE (remove_stock today \<lparr>k_org = org, k_firm = firm, k_item = item, k_location = loc, k_lot = Some l\<rparr> qty ref s)
            (\<lambda>(s', row). Inr (s', [row]))
      | None \<Rightarrow> remove_stock_fifo today org firm item loc qty ref s)"

text \<open>The positions of an item in a firm, of one lot when one is named.\<close>

definition of_item :: "uuid \<Rightarrow> uuid \<Rightarrow> uuid \<Rightarrow> uuid option \<Rightarrow> stock_position \<Rightarrow> bool" where
  "of_item org firm item lot p \<longleftrightarrow>
     k_org (pos_key p) = org \<and> k_firm (pos_key p) = firm \<and> k_item (pos_key p) = item \<and>
     (lot = None \<or> k_lot (pos_key p) = lot)"

definition item_on_hand :: "uuid \<Rightarrow> uuid \<Rightarrow> uuid \<Rightarrow> uuid option \<Rightarrow> inv \<Rightarrow> decimal" where
  "item_on_hand org firm item lot s = (\<Sum>p\<leftarrow>filter (of_item org firm item lot) (positions s). on_hand_qty p)"

definition item_key :: "uuid \<Rightarrow> uuid \<Rightarrow> uuid \<Rightarrow> stock_key \<Rightarrow> bool" where
  "item_key org firm item k \<longleftrightarrow> k_org k = org \<and> k_firm k = firm \<and> k_item k = item"

lemma item_on_hand_held:
  assumes "keyed s"
  shows "item_on_hand org firm item None s = held (item_key org firm item) s"
proof -
  let ?ps = "filter (of_item org firm item None) (positions s)"
  have "distinct (map pos_key (positions s))" using assms by simp
  then have d: "distinct ?ps" "inj_on pos_key (set ?ps)"
    by (simp_all add: distinct_map inj_on_subset [of _ "set (positions s)"] subset_eq)
  have k: "{k. k \<in> pos_key ` set (positions s) \<and> item_key org firm item k} = pos_key ` set ?ps"
    by (auto simp: item_key_def of_item_def)
  have "(\<Sum>k\<in>pos_key ` set ?ps. on_hand s k) = (\<Sum>p\<in>set ?ps. on_hand s (pos_key p))"
    using d(2) by (rule sum.reindex_cong) auto
  also have "\<dots> = (\<Sum>p\<in>set ?ps. on_hand_qty p)"
    using on_hand_row [OF position_rows_keyed [OF assms]] by (intro sum.cong) auto
  finally show ?thesis using d(1) unfolding item_on_hand_def held_def k by (simp add: sum_list_distinct_conv_sum_set)
qed

lemma held_net:
  assumes "\<forall>k. on_hand s' k = on_hand s k + net rows k"
  shows "held P s' = held P s + (\<Sum>r\<leftarrow>rows. if P (sl_key r) then qty_in r - qty_out r else 0)"
proof -
  define K where "K = pos_key ` set (positions s) \<union> pos_key ` set (positions s') \<union> sl_key ` set rows"
  have K: "finite K" "pos_key ` set (positions s) \<subseteq> K" "pos_key ` set (positions s') \<subseteq> K" "sl_key ` set rows \<subseteq> K"
    by (auto simp: K_def)
  have "(\<Sum>k | k \<in> K \<and> P k. net rows k) = (\<Sum>r\<leftarrow>rows. if P (sl_key r) then qty_in r - qty_out r else 0)"
    using K(4)
  proof (induction rows)
    case (Cons r rows)
    have "(\<Sum>k | k \<in> K \<and> P k. net (r # rows) k)
        = (\<Sum>k | k \<in> K \<and> P k. if sl_key r = k then qty_in r - qty_out r else 0) + (\<Sum>k | k \<in> K \<and> P k. net rows k)"
      by (simp add: sum.distrib)
    also have "(\<Sum>k | k \<in> K \<and> P k. if sl_key r = k then qty_in r - qty_out r else 0)
        = (if P (sl_key r) then qty_in r - qty_out r else 0)"
      using Cons.prems K(1) by (simp add: sum.delta')
    finally show ?case using Cons by simp
  qed simp
  then show ?thesis using assms by (simp add: held_over [OF K(1,2)] held_over [OF K(1,3)] sum.distrib)
qed

lemma take_at_effect:
  assumes "take_at today org firm item loc lot qty ref s = Inr (s', rows)" and ok: "inv_ok s"
  shows "inv_ok s'" and "0 < qty" and "(\<Sum>r\<leftarrow>rows. qty_out r) = qty"
    and "held (item_key org' firm' it) s' = held (item_key org' firm' it) s - (if item_key org' firm' it = item_key org firm item then qty else 0)"
proof -
  have "inv_ok s' \<and> 0 < qty \<and> (\<Sum>r\<leftarrow>rows. qty_out r) = qty \<and> (\<forall>k. on_hand s' k = on_hand s k + net rows k) \<and>
      (\<forall>r \<in> set rows. item_key org firm item (sl_key r) \<and> qty_in r = 0)"
  proof (cases lot)
    case (Some l)
    with assms(1) obtain row where r: "remove_stock today \<lparr>k_org = org, k_firm = firm, k_item = item, k_location = loc, k_lot = Some l\<rparr>
        qty ref s = Inr (s', row)" and rows: "rows = [row]"
      by (auto simp: take_at_def)
    have f: "sl_key row = \<lparr>k_org = org, k_firm = firm, k_item = item, k_location = loc, k_lot = Some l\<rparr>" "qty_in row = 0" "qty_out row = qty"
      using r by (auto simp: remove_stock_def Let_def split: option.splits if_splits)
    note e = remove_stock_effect [OF r inv_ok_parts(1) [OF ok]]
    from e(1) have "on_hand s' k = on_hand s k + net rows k" for k by (simp add: booked_def rows f)
    then show ?thesis using remove_stock_ok [OF r ok] e(2) f by (simp add: rows item_key_def)
  next
    case None
    with assms(1) have r: "remove_stock_fifo today org firm item loc qty ref s = Inr (s', rows)"
      by (auto simp: take_at_def)
    note e = fifo_effect [OF r ok]
    from r obtain d where q: "0 < qty" and loop: "fifo_loop d ref (fifo_order org firm item loc s) qty s [] = (s', rows)"
      by (auto simp: remove_stock_fifo_Inr)
    have "rows = fifo_rows d ref qty (fifo_order org firm item loc s)" using fifo_loop_rows [OF loop] by simp
    then have "item_key org firm item (sl_key r) \<and> qty_in r = 0" if "r \<in> set rows" for r
      using that fifo_order_props(1) [of org firm item loc s]
      by (auto simp: fifo_rows_def at_location_def item_key_def dest!: set_zip_leftD)
    then show ?thesis using remove_stock_fifo_ok [OF r ok] q e(3,5) by simp
  qed
  then have e: "inv_ok s'" "0 < qty" "(\<Sum>r\<leftarrow>rows. qty_out r) = qty" "\<forall>k. on_hand s' k = on_hand s k + net rows k"
    and rows: "\<forall>r \<in> set rows. item_key org firm item (sl_key r) \<and> qty_in r = 0" by blast+
  show "inv_ok s'" "0 < qty" "(\<Sum>r\<leftarrow>rows. qty_out r) = qty" by (rule e)+
  let ?P = "item_key org' firm' it"
  have "(\<Sum>r\<leftarrow>rows. if ?P (sl_key r) then qty_in r - qty_out r else 0)
      = (\<Sum>r\<leftarrow>rows. if ?P = item_key org firm item then - qty_out r else 0)"
  proof (intro arg_cong [of _ _ sum_list] map_cong refl)
    fix r assume "r \<in> set rows"
    with rows have "item_key org firm item (sl_key r)" "qty_in r = 0" by auto
    moreover from this have "?P (sl_key r) \<longleftrightarrow> ?P = item_key org firm item" by (auto simp: item_key_def fun_eq_iff)
    ultimately show "(if ?P (sl_key r) then qty_in r - qty_out r else 0) = (if ?P = item_key org firm item then - qty_out r else 0)"
      by simp
  qed
  also have "\<dots> = - (if ?P = item_key org firm item then qty else 0)"
    using e(3) by (auto simp: sum_list_subtractf uminus_sum_list_map o_def)
  finally show "held ?P s' = held ?P s - (if ?P = item_key org firm item then qty else 0)"
    using held_net [OF e(4), of ?P] by simp
qed


end
