(* ===== verification/MaterialIssue.thy ===== *)
theory MaterialIssue
  imports Mo StockMoves
begin

text \<open>
  Material issues, \<^verbatim>\<open>app/service/material_issue_service.py\<close>: raw material leaves the stock
  for a released order, its value moves from inventory to work in process in the general ledger, and
  the order's material lines record what they got.
\<close>

section \<open>Requests and lookups\<close>

record issue_request =
  ri_line :: uuid
  ri_qty :: decimal
  ri_lot :: "uuid option"

definition WIP_LEDGER_CODE :: string where "WIP_LEDGER_CODE = ''1310''"

definition MI_NUMBER_KEY :: string where "MI_NUMBER_KEY = ''material_issue_org_firm_series_number_key''"

definition mi_numbers :: "uuid \<Rightarrow> uuid \<Rightarrow> string \<Rightarrow> plant \<Rightarrow> string list" where
  "mi_numbers org firm series s =
     map mi_number (filter (\<lambda>m. mi_org m = org \<and> mi_firm m = firm \<and> mi_series m = series) (material_issues s))"

definition allocate_mi_number :: "uuid \<Rightarrow> uuid \<Rightarrow> string \<Rightarrow> plant \<Rightarrow> string" where
  "allocate_mi_number org firm series s = next_by_text (mi_numbers org firm series s)"

definition allocate_mi_voucher_number :: "uuid \<Rightarrow> uuid \<Rightarrow> string \<Rightarrow> books \<Rightarrow> string" where
  "allocate_mi_voucher_number org firm series s = next_by_text (numbers_in_use org firm MATERIAL_ISSUE series s)"

definition combined_request :: "issue_request list \<Rightarrow> uuid \<Rightarrow> decimal" where
  "combined_request rs i = (\<Sum>r\<leftarrow>filter (\<lambda>r. ri_line r = i) rs. ri_qty r)"

definition mml_by_id :: "uuid \<Rightarrow> uuid \<Rightarrow> plant \<Rightarrow> material_line option" where
  "mml_by_id mo i s = find (\<lambda>l. mml_mo l = mo \<and> mml_id l = i \<and> \<not> mml_deleted l) (material_lines s)"

section \<open>Checks of a request line\<close>

definition resolve_line ::
  "uuid \<Rightarrow> uuid \<Rightarrow> uuid \<Rightarrow> issue_request list \<Rightarrow> plant \<Rightarrow> issue_request \<Rightarrow> error + material_line \<times> issue_request" where
  "resolve_line org firm mo rs s r =
     (case mml_by_id mo (ri_line r) s of
        None \<Rightarrow> Inl (AppValidationError ''mo_material_line not found on MO'')
      | Some l \<Rightarrow>
          bindE (guardE (\<not> combined_request rs (ri_line r) > qty_required l - qty_issued l)
                   (AppValidationError ''Cannot issue against mo_material_line'')) (\<lambda>_.
          bindE (guardE (\<not> item_on_hand org firm (mml_item l) (ri_lot r) (jw_stock (shop s)) < ri_qty r)
                   (AppValidationError ''Insufficient stock for item'')) (\<lambda>_.
          Inr (l, r))))"

section \<open>Stock\<close>

text \<open>The location with the most of it, the smaller id on a tie.\<close>

definition pick_location_for_position :: "uuid \<Rightarrow> uuid \<Rightarrow> uuid \<Rightarrow> uuid option \<Rightarrow> inv \<Rightarrow> error + uuid" where
  "pick_location_for_position org firm item lot s =
     (let ps = filter (\<lambda>p. of_item org firm item lot p \<and> 0 < on_hand_qty p) (positions s);
          stock_at = (\<lambda>l. \<Sum>p\<leftarrow>filter (\<lambda>p. k_location (pos_key p) = l) ps. on_hand_qty p)
      in case sort_key (\<lambda>l. (- stock_at l, l)) (remdups (map (\<lambda>p. k_location (pos_key p)) ps)) of
           [] \<Rightarrow> Inl (AppValidationError ''No stock position with on-hand > 0'')
         | l # _ \<Rightarrow> Inr l)"

definition take_material ::
  "date \<Rightarrow> uuid \<Rightarrow> uuid \<Rightarrow> uuid \<Rightarrow> uuid option \<Rightarrow> decimal \<Rightarrow> movement_ref \<Rightarrow> inv \<Rightarrow> error + inv \<times> ledger_row list" where
  "take_material today org firm item lot qty ref s =
     bindE (pick_location_for_position org firm item lot s) (\<lambda>loc.
     take_at today org firm item loc lot qty ref s)"

definition issued_row :: "uuid \<Rightarrow> uuid \<Rightarrow> material_line \<Rightarrow> ledger_row \<Rightarrow> material_issue_line" where
  "issued_row org mi l row =
     \<lparr>mil_org = org, mil_issue = mi, mil_line = mml_id l, mil_item = mml_item l, mil_lot = k_lot (sl_key row),
      mil_qty = qty_out row, mil_cost = or_zero (unit_cost row), mil_value = paise (ctx (qty_out row * or_zero (unit_cost row)))\<rparr>"

definition bump_issued :: "uuid \<Rightarrow> decimal \<Rightarrow> material_line list \<Rightarrow> material_line list" where
  "bump_issued i q = update_where (\<lambda>m. mml_id m = i) (\<lambda>m. m\<lparr>qty_issued := qty_issued m + q\<rparr>)"

fun issue_all ::
  "date \<Rightarrow> uuid \<Rightarrow> uuid \<Rightarrow> uuid \<Rightarrow> movement_ref \<Rightarrow> (material_line \<times> issue_request) list \<Rightarrow> decimal \<Rightarrow> plant
   \<Rightarrow> error + plant \<times> decimal" where
  "issue_all today org firm mi ref [] tot s = Inr (s, tot)"
| "issue_all today org firm mi ref ((l, r) # rest) tot s =
     bindE (take_material today org firm (mml_item l) (ri_lot r) (ri_qty r) ref (jw_stock (shop s))) (\<lambda>(st, rows).
     let new = map (issued_row org mi l) rows in
     issue_all today org firm mi ref rest (tot + (\<Sum>n\<leftarrow>new. mil_value n))
       (s\<lparr>shop := (shop s)\<lparr>jw_stock := st\<rparr>, material_lines := bump_issued (mml_id l) (ri_qty r) (material_lines s),
          issue_lines := issue_lines s @ new\<rparr>))"

section \<open>The service call\<close>

definition issue_note :: "string \<Rightarrow> string \<Rightarrow> mo_row \<Rightarrow> string" where
  "issue_note series n m =
     ''Issued against MO '' @ mo_series m @ ''/'' @ mo_number m @ '' (MI '' @ series @ ''/'' @ n @ '')''"

definition issue_narration :: "string \<Rightarrow> string \<Rightarrow> mo_row \<Rightarrow> string option \<Rightarrow> string" where
  "issue_narration series n m narr =
     narration_or (''Material issue '' @ series @ ''/'' @ n @ '' against MO '' @ mo_series m @ ''/'' @ mo_number m) narr"

text \<open>The checks of phases -1 to 2, which write nothing.\<close>

definition check_issue ::
  "uuid \<Rightarrow> uuid \<Rightarrow> uuid \<Rightarrow> issue_request list \<Rightarrow> string \<Rightarrow> plant
   \<Rightarrow> error + mo_row \<times> (material_line \<times> issue_request) list" where
  "check_issue org firm mo rs series s =
     bindE (assert_firm_in_org org firm (jw_stock (shop s))) (\<lambda>_.
     bindE (guardE (rs \<noteq> []) (AppValidationError ''issue_materials requires at least one line.'')) (\<lambda>_.
     bindE (guardE (\<forall>r \<in> set rs. \<not> ri_qty r \<le> 0) (AppValidationError ''qty_to_issue must be positive'')) (\<lambda>_.
     bindE (guardE (series \<noteq> []) (AppValidationError ''series is required'')) (\<lambda>_.
     bindE (get_mo org mo s) (\<lambda>m.
     bindE (guardE (mo_firm m = firm) (AppValidationError ''MO does not belong to firm'')) (\<lambda>_.
     bindE (guardE (mo_status m \<in> {MoStatus.RELEASED, MoStatus.IN_PROGRESS})
              (AppValidationError ''Cannot issue materials against MO in status'')) (\<lambda>_.
     bindE (mapE (resolve_line org firm mo rs s) rs) (\<lambda>resolved.
     Inr (m, resolved)))))))))"

definition new_issue :: "uuid \<Rightarrow> uuid \<Rightarrow> uuid \<Rightarrow> string \<Rightarrow> string \<Rightarrow> date \<Rightarrow> uuid \<Rightarrow> material_issue" where
  "new_issue org firm mo series n d i =
     \<lparr>mi_id = i, mi_org = org, mi_firm = firm, mi_mo = mo, mi_series = series, mi_number = n, mi_date = d,
      mi_voucher = None, mi_deleted = False\<rparr>"

definition post_issue ::
  "clock \<Rightarrow> uuid \<Rightarrow> uuid \<Rightarrow> string \<Rightarrow> date \<Rightarrow> string \<Rightarrow> uuid \<Rightarrow> ledger_account \<Rightarrow> ledger_account \<Rightarrow> decimal \<Rightarrow> books
   \<Rightarrow> error + books \<times> voucher" where
  "post_issue now org firm series d narr mi wip inventory tot s =
     post_voucher (Some (NUMBER_KEY, AppValidationError ''Voucher number race detected''))
       (new_voucher org firm MATERIAL_ISSUE series (allocate_mi_voucher_number org firm series s) d ''material_issue''
          (Some mi) (Some narr) None tot tot now)
       [(ledger_id wip, DR, tot), (ledger_id inventory, CR, tot)] s"

definition issue_materials ::
  "clock \<Rightarrow> date \<Rightarrow> uuid \<Rightarrow> uuid \<Rightarrow> uuid \<Rightarrow> issue_request list \<Rightarrow> string option \<Rightarrow> date option \<Rightarrow> string \<Rightarrow> plant
   \<Rightarrow> error + plant" where
  "issue_materials now today org firm mo rs narr on series s =
     bindE (check_issue org firm mo rs series s) (\<lambda>(m, resolved).
     bindE (resolve_system_ledger org WIP_LEDGER_CODE (plant_books s)) (\<lambda>wip.
     bindE (resolve_system_ledger org INVENTORY_LEDGER_CODE (plant_books s)) (\<lambda>inventory.
     let n = allocate_mi_number org firm series s;
         d = (case on of Some x \<Rightarrow> x | None \<Rightarrow> today)
     in bindE (guardE (\<not> (\<exists>w \<in> set (material_issues s). mi_org w = org \<and> mi_firm w = firm \<and> mi_series w = series \<and>
                                                     mi_number w = n))
                 (AppValidationError ''Material issue number race detected'')) (\<lambda>_.
        case plant_mint s of (s1, i) \<Rightarrow>
        let s2 = s1\<lparr>material_issues := material_issues s1 @ [new_issue org firm mo series n d i]\<rparr>;
            ref = \<lparr>mv_type = ''MATERIAL_ISSUE'', mv_id = i, mv_date = Some d, mv_notes = Some (issue_note series n m)\<rparr>
        in bindE (issue_all today org firm i ref resolved 0 s2) (\<lambda>(s3, tot).
           bindE (guardE (\<not> tot \<le> 0) (AppValidationError ''Cannot issue materials with zero total value'')) (\<lambda>_.
           bindE (post_issue now org firm series d (issue_narration series n m narr) i wip inventory tot (plant_books s3))
             (\<lambda>(b, v).
           let s4 = s3\<lparr>plant_books := b, material_issues :=
                         update_where (\<lambda>w. mi_id w = i) (\<lambda>w. w\<lparr>mi_voucher := Some (voucher_id v)\<rparr>) (material_issues s3)\<rparr>
           in if mo_status m = MoStatus.RELEASED then start_mo org mo s4 else Inr s4)))))))"


section \<open>What an issue takes from the stock\<close>

lemma take_material_at:
  "take_material today org firm item lot qty ref s = Inr r \<Longrightarrow> \<exists>loc. take_at today org firm item loc lot qty ref s = Inr r"
  by (auto simp: take_material_def)

text \<open>What each line of the order got, over a list of requests.\<close>

definition got :: "(material_line \<times> issue_request) list \<Rightarrow> uuid \<Rightarrow> decimal" where
  "got xs i = (\<Sum>x\<leftarrow>filter (\<lambda>x. mml_id (fst x) = i) xs. ri_qty (snd x))"

definition bumped :: "(material_line \<times> issue_request) list \<Rightarrow> material_line \<Rightarrow> material_line" where
  "bumped xs m = m\<lparr>qty_issued := qty_issued m + got xs (mml_id m)\<rparr>"

lemma bumped_fields [simp]:
  "mml_id (bumped xs m) = mml_id m" "qty_required (bumped xs m) = qty_required m" "mml_deleted (bumped xs m) = mml_deleted m"
  "mml_mo (bumped xs m) = mml_mo m" "mml_item (bumped xs m) = mml_item m" "mml_org (bumped xs m) = mml_org m"
  "mml_optional (bumped xs m) = mml_optional m" "qty_issued (bumped xs m) = qty_issued m + got xs (mml_id m)"
  by (simp_all add: bumped_def)

lemma bump_issued_map: "bump_issued i q ms = map (\<lambda>m. if mml_id m = i then m\<lparr>qty_issued := qty_issued m + q\<rparr> else m) ms"
  by (simp add: bump_issued_def update_where_def)

lemma issue_all_effect:
  assumes "issue_all today org firm mi ref xs tot s = Inr (s', tot')" and "inv_ok (jw_stock (shop s))"
  shows "inv_ok (jw_stock (shop s')) \<and>
    (\<exists>h new. s' = s\<lparr>shop := h, material_lines := map (bumped xs) (material_lines s), issue_lines := issue_lines s @ new\<rparr> \<and>
       tot' = tot + (\<Sum>n\<leftarrow>new. mil_value n) \<and>
       (\<forall>i. (\<Sum>n\<leftarrow>filter (\<lambda>n. mil_line n = i) new. mil_qty n) = got xs i) \<and>
       (\<forall>n \<in> set new. mil_issue n = mi \<and> places 2 (mil_value n))) \<and>
    (\<forall>it. held (item_key org firm it) (jw_stock (shop s'))
         = held (item_key org firm it) (jw_stock (shop s)) - (\<Sum>x\<leftarrow>filter (\<lambda>x. mml_item (fst x) = it) xs. ri_qty (snd x)))"
  using assms
proof (induction today org firm mi ref xs tot s rule: issue_all.induct)
  case (1 today org firm mi ref tot s)
  have "map (bumped []) ms = ms" for ms by (rule map_idI) (simp add: bumped_def got_def)
  with 1 show ?case by (auto simp: got_def intro!: exI [of _ "shop s"] exI [of _ "[]"])
next
  case (2 today org firm mi ref l r rest tot s)
  from 2(2) obtain st rows where t: "take_material today org firm (mml_item l) (ri_lot r) (ri_qty r) ref (jw_stock (shop s)) = Inr (st, rows)"
    by (auto simp: Let_def)
  let ?new = "map (issued_row org mi l) rows"
  define s1 where "s1 = s\<lparr>shop := (shop s)\<lparr>jw_stock := st\<rparr>,
    material_lines := bump_issued (mml_id l) (ri_qty r) (material_lines s), issue_lines := issue_lines s @ ?new\<rparr>"
  obtain loc where "take_at today org firm (mml_item l) loc (ri_lot r) (ri_qty r) ref (jw_stock (shop s)) = Inr (st, rows)"
    using take_material_at [OF t] by blast
  note e = take_at_effect [OF this 2(3)]
  have st: "jw_stock (shop s1) = st" by (simp add: s1_def)
  have rec: "issue_all today org firm mi ref rest (tot + (\<Sum>n\<leftarrow>?new. mil_value n)) s1 = Inr (s', tot')"
    using 2(2) t by (simp add: Let_def s1_def)
  from 2(1) [OF refl rec [unfolded s1_def]] e(1) obtain h new where
    n: "inv_ok (jw_stock (shop s'))"
      "s' = s1\<lparr>shop := h, material_lines := map (bumped rest) (material_lines s1), issue_lines := issue_lines s1 @ new\<rparr>"
      "tot' = tot + (\<Sum>n\<leftarrow>?new. mil_value n) + (\<Sum>n\<leftarrow>new. mil_value n)"
      "\<forall>i. (\<Sum>n\<leftarrow>filter (\<lambda>n. mil_line n = i) new. mil_qty n) = got rest i"
      "\<forall>n \<in> set new. mil_issue n = mi \<and> places 2 (mil_value n)"
    and hd: "\<forall>it. held (item_key org firm it) (jw_stock (shop s'))
         = held (item_key org firm it) st - (\<Sum>x\<leftarrow>filter (\<lambda>x. mml_item (fst x) = it) rest. ri_qty (snd x))"
    unfolding s1_def [symmetric] st by blast
  have b: "map (bumped rest) (bump_issued (mml_id l) (ri_qty r) ms) = map (bumped ((l, r) # rest)) ms" for ms
    unfolding bump_issued_map map_map o_def by (rule map_cong) (auto simp: bumped_def got_def)
  have mine: "filter (\<lambda>n. mil_line n = i) ?new = (if mml_id l = i then ?new else [])" for i
    by (auto simp: issued_row_def filter_empty_conv)
  have q: "(\<Sum>n\<leftarrow>?new. mil_qty n) = ri_qty r" using e(3) by (simp add: issued_row_def o_def)
  have "(\<Sum>n\<leftarrow>filter (\<lambda>n. mil_line n = i) (?new @ new). mil_qty n) = got ((l, r) # rest) i" for i
    unfolding filter_append map_append sum_list_append mine using n(4) q by (simp add: got_def)
  moreover have "s' = s\<lparr>shop := h, material_lines := map (bumped ((l, r) # rest)) (material_lines s), issue_lines := issue_lines s @ (?new @ new)\<rparr>"
    unfolding n(2) by (simp add: s1_def b)
  moreover have "tot' = tot + (\<Sum>n\<leftarrow>?new @ new. mil_value n)" unfolding n(3) by simp
  moreover have "\<forall>n \<in> set (?new @ new). mil_issue n = mi \<and> places 2 (mil_value n)" using n(5) by (auto simp: issued_row_def)
  ultimately have "\<exists>h new. s' = s\<lparr>shop := h, material_lines := map (bumped ((l, r) # rest)) (material_lines s), issue_lines := issue_lines s @ new\<rparr> \<and>
       tot' = tot + (\<Sum>n\<leftarrow>new. mil_value n) \<and>
       (\<forall>i. (\<Sum>n\<leftarrow>filter (\<lambda>n. mil_line n = i) new. mil_qty n) = got ((l, r) # rest) i) \<and>
       (\<forall>n \<in> set new. mil_issue n = mi \<and> places 2 (mil_value n))"
    by blast
  moreover have "item_key org firm it = item_key org firm (mml_item l) \<longleftrightarrow> mml_item l = it" for it
    by (auto simp: item_key_def fun_eq_iff) (metis stock_key.select_convs(1-3))
  then have "held (item_key org firm it) (jw_stock (shop s')) = held (item_key org firm it) (jw_stock (shop s))
      - (\<Sum>x\<leftarrow>filter (\<lambda>x. mml_item (fst x) = it) ((l, r) # rest). ri_qty (snd x))" for it
    using hd e(4) [of org firm it] by simp
  ultimately show ?case using n(1) by blast
qed


lemma resolve_line_Inr:
  "resolve_line org firm mo rs s r = Inr x \<Longrightarrow>
     fst x \<in> set (material_lines s) \<and> mml_id (fst x) = ri_line r \<and> snd x = r \<and> mml_mo (fst x) = mo \<and>
     combined_request rs (ri_line r) \<le> qty_required (fst x) - qty_issued (fst x)"
  by (auto simp: resolve_line_def mml_by_id_def find_Some_iff not_less split: option.splits)

lemma list_all2_source: "list_all2 P xs ys \<Longrightarrow> y \<in> set ys \<Longrightarrow> \<exists>x \<in> set xs. P x y"
  by (induction rule: list_all2_induct) auto

lemma check_issue_resolved:
  assumes "check_issue org firm mo rs series s = Inr (m, xs)"
  shows "get_mo org mo s = Inr m" and "mo_status m = MoStatus.RELEASED \<or> mo_status m = MoStatus.IN_PROGRESS"
    and "\<forall>x \<in> set xs. fst x \<in> set (material_lines s) \<and> mml_id (fst x) = ri_line (snd x) \<and>
      combined_request rs (mml_id (fst x)) \<le> qty_required (fst x) - qty_issued (fst x)"
    and "got xs i = combined_request rs i" and "map snd xs = rs"
proof -
  from assms have g: "get_mo org mo s = Inr m" "mo_status m \<in> {MoStatus.RELEASED, MoStatus.IN_PROGRESS}"
    and l: "list_all2 (\<lambda>r x. resolve_line org firm mo rs s r = Inr x) rs xs"
    by (auto simp: check_issue_def mapE_Inr)
  then show "get_mo org mo s = Inr m" "mo_status m = MoStatus.RELEASED \<or> mo_status m = MoStatus.IN_PROGRESS" by auto
  have r: "list_all2 (\<lambda>r x. fst x \<in> set (material_lines s) \<and> mml_id (fst x) = ri_line r \<and> snd x = r \<and>
      combined_request rs (mml_id (fst x)) \<le> qty_required (fst x) - qty_issued (fst x)) rs xs"
    by (rule list_all2_mono [OF l]) (auto dest: resolve_line_Inr)
  show "\<forall>x \<in> set xs. fst x \<in> set (material_lines s) \<and> mml_id (fst x) = ri_line (snd x) \<and>
      combined_request rs (mml_id (fst x)) \<le> qty_required (fst x) - qty_issued (fst x)"
    using list_all2_source [OF r] by fastforce
  have "map snd xs = rs \<and> got xs i = combined_request rs i"
    if "list_all2 (\<lambda>r x. mml_id (fst x) = ri_line r \<and> snd x = r) rs xs" for rs
    using that by (induction rule: list_all2_induct) (auto simp: got_def combined_request_def)
  moreover have "list_all2 (\<lambda>r x. mml_id (fst x) = ri_line r \<and> snd x = r) rs xs" by (rule list_all2_mono [OF r]) auto
  ultimately show "got xs i = combined_request rs i" "map snd xs = rs" by auto
qed

text \<open>The parts of a successful issue.\<close>

lemma issue_materials_cases:
  assumes "issue_materials now today org firm mo rs narr on series s = Inr s'" and "inv_ok (jw_stock (shop s))" and "ids_ok s"
  obtains m xs i new v wip inventory n d where "check_issue org firm mo rs series s = Inr (m, xs)"
    and "resolve_system_ledger org WIP_LEDGER_CODE (plant_books s) = Inr wip"
    and "resolve_system_ledger org INVENTORY_LEDGER_CODE (plant_books s) = Inr inventory"
    and "i \<notin> issued_ids s" and "material_lines s' = map (bumped xs) (material_lines s)"
    and "issue_lines s' = issue_lines s @ new" and "0 < (\<Sum>l\<leftarrow>new. mil_value l)"
    and "\<And>j. (\<Sum>l\<leftarrow>filter (\<lambda>l. mil_line l = j) new. mil_qty l) = got xs j" and "\<forall>l \<in> set new. places 2 (mil_value l)"
    and "inv_ok (jw_stock (shop s'))"
    and "\<And>it. held (item_key org firm it) (jw_stock (shop s'))
         = held (item_key org firm it) (jw_stock (shop s)) - (\<Sum>x\<leftarrow>filter (\<lambda>x. mml_item (fst x) = it) xs. ri_qty (snd x))"
    and "post_issue now org firm series d (issue_narration series n m narr) i wip inventory (\<Sum>l\<leftarrow>new. mil_value l) (plant_books s)
         = Inr (plant_books s', v)"
    and "material_issues s' = update_where (\<lambda>w. mi_id w = i) (\<lambda>w. w\<lparr>mi_voucher := Some (voucher_id v)\<rparr>)
         (material_issues s @ [new_issue org firm mo series n d i])"
    and "mo_ops s' = mo_ops s"
proof -
  obtain s1 i where m1: "plant_mint s = (s1, i)" by (cases "plant_mint s")
  note e1 = plant_mint_effect [OF m1 assms(3)]
  have st1: "positions (jw_stock (shop s1)) = positions (jw_stock (shop s))" "inv_ok (jw_stock (shop s1))"
    "material_issues s1 = material_issues s" "material_lines s1 = material_lines s" "issue_lines s1 = issue_lines s"
    "plant_books s1 = plant_books s" "mo_ops s1 = mo_ops s"
    using m1 assms(2) by (auto simp: plant_mint_def mint_tables intro: mint_inv_ok split: prod.splits)
  let ?n = "allocate_mi_number org firm series s" and ?d = "case on of Some x \<Rightarrow> x | None \<Rightarrow> today"
  from assms(1) obtain m xs wip inventory where chk: "check_issue org firm mo rs series s = Inr (m, xs)"
    and led: "resolve_system_ledger org WIP_LEDGER_CODE (plant_books s) = Inr wip"
      "resolve_system_ledger org INVENTORY_LEDGER_CODE (plant_books s) = Inr inventory"
    by (auto simp: issue_materials_def Let_def)
  define s2 where "s2 = s1\<lparr>material_issues := material_issues s1 @ [new_issue org firm mo series ?n ?d i]\<rparr>"
  define ref where "ref = \<lparr>mv_type = ''MATERIAL_ISSUE'', mv_id = i, mv_date = Some ?d, mv_notes = Some (issue_note series ?n m)\<rparr>"
  from assms(1) chk led obtain s3 tot b v s4 where al: "issue_all today org firm i ref xs 0 s2 = Inr (s3, tot)" and pos: "0 < tot"
    and post: "post_issue now org firm series ?d (issue_narration series ?n m narr) i wip inventory tot (plant_books s3) = Inr (b, v)"
    and s4: "s4 = s3\<lparr>plant_books := b, material_issues :=
               update_where (\<lambda>w. mi_id w = i) (\<lambda>w. w\<lparr>mi_voucher := Some (voucher_id v)\<rparr>) (material_issues s3)\<rparr>"
    and fin: "(if mo_status m = MoStatus.RELEASED then start_mo org mo s4 else Inr s4) = Inr s'"
    by (auto simp: issue_materials_def Let_def m1 s2_def ref_def not_le split: prod.splits)
  have st2: "jw_stock (shop s2) = jw_stock (shop s1)" by (simp add: s2_def)
  from issue_all_effect [OF al] st1(2) obtain h new where
    n: "inv_ok (jw_stock (shop s3))"
      "s3 = s2\<lparr>shop := h, material_lines := map (bumped xs) (material_lines s2), issue_lines := issue_lines s2 @ new\<rparr>"
      "tot = (\<Sum>l\<leftarrow>new. mil_value l)" "\<forall>j. (\<Sum>l\<leftarrow>filter (\<lambda>l. mil_line l = j) new. mil_qty l) = got xs j"
      "\<forall>l \<in> set new. places 2 (mil_value l)"
    and hd: "\<forall>it. held (item_key org firm it) (jw_stock (shop s3)) = held (item_key org firm it) (jw_stock (shop s2))
        - (\<Sum>x\<leftarrow>filter (\<lambda>x. mml_item (fst x) = it) xs. ri_qty (snd x))"
    unfolding st2 by auto
  have fr: "shop s' = shop s4 \<and> material_lines s' = material_lines s4 \<and> issue_lines s' = issue_lines s4 \<and>
      plant_books s' = plant_books s4 \<and> material_issues s' = material_issues s4 \<and> mo_ops s' = mo_ops s4"
    using fin by (auto simp: start_mo_def put_mo_def elim!: transition_cases split: if_splits)
  have s3f: "material_lines s3 = map (bumped xs) (material_lines s)" "issue_lines s3 = issue_lines s @ new"
    "plant_books s3 = plant_books s" "mo_ops s3 = mo_ops s"
    "material_issues s3 = material_issues s @ [new_issue org firm mo series ?n ?d i]"
    by (simp_all add: n(2) s2_def st1)
  show thesis
  proof (rule that [OF chk led e1(2)])
    show "held (item_key org firm it) (jw_stock (shop s')) = held (item_key org firm it) (jw_stock (shop s))
        - (\<Sum>x\<leftarrow>filter (\<lambda>x. mml_item (fst x) = it) xs. ri_qty (snd x))" for it
      using hd st2 held_same [OF st1(1)] by (simp add: fr s4)
  qed (use fr n pos post s3f in \<open>simp_all add: s4\<close>)
qed

section \<open>Properties\<close>

text \<open>C21: An issue never gives a line of an order more than it requires, however the request splits or
  repeats its lines.\<close>

theorem issues_within_required:
  assumes "issue_materials now today org firm mo rs narr on series s = Inr s'" and "inv_ok (jw_stock (shop s))" and "ids_ok s"
    and "distinct (map mml_id (material_lines s))" and "\<forall>l \<in> set (material_lines s). qty_issued l \<le> qty_required l"
  shows "\<forall>l \<in> set (material_lines s'). qty_issued l \<le> qty_required l"
proof (rule issue_materials_cases [OF assms(1-3)], rule ballI)
  fix m xs l
  assume chk: "check_issue org firm mo rs series s = Inr (m, xs)" and lines: "material_lines s' = map (bumped xs) (material_lines s)"
    and "l \<in> set (material_lines s')"
  then obtain k where k: "k \<in> set (material_lines s)" "l = bumped xs k" by auto
  show "qty_issued l \<le> qty_required l"
  proof (cases "mml_id k \<in> (\<lambda>x. mml_id (fst x)) ` set xs")
    case True
    then obtain x where x: "x \<in> set xs" "mml_id (fst x) = mml_id k" by auto
    with check_issue_resolved(3) [OF chk] have "fst x \<in> set (material_lines s)"
      "combined_request rs (mml_id (fst x)) \<le> qty_required (fst x) - qty_issued (fst x)" by auto
    moreover from this x(2) k(1) have "fst x = k" using assms(4) by (meson distinct_map inj_onD)
    ultimately show ?thesis using check_issue_resolved(4) [OF chk, of "mml_id k"] by (simp add: k(2))
  next
    case False
    then have "filter (\<lambda>x. mml_id (fst x) = mml_id k) xs = []" by (force simp: filter_empty_conv image_iff)
    then have "got xs (mml_id k) = 0" by (simp only: got_def) simp
    then show ?thesis using assms(5) k by simp
  qed
qed

text \<open>A released order for two units of item 3, in stock one outside any lot and one in lot 11.\<close>

definition demo_stores :: plant where
  "demo_stores = demo_plant\<lparr>shop := demo_shop\<lparr>jw_stock := demo_pair\<rparr>,
     plant_books := demo_books\<lparr>ledger_accounts := demo_account 30 ''1310'' # ledger_accounts demo_books\<rparr>,
     mos := [demo_mo 60 MoStatus.RELEASED],
     material_lines := [\<lparr>mml_id = 65, mml_org = 1, mml_mo = 60, mml_item = 3, qty_required = 2, qty_issued = 0,
                         mml_optional = False, mml_deleted = False\<rparr>]\<rparr>"

definition demo_issue :: "issue_request list" where
  "demo_issue = [\<lparr>ri_line = 65, ri_qty = 1, ri_lot = None\<rparr>, \<lparr>ri_line = 65, ri_qty = 1, ri_lot = Some 11\<rparr>]"

lemmas eval_issue = demo_stores_def demo_issue_def demo_plant_def demo_shop_def demo_mo_def issue_materials_def check_issue_def
  resolve_line_def mml_by_id_def combined_request_def item_on_hand_def of_item_def get_mo_def plant_mint_def
  pick_location_for_position_def take_material_def take_at_def remove_stock_def issued_row_def bump_issued_def new_issue_def
  post_issue_def WIP_LEDGER_CODE_def start_mo_def transition_def put_mo_def eval_stock

lemma demo_issued:
  "\<exists>s'. issue_materials demo_now (Date 2026 5 6) 1 2 60 demo_issue None None ''MI'' demo_stores = Inr s' \<and>
     map qty_issued (material_lines s') = [2] \<and> map mil_value (issue_lines s') = [2, 3] \<and> map mo_status (mos s') = [MoStatus.IN_PROGRESS]"
  by (simp add: eval_issue)

lemma demo_stores_ok: "inv_ok (jw_stock (shop demo_stores))" "ids_ok demo_stores"
  using demo_pair_ok by (simp_all add: demo_stores_def demo_shop_def ids_ok_def demo_pair_def demo_empty_def inj_def)

lemma issues_within_required_witness:
  "\<exists>s' l. issue_materials demo_now (Date 2026 5 6) 1 2 60 demo_issue None None ''MI'' demo_stores = Inr s' \<and>
     material_lines s' = [l] \<and> qty_issued l \<le> qty_required l"
proof -
  from demo_issued obtain s' where r: "issue_materials demo_now (Date 2026 5 6) 1 2 60 demo_issue None None ''MI'' demo_stores = Inr s'"
    and l: "map qty_issued (material_lines s') = [2]" by (elim exE conjE)
  have "distinct (map mml_id (material_lines demo_stores))" "\<forall>l \<in> set (material_lines demo_stores). qty_issued l \<le> qty_required l"
    by (simp_all add: demo_stores_def)
  note within = issues_within_required [OF r demo_stores_ok this]
  from l obtain k where k: "material_lines s' = [k]" by (cases "material_lines s'") auto
  with within have "qty_issued k \<le> qty_required k" by simp
  with r k show ?thesis by (intro exI conjI)
qed

text \<open>An issue moves the same value through all three books: the new issue lines add up to the
  quantity requested of every line, the stock of every item falls by what its lines requested, and one
  voucher debits work in process and credits inventory with the total of the issue lines.\<close>

theorem issue_moves_value:
  assumes "issue_materials now today org firm mo rs narr on series s = Inr s'" and "inv_ok (jw_stock (shop s))" and "ids_ok s"
    and "resolve_system_ledger org WIP_LEDGER_CODE (plant_books s) = Inr wip"
    and "resolve_system_ledger org INVENTORY_LEDGER_CODE (plant_books s) = Inr inventory"
  shows "inv_ok (jw_stock (shop s')) \<and> (\<exists>new v xs. issue_lines s' = issue_lines s @ new \<and> map snd xs = rs \<and>
    (\<forall>i. (\<Sum>l\<leftarrow>filter (\<lambda>l. mil_line l = i) new. mil_qty l) = combined_request rs i) \<and>
    (\<forall>it. item_on_hand org firm it None (jw_stock (shop s'))
        = item_on_hand org firm it None (jw_stock (shop s)) - (\<Sum>x\<leftarrow>filter (\<lambda>x. mml_item (fst x) = it) xs. ri_qty (snd x))) \<and>
    (\<forall>x \<in> set xs. fst x \<in> set (material_lines s) \<and> mml_id (fst x) = ri_line (snd x)) \<and>
    posted (plant_books s) (plant_books s') v
      [(ledger_id wip, DR, \<Sum>l\<leftarrow>new. mil_value l), (ledger_id inventory, CR, \<Sum>l\<leftarrow>new. mil_value l)])"
proof (rule issue_materials_cases [OF assms(1-3)])
  fix m xs i new v wip' inventory' n d
  assume a: "check_issue org firm mo rs series s = Inr (m, xs)"
    "resolve_system_ledger org WIP_LEDGER_CODE (plant_books s) = Inr wip'"
    "resolve_system_ledger org INVENTORY_LEDGER_CODE (plant_books s) = Inr inventory'"
    "issue_lines s' = issue_lines s @ new" "\<And>j. (\<Sum>l\<leftarrow>filter (\<lambda>l. mil_line l = j) new. mil_qty l) = got xs j"
    and ok: "inv_ok (jw_stock (shop s'))"
    and h: "\<And>it. held (item_key org firm it) (jw_stock (shop s'))
         = held (item_key org firm it) (jw_stock (shop s)) - (\<Sum>x\<leftarrow>filter (\<lambda>x. mml_item (fst x) = it) xs. ri_qty (snd x))"
    and post: "post_issue now org firm series d (issue_narration series n m narr) i wip' inventory' (\<Sum>l\<leftarrow>new. mil_value l) (plant_books s)
         = Inr (plant_books s', v)"
  note c = check_issue_resolved [OF a(1)]
  have "\<forall>x \<in> set xs. fst x \<in> set (material_lines s) \<and> mml_id (fst x) = ri_line (snd x)" using c(3) by blast
  moreover have "posted (plant_books s) (plant_books s') v
      [(ledger_id wip, DR, \<Sum>l\<leftarrow>new. mil_value l), (ledger_id inventory, CR, \<Sum>l\<leftarrow>new. mil_value l)]"
    using post_voucher_Inr(1) post a(2,3) assms(4,5) by (fastforce simp: post_issue_def)
  moreover have "item_on_hand org firm it None (jw_stock (shop s'))
        = item_on_hand org firm it None (jw_stock (shop s)) - (\<Sum>x\<leftarrow>filter (\<lambda>x. mml_item (fst x) = it) xs. ri_qty (snd x))" for it
    using h by (simp add: item_on_hand_held inv_ok_parts(1) [OF ok] inv_ok_parts(1) [OF assms(2)])
  ultimately show ?thesis using a(4,5) c(4,5) ok by auto
qed


lemma issue_moves_value_witness:
  "\<exists>s' v. issue_materials demo_now (Date 2026 5 6) 1 2 60 demo_issue None None ''MI'' demo_stores = Inr s' \<and>
     posted (plant_books demo_stores) (plant_books s') v [(30, DR, 5), (23, CR, 5)]"
proof -
  from demo_issued obtain s' where r: "issue_materials demo_now (Date 2026 5 6) 1 2 60 demo_issue None None ''MI'' demo_stores = Inr s'"
    and l: "map mil_value (issue_lines s') = [2, 3]" by (elim exE conjE)
  have none: "issue_lines demo_stores = []" by (simp add: demo_stores_def demo_plant_def)
  obtain wip inventory where led: "resolve_system_ledger 1 WIP_LEDGER_CODE (plant_books demo_stores) = Inr wip"
    "resolve_system_ledger 1 INVENTORY_LEDGER_CODE (plant_books demo_stores) = Inr inventory" "ledger_id wip = 30" "ledger_id inventory = 23"
    by (simp add: eval_issue)
  from issue_moves_value [OF r demo_stores_ok led(1,2)] obtain new v where new: "issue_lines s' = issue_lines demo_stores @ new"
    and p: "posted (plant_books demo_stores) (plant_books s') v
      [(ledger_id wip, DR, \<Sum>l\<leftarrow>new. mil_value l), (ledger_id inventory, CR, \<Sum>l\<leftarrow>new. mil_value l)]"
    by (elim exE conjE)
  have "(\<Sum>l\<leftarrow>new. mil_value l) = 5" using l none new by simp
  with p led(3,4) have "posted (plant_books demo_stores) (plant_books s') v [(30, DR, 5), (23, CR, 5)]" by simp
  with r show ?thesis by (intro exI conjI)
qed

end
