(* ===== verification/MoCompletion.thy ===== *)
theory MoCompletion
  imports MaterialIssue
begin

text \<open>
  Completion of a manufacturing order, \<^verbatim>\<open>app/service/mo_completion_service.py\<close>: the checks, the
  settlement of the work-in-process pool into finished goods, and the read-only preview of it.
\<close>

section \<open>Roll-ups\<close>

definition qty_quant :: "decimal \<Rightarrow> decimal" where
  "qty_quant = quantize round_half_even 4"

definition unit_cost_quant :: "decimal \<Rightarrow> decimal" where
  "unit_cost_quant = quantize round_half_even 6"

record loss_breakdown =
  lb_scrap :: decimal
  lb_wastage :: decimal
  lb_byproduct :: decimal
  lb_rework :: decimal

definition mo_ops_of :: "uuid \<Rightarrow> uuid \<Rightarrow> plant \<Rightarrow> mo_op list" where
  "mo_ops_of org mo s = filter (\<lambda>p. mop_org p = org \<and> mop_mo p = mo \<and> \<not> mop_deleted p) (mo_ops s)"

text \<open>The last verdict recorded on an operation.\<close>

definition latest_qc_event :: "uuid \<Rightarrow> uuid \<Rightarrow> plant \<Rightarrow> qc_event option" where
  "latest_qc_event org i s =
     (case filter (\<lambda>e. qe_org e = org \<and> qe_op e = i) (qc_events s) of [] \<Rightarrow> None | es \<Rightarrow> Some (last es))"

definition is_qc_op :: "plant \<Rightarrow> mo_op \<Rightarrow> bool" where
  "is_qc_op s p \<longleftrightarrow> (\<exists>m \<in> set (op_masters s). opm_id m = mop_master p \<and> opm_type m = QC)"

definition aggregate_loss_breakdown :: "uuid \<Rightarrow> uuid \<Rightarrow> plant \<Rightarrow> loss_breakdown" where
  "aggregate_loss_breakdown org mo s =
     (let ps = mo_ops_of org mo s in
      \<lparr>lb_scrap = qty_quant (\<Sum>p\<leftarrow>ps. mop_rejected p), lb_wastage = qty_quant (\<Sum>p\<leftarrow>ps. mop_wastage p),
       lb_byproduct = qty_quant (\<Sum>p\<leftarrow>ps. mop_byproduct p),
       lb_rework = qty_quant (\<Sum>p\<leftarrow>filter (is_qc_op s) ps.
         case latest_qc_event org (mop_id p) s of None \<Rightarrow> 0 | Some e \<Rightarrow> qe_rework e)\<rparr>)"

text \<open>The join of issues, their vouchers and the debits to work in process.\<close>

definition wip_debits :: "uuid \<Rightarrow> uuid \<Rightarrow> uuid \<Rightarrow> plant \<Rightarrow> decimal list" where
  "wip_debits org mo wip s =
     [amount l. l \<leftarrow> voucher_lines (plant_books s), v \<leftarrow> vouchers (plant_books s), i \<leftarrow> material_issues s,
        voucher_id v = vl_voucher l, mi_voucher i = Some (voucher_id v), mi_org i = org, mi_mo i = mo, \<not> mi_deleted i,
        vl_ledger l = wip, line_type l = DR, \<not> v_deleted v, v_status v = POSTED]"

definition sum_wip_cost_pool :: "uuid \<Rightarrow> uuid \<Rightarrow> plant \<Rightarrow> error + decimal" where
  "sum_wip_cost_pool org mo s =
     bindE (resolve_system_ledger org WIP_LEDGER_CODE (plant_books s)) (\<lambda>wip.
     Inr (paise (sum_list (wip_debits org mo (ledger_id wip) s))))"

definition open_ops :: "uuid \<Rightarrow> uuid \<Rightarrow> plant \<Rightarrow> mo_op list" where
  "open_ops org mo s = filter (\<lambda>p. mop_state p \<notin> TERMINAL_STATES) (mo_ops_of org mo s)"

definition sum_final_good_output :: "uuid \<Rightarrow> mo_row \<Rightarrow> plant \<Rightarrow> decimal option" where
  "sum_final_good_output org m s =
     (case mo_routing m of
        None \<Rightarrow> None
      | Some r \<Rightarrow>
          let canonical = filter (\<lambda>p. rework_of p = None) (mo_ops_of org (mo_id m) s);
              es = filter (\<lambda>e. edge_org e = org \<and> edge_routing e = r \<and> \<not> edge_deleted e) (routing_edges s)
          in if canonical = [] \<or> es = [] then None
             else Some (qty_quant (\<Sum>p\<leftarrow>filter (\<lambda>p. mop_master p \<in> to_op ` set es \<and> mop_master p \<notin> from_op ` set es) canonical.
                          mop_out p)))"

definition list_unissued_required_materials :: "uuid \<Rightarrow> uuid \<Rightarrow> plant \<Rightarrow> material_line list" where
  "list_unissued_required_materials org mo s =
     filter (\<lambda>l. mml_org l = org \<and> mml_mo l = mo \<and> \<not> mml_deleted l \<and> \<not> mml_optional l \<and> qty_issued l < qty_required l)
       (material_lines s)"

text \<open>\<^verbatim>\<open>(mo.completion_policy or "ALL_OR_NONE").upper()\<close>\<close>

definition policy_of :: "mo_row \<Rightarrow> string" where
  "policy_of m = upper (case completion_policy m of None \<Rightarrow> ''ALL_OR_NONE'' | Some p \<Rightarrow> if p = [] then ''ALL_OR_NONE'' else p)"

text \<open>A division of decimals.\<close>

definition divE :: "decimal \<Rightarrow> decimal \<Rightarrow> error + decimal" where
  "divE a b = (if b = 0 then Inl DivisionByZero else Inr (ctx (a / b)))"

section \<open>Settlement\<close>

definition MOC_ALLOC :: "uuid \<Rightarrow> uuid \<Rightarrow> string \<Rightarrow> books \<Rightarrow> string" where
  "MOC_ALLOC org firm series s = next_by_text (numbers_in_use org firm MANUFACTURING_COMPLETION series s)"

text \<open>Phases 0 to 5: they write nothing and end with the order, the produced quantity, the losses, the
  pool and the cost of a unit.\<close>

definition settlement_checks ::
  "uuid \<Rightarrow> uuid \<Rightarrow> uuid \<Rightarrow> decimal \<Rightarrow> string \<Rightarrow> plant
   \<Rightarrow> error + mo_row \<times> decimal \<times> loss_breakdown \<times> decimal \<times> decimal" where
  "settlement_checks org firm mo produced0 series s =
     bindE (guardE (\<not> produced0 \<le> 0) (AppValidationError ''produced_qty must be > 0'')) (\<lambda>_.
     let produced = qty_quant produced0 in
     bindE (guardE (series \<noteq> []) (AppValidationError ''series is required'')) (\<lambda>_.
     bindE (get_mo org mo s) (\<lambda>m.
     bindE (guardE (mo_firm m = firm) (AppValidationError ''MO does not belong to firm'')) (\<lambda>_.
     bindE (guardE (mo_status m = MoStatus.IN_PROGRESS) (AppValidationError ''Cannot complete MO: status'')) (\<lambda>_.
     bindE (guardE (open_ops org mo s = []) (AppValidationError ''Cannot complete MO: operation is in state'')) (\<lambda>_.
     bindE (guardE (policy_of m = ''ALL_OR_NONE'') (AppValidationError ''completion_policy is not supported'')) (\<lambda>_.
     bindE (guardE (\<not> produced > qty_quant (planned_qty m)) (AppValidationError ''Cannot produce more than planned.'')) (\<lambda>_.
     bindE (case sum_final_good_output org m s of
              None \<Rightarrow> Inl (AppValidationError ''no operations or routing edges to verify'')
            | Some final_out \<Rightarrow> guardE (produced = final_out) (AppValidationError ''does not match the verified output''))
       (\<lambda>_.
     bindE (guardE (list_unissued_required_materials org mo s = [])
              (AppValidationError ''required materials are not fully issued'')) (\<lambda>_.
     let breakdown = aggregate_loss_breakdown org mo s in
     bindE (guardE (\<not> lb_rework breakdown > 0) (AppValidationError ''Rework must be fully cycled'')) (\<lambda>_.
     bindE (sum_wip_cost_pool org mo s) (\<lambda>pool.
     bindE (guardE (\<not> pool \<le> 0) (AppValidationError ''WIP cost pool is zero'')) (\<lambda>_.
     bindE (divE pool produced) (\<lambda>c.
     Inr (m, produced, breakdown, pool, unit_cost_quant c)))))))))))))))"

definition post_completion ::
  "clock \<Rightarrow> date \<Rightarrow> uuid \<Rightarrow> uuid \<Rightarrow> uuid \<Rightarrow> string \<Rightarrow> string option \<Rightarrow> ledger_account \<Rightarrow> ledger_account \<Rightarrow> decimal \<Rightarrow> books
   \<Rightarrow> error + books \<times> voucher" where
  "post_completion now today org firm mo series narr wip inventory pool s =
     post_voucher (Some (NUMBER_KEY, AppValidationError ''MO-completion voucher number race detected''))
       (new_voucher org firm MANUFACTURING_COMPLETION series (MOC_ALLOC org firm series s) today ''manufacturing_order''
          (Some mo) (Some (narration_or ''MO completion'' narr)) None pool pool now)
       [(ledger_id inventory, DR, pool), (ledger_id wip, CR, pool)] s"

text \<open>Phase 8, the receipt of the finished goods at the default location.\<close>

definition receive_finished ::
  "date \<Rightarrow> uuid \<Rightarrow> uuid \<Rightarrow> mo_row \<Rightarrow> decimal \<Rightarrow> decimal \<Rightarrow> inv \<Rightarrow> error + inv" where
  "receive_finished today org firm m produced cost s =
     bindE (get_or_create_default_location org firm s) (\<lambda>(s1, l).
     bindE (add_stock today \<lparr>k_org = org, k_firm = firm, k_item = mo_item m, k_location = location_id l, k_lot = None\<rparr>
              produced cost
              \<lparr>mv_type = ''MANUFACTURING_COMPLETION'', mv_id = mo_id m, mv_date = Some today,
                mv_notes = Some ''Finished-goods receipt''\<rparr> s1)
       (\<lambda>(s2, _). Inr s2))"

definition settled_mo :: "decimal \<Rightarrow> loss_breakdown \<Rightarrow> mo_row \<Rightarrow> mo_row" where
  "settled_mo produced b m =
     m\<lparr>produced_qty := produced, mo_scrap := qty_quant (lb_scrap b + lb_wastage b), mo_byproduct := lb_byproduct b,
       mo_cost_pool := paise 0\<rparr>"

definition complete_mo_with_settlement ::
  "clock \<Rightarrow> date \<Rightarrow> uuid \<Rightarrow> uuid \<Rightarrow> uuid \<Rightarrow> decimal \<Rightarrow> string option \<Rightarrow> string \<Rightarrow> plant \<Rightarrow> error + plant" where
  "complete_mo_with_settlement now today org firm mo produced0 narr series s =
     bindE (settlement_checks org firm mo produced0 series s) (\<lambda>(m, produced, b, pool, cost).
     bindE (resolve_system_ledger org WIP_LEDGER_CODE (plant_books s)) (\<lambda>wip.
     bindE (resolve_system_ledger org INVENTORY_LEDGER_CODE (plant_books s)) (\<lambda>inventory.
     bindE (post_completion now today org firm mo series narr wip inventory pool (plant_books s)) (\<lambda>(bk, v).
     bindE (receive_finished today org firm m produced cost (jw_stock (shop s))) (\<lambda>st.
     complete_mo org mo (put_mo (settled_mo produced b m) (s\<lparr>plant_books := bk, shop := (shop s)\<lparr>jw_stock := st\<rparr>\<rparr>)))))))"

section \<open>Preview\<close>

record completion_preview =
  cp_status :: MoStatus
  cp_planned :: decimal
  cp_target :: decimal
  cp_losses :: loss_breakdown
  cp_pool :: decimal
  cp_unit_cost :: decimal
  cp_reasons :: "string list"

definition reason_if :: "bool \<Rightarrow> string \<Rightarrow> string list" where
  "reason_if b r = (if b then [r] else [])"

text \<open>The reasons that block a completion, in the order they are collected.\<close>

definition blocking_reasons :: "uuid \<Rightarrow> mo_row \<Rightarrow> decimal \<Rightarrow> decimal \<Rightarrow> plant \<Rightarrow> string list" where
  "blocking_reasons org m target pool s =
     reason_if (target \<le> 0) ''produced_qty_target must be > 0'' @
     reason_if (mo_status m \<noteq> MoStatus.IN_PROGRESS) ''MO status, expected IN_PROGRESS'' @
     map (\<lambda>_. ''Operation is in state, expected CLOSED/SKIPPED/CANCELLED'') (open_ops org (mo_id m) s) @
     reason_if (policy_of m \<noteq> ''ALL_OR_NONE'') ''completion_policy is not supported in v1'' @
     reason_if (target > qty_quant (planned_qty m)) ''exceeds planned_qty'' @
     (case sum_final_good_output org m s of
        None \<Rightarrow> [''actual output cannot be verified'']
      | Some final_out \<Rightarrow> reason_if (target \<noteq> final_out) ''does not match the verified final-operation output'') @
     reason_if (list_unissued_required_materials org (mo_id m) s \<noteq> []) ''Required materials not fully issued'' @
     reason_if (lb_rework (aggregate_loss_breakdown org (mo_id m) s) > 0) ''Rework must be fully cycled'' @
     reason_if (pool \<le> 0) ''WIP cost pool is zero''"

definition preview_completion :: "uuid \<Rightarrow> uuid \<Rightarrow> uuid \<Rightarrow> decimal \<Rightarrow> plant \<Rightarrow> error + completion_preview" where
  "preview_completion org firm mo target0 s =
     bindE (get_mo org mo s) (\<lambda>m.
     bindE (guardE (mo_firm m = firm) (AppValidationError ''MO does not belong to firm'')) (\<lambda>_.
     let target = qty_quant target0 in
     bindE (sum_wip_cost_pool org mo s) (\<lambda>pool.
     Inr \<lparr>cp_status = mo_status m, cp_planned = qty_quant (planned_qty m), cp_target = target,
          cp_losses = aggregate_loss_breakdown org mo s, cp_pool = pool,
          cp_unit_cost = (if target > 0 then unit_cost_quant (ctx (pool / target)) else unit_cost_quant 0),
          cp_reasons = blocking_reasons org m target pool s\<rparr>)))"

definition can_complete :: "completion_preview \<Rightarrow> bool" where
  "can_complete p \<longleftrightarrow> cp_reasons p = []"


section \<open>Checks and preview\<close>

lemma qty_quant_pos: "0 < qty_quant q \<Longrightarrow> 0 < q"
  using quantize_mono [OF mono_round_half_even, of q 0 4] by (force simp: qty_quant_def not_le)

lemma reason_if_Nil [simp]: "reason_if b r = [] \<longleftrightarrow> \<not> b"
  by (simp add: reason_if_def)

lemma settlement_checks_Inr:
  "settlement_checks org firm mo q series s = Inr (m, produced, b, pool, cost) \<longleftrightarrow>
     0 < q \<and> series \<noteq> [] \<and> get_mo org mo s = Inr m \<and> mo_firm m = firm \<and> sum_wip_cost_pool org mo s = Inr pool \<and>
     produced = qty_quant q \<and> b = aggregate_loss_breakdown org mo s \<and> produced \<noteq> 0 \<and> cost = unit_cost_quant (ctx (pool / produced)) \<and>
     mo_status m = MoStatus.IN_PROGRESS \<and> open_ops org mo s = [] \<and> policy_of m = ''ALL_OR_NONE'' \<and>
     produced \<le> qty_quant (planned_qty m) \<and> sum_final_good_output org m s = Some produced \<and>
     list_unissued_required_materials org mo s = [] \<and> lb_rework b \<le> 0 \<and> 0 < pool"
  by (auto simp: settlement_checks_def Let_def bindE_Inr_iff divE_def not_le not_less split: option.splits if_splits)

lemma get_mo_id: "get_mo org mo s = Inr m \<Longrightarrow> mo_id m = mo"
  by (auto dest: get_mo_mem)

lemma blocking_reasons_Nil:
  "blocking_reasons org m target pool s = [] \<longleftrightarrow>
     0 < target \<and> mo_status m = MoStatus.IN_PROGRESS \<and> open_ops org (mo_id m) s = [] \<and> policy_of m = ''ALL_OR_NONE'' \<and>
     target \<le> qty_quant (planned_qty m) \<and> sum_final_good_output org m s = Some target \<and>
     list_unissued_required_materials org (mo_id m) s = [] \<and> lb_rework (aggregate_loss_breakdown org (mo_id m) s) \<le> 0 \<and> 0 < pool"
  by (auto simp: blocking_reasons_def not_le not_less split: option.splits)

section \<open>Settlement\<close>

lemma receive_finished_effect:
  assumes "receive_finished today org firm m q cost st = Inr st'" and "inv_ok st"
  shows "inv_ok st'" and "item_on_hand org firm it None st' = item_on_hand org firm it None st + (if it = mo_item m then q else 0)"
proof -
  from assms(1) obtain s1 l k ref row where loc: "get_or_create_default_location org firm st = Inr (s1, l)"
    and k: "k = \<lparr>k_org = org, k_firm = firm, k_item = mo_item m, k_location = location_id l, k_lot = None\<rparr>"
    and add: "add_stock today k q cost ref s1 = Inr (st', row)"
    by (auto simp: receive_finished_def)
  have ok1: "inv_ok s1" by (rule default_location_ok [OF loc assms(2)])
  show ok: "inv_ok st'" by (rule add_stock_ok [OF add ok1])
  have "held (item_key org firm it) st' = held (item_key org firm it) s1 + (if item_key org firm it k then q else 0)"
    by (rule held_booked [OF add_stock_effect(1) [OF add inv_ok_parts(1) [OF ok1]]])
  moreover have "held P s1 = held P st" for P using default_location_tables [OF loc] by (intro held_same) simp
  ultimately show "item_on_hand org firm it None st' = item_on_hand org firm it None st + (if it = mo_item m then q else 0)"
    by (auto simp: item_on_hand_held inv_ok_parts(1) [OF ok] inv_ok_parts(1) [OF assms(2)] item_key_def k)
qed

lemma complete_settled:
  assumes "complete_mo org (mo_id m) (put_mo m s) = Inr s'" and "get_mo org (mo_id m) s = Inr m0"
  shows "m\<lparr>mo_status := MoStatus.COMPLETED\<rparr> \<in> set (mos s')" and "plant_books s' = plant_books s" and "shop s' = shop s"
proof -
  from assms(1) obtain r where r: "get_mo org (mo_id m) (put_mo m s) = Inr r"
    and s': "s' = put_mo (r\<lparr>mo_status := MoStatus.COMPLETED, mo_closed := (mo_closed r \<or> False)\<rparr>) (put_mo m s)"
    unfolding complete_mo_def by (elim transition_cases)
  from get_mo_mem [OF r] have "r = m" by (auto simp: put_mo_def set_update_where)
  then show "m\<lparr>mo_status := MoStatus.COMPLETED\<rparr> \<in> set (mos s')"
    using get_mo_mem [OF r] by (auto simp: s' put_mo_def set_update_where)
  show "plant_books s' = plant_books s" "shop s' = shop s" by (simp_all add: s' put_mo_def)
qed

section \<open>Properties\<close>

text \<open>C24: The preview is exact: it shows no blocking reason exactly when the checks of the completion pass
  for the same quantity, and then its quantity, losses, pool and unit cost are the ones the completion
  settles with.\<close>

theorem preview_exact:
  assumes "preview_completion org firm mo q s = Inr p" and "series \<noteq> []"
  shows "(can_complete p \<longleftrightarrow> (\<exists>r. settlement_checks org firm mo q series s = Inr r)) \<and>
    (\<forall>m produced b pool cost. settlement_checks org firm mo q series s = Inr (m, produced, b, pool, cost) \<longrightarrow>
       produced = cp_target p \<and> b = cp_losses p \<and> pool = cp_pool p \<and> cost = cp_unit_cost p)"
proof -
  from assms(1) obtain m pool where m: "get_mo org mo s = Inr m" "mo_firm m = firm" "sum_wip_cost_pool org mo s = Inr pool"
    and p: "p = \<lparr>cp_status = mo_status m, cp_planned = qty_quant (planned_qty m), cp_target = qty_quant q,
          cp_losses = aggregate_loss_breakdown org mo s, cp_pool = pool,
          cp_unit_cost = (if qty_quant q > 0 then unit_cost_quant (ctx (pool / qty_quant q)) else unit_cost_quant 0),
          cp_reasons = blocking_reasons org m (qty_quant q) pool s\<rparr>"
    by (auto simp: preview_completion_def Let_def)
  note id = get_mo_id [OF m(1)]
  have pos: "0 < qty_quant q" if "0 < q" "qty_quant q \<noteq> 0"
    using that quantize_mono [OF mono_round_half_even, of 0 q 4] by (simp add: qty_quant_def less_le)
  have "can_complete p \<longleftrightarrow> (\<exists>produced b pool' cost. settlement_checks org firm mo q series s = Inr (m, produced, b, pool', cost))"
    unfolding settlement_checks_Inr can_complete_def p using m assms(2) pos qty_quant_pos [of q]
    by (auto simp: blocking_reasons_Nil id)
  moreover have "m' = m \<and> produced = cp_target p \<and> b = cp_losses p \<and> pool' = cp_pool p \<and> cost = cp_unit_cost p"
    if "settlement_checks org firm mo q series s = Inr (m', produced, b, pool', cost)" for m' produced b pool' cost
    using that m pos unfolding settlement_checks_Inr p by auto
  ultimately show ?thesis by (metis prod_cases5)
qed

text \<open>An order for two units whose last operation put out \<open>out\<close>, with an issue worth 4 posted to it.\<close>

definition demo_voucher :: voucher where
  "demo_voucher = (new_voucher 1 2 MATERIAL_ISSUE ''MI'' ''0001'' (Date 2026 5 6) ''material_issue'' (Some 90) None None 4 4 demo_now)
     \<lparr>voucher_id := 50\<rparr>"

definition demo_ready :: "decimal \<Rightarrow> plant" where
  "demo_ready out = demo_plant\<lparr>shop := demo_shop\<lparr>jw_stock := demo_pair\<rparr>,
     plant_books := demo_books\<lparr>ledger_accounts := demo_account 30 ''1310'' # ledger_accounts demo_books,
       vouchers := [demo_voucher], voucher_lines := add_lines 1 50 1 [(30, DR, 4), (23, CR, 4)]\<rparr>,
     routings := [demo_routing], routing_edges := [demo_edge],
     mos := [(demo_mo 60 MoStatus.IN_PROGRESS)\<lparr>mo_routing := Some 102, planned_qty := 2\<rparr>],
     mo_ops := [demo_mop 61 41 MoOperationState.CLOSED 2, demo_mop 62 42 MoOperationState.CLOSED out],
     material_issues := [(new_issue 1 2 60 ''MI'' ''0001'' (Date 2026 5 6) 90)\<lparr>mi_voucher := Some 50\<rparr>]\<rparr>"

lemmas eval_completion = demo_ready_def demo_voucher_def demo_edge_def demo_mop_def preview_completion_def sum_wip_cost_pool_def
  wip_debits_def blocking_reasons_def open_ops_def mo_ops_of_def TERMINAL_STATES_def policy_of_def sum_final_good_output_def
  list_unissued_required_materials_def aggregate_loss_breakdown_def is_qc_op_def latest_qc_event_def reason_if_def
  upper_def upper_char_def eval_issue

lemma qty_quant_int [simp]: "qty_quant (numeral n) = numeral n" "qty_quant 0 = 0"
  by (simp_all add: qty_quant_def)

lemma demo_preview: "\<exists>p. preview_completion 1 2 60 2 (demo_ready 2) = Inr p \<and> cp_reasons p = [] \<and> cp_pool p = 4"
  by (simp add: eval_completion)

lemma preview_exact_witness:
  "\<exists>p m produced b cost. preview_completion 1 2 60 2 (demo_ready 2) = Inr p \<and> can_complete p \<and>
     settlement_checks 1 2 60 2 ''MOC'' (demo_ready 2) = Inr (m, produced, b, 4, cost)"
proof -
  from demo_preview obtain p where p: "preview_completion 1 2 60 2 (demo_ready 2) = Inr p" "cp_reasons p = []" "cp_pool p = 4"
    by (elim exE conjE)
  have "can_complete p" using p(2) by (simp add: can_complete_def)
  with preview_exact [OF p(1), of "''MOC''"] p(3) obtain m produced b cost where
    "settlement_checks 1 2 60 2 ''MOC'' (demo_ready 2) = Inr (m, produced, b, 4, cost)" by (metis list.distinct(1) prod_cases5)
  with p(1) \<open>can_complete p\<close> show ?thesis by (intro exI conjI)
qed

text \<open>A quantity that is positive but rounds to zero slips past the first check: where the preview
  names the rounded quantity as the one reason against it, the completion divides by it and raises
  DivisionByZero instead of refusing the request.\<close>

theorem rounded_to_zero_crashes:
  assumes "preview_completion org firm mo q s = Inr p" and "series \<noteq> []" and "0 < q" and "qty_quant q = 0"
    and "cp_reasons p = [''produced_qty_target must be > 0'']"
  shows "settlement_checks org firm mo q series s = Inl DivisionByZero"
proof -
  from assms(1) obtain m pool where m: "get_mo org mo s = Inr m" "mo_firm m = firm" "sum_wip_cost_pool org mo s = Inr pool"
    and r: "cp_reasons p = blocking_reasons org m 0 pool s"
    by (auto simp: preview_completion_def Let_def assms(4))
  have "mo_status m = MoStatus.IN_PROGRESS \<and> open_ops org mo s = [] \<and> policy_of m = ''ALL_OR_NONE'' \<and>
     0 \<le> qty_quant (planned_qty m) \<and> sum_final_good_output org m s = Some 0 \<and>
     list_unissued_required_materials org mo s = [] \<and> lb_rework (aggregate_loss_breakdown org mo s) \<le> 0 \<and> 0 < pool"
    using r assms(5) get_mo_id [OF m(1)]
    by (auto simp: blocking_reasons_def reason_if_def not_less not_le split: if_splits option.splits)
  with m assms(2-4) show ?thesis
    by (auto simp: settlement_checks_def Let_def bindE_def divE_def guardE_def)
qed


lemma demo_tiny: "qty_quant (1 / 100000) = 0"
proof -
  have "\<lfloor>1 / 10 :: rat\<rfloor> = 0" by (simp add: floor_eq_iff)
  then show ?thesis by (simp add: qty_quant_def quantize_def round_half_even_def)
qed

lemma rounded_to_zero_crashes_witness:
  "settlement_checks 1 2 60 (1 / 100000) ''MOC'' (demo_ready 0) = Inl DivisionByZero"
proof -
  have "\<exists>p. preview_completion 1 2 60 (1 / 100000) (demo_ready 0) = Inr p \<and> cp_reasons p = [''produced_qty_target must be > 0'']"
    by (simp add: eval_completion demo_tiny)
  then obtain p where "preview_completion 1 2 60 (1 / 100000) (demo_ready 0) = Inr p" "cp_reasons p = [''produced_qty_target must be > 0'']"
    by (elim exE conjE)
  from rounded_to_zero_crashes [OF this(1) _ _ demo_tiny this(2), of "''MOC''"] show ?thesis by simp
qed

text \<open>C22: A completion settles the order: the whole pool of its issues moves from work in process to
  inventory, the stock of its item rises by the produced quantity, which is the verified output of the
  routing's last operations and within the plan, and the order ends completed with that quantity.\<close>

theorem completion_settles:
  assumes "complete_mo_with_settlement now today org firm mo q narr series s = Inr s'" and "inv_ok (jw_stock (shop s))"
  shows "\<exists>m pool produced wip inventory. get_mo org mo s = Inr m \<and> sum_wip_cost_pool org mo s = Inr pool \<and> 0 < pool \<and>
    resolve_system_ledger org WIP_LEDGER_CODE (plant_books s) = Inr wip \<and>
    resolve_system_ledger org INVENTORY_LEDGER_CODE (plant_books s) = Inr inventory \<and>
    (\<forall>a. account_balance (plant_books s') a = account_balance (plant_books s) a
        + pool * ((if a = ledger_id inventory then 1 else 0) - (if a = ledger_id wip then 1 else 0))) \<and>
    inv_ok (jw_stock (shop s')) \<and>
    (\<forall>it. item_on_hand org firm it None (jw_stock (shop s'))
        = item_on_hand org firm it None (jw_stock (shop s)) + (if it = mo_item m then produced else 0)) \<and>
    sum_final_good_output org m s = Some produced \<and> produced \<le> qty_quant (planned_qty m) \<and>
    (\<exists>m' \<in> set (mos s'). mo_id m' = mo \<and> mo_status m' = MoStatus.COMPLETED \<and> produced_qty m' = produced)"
proof -
  from assms(1) obtain m produced b pool cost wip inventory bk v st where
    chk: "settlement_checks org firm mo q series s = Inr (m, produced, b, pool, cost)"
    and led: "resolve_system_ledger org WIP_LEDGER_CODE (plant_books s) = Inr wip"
      "resolve_system_ledger org INVENTORY_LEDGER_CODE (plant_books s) = Inr inventory"
    and post: "post_completion now today org firm mo series narr wip inventory pool (plant_books s) = Inr (bk, v)"
    and fin: "receive_finished today org firm m produced cost (jw_stock (shop s)) = Inr st"
    and fnl: "complete_mo org mo (put_mo (settled_mo produced b m) (s\<lparr>plant_books := bk, shop := (shop s)\<lparr>jw_stock := st\<rparr>\<rparr>)) = Inr s'"
    by (auto simp: complete_mo_with_settlement_def)
  note c = chk [unfolded settlement_checks_Inr]
  have id: "mo_id (settled_mo produced b m) = mo" using c get_mo_id by (auto simp: settled_mo_def)
  have "get_mo org mo (s\<lparr>plant_books := bk, shop := (shop s)\<lparr>jw_stock := st\<rparr>\<rparr>) = Inr m"
    using c by (simp add: get_mo_def)
  note e = complete_settled [of org "settled_mo produced b m", unfolded id, OF fnl this]
  from post_voucher_Inr(1) post have "posted (plant_books s) bk v [(ledger_id inventory, DR, pool), (ledger_id wip, CR, pool)]"
    by (auto simp: post_completion_def)
  then have bal: "account_balance (plant_books s') a = account_balance (plant_books s) a
        + pool * ((if a = ledger_id inventory then 1 else 0) - (if a = ledger_id wip then 1 else 0))" for a
    using posted_balance [of "plant_books s" bk v _ a] by (simp add: e(2))
  have "\<exists>m' \<in> set (mos s'). mo_id m' = mo \<and> mo_status m' = MoStatus.COMPLETED \<and> produced_qty m' = produced"
    using e(1) id by (intro bexI [OF _ e(1)]) (simp add: settled_mo_def)
  moreover have "jw_stock (shop s') = st" using e(3) by simp
  ultimately show ?thesis using c led bal receive_finished_effect [OF fin assms(2)] by auto
qed


lemma demo_completes:
  "\<exists>s'. complete_mo_with_settlement demo_now (Date 2026 5 7) 1 2 60 2 None ''MOC'' (demo_ready 2) = Inr s'"
  by (simp add: eval_completion settlement_checks_def complete_mo_with_settlement_def divE_def post_completion_def unit_cost_quant_def
      receive_finished_def get_or_create_default_location_def complete_mo_def settled_mo_def find_location_by_code_def same_reversal_def same_accrual_def same_posting_def same_number_def)

lemma completion_settles_witness:
  "\<exists>s'. complete_mo_with_settlement demo_now (Date 2026 5 7) 1 2 60 2 None ''MOC'' (demo_ready 2) = Inr s' \<and>
     account_balance (plant_books s') 30 = 0 \<and> item_on_hand 1 2 3 None (jw_stock (shop s')) = 4"
proof -
  from demo_completes obtain s' where r: "complete_mo_with_settlement demo_now (Date 2026 5 7) 1 2 60 2 None ''MOC'' (demo_ready 2) = Inr s'"
    by (elim exE)
  have ok: "inv_ok (jw_stock (shop (demo_ready 2)))" using demo_pair_ok by (simp add: demo_ready_def demo_shop_def)
  have ev: "map_sum id mo_item (get_mo 1 60 (demo_ready 2)) = Inr 3" "sum_wip_cost_pool 1 60 (demo_ready 2) = Inr 4"
    "map_sum id ledger_id (resolve_system_ledger 1 WIP_LEDGER_CODE (plant_books (demo_ready 2))) = Inr 30"
    "map_sum id ledger_id (resolve_system_ledger 1 INVENTORY_LEDGER_CODE (plant_books (demo_ready 2))) = Inr 23"
    "account_balance (plant_books (demo_ready 2)) 30 = 4" "item_on_hand 1 2 3 None (jw_stock (shop (demo_ready 2))) = 2"
    "get_mo 1 60 (demo_ready 2) = Inr m \<Longrightarrow> sum_final_good_output 1 m (demo_ready 2) = Some 2" for m
    by (auto simp: eval_completion account_balance_def signed_def)
  from completion_settles [OF r ok] obtain m pool produced wip inventory where
    g: "get_mo 1 60 (demo_ready 2) = Inr m" "sum_wip_cost_pool 1 60 (demo_ready 2) = Inr pool"
      "resolve_system_ledger 1 WIP_LEDGER_CODE (plant_books (demo_ready 2)) = Inr wip"
      "resolve_system_ledger 1 INVENTORY_LEDGER_CODE (plant_books (demo_ready 2)) = Inr inventory"
    and b: "\<forall>a. account_balance (plant_books s') a = account_balance (plant_books (demo_ready 2)) a
        + pool * ((if a = ledger_id inventory then 1 else 0) - (if a = ledger_id wip then 1 else 0))"
    and h: "\<forall>it. item_on_hand 1 2 it None (jw_stock (shop s')) = item_on_hand 1 2 it None (jw_stock (shop (demo_ready 2)))
        + (if it = mo_item m then produced else 0)"
    and o: "sum_final_good_output 1 m (demo_ready 2) = Some produced" by (elim exE conjE)
  have "pool = 4" "ledger_id wip = 30" "ledger_id inventory = 23" "mo_item m = 3" "produced = 2"
    using g ev(1-4) ev(7) [OF g(1)] o by simp_all
  then have "account_balance (plant_books s') 30 = 0" "item_on_hand 1 2 3 None (jw_stock (shop s')) = 4"
    using spec [OF b, of 30] spec [OF h, of 3] ev(5,6) by simp_all
  with r show ?thesis by (intro exI conjI)
qed


section \<open>The pool and the issues\<close>

text \<open>The keys that tie issues to vouchers, and amounts of two places.\<close>

definition issues_linked :: "plant \<Rightarrow> bool" where
  "issues_linked s \<longleftrightarrow>
     gl_ok (plant_books s) \<and> mi_id ` set (material_issues s) \<subseteq> issued_ids s \<and>
     (\<forall>w \<in> set (material_issues s). \<forall>v. mi_voucher w = Some v \<longrightarrow> v \<in> voucher_id ` set (vouchers (plant_books s))) \<and>
     (\<forall>l \<in> set (voucher_lines (plant_books s)). places 2 (amount l))"

definition contrib :: "uuid \<Rightarrow> uuid \<Rightarrow> uuid \<Rightarrow> voucher_line \<Rightarrow> voucher \<Rightarrow> material_issue \<Rightarrow> decimal list" where
  "contrib org mo wip l v i =
     (if voucher_id v = vl_voucher l \<and> mi_voucher i = Some (voucher_id v) \<and> mi_org i = org \<and> mi_mo i = mo \<and> \<not> mi_deleted i \<and>
         vl_ledger l = wip \<and> line_type l = DR \<and> \<not> v_deleted v \<and> v_status v = POSTED then [amount l] else [])"

lemma wip_debits_contrib:
  "wip_debits org mo wip s = concat (map (\<lambda>l. concat (map (\<lambda>v. concat (map (contrib org mo wip l v) (material_issues s)))
     (vouchers (plant_books s)))) (voucher_lines (plant_books s)))"
proof -
  have "(if a then if b then if c then if d then if e then if f then if g then if h then if k then [x] else [] else [] else []
      else [] else [] else [] else [] else [] else []) = (if a \<and> b \<and> c \<and> d \<and> e \<and> f \<and> g \<and> h \<and> k then [x] else [])"
    for a b c d e f g h k and x :: decimal by simp
  then show ?thesis by (simp add: wip_debits_def contrib_def [abs_def])
qed

lemma concat_map_Nil: "(\<And>x. x \<in> set xs \<Longrightarrow> f x = []) \<Longrightarrow> concat (map f xs) = []"
  by (induction xs) auto

lemma wip_debits_issue:
  assumes "posted (plant_books s) (plant_books s') v [(wip, DR, tot), (inventory, CR, tot)]" and "issues_linked s"
    and "material_issues s' = material_issues s @ [n]" and "mi_voucher n = Some (voucher_id v)" and "mi_org n = org" and "mi_mo n = mo"
    and "\<not> mi_deleted n" and "\<not> v_deleted v" and "v_status v = POSTED"
  shows "wip_debits org mo wip s' = wip_debits org mo wip s @ [tot]"
proof -
  let ?b = "plant_books s"
  have vs: "vouchers (plant_books s') = vouchers ?b @ [v]"
    and ls: "voucher_lines (plant_books s') = voucher_lines ?b @ add_lines (v_org v) (voucher_id v) 1 [(wip, DR, tot), (inventory, CR, tot)]"
    using assms(1) by (simp_all add: posted_def)
  have ok: "gl_ok ?b" using assms(2) by (simp add: issues_linked_def)
  have new: "voucher_id v \<notin> voucher_id ` set (vouchers ?b)"
    using fresh_id [OF ok] assms(1) by (simp add: posted_def)
  have old: "contrib org mo wip l v i = []" if "i \<in> set (material_issues s)" for l i
    using that assms(2) new by (auto simp: contrib_def issues_linked_def)
  have noti: "contrib org mo wip l w n = []" if "w \<in> set (vouchers ?b)" for l w
    using that new assms(4) by (auto simp: contrib_def image_iff)
  have line: "contrib org mo wip l v n = []" if "l \<in> set (voucher_lines ?b)" for l
    using that ok new by (auto simp: contrib_def gl_ok_def)
  let ?old = "\<lambda>l. concat (map (\<lambda>v. concat (map (contrib org mo wip l v) (material_issues s))) (vouchers ?b))"
  have split: "concat (map (\<lambda>v. concat (map (contrib org mo wip l v) (material_issues s'))) (vouchers (plant_books s')))
      = ?old l @ contrib org mo wip l v n" for l
  proof -
    have same: "concat (map (contrib org mo wip l w) (material_issues s')) = concat (map (contrib org mo wip l w) (material_issues s))"
      if "w \<in> set (vouchers ?b)" for w using that by (simp add: assms(3) noti)
    have "concat (map (\<lambda>v. concat (map (contrib org mo wip l v) (material_issues s'))) (vouchers ?b)) = ?old l"
      by (rule arg_cong [of _ _ concat], rule map_cong [OF refl], erule same)
    moreover have "concat (map (contrib org mo wip l v) (material_issues s')) = contrib org mo wip l v n"
      using concat_map_Nil [of "material_issues s" "contrib org mo wip l v"] old by (simp add: assms(3))
    ultimately show ?thesis by (simp add: vs)
  qed
  have none: "?old l = []" if "vl_voucher l = voucher_id v" for l
  proof (intro concat_map_Nil)
    fix w i assume "w \<in> set (vouchers ?b)"
    with that new show "contrib org mo wip l w i = []" by (auto simp: contrib_def image_iff)
  qed
  have "concat (map (\<lambda>l. ?old l @ contrib org mo wip l v n) (voucher_lines ?b)) = concat (map ?old (voucher_lines ?b))"
    by (intro arg_cong [of _ _ concat] map_cong) (simp_all add: line)
  moreover have "contrib org mo wip l v n = (if vl_voucher l = voucher_id v \<and> vl_ledger l = wip \<and> line_type l = DR then [amount l] else [])" for l
    using assms(4-9) by (auto simp: contrib_def)
  ultimately show ?thesis unfolding wip_debits_contrib split ls by (simp add: none)
qed

lemma places_sum_list: "\<forall>x \<in> set xs. places k x \<Longrightarrow> places k (sum_list xs)"
  by (induction xs) auto

text \<open>C23: An issue fills the pool its order is settled from by exactly the value of its lines.\<close>

theorem issue_fills_pool:
  assumes "issue_materials now today org firm mo rs narr on series s = Inr s'" and "inv_ok (jw_stock (shop s))" and "ids_ok s"
    and "issues_linked s" and "sum_wip_cost_pool org mo s = Inr pool"
  shows "\<exists>new. issue_lines s' = issue_lines s @ new \<and> sum_wip_cost_pool org mo s' = Inr (pool + (\<Sum>l\<leftarrow>new. mil_value l))"
proof (rule issue_materials_cases [OF assms(1-3)])
  fix m xs i v wip inventory n d and new :: "material_issue_line list"
  let ?tot = "\<Sum>l\<leftarrow>new. mil_value l"
  assume wip: "resolve_system_ledger org WIP_LEDGER_CODE (plant_books s) = Inr wip" and lines: "issue_lines s' = issue_lines s @ new"
    and i: "i \<notin> issued_ids s" and "\<forall>l \<in> set new. places 2 (mil_value l)"
    and post: "post_issue now org firm series d (issue_narration series n m narr) i wip inventory ?tot (plant_books s) = Inr (plant_books s', v)"
    and mi: "material_issues s' = update_where (\<lambda>w. mi_id w = i) (\<lambda>w. w\<lparr>mi_voucher := Some (voucher_id v)\<rparr>)
         (material_issues s @ [new_issue org firm mo series n d i])"
  then have tot: "places 2 ?tot" by (intro places_sum_list) simp
  have p: "posted (plant_books s) (plant_books s') v [(ledger_id wip, DR, ?tot), (ledger_id inventory, CR, ?tot)]"
    and f: "\<not> v_deleted v" "v_status v = POSTED"
    using post_voucher_Inr(1,2) [OF post [unfolded post_issue_def]] by (simp_all add: new_voucher_def)
  have "\<forall>w \<in> set (material_issues s). mi_id w \<noteq> i" using i assms(4) by (auto simp: issues_linked_def)
  then have "update_where (\<lambda>w. mi_id w = i) (\<lambda>w. w\<lparr>mi_voucher := Some (voucher_id v)\<rparr>) (material_issues s) = material_issues s"
    unfolding update_where_def by (intro map_idI) auto
  then have "material_issues s' = material_issues s @ [(new_issue org firm mo series n d i)\<lparr>mi_voucher := Some (voucher_id v)\<rparr>]"
    by (simp add: mi update_where_def new_issue_def)
  from wip_debits_issue [OF p assms(4) this _ _ _ _ f, of org mo]
  have w: "wip_debits org mo (ledger_id wip) s' = wip_debits org mo (ledger_id wip) s @ [?tot]" by (simp add: new_issue_def)
  have "places 2 x" if "x \<in> set (wip_debits org mo (ledger_id wip) s)" for x
    using that assms(4) by (auto simp: wip_debits_contrib contrib_def issues_linked_def split: if_splits)
  then have pl: "places 2 (sum_list (wip_debits org mo (ledger_id wip) s))" by (blast intro: places_sum_list)
  have pool: "pool = sum_list (wip_debits org mo (ledger_id wip) s)"
    using assms(5) wip pl by (simp add: sum_wip_cost_pool_def)
  have "resolve_system_ledger org WIP_LEDGER_CODE (plant_books s') = Inr wip"
    using wip p by (simp add: resolve_system_ledger_def posted_def)
  moreover have "places 2 (pool + ?tot)" unfolding pool using pl tot by (blast intro: places_add places_sum_list)
  ultimately have "sum_wip_cost_pool org mo s' = Inr (pool + ?tot)" by (simp add: sum_wip_cost_pool_def w pool)
  with lines show ?thesis by blast
qed


lemma issue_fills_pool_witness:
  "\<exists>s'. issue_materials demo_now (Date 2026 5 6) 1 2 60 demo_issue None None ''MI'' demo_stores = Inr s' \<and>
     sum_wip_cost_pool 1 60 s' = Inr 5"
proof -
  from demo_issued obtain s' where r: "issue_materials demo_now (Date 2026 5 6) 1 2 60 demo_issue None None ''MI'' demo_stores = Inr s'"
    and l: "map mil_value (issue_lines s') = [2, 3]" by (elim exE conjE)
  have none: "issue_lines demo_stores = []" by (simp add: demo_stores_def demo_plant_def)
  have linked: "issues_linked demo_stores"
    by (simp add: issues_linked_def demo_stores_def demo_plant_def gl_ok_def demo_books_def inj_def)
  have pool: "sum_wip_cost_pool 1 60 demo_stores = Inr 0" by (simp add: eval_completion)
  from issue_fills_pool [OF r demo_stores_ok linked pool] obtain new where new: "issue_lines s' = issue_lines demo_stores @ new"
    and p: "sum_wip_cost_pool 1 60 s' = Inr (0 + (\<Sum>l\<leftarrow>new. mil_value l))" by (elim exE conjE)
  have "(\<Sum>l\<leftarrow>new. mil_value l) = 5" using l none new by simp
  with p r show ?thesis by (intro exI [of _ s']) simp
qed

end
