(* ===== verification/SalesOrders.thy ===== *)
theory SalesOrders
  imports StockMoves
begin

text \<open>
  Sales orders and delivery challans, the first half of \<^verbatim>\<open>app/service/sales_service.py\<close>: an order
  is confirmed, challans are issued against it and take the goods out of the stock, and the order
  follows what has left. The state is the stock tables with the customers, orders, challans and
  their lines. Addresses, notes, delivery dates and audit columns are not modelled; lines are known
  by their place in the table.
\<close>

section \<open>State\<close>

datatype SalesOrderStatus = DRAFT | CONFIRMED | PARTIAL_DC | FULLY_DISPATCHED | INVOICED | CANCELLED

datatype DCStatus = DRAFT | ISSUED | ACKNOWLEDGED | IN_PROCESS | RETURNED | CLOSED

record customer_row =
  cust_id :: uuid
  cust_org :: uuid
  is_customer :: bool
  cust_state :: "string option"
  cust_gstin :: "string option"
  cust_sez :: bool
  cust_export :: bool
  cust_deleted :: bool

record so_row =
  sales_order_id :: uuid
  so_org :: uuid
  so_firm :: uuid
  so_series :: string
  so_number :: string
  so_party :: uuid
  so_date :: date
  so_status :: SalesOrderStatus
  so_total :: decimal
  so_deleted :: bool

record so_line =
  sol_org :: uuid
  sol_so :: uuid
  sol_item :: uuid
  qty_ordered :: decimal
  sol_dispatched :: decimal
  sol_price :: decimal
  sol_amount :: decimal
  sol_gst_rate :: "decimal option"
  sol_sequence :: "nat option"

record dc_row =
  delivery_challan_id :: uuid
  dc_org :: uuid
  dc_firm :: uuid
  dc_series :: string
  dc_number :: string
  dc_so :: "uuid option"
  dc_party :: uuid
  dispatch_date :: date
  dc_status :: DCStatus
  dc_total_qty :: decimal
  dc_total_amount :: "decimal option"
  dc_deleted :: bool

record dc_line =
  dcl_org :: uuid
  dcl_dc :: uuid
  dcl_item :: uuid
  dcl_lot :: "uuid option"
  qty_dispatched :: decimal
  dcl_price :: "decimal option"
  dcl_sequence :: "nat option"
  dcl_deleted :: bool

record sales =
  sale_stock :: inv
  customers :: "customer_row list"
  sales_orders :: "so_row list"
  so_lines :: "so_line list"
  challans :: "dc_row list"
  dc_lines :: "dc_line list"
  sale_supply :: "nat \<Rightarrow> uuid"
  sale_count :: nat

text \<open>The lines of a request are dictionaries: a missing \<^verbatim>\<open>sequence\<close> key is \<open>None\<close>, a null one \<open>Some None\<close>.\<close>

record so_request =
  rq_item :: uuid
  rq_qty :: decimal
  rq_price :: decimal
  rq_gst_rate :: "decimal option"
  rq_sequence :: "nat option option"

record dc_request =
  dq_item :: uuid
  dq_qty :: decimal
  dq_price :: "decimal option"
  dq_lot :: "uuid option"
  dq_sequence :: "nat option option"

definition sale_mint :: "sales \<Rightarrow> sales \<times> uuid" where
  "sale_mint s = (s\<lparr>sale_count := Suc (sale_count s)\<rparr>, sale_supply s (sale_count s))"

section \<open>Numbers and guards\<close>

definition so_numbers :: "uuid \<Rightarrow> uuid \<Rightarrow> string \<Rightarrow> sales \<Rightarrow> string list" where
  "so_numbers org firm series s =
     map so_number (filter (\<lambda>w. so_org w = org \<and> so_firm w = firm \<and> so_series w = series) (sales_orders s))"

definition allocate_so_number :: "uuid \<Rightarrow> uuid \<Rightarrow> string \<Rightarrow> sales \<Rightarrow> string" where
  "allocate_so_number org firm series s = next_by_text (so_numbers org firm series s)"

definition dc_numbers :: "uuid \<Rightarrow> uuid \<Rightarrow> string \<Rightarrow> sales \<Rightarrow> string list" where
  "dc_numbers org firm series s =
     map dc_number (filter (\<lambda>d. dc_org d = org \<and> dc_firm d = firm \<and> dc_series d = series) (challans s))"

definition allocate_dc_number :: "uuid \<Rightarrow> uuid \<Rightarrow> string \<Rightarrow> sales \<Rightarrow> string" where
  "allocate_dc_number org firm series s = next_by_text (dc_numbers org firm series s)"

definition ensure_party_in_org :: "uuid \<Rightarrow> uuid \<Rightarrow> sales \<Rightarrow> error + customer_row" where
  "ensure_party_in_org org pid s =
     bindE (scalar_one_or_none
              (filter (\<lambda>p. cust_id p = pid \<and> cust_org p = org \<and> \<not> cust_deleted p) (customers s)))
       (\<lambda>r. case r of
          None \<Rightarrow> Inl (AppValidationError ''Party not found in this org'')
        | Some p \<Rightarrow> if is_customer p then Inr p
                    else Inl (AppValidationError ''Party is not flagged as a customer''))"

definition firm_in_org :: "uuid \<Rightarrow> uuid \<Rightarrow> sales \<Rightarrow> error + unit" where
  "firm_in_org org firm s =
     bindE (scalar_one_or_none (filter (\<lambda>f. firm_id f = firm \<and> firm_org f = org) (firms (sale_stock s))))
       (\<lambda>r. guardE (r \<noteq> None) (AppValidationError ''Firm not found in this org''))"

definition items_in_org :: "uuid \<Rightarrow> uuid list \<Rightarrow> sales \<Rightarrow> error + unit" where
  "items_in_org org ids s =
     guardE (\<forall>i \<in> set ids. \<exists>r \<in> set (items (sale_stock s)). item_org r = org \<and> item_id r = i \<and> \<not> item_deleted r)
       (AppValidationError ''Items not found in this org'')"

section \<open>Orders\<close>

definition SO_NUMBER_KEY :: string where
  "SO_NUMBER_KEY = ''sales_order_org_id_firm_id_series_number_key''"

definition insert_so :: "so_row \<Rightarrow> sales \<Rightarrow> error + sales \<times> so_row" where
  "insert_so w s =
     (if \<exists>v \<in> set (sales_orders s). so_org v = so_org w \<and> so_firm v = so_firm w \<and> so_series v = so_series w \<and>
                                    so_number v = so_number w
      then Inl (IntegrityError SO_NUMBER_KEY)
      else case sale_mint s of (s1, i) \<Rightarrow>
             let w' = w\<lparr>sales_order_id := i\<rparr> in Inr (s1\<lparr>sales_orders := sales_orders s1 @ [w']\<rparr>, w'))"

text \<open>Amounts are kept in a column of two decimals, rounded half up by the database.\<close>

definition new_so_line :: "so_row \<Rightarrow> nat \<times> so_request \<Rightarrow> so_line" where
  "new_so_line w = (\<lambda>(idx, r).
     \<lparr>sol_org = so_org w, sol_so = sales_order_id w, sol_item = rq_item r, qty_ordered = rq_qty r, sol_dispatched = 0,
      sol_price = rq_price r, sol_amount = quantize round_half_up 2 (ctx (rq_qty r * rq_price r)),
      sol_gst_rate = rq_gst_rate r, sol_sequence = (case rq_sequence r of Some n \<Rightarrow> n | None \<Rightarrow> Some (Suc idx))\<rparr>)"

definition so_request_total :: "so_request list \<Rightarrow> decimal" where
  "so_request_total rs = (\<Sum>r\<leftarrow>rs. ctx (rq_qty r * rq_price r))"

definition new_so :: "uuid \<Rightarrow> uuid \<Rightarrow> uuid \<Rightarrow> date \<Rightarrow> string \<Rightarrow> string \<Rightarrow> decimal \<Rightarrow> so_row" where
  "new_so org firm party d series n tot =
     \<lparr>sales_order_id = 0, so_org = org, so_firm = firm, so_series = series, so_number = n, so_party = party, so_date = d,
      so_status = SalesOrderStatus.DRAFT, so_total = tot, so_deleted = False\<rparr>"

definition create_so ::
  "uuid \<Rightarrow> uuid \<Rightarrow> uuid \<Rightarrow> date \<Rightarrow> string \<Rightarrow> so_request list \<Rightarrow> sales \<Rightarrow> error + sales \<times> so_row" where
  "create_so org firm party d series rs s =
     bindE (guardE (rs \<noteq> []) (AppValidationError ''SO must have at least one line'')) (\<lambda>_.
     bindE (firm_in_org org firm s) (\<lambda>_.
     bindE (ensure_party_in_org org party s) (\<lambda>_.
     bindE (items_in_org org (map rq_item rs) s) (\<lambda>_.
     bindE (insert_so (new_so org firm party d series (allocate_so_number org firm series s)
                         (quantize round_half_up 2 (so_request_total rs))) s) (\<lambda>(s1, w).
     Inr (s1\<lparr>so_lines := so_lines s1 @ map (new_so_line w) (enumerate 0 rs)\<rparr>, w))))))"

definition get_so :: "uuid \<Rightarrow> uuid \<Rightarrow> sales \<Rightarrow> error + so_row" where
  "get_so org i s =
     bindE (scalar_one_or_none (filter (\<lambda>w. sales_order_id w = i \<and> so_org w = org \<and> \<not> so_deleted w) (sales_orders s)))
       (\<lambda>r. case r of None \<Rightarrow> Inl (AppValidationError ''SalesOrder not found'') | Some w \<Rightarrow> Inr w)"

definition put_so :: "so_row \<Rightarrow> sales \<Rightarrow> sales" where
  "put_so w s = s\<lparr>sales_orders := update_where (\<lambda>v. sales_order_id v = sales_order_id w) (\<lambda>_. w) (sales_orders s)\<rparr>"

definition confirm_so :: "uuid \<Rightarrow> uuid \<Rightarrow> sales \<Rightarrow> error + sales" where
  "confirm_so org i s =
     bindE (get_so org i s) (\<lambda>w.
     bindE (guardE (so_status w = SalesOrderStatus.DRAFT) (InvoiceStateError ''Cannot confirm SO'')) (\<lambda>_.
     Inr (put_so (w\<lparr>so_status := CONFIRMED\<rparr>) s)))"

definition cancel_so :: "uuid \<Rightarrow> uuid \<Rightarrow> sales \<Rightarrow> error + sales" where
  "cancel_so org i s =
     bindE (get_so org i s) (\<lambda>w.
     bindE (guardE (so_status w \<notin> {PARTIAL_DC, FULLY_DISPATCHED, INVOICED}) (InvoiceStateError ''Cannot cancel SO'')) (\<lambda>_.
     if so_status w = SalesOrderStatus.CANCELLED then Inr s else Inr (put_so (w\<lparr>so_status := SalesOrderStatus.CANCELLED\<rparr>) s)))"

definition soft_delete_so :: "uuid \<Rightarrow> uuid \<Rightarrow> sales \<Rightarrow> error + sales" where
  "soft_delete_so org i s =
     bindE (scalar_one_or_none (filter (\<lambda>w. sales_order_id w = i \<and> so_org w = org) (sales_orders s))) (\<lambda>r.
     case r of
       None \<Rightarrow> Inl (AppValidationError ''SalesOrder not found'')
     | Some w \<Rightarrow>
         if so_deleted w then Inr s
         else bindE (guardE (so_status w \<in> {SalesOrderStatus.DRAFT, SalesOrderStatus.CANCELLED})
                       (InvoiceStateError ''Cannot delete SO'')) (\<lambda>_. Inr (put_so (w\<lparr>so_deleted := True\<rparr>) s)))"

section \<open>What has been dispatched\<close>

definition lines_of_so :: "uuid \<Rightarrow> sales \<Rightarrow> so_line list" where
  "lines_of_so i s = filter (\<lambda>l. sol_so l = i) (so_lines s)"

text \<open>The issued challans of an order; one may be left out.\<close>

definition issued_challans :: "so_row \<Rightarrow> uuid option \<Rightarrow> sales \<Rightarrow> dc_row list" where
  "issued_challans w exclude s =
     filter (\<lambda>d. dc_so d = Some (sales_order_id w) \<and> dc_org d = so_org w \<and> \<not> dc_deleted d \<and> dc_status d \<noteq> DCStatus.DRAFT \<and>
                 exclude \<noteq> Some (delivery_challan_id d)) (challans s)"

definition item_dispatched :: "so_row \<Rightarrow> uuid option \<Rightarrow> sales \<Rightarrow> uuid \<Rightarrow> decimal" where
  "item_dispatched w exclude s item =
     (\<Sum>l\<leftarrow>filter (\<lambda>l. dcl_item l = item \<and> \<not> dcl_deleted l \<and>
                      dcl_dc l \<in> delivery_challan_id ` set (issued_challans w exclude s)) (dc_lines s). qty_dispatched l)"

definition ordered_by_item :: "uuid \<Rightarrow> sales \<Rightarrow> uuid \<Rightarrow> decimal" where
  "ordered_by_item i s item = (\<Sum>l\<leftarrow>filter (\<lambda>l. sol_item l = item) (lines_of_so i s). qty_ordered l)"

definition advance_so_status_after_dc :: "so_row \<Rightarrow> sales \<Rightarrow> sales" where
  "advance_so_status_after_dc w s =
     (if so_status w = SalesOrderStatus.CANCELLED then s
      else
        let lines = lines_of_so (sales_order_id w) s;
            disp = item_dispatched w None s;
            any_dispatched = (\<exists>l \<in> set lines. disp (sol_item l) > 0);
            fully_dispatched = (\<forall>l \<in> set lines. \<not> disp (sol_item l) < qty_ordered l);
            st = (if fully_dispatched \<and> any_dispatched then FULLY_DISPATCHED
                  else if any_dispatched then PARTIAL_DC else so_status w)
        in put_so (w\<lparr>so_status := st\<rparr>)
             (s\<lparr>so_lines := update_where (\<lambda>l. sol_so l = sales_order_id w) (\<lambda>l. l\<lparr>sol_dispatched := disp (sol_item l)\<rparr>)
                             (so_lines s)\<rparr>))"

text \<open>The items of a challan, each once, with the quantity over its lines, in the order first met.\<close>

definition first_met :: "'a list \<Rightarrow> 'a list" where
  "first_met xs = rev (remdups (rev xs))"

definition this_by_item :: "(uuid \<times> decimal) list \<Rightarrow> uuid \<Rightarrow> decimal" where
  "this_by_item qs item = (\<Sum>q\<leftarrow>filter (\<lambda>q. fst q = item) qs. snd q)"

definition check_dispatch :: "so_row \<Rightarrow> uuid option \<Rightarrow> (uuid \<times> decimal) list \<Rightarrow> sales \<Rightarrow> uuid \<Rightarrow> error + unit" where
  "check_dispatch w exclude qs s item =
     (if item \<notin> sol_item ` set (lines_of_so (sales_order_id w) s)
      then Inl (AppValidationError ''DC line item is not on SO'')
      else if item_dispatched w exclude s item + this_by_item qs item > ordered_by_item (sales_order_id w) s item
      then Inl (AppValidationError ''Over-dispatch on SO'') else Inr ())"

definition validate_dc_lines_against_so ::
  "so_row \<Rightarrow> (uuid \<times> decimal) list \<Rightarrow> uuid option \<Rightarrow> sales \<Rightarrow> error + unit" where
  "validate_dc_lines_against_so w qs exclude s =
     bindE (mapE (check_dispatch w exclude qs s) (first_met (map fst qs))) (\<lambda>_. Inr ())"

section \<open>Challans\<close>

definition DC_NUMBER_KEY :: string where
  "DC_NUMBER_KEY = ''delivery_challan_org_id_firm_id_series_number_key''"

definition insert_dc :: "dc_row \<Rightarrow> sales \<Rightarrow> error + sales \<times> dc_row" where
  "insert_dc d s =
     (if \<exists>v \<in> set (challans s). dc_org v = dc_org d \<and> dc_firm v = dc_firm d \<and> dc_series v = dc_series d \<and>
                                dc_number v = dc_number d
      then Inl (IntegrityError DC_NUMBER_KEY)
      else case sale_mint s of (s1, i) \<Rightarrow>
             let d' = d\<lparr>delivery_challan_id := i\<rparr> in Inr (s1\<lparr>challans := challans s1 @ [d']\<rparr>, d'))"

definition new_dc_line :: "dc_row \<Rightarrow> nat \<times> dc_request \<Rightarrow> dc_line" where
  "new_dc_line d = (\<lambda>(idx, r).
     \<lparr>dcl_org = dc_org d, dcl_dc = delivery_challan_id d, dcl_item = dq_item r, dcl_lot = dq_lot r, qty_dispatched = dq_qty r,
      dcl_price = dq_price r, dcl_sequence = (case dq_sequence r of Some n \<Rightarrow> n | None \<Rightarrow> Some (Suc idx)), dcl_deleted = False\<rparr>)"

definition dc_request_amount :: "dc_request list \<Rightarrow> decimal" where
  "dc_request_amount rs = (\<Sum>r\<leftarrow>rs. case dq_price r of None \<Rightarrow> 0 | Some p \<Rightarrow> ctx (dq_qty r * p))"

definition new_dc :: "uuid \<Rightarrow> uuid \<Rightarrow> uuid \<Rightarrow> date \<Rightarrow> string \<Rightarrow> string \<Rightarrow> uuid option \<Rightarrow> dc_request list \<Rightarrow> dc_row" where
  "new_dc org firm party d series n so rs =
     \<lparr>delivery_challan_id = 0, dc_org = org, dc_firm = firm, dc_series = series, dc_number = n, dc_so = so, dc_party = party,
      dispatch_date = d, dc_status = DCStatus.DRAFT, dc_total_qty = (\<Sum>r\<leftarrow>rs. dq_qty r),
      dc_total_amount = (if dc_request_amount rs > 0 then Some (quantize round_half_up 2 (dc_request_amount rs)) else None),
      dc_deleted = False\<rparr>"

definition create_dc ::
  "uuid \<Rightarrow> uuid \<Rightarrow> uuid \<Rightarrow> date \<Rightarrow> string \<Rightarrow> dc_request list \<Rightarrow> uuid option \<Rightarrow> sales \<Rightarrow> error + sales \<times> dc_row" where
  "create_dc org firm party d series rs so s =
     bindE (guardE (rs \<noteq> []) (AppValidationError ''DC must have at least one line'')) (\<lambda>_.
     bindE (firm_in_org org firm s) (\<lambda>_.
     bindE (ensure_party_in_org org party s) (\<lambda>_.
     bindE (items_in_org org (map dq_item rs) s) (\<lambda>_.
     bindE (case so of
              None \<Rightarrow> Inr ()
            | Some i \<Rightarrow>
                bindE (get_so org i s) (\<lambda>w.
                bindE (guardE (so_status w \<notin> {SalesOrderStatus.DRAFT, SalesOrderStatus.CANCELLED})
                         (InvoiceStateError ''Cannot DC against SO in status'')) (\<lambda>_.
                validate_dc_lines_against_so w (map (\<lambda>r. (dq_item r, dq_qty r)) rs) None s)))
       (\<lambda>_.
     bindE (insert_dc (new_dc org firm party d series (allocate_dc_number org firm series s) so rs) s) (\<lambda>(s1, c).
     bindE (guardE (\<forall>r \<in> set rs. \<not> dq_qty r \<le> 0) (AppValidationError ''DC line qty_dispatched must be positive'')) (\<lambda>_.
     Inr (s1\<lparr>dc_lines := dc_lines s1 @ map (new_dc_line c) (enumerate 0 rs)\<rparr>, c))))))))"

definition get_dc :: "uuid \<Rightarrow> uuid \<Rightarrow> sales \<Rightarrow> error + dc_row" where
  "get_dc org i s =
     bindE (scalar_one_or_none (filter (\<lambda>d. delivery_challan_id d = i \<and> dc_org d = org \<and> \<not> dc_deleted d) (challans s)))
       (\<lambda>r. case r of None \<Rightarrow> Inl (AppValidationError ''DeliveryChallan not found'') | Some d \<Rightarrow> Inr d)"

definition put_dc :: "dc_row \<Rightarrow> sales \<Rightarrow> sales" where
  "put_dc d s = s\<lparr>challans := update_where (\<lambda>c. delivery_challan_id c = delivery_challan_id d) (\<lambda>_. d) (challans s)\<rparr>"

definition lines_of_dc :: "uuid \<Rightarrow> sales \<Rightarrow> dc_line list" where
  "lines_of_dc i s = filter (\<lambda>l. dcl_dc l = i) (dc_lines s)"

text \<open>The guards on the linked order, before any stock moves.\<close>

definition locked_so :: "uuid \<Rightarrow> dc_row \<Rightarrow> sales \<Rightarrow> error + so_row option" where
  "locked_so org d s =
     (case dc_so d of
        None \<Rightarrow> Inr None
      | Some i \<Rightarrow>
          bindE (scalar_one_or_none (filter (\<lambda>w. sales_order_id w = i \<and> so_org w = org \<and> \<not> so_deleted w) (sales_orders s)))
            (\<lambda>r. case r of
               None \<Rightarrow> Inl (InvoiceStateError ''Cannot issue DC: linked SO is missing/deleted'')
             | Some w \<Rightarrow>
                 bindE (guardE (so_status w \<notin> {SalesOrderStatus.CANCELLED, SalesOrderStatus.DRAFT})
                          (InvoiceStateError ''Cannot issue DC: linked SO must be CONFIRMED+'')) (\<lambda>_.
                 bindE (validate_dc_lines_against_so w
                          (map (\<lambda>l. (dcl_item l, qty_dispatched l)) (lines_of_dc (delivery_challan_id d) s))
                          (Some (delivery_challan_id d)) s) (\<lambda>_.
                 Inr (Some w)))))"

text \<open>Services have no inventory.\<close>

definition is_service :: "uuid \<Rightarrow> uuid \<Rightarrow> inv \<Rightarrow> bool" where
  "is_service org item s \<longleftrightarrow>
     (\<exists>r \<in> set (items s). item_id r = item \<and> item_org r = org \<and> \<not> item_deleted r \<and> item_type r = SERVICE)"

definition dispatch_line :: "date \<Rightarrow> uuid \<Rightarrow> dc_row \<Rightarrow> uuid \<Rightarrow> dc_line \<Rightarrow> inv \<Rightarrow> error + inv" where
  "dispatch_line today org d loc l s =
     (if is_service org (dcl_item l) s then Inr s
      else bindE (take_at today org (dc_firm d) (dcl_item l) loc (dcl_lot l) (qty_dispatched l)
                    \<lparr>mv_type = ''DC'', mv_id = delivery_challan_id d, mv_date = Some (dispatch_date d), mv_notes = None\<rparr> s)
             (\<lambda>(s', _). Inr s'))"

definition issue_dc :: "date \<Rightarrow> uuid \<Rightarrow> uuid \<Rightarrow> sales \<Rightarrow> error + sales" where
  "issue_dc today org i s =
     bindE (get_dc org i s) (\<lambda>d.
     bindE (guardE (dc_status d = DCStatus.DRAFT) (InvoiceStateError ''Cannot issue DC'')) (\<lambda>_.
     bindE (locked_so org d s) (\<lambda>so.
     bindE (get_or_create_default_location org (dc_firm d) (sale_stock s)) (\<lambda>(st, loc).
     bindE (foldE (dispatch_line today org d (location_id loc)) (lines_of_dc i s) st) (\<lambda>st'.
     let s' = put_dc (d\<lparr>dc_status := ISSUED\<rparr>) (s\<lparr>sale_stock := st'\<rparr>)
     in Inr (case so of None \<Rightarrow> s' | Some w \<Rightarrow> advance_so_status_after_dc w s'))))))"

definition soft_delete_dc :: "uuid \<Rightarrow> uuid \<Rightarrow> sales \<Rightarrow> error + sales" where
  "soft_delete_dc org i s =
     bindE (scalar_one_or_none (filter (\<lambda>d. delivery_challan_id d = i \<and> dc_org d = org) (challans s))) (\<lambda>r.
     case r of
       None \<Rightarrow> Inl (AppValidationError ''DeliveryChallan not found'')
     | Some d \<Rightarrow>
         if dc_deleted d then Inr s
         else bindE (guardE (dc_status d = DCStatus.DRAFT) (InvoiceStateError ''Cannot delete DC'')) (\<lambda>_.
              Inr (put_dc (d\<lparr>dc_deleted := True\<rparr>) s)))"

end
