(* ===== verification/SalesOrderProps.thy ===== *)
theory SalesOrderProps
  imports SalesOrders
begin

text \<open>
  What sales orders and challans guarantee: no order is ever over-dispatched, whatever the order of
  the calls; its lines show what left; its status only moves along the documented chain; issuing a
  challan takes exactly its goods out of the stock, once.
\<close>

section \<open>Helpers\<close>

lemma first_met_set [simp]: "set (first_met xs) = set xs"
  by (simp add: first_met_def)

lemma validate_dc_lines_Inr:
  "validate_dc_lines_against_so w qs ex s = Inr u \<longleftrightarrow>
     (\<forall>item \<in> fst ` set qs. item \<in> sol_item ` set (lines_of_so (sales_order_id w) s) \<and>
        item_dispatched w ex s item + this_by_item qs item \<le> ordered_by_item (sales_order_id w) s item)"
proof -
  have "(\<exists>us. mapE (check_dispatch w ex qs s) xs = Inr us) \<longleftrightarrow>
      (\<forall>item \<in> set xs. item \<in> sol_item ` set (lines_of_so (sales_order_id w) s) \<and>
        item_dispatched w ex s item + this_by_item qs item \<le> ordered_by_item (sales_order_id w) s item)" for xs
    by (induction xs) (auto simp: check_dispatch_def bindE_Inr_iff not_less)
  from this [of "first_met (map fst qs)"] show ?thesis
    by (auto simp: validate_dc_lines_against_so_def bindE_Inr_iff)
qed

lemma this_by_item_other: "item \<notin> fst ` set qs \<Longrightarrow> this_by_item qs item = 0"
  by (induction qs) (auto simp: this_by_item_def)

lemma get_so_Inr:
  "get_so org i s = Inr w \<longleftrightarrow>
     filter (\<lambda>w. sales_order_id w = i \<and> so_org w = org \<and> \<not> so_deleted w) (sales_orders s) = [w]"
  by (auto simp: get_so_def bindE_Inr_iff scalar_one_or_none_Some split: option.splits)

lemma get_dc_Inr:
  "get_dc org i s = Inr d \<longleftrightarrow>
     filter (\<lambda>d. delivery_challan_id d = i \<and> dc_org d = org \<and> \<not> dc_deleted d) (challans s) = [d]"
  by (auto simp: get_dc_def bindE_Inr_iff scalar_one_or_none_Some split: option.splits)

lemma sum_filter_split:
  "(\<And>x. x \<in> set xs \<Longrightarrow> P x \<longleftrightarrow> Q x \<or> R x) \<Longrightarrow> (\<And>x. x \<in> set xs \<Longrightarrow> \<not> (Q x \<and> R x)) \<Longrightarrow>
   (\<Sum>x\<leftarrow>filter P xs. f x) = (\<Sum>x\<leftarrow>filter Q xs. f x) + (\<Sum>x\<leftarrow>filter R xs. (f x :: decimal))"
  by (induction xs) auto

text \<open>Reading a row back after it was replaced under its id.\<close>

lemma filter_put_row:
  assumes "filter (\<lambda>x. key x = i \<and> P x \<and> Q x) xs = [x]" and "distinct (map key xs)" and "key y = i" and "P y" and "Q y"
  shows "filter (\<lambda>x. key x = i \<and> P x \<and> Q x) (update_where (\<lambda>x. key x = i) (\<lambda>_. y) xs) = [y]"
  using assms(1,2)
proof (induction xs)
  case (Cons a xs)
  show ?case
  proof (cases "key a = i")
    case True
    have "key b \<noteq> i" if "b \<in> set xs" for b using Cons.prems(2) True image_eqI [OF refl that, of key] by auto
    then have "filter (\<lambda>x. key x = i \<and> P x \<and> Q x) xs = []" "update_where (\<lambda>x. key x = i) (\<lambda>_. y) xs = xs"
      by (auto simp: filter_empty_conv intro!: update_where_none)
    then show ?thesis using True assms(3-5) by (simp add: update_where_def)
  qed (use Cons in \<open>simp add: update_where_def\<close>)
qed simp

section \<open>The invariant\<close>

definition sale_ids :: "sales \<Rightarrow> uuid set" where
  "sale_ids s = sale_supply s ` {..<sale_count s}"

definition sale_ids_ok :: "sales \<Rightarrow> bool" where
  "sale_ids_ok s \<longleftrightarrow> inj (sale_supply s) \<and>
     distinct (map sales_order_id (sales_orders s)) \<and> sales_order_id ` set (sales_orders s) \<subseteq> sale_ids s \<and>
     distinct (map delivery_challan_id (challans s)) \<and> delivery_challan_id ` set (challans s) \<subseteq> sale_ids s \<and>
     sol_so ` set (so_lines s) \<subseteq> sale_ids s \<and> dcl_dc ` set (dc_lines s) \<subseteq> sale_ids s \<and>
     dc_so ` set (challans s) \<subseteq> insert None (Some ` sale_ids s)"

text \<open>\<open>left_ok w\<close>: nothing left beyond the order, its lines show what left, and its status agrees.\<close>

definition left_ok :: "so_row \<Rightarrow> sales \<Rightarrow> bool" where
  "left_ok w s \<longleftrightarrow>
     (\<forall>item. item_dispatched w None s item \<le> ordered_by_item (sales_order_id w) s item) \<and>
     (\<forall>l \<in> set (lines_of_so (sales_order_id w) s). sol_dispatched l = item_dispatched w None s (sol_item l)) \<and>
     (so_status w \<in> {SalesOrderStatus.DRAFT, CONFIRMED, SalesOrderStatus.CANCELLED} \<longrightarrow>
        (\<forall>item. item_dispatched w None s item = 0)) \<and>
     (so_status w = FULLY_DISPATCHED \<longrightarrow>
        (\<forall>l \<in> set (lines_of_so (sales_order_id w) s). qty_ordered l \<le> item_dispatched w None s (sol_item l)) \<and>
        (\<exists>l \<in> set (lines_of_so (sales_order_id w) s). 0 < item_dispatched w None s (sol_item l))) \<and>
     so_status w \<noteq> INVOICED"

definition sales_ok :: "sales \<Rightarrow> bool" where
  "sales_ok s \<longleftrightarrow> sale_ids_ok s \<and> inv_ok (sale_stock s) \<and> (\<forall>l \<in> set (dc_lines s). 0 < qty_dispatched l) \<and>
     (\<forall>w \<in> set (sales_orders s). left_ok w s)"

lemma left_ok_cong:
  assumes "sales_order_id w' = sales_order_id w" and "so_status w' = so_status w"
    and "lines_of_so (sales_order_id w) s' = lines_of_so (sales_order_id w) s"
    and "item_dispatched w' None s' = item_dispatched w None s"
  shows "left_ok w' s' \<longleftrightarrow> left_ok w s"
  by (simp add: left_ok_def ordered_by_item_def assms)

lemma item_dispatched_nonneg:
  "\<forall>l \<in> set (dc_lines s). 0 < qty_dispatched l \<Longrightarrow> 0 \<le> item_dispatched w ex s item"
  unfolding item_dispatched_def by (rule sum_list_nonneg) (auto intro: less_imp_le)

lemma so_row_by_id:
  "sale_ids_ok s \<Longrightarrow> v \<in> set (sales_orders s) \<Longrightarrow> w \<in> set (sales_orders s) \<Longrightarrow> sales_order_id v = sales_order_id w \<Longrightarrow> v = w"
  by (auto simp: sale_ids_ok_def distinct_map dest: inj_onD)

lemma dc_row_by_id:
  "sale_ids_ok s \<Longrightarrow> d \<in> set (challans s) \<Longrightarrow> c \<in> set (challans s) \<Longrightarrow> delivery_challan_id d = delivery_challan_id c \<Longrightarrow> d = c"
  by (auto simp: sale_ids_ok_def distinct_map dest: inj_onD)

section \<open>One row changes\<close>

lemma set_put_so:
  assumes "sale_ids_ok s" and "v \<in> set (sales_orders s)" and "sales_order_id w = sales_order_id v"
  shows "set (sales_orders (put_so w s)) = insert w (set (sales_orders s) - {v})"
  using assms by (auto simp: put_so_def set_update_where dest: so_row_by_id)

lemma put_so_frame [simp]:
  "sale_stock (put_so w s) = sale_stock s" "so_lines (put_so w s) = so_lines s" "challans (put_so w s) = challans s"
  "dc_lines (put_so w s) = dc_lines s" "sale_supply (put_so w s) = sale_supply s" "sale_count (put_so w s) = sale_count s"
  "customers (put_so w s) = customers s"
  "map sales_order_id (sales_orders (put_so w s)) = map sales_order_id (sales_orders s)"
  by (simp_all add: put_so_def) (rule map_update_where, simp)

lemma put_dc_frame [simp]:
  "sale_stock (put_dc d s) = sale_stock s" "so_lines (put_dc d s) = so_lines s" "sales_orders (put_dc d s) = sales_orders s"
  "dc_lines (put_dc d s) = dc_lines s" "sale_supply (put_dc d s) = sale_supply s" "sale_count (put_dc d s) = sale_count s"
  "customers (put_dc d s) = customers s"
  "map delivery_challan_id (challans (put_dc d s)) = map delivery_challan_id (challans s)"
  by (simp_all add: put_dc_def) (rule map_update_where, simp)

lemma set_put_dc:
  assumes "sale_ids_ok s" and "d \<in> set (challans s)" and "delivery_challan_id d' = delivery_challan_id d"
  shows "set (challans (put_dc d' s)) = insert d' (set (challans s) - {d})"
  using assms by (auto simp: put_dc_def set_update_where dest: dc_row_by_id)

lemma same_tables [simp]:
  "lines_of_so i (put_so w s) = lines_of_so i s" "issued_challans v ex (put_so w s) = issued_challans v ex s"
  "item_dispatched v ex (put_so w s) = item_dispatched v ex s" "lines_of_so i (put_dc d s) = lines_of_so i s"
  by (simp_all add: lines_of_so_def issued_challans_def item_dispatched_def fun_eq_iff)

lemma item_dispatched_row [simp]:
  "item_dispatched (w\<lparr>so_status := st\<rparr>) ex s = item_dispatched w ex s"
  "item_dispatched (w\<lparr>so_deleted := b\<rparr>) ex s = item_dispatched w ex s"
  by (simp_all add: item_dispatched_def issued_challans_def fun_eq_iff)

lemma put_so_ids: "sale_ids_ok s \<Longrightarrow> sale_ids_ok (put_so w s)"
proof -
  assume "sale_ids_ok s"
  moreover have "sales_order_id ` set (sales_orders (put_so w s)) = sales_order_id ` set (sales_orders s)"
    by (metis put_so_frame(8) list.set_map)
  ultimately show ?thesis by (simp add: sale_ids_ok_def sale_ids_def del: list.set_map)
qed

text \<open>A row of the order changes within its invariant.\<close>

lemma put_so_ok:
  assumes "sales_ok s" and "v \<in> set (sales_orders s)" and "sales_order_id w = sales_order_id v"
    and "left_ok v s \<Longrightarrow> left_ok w (put_so w s)"
  shows "sales_ok (put_so w s)"
proof -
  have ids: "sale_ids_ok s" and v: "left_ok v s" using assms(1,2) by (simp_all add: sales_ok_def)
  have "left_ok u (put_so w s)" if "u \<in> set (sales_orders (put_so w s))" for u
  proof (cases "u = w")
    case False
    with that set_put_so [OF ids assms(2,3)] have "u \<in> set (sales_orders s)" by simp
    then have "left_ok u s" using assms(1) by (simp add: sales_ok_def)
    then show ?thesis using left_ok_cong [of u u "put_so w s" s] by simp
  qed (use assms(4) v in simp)
  then show ?thesis using assms(1) put_so_ids [OF ids] by (simp add: sales_ok_def)
qed

lemma get_so_mem:
  "get_so org i s = Inr w \<Longrightarrow> w \<in> set (sales_orders s) \<and> sales_order_id w = i \<and> so_org w = org \<and> \<not> so_deleted w"
  unfolding get_so_Inr by (drule filter_oneD) simp

lemma get_dc_mem:
  "get_dc org i s = Inr d \<Longrightarrow> d \<in> set (challans s) \<and> delivery_challan_id d = i \<and> dc_org d = org \<and> \<not> dc_deleted d"
  unfolding get_dc_Inr by (drule filter_oneD) simp

lemma confirm_so_ok: "confirm_so org i s = Inr s' \<Longrightarrow> sales_ok s \<Longrightarrow> sales_ok s'"
  by (auto simp: confirm_so_def dest!: get_so_mem intro!: put_so_ok) (auto simp: left_ok_def ordered_by_item_def)

lemma cancel_so_ok:
  assumes "cancel_so org i s = Inr s'" and "sales_ok s"
  shows "sales_ok s'"
proof -
  from assms(1) obtain w where w: "get_so org i s = Inr w" "so_status w \<notin> {PARTIAL_DC, FULLY_DISPATCHED, INVOICED}"
    and s': "s' = s \<or> s' = put_so (w\<lparr>so_status := SalesOrderStatus.CANCELLED\<rparr>) s"
    by (auto simp: cancel_so_def split: if_splits)
  from w(2) have "so_status w \<in> {SalesOrderStatus.DRAFT, CONFIRMED, SalesOrderStatus.CANCELLED}"
    by (cases "so_status w") auto
  then have "left_ok (w\<lparr>so_status := SalesOrderStatus.CANCELLED\<rparr>) (put_so (w\<lparr>so_status := SalesOrderStatus.CANCELLED\<rparr>) s)"
    if "left_ok w s" using that by (auto simp: left_ok_def ordered_by_item_def)
  then show ?thesis using s' assms(2) get_so_mem [OF w(1)] by (auto intro!: put_so_ok [OF assms(2)])
qed

lemma soft_delete_so_ok: "soft_delete_so org i s = Inr s' \<Longrightarrow> sales_ok s \<Longrightarrow> sales_ok s'"
  by (auto simp: soft_delete_so_def scalar_one_or_none_Some split: option.splits if_splits dest!: filter_oneD intro!: put_so_ok)
    (auto simp: left_ok_def ordered_by_item_def)

section \<open>Rows are added\<close>

lemma sale_mint_fresh:
  assumes "sale_ids_ok s"
  shows "sale_supply s (sale_count s) \<notin> sale_ids s"
  using assms by (auto simp: sale_ids_ok_def sale_ids_def dest: injD)

lemma sale_ids_mint [simp]: "sale_ids (s\<lparr>sale_count := Suc (sale_count s)\<rparr>) = insert (sale_supply s (sale_count s)) (sale_ids s)"
  by (auto simp: sale_ids_def lessThan_Suc)

lemma new_so_line_fields [simp]:
  "sol_so (new_so_line w x) = sales_order_id w" "sol_dispatched (new_so_line w x) = 0" "sol_item (new_so_line w x) = rq_item (snd x)"
  "qty_ordered (new_so_line w x) = rq_qty (snd x)"
  by (simp_all add: new_so_line_def split: prod.split)

lemma new_dc_line_fields [simp]:
  "dcl_dc (new_dc_line d x) = delivery_challan_id d" "qty_dispatched (new_dc_line d x) = dq_qty (snd x)"
  "dcl_item (new_dc_line d x) = dq_item (snd x)" "\<not> dcl_deleted (new_dc_line d x)"
  by (simp_all add: new_dc_line_def split: prod.split)

lemma create_so_ok:
  assumes "create_so org firm party d series rs s = Inr (s', w)" and "sales_ok s" and "\<forall>r \<in> set rs. 0 \<le> rq_qty r"
  shows "sales_ok s'"
proof -
  let ?i = "sale_supply s (sale_count s)"
  have ids: "sale_ids_ok s" using assms(2) by (simp add: sales_ok_def)
  from assms(1) obtain tot n where w: "w = (new_so org firm party d series n tot)\<lparr>sales_order_id := ?i\<rparr>"
    and s': "s' = s\<lparr>sale_count := Suc (sale_count s), sales_orders := sales_orders s @ [w],
        so_lines := so_lines s @ map (new_so_line w) (enumerate 0 rs)\<rparr>"
    by (auto simp: create_so_def insert_so_def sale_mint_def Let_def split: if_splits)
  have f: "sales_order_id w = ?i" "so_org w = org" "so_status w = SalesOrderStatus.DRAFT" by (simp_all add: w new_so_def)
  note fresh = sale_mint_fresh [OF ids]
  have "sale_ids_ok s'" using ids fresh f by (auto simp: sale_ids_ok_def s' sale_ids_def lessThan_Suc)
  moreover have "left_ok v s'" if "v \<in> set (sales_orders s')" for v
  proof (cases "v = w")
    case True
    have "issued_challans w None s' = []"
      using ids fresh f(1) by (auto simp: issued_challans_def filter_empty_conv sale_ids_ok_def s')
    then have "item_dispatched w None s' item = 0" for item by (simp add: item_dispatched_def)
    moreover have "lines_of_so ?i s' = map (new_so_line w) (enumerate 0 rs)"
      using ids fresh f(1) by (auto simp: lines_of_so_def s' filter_empty_conv sale_ids_ok_def filter_id_conv)
    moreover from this have "0 \<le> ordered_by_item ?i s' item" for item
      unfolding ordered_by_item_def using assms(3)
      by (intro sum_list_nonneg) (auto simp: in_set_enumerate_eq)
    ultimately show ?thesis by (auto simp: True left_ok_def f)
  next
    case False
    with that have v: "v \<in> set (sales_orders s)" by (simp add: s')
    then have "sales_order_id v \<noteq> ?i" using ids fresh by (auto simp: sale_ids_ok_def)
    then have "lines_of_so (sales_order_id v) s' = lines_of_so (sales_order_id v) s"
      using f(1) by (simp add: lines_of_so_def s' filter_empty_conv)
    moreover have "item_dispatched v None s' = item_dispatched v None s"
      by (simp add: item_dispatched_def issued_challans_def s' fun_eq_iff)
    ultimately show ?thesis using v assms(2) left_ok_cong [of v v s' s] by (simp add: sales_ok_def)
  qed
  ultimately show ?thesis using assms(2) by (simp add: sales_ok_def s')
qed

text \<open>The checks of a new challan on its order.\<close>

lemma create_dc_cases:
  assumes "create_dc org firm party d series rs so s = Inr (s', c)"
  obtains n where "c = (new_dc org firm party d series n so rs)\<lparr>delivery_challan_id := sale_supply s (sale_count s)\<rparr>"
    and "s' = s\<lparr>sale_count := Suc (sale_count s), challans := challans s @ [c],
        dc_lines := dc_lines s @ map (new_dc_line c) (enumerate 0 rs)\<rparr>"
    and "\<forall>r \<in> set rs. 0 < dq_qty r"
    and "so = None \<or> so \<in> Some ` sales_order_id ` set (sales_orders s)"
proof -
  from assms obtain s1 where so: "(case so of
              None \<Rightarrow> Inr ()
            | Some i \<Rightarrow>
                bindE (get_so org i s) (\<lambda>w.
                bindE (guardE (so_status w \<notin> {SalesOrderStatus.DRAFT, SalesOrderStatus.CANCELLED})
                         (InvoiceStateError ''Cannot DC against SO in status'')) (\<lambda>_.
                validate_dc_lines_against_so w (map (\<lambda>r. (dq_item r, dq_qty r)) rs) None s))) = Inr ()"
    and ins: "insert_dc (new_dc org firm party d series (allocate_dc_number org firm series s) so rs) s = Inr (s1, c)"
    and pos: "\<forall>r \<in> set rs. \<not> dq_qty r \<le> 0" and s': "s' = s1\<lparr>dc_lines := dc_lines s1 @ map (new_dc_line c) (enumerate 0 rs)\<rparr>"
    unfolding create_dc_def by auto
  from so have "so = None \<or> so \<in> Some ` sales_order_id ` set (sales_orders s)"
    by (cases so) (auto dest!: get_so_mem)
  moreover from ins have "c = (new_dc org firm party d series (allocate_dc_number org firm series s) so rs)
        \<lparr>delivery_challan_id := sale_supply s (sale_count s)\<rparr>"
    and "s1 = s\<lparr>sale_count := Suc (sale_count s), challans := challans s @ [c]\<rparr>"
    by (auto simp: insert_dc_def sale_mint_def Let_def split: if_splits)
  ultimately show thesis using that pos s' by (auto simp: not_le)
qed

text \<open>A draft challan counts for nothing yet.\<close>

lemma create_dc_ok:
  assumes "create_dc org firm party d series rs so s = Inr (s', c)" and "sales_ok s"
  shows "sales_ok s'"
proof -
  let ?i = "sale_supply s (sale_count s)"
  have ids: "sale_ids_ok s" using assms(2) by (simp add: sales_ok_def)
  obtain n where c: "c = (new_dc org firm party d series n so rs)\<lparr>delivery_challan_id := ?i\<rparr>"
    and s': "s' = s\<lparr>sale_count := Suc (sale_count s), challans := challans s @ [c],
        dc_lines := dc_lines s @ map (new_dc_line c) (enumerate 0 rs)\<rparr>"
    and pos: "\<forall>r \<in> set rs. 0 < dq_qty r" and so: "so = None \<or> so \<in> Some ` sales_order_id ` set (sales_orders s)"
    by (rule create_dc_cases [OF assms(1)])
  have f: "delivery_challan_id c = ?i" "dc_status c = DCStatus.DRAFT" "dc_so c = so" by (simp_all add: c new_dc_def)
  note fresh = sale_mint_fresh [OF ids]
  have "so \<in> insert None (Some ` sale_ids s)" using so ids by (auto simp: sale_ids_ok_def)
  then have "sale_ids_ok s'" using ids fresh f by (auto simp: sale_ids_ok_def s' sale_ids_def lessThan_Suc)
  moreover have disp: "item_dispatched v None s' = item_dispatched v None s" for v
  proof -
    have i: "issued_challans v None s' = issued_challans v None s" by (simp add: issued_challans_def s' f)
    have "?i \<notin> delivery_challan_id ` set (issued_challans v None s)"
      using ids fresh by (auto simp: issued_challans_def sale_ids_ok_def)
    then show ?thesis unfolding item_dispatched_def i by (simp add: s' f filter_empty_conv fun_eq_iff)
  qed
  moreover have "left_ok v s'" if "v \<in> set (sales_orders s')" for v
  proof -
    have "left_ok v s" using that assms(2) by (simp add: sales_ok_def s')
    then show ?thesis using disp left_ok_cong [of v v s' s] by (simp add: lines_of_so_def s')
  qed
  moreover have "\<forall>l \<in> set (dc_lines s'). 0 < qty_dispatched l" "inv_ok (sale_stock s')"
    using assms(2) pos by (auto simp: sales_ok_def s' in_set_enumerate_eq)
  ultimately show ?thesis by (simp add: sales_ok_def)
qed

section \<open>Issuing a challan\<close>

text \<open>What a challan adds to its order when it is issued.\<close>

definition carried :: "dc_row \<Rightarrow> sales \<Rightarrow> uuid \<Rightarrow> decimal" where
  "carried d s item =
     (\<Sum>l\<leftarrow>filter (\<lambda>l. dcl_item l = item \<and> \<not> dcl_deleted l) (lines_of_dc (delivery_challan_id d) s). qty_dispatched l)"

lemma lines_of_dc_frame [simp]: "lines_of_dc i (put_so w s) = lines_of_dc i s"
  by (simp add: lines_of_dc_def)

lemma put_dc_ids:
  assumes "sale_ids_ok s" and "d \<in> set (challans s)" and "delivery_challan_id d' = delivery_challan_id d" and "dc_so d' = dc_so d"
  shows "sale_ids_ok (put_dc d' s)"
proof -
  have "delivery_challan_id ` set (challans (put_dc d' s)) = delivery_challan_id ` set (challans s)"
    by (metis put_dc_frame(8) list.set_map)
  moreover have "dc_so ` set (challans (put_dc d' s)) \<subseteq> dc_so ` set (challans s)"
    using assms(2,4) by (auto simp: set_put_dc [OF assms(1-3)])
  moreover have "dc_so ` set (challans s) \<subseteq> insert None (Some ` sale_ids s)" using assms(1) by (simp add: sale_ids_ok_def)
  moreover have "sale_ids (put_dc d' s) = sale_ids s" by (simp add: sale_ids_def)
  ultimately show ?thesis using assms(1) unfolding sale_ids_ok_def put_dc_frame by (metis order_trans)
qed

lemma issued_ids_put_dc:
  assumes "sale_ids_ok s" and "d \<in> set (challans s)" and "dc_status d = DCStatus.DRAFT"
    and d': "delivery_challan_id d' = delivery_challan_id d" "dc_so d' = dc_so d" "dc_org d' = dc_org d"
  shows "delivery_challan_id ` set (issued_challans w None (put_dc d' s))
      = delivery_challan_id ` set (issued_challans w None s) \<union>
        (if dc_so d = Some (sales_order_id w) \<and> dc_org d = so_org w \<and> \<not> dc_deleted d' \<and> dc_status d' \<noteq> DCStatus.DRAFT
         then {delivery_challan_id d} else {})"
    and "delivery_challan_id d \<notin> delivery_challan_id ` set (issued_challans w ex s)"
    and "issued_challans w (Some (delivery_challan_id d)) s = issued_challans w None s"
proof -
  have u: "c = d" if "c \<in> set (challans s)" "delivery_challan_id c = delivery_challan_id d" for c
    using dc_row_by_id [OF assms(1) that(1) assms(2) that(2)] .
  have "set (issued_challans w None (put_dc d' s)) = set (issued_challans w None s) \<union>
        (if dc_so d = Some (sales_order_id w) \<and> dc_org d = so_org w \<and> \<not> dc_deleted d' \<and> dc_status d' \<noteq> DCStatus.DRAFT
         then {d'} else {})"
    using assms(2,3) d' by (auto simp: issued_challans_def set_put_dc [OF assms(1,2) d'(1)])
  then show "delivery_challan_id ` set (issued_challans w None (put_dc d' s))
      = delivery_challan_id ` set (issued_challans w None s) \<union>
        (if dc_so d = Some (sales_order_id w) \<and> dc_org d = so_org w \<and> \<not> dc_deleted d' \<and> dc_status d' \<noteq> DCStatus.DRAFT
         then {delivery_challan_id d} else {})"
    using d'(1) by (simp add: image_Un)
  show "delivery_challan_id d \<notin> delivery_challan_id ` set (issued_challans w ex s)"
    using u assms(3) by (auto simp: issued_challans_def)
  show "issued_challans w (Some (delivery_challan_id d)) s = issued_challans w None s"
    unfolding issued_challans_def by (rule filter_cong) (use u assms(3) in auto)
qed

lemma item_dispatched_put_dc:
  assumes "sale_ids_ok s" and "d \<in> set (challans s)" and "dc_status d = DCStatus.DRAFT"
    and d': "delivery_challan_id d' = delivery_challan_id d" "dc_so d' = dc_so d" "dc_org d' = dc_org d"
  shows "item_dispatched w None (put_dc d' s) item = item_dispatched w None s item +
    (if dc_so d = Some (sales_order_id w) \<and> dc_org d = so_org w \<and> \<not> dc_deleted d' \<and> dc_status d' \<noteq> DCStatus.DRAFT
     then carried d s item else 0)"
proof -
  note i = issued_ids_put_dc(1) [OF assms]
  note out = issued_ids_put_dc(2) [OF assms]
  show ?thesis
  proof (cases "dc_so d = Some (sales_order_id w) \<and> dc_org d = so_org w \<and> \<not> dc_deleted d' \<and> dc_status d' \<noteq> DCStatus.DRAFT")
    case True
    have "item_dispatched w None (put_dc d' s) item = item_dispatched w None s item +
        (\<Sum>l\<leftarrow>filter (\<lambda>l. dcl_item l = item \<and> \<not> dcl_deleted l \<and> dcl_dc l = delivery_challan_id d) (dc_lines s). qty_dispatched l)"
      unfolding item_dispatched_def i using out [of w None] by (simp only: True if_True put_dc_frame) (rule sum_filter_split, auto)
    then show ?thesis using True by (simp add: carried_def lines_of_dc_def conj_ac)
  next
    case False
    then have "delivery_challan_id ` set (issued_challans w None (put_dc d' s)) = delivery_challan_id ` set (issued_challans w None s)"
      using i by auto
    then show ?thesis using False by (auto simp: item_dispatched_def)
  qed
qed

lemma soft_delete_dc_ok:
  assumes "soft_delete_dc org i s = Inr s'" and "sales_ok s"
  shows "sales_ok s'"
proof -
  from assms(1) obtain d where "d \<in> set (challans s)" and
      "s' = s \<or> dc_status d = DCStatus.DRAFT \<and> s' = put_dc (d\<lparr>dc_deleted := True\<rparr>) s"
    by (simp add: soft_delete_dc_def bindE_Inr_iff split: option.splits if_splits)
      (auto simp: scalar_one_or_none_Some dest!: filter_oneD)
  then consider "s' = s" | "d \<in> set (challans s)" "dc_status d = DCStatus.DRAFT" "s' = put_dc (d\<lparr>dc_deleted := True\<rparr>) s"
    by argo
  then show ?thesis
  proof cases
    case 2
    have ids: "sale_ids_ok s" using assms(2) by (simp add: sales_ok_def)
    have "item_dispatched w None s' = item_dispatched w None s" for w
      using item_dispatched_put_dc [OF ids 2(1,2)] by (simp add: 2(3) fun_eq_iff)
    then have "left_ok w s' \<longleftrightarrow> left_ok w s" for w using left_ok_cong [of w w s' s] by (simp add: 2(3))
    moreover have "sale_ids_ok s'" using put_dc_ids [OF ids 2(1)] by (simp add: 2(3))
    ultimately show ?thesis using assms(2) by (simp add: sales_ok_def 2(3))
  qed (use assms(2) in simp)
qed

text \<open>The stock side: what a run of lines takes.\<close>

definition goods :: "uuid \<Rightarrow> inv \<Rightarrow> dc_line list \<Rightarrow> uuid \<Rightarrow> decimal" where
  "goods org st ls item = (\<Sum>l\<leftarrow>filter (\<lambda>l. dcl_item l = item \<and> \<not> is_service org (dcl_item l) st) ls. qty_dispatched l)"

lemma take_at_items: "take_at today org firm item loc lot qty ref s = Inr (s', rows) \<Longrightarrow> items s' = items s"
proof -
  have "fifo_loop d ref ps rem s acc = (s', rows) \<Longrightarrow> items s' = items s" for d ps rem s acc
    by (induction d ref ps rem s acc rule: fifo_loop.induct) (auto simp: Let_def split: if_splits)
  moreover assume "take_at today org firm item loc lot qty ref s = Inr (s', rows)"
  ultimately show ?thesis
    by (auto simp: take_at_def remove_stock_def remove_stock_fifo_def Let_def split: option.splits if_splits)
qed

lemma default_location_items: "get_or_create_default_location org firm s = Inr (s', l) \<Longrightarrow> items s' = items s"
  by (auto simp: get_or_create_default_location_def new_location_def mint_def Let_def split: option.splits)

lemma is_service_items: "items s' = items s \<Longrightarrow> is_service org item s' = is_service org item s"
  by (simp add: is_service_def)

lemma item_key_eq: "item_key org firm a = item_key org firm b \<longleftrightarrow> a = b"
proof
  assume "item_key org firm a = item_key org firm b"
  moreover have "item_key org firm a \<lparr>k_org = org, k_firm = firm, k_item = a, k_location = 0, k_lot = None\<rparr>"
    by (simp add: item_key_def)
  ultimately have "item_key org firm b \<lparr>k_org = org, k_firm = firm, k_item = a, k_location = 0, k_lot = None\<rparr>" by simp
  then show "a = b" by (simp add: item_key_def)
qed simp

lemma goods_Cons: "goods org s (l # ls) it = goods org s [l] it + goods org s ls it"
  by (auto simp: goods_def)

lemma dispatch_effect:
  assumes "foldE (dispatch_line today org d loc) ls s = Inr s'" and "inv_ok s"
  shows "inv_ok s' \<and> items s' = items s \<and>
    (\<forall>it. held (item_key org (dc_firm d) it) s' = held (item_key org (dc_firm d) it) s - goods org s ls it)"
  using assms
proof (induction ls arbitrary: s)
  case (Cons l ls)
  from Cons.prems(1) obtain s1 where l: "dispatch_line today org d loc l s = Inr s1"
    and rest: "foldE (dispatch_line today org d loc) ls s1 = Inr s'" by auto
  have s1: "inv_ok s1 \<and> items s1 = items s \<and>
      (\<forall>it. held (item_key org (dc_firm d) it) s1 = held (item_key org (dc_firm d) it) s - goods org s [l] it)"
  proof (cases "is_service org (dcl_item l) s")
    case False
    with l obtain ref rows where t: "take_at today org (dc_firm d) (dcl_item l) loc (dcl_lot l) (qty_dispatched l) ref s = Inr (s1, rows)"
      by (auto simp: dispatch_line_def)
    show ?thesis using take_at_effect [OF t Cons.prems(2)] take_at_items [OF t] False by (auto simp: goods_def item_key_eq)
  qed (use l Cons.prems(2) in \<open>auto simp: dispatch_line_def goods_def\<close>)
  then have "goods org s1 ls = goods org s ls" by (simp add: goods_def is_service_def fun_eq_iff)
  with Cons.IH [OF rest] s1 goods_Cons [of org s l ls] show ?case by simp
qed (simp add: goods_def)

lemma issue_dc_cases:
  assumes "issue_dc today org i s = Inr s'"
  obtains d so st loc st' where "get_dc org i s = Inr d" and "dc_status d = DCStatus.DRAFT" and "locked_so org d s = Inr so"
    and "get_or_create_default_location org (dc_firm d) (sale_stock s) = Inr (st, loc)"
    and "foldE (dispatch_line today org d (location_id loc)) (lines_of_dc i s) st = Inr st'"
    and "s' = (case so of None \<Rightarrow> put_dc (d\<lparr>dc_status := ISSUED\<rparr>) (s\<lparr>sale_stock := st'\<rparr>)
               | Some w \<Rightarrow> advance_so_status_after_dc w (put_dc (d\<lparr>dc_status := ISSUED\<rparr>) (s\<lparr>sale_stock := st'\<rparr>)))"
proof -
  from assms obtain d so r st' where "get_dc org i s = Inr d" "dc_status d = DCStatus.DRAFT" "locked_so org d s = Inr so"
    and r: "get_or_create_default_location org (dc_firm d) (sale_stock s) = Inr r"
    and "foldE (dispatch_line today org d (location_id (snd r))) (lines_of_dc i s) (fst r) = Inr st'"
    and "s' = (case so of None \<Rightarrow> put_dc (d\<lparr>dc_status := ISSUED\<rparr>) (s\<lparr>sale_stock := st'\<rparr>)
               | Some w \<Rightarrow> advance_so_status_after_dc w (put_dc (d\<lparr>dc_status := ISSUED\<rparr>) (s\<lparr>sale_stock := st'\<rparr>)))"
    unfolding issue_dc_def by (auto simp: Let_def split_beta)
  then show thesis using that [of d so "fst r" "snd r" st'] by simp
qed

lemma locked_so_cases:
  assumes "locked_so org d s = Inr so"
  shows "so = None \<and> dc_so d = None \<or> (\<exists>w. so = Some w \<and> dc_so d = Some (sales_order_id w) \<and> w \<in> set (sales_orders s) \<and>
    so_org w = org \<and> \<not> so_deleted w \<and> so_status w \<notin> {SalesOrderStatus.CANCELLED, SalesOrderStatus.DRAFT} \<and>
    (\<forall>item \<in> dcl_item ` set (lines_of_dc (delivery_challan_id d) s).
       item \<in> sol_item ` set (lines_of_so (sales_order_id w) s) \<and>
       item_dispatched w (Some (delivery_challan_id d)) s item +
         this_by_item (map (\<lambda>l. (dcl_item l, qty_dispatched l)) (lines_of_dc (delivery_challan_id d) s)) item
       \<le> ordered_by_item (sales_order_id w) s item))"
proof (cases "dc_so d")
  case None
  with assms show ?thesis by (simp add: locked_so_def)
next
  case (Some i)
  with assms obtain w where f: "filter (\<lambda>w. sales_order_id w = i \<and> so_org w = org \<and> \<not> so_deleted w) (sales_orders s) = [w]"
    and st: "so_status w \<notin> {SalesOrderStatus.CANCELLED, SalesOrderStatus.DRAFT}"
    and v: "validate_dc_lines_against_so w (map (\<lambda>l. (dcl_item l, qty_dispatched l)) (lines_of_dc (delivery_challan_id d) s))
          (Some (delivery_challan_id d)) s = Inr ()" and so: "so = Some w"
    by (auto simp: locked_so_def scalar_one_or_none_Some split: option.splits)
  from filter_oneD [OF f] v st show ?thesis
    unfolding validate_dc_lines_Inr by (intro disjI2 exI [of _ w]) (auto simp: so Some image_image)
qed

text \<open>The order side: the linked order takes the challan's lines, every other order is as it was.\<close>

lemma lines_of_so_update:
  "lines_of_so i (s\<lparr>so_lines := update_where (\<lambda>l. sol_so l = j) (\<lambda>l. l\<lparr>sol_dispatched := f l\<rparr>) (so_lines s)\<rparr>)
     = (if i = j then map (\<lambda>l. l\<lparr>sol_dispatched := f l\<rparr>) (lines_of_so j s) else lines_of_so i s)"
proof -
  have "filter (\<lambda>l. sol_so l = i) (update_where (\<lambda>l. sol_so l = j) (\<lambda>l. l\<lparr>sol_dispatched := f l\<rparr>) ls)
      = (if i = j then map (\<lambda>l. l\<lparr>sol_dispatched := f l\<rparr>) (filter (\<lambda>l. sol_so l = j) ls) else filter (\<lambda>l. sol_so l = i) ls)" for ls
    by (induction ls) (auto simp: update_where_def)
  then show ?thesis by (simp add: lines_of_so_def)
qed

definition advanced :: "so_row \<Rightarrow> (uuid \<Rightarrow> decimal) \<Rightarrow> so_line list \<Rightarrow> SalesOrderStatus" where
  "advanced w disp ls =
     (if (\<forall>l \<in> set ls. qty_ordered l \<le> disp (sol_item l)) \<and> (\<exists>l \<in> set ls. 0 < disp (sol_item l)) then FULLY_DISPATCHED
      else if \<exists>l \<in> set ls. 0 < disp (sol_item l) then PARTIAL_DC else so_status w)"

lemma carried_le:
  assumes "\<forall>l \<in> set (dc_lines s). 0 < qty_dispatched l"
  shows "0 \<le> carried d s item"
    and "carried d s item \<le> this_by_item (map (\<lambda>l. (dcl_item l, qty_dispatched l)) (lines_of_dc (delivery_challan_id d) s)) item"
proof -
  have pos: "\<forall>l \<in> set (lines_of_dc (delivery_challan_id d) s). 0 \<le> qty_dispatched l"
    using assms by (auto simp: lines_of_dc_def intro: less_imp_le)
  then show "0 \<le> carried d s item" unfolding carried_def by (intro sum_list_nonneg) auto
  have "(\<Sum>l\<leftarrow>filter (\<lambda>l. dcl_item l = item \<and> \<not> dcl_deleted l) ls. qty_dispatched l)
      \<le> (\<Sum>q\<leftarrow>filter (\<lambda>q. fst q = item) (map (\<lambda>l. (dcl_item l, qty_dispatched l)) ls). snd q)"
    if "\<forall>l \<in> set ls. 0 \<le> qty_dispatched l" for ls using that by (induction ls) auto
  from this [OF pos] show "carried d s item \<le> this_by_item (map (\<lambda>l. (dcl_item l, qty_dispatched l)) (lines_of_dc (delivery_challan_id d) s)) item"
    by (simp add: carried_def this_by_item_def)
qed

lemma issue_on_order:
  assumes ok: "sales_ok s" and d: "d \<in> set (challans s)" "dc_status d = DCStatus.DRAFT" "\<not> dc_deleted d" "dc_org d = org"
    and so: "locked_so org d s = Inr (Some w)"
    and s': "s' = advance_so_status_after_dc w (put_dc (d\<lparr>dc_status := ISSUED\<rparr>) (s\<lparr>sale_stock := st\<rparr>))"
  defines "disp \<equiv> \<lambda>item. item_dispatched w None s item + carried d s item"
    and "ls \<equiv> lines_of_so (sales_order_id w) s"
  shows "w \<in> set (sales_orders s)" and "so_status w \<in> {CONFIRMED, PARTIAL_DC, FULLY_DISPATCHED}"
    and "sales_orders s' = sales_orders (put_so (w\<lparr>so_status := advanced w disp ls\<rparr>) s)"
    and "item_dispatched w None s' = disp"
    and "lines_of_so (sales_order_id w) s' = map (\<lambda>l. l\<lparr>sol_dispatched := disp (sol_item l)\<rparr>) ls"
    and "\<forall>item. disp item \<le> ordered_by_item (sales_order_id w) s item"
    and "\<forall>v \<in> set (sales_orders s). v \<noteq> w \<longrightarrow>
      lines_of_so (sales_order_id v) s' = lines_of_so (sales_order_id v) s \<and> item_dispatched v None s' = item_dispatched v None s"
    and "challans s' = challans (put_dc (d\<lparr>dc_status := ISSUED\<rparr>) s)" and "sale_stock s' = st" and "dc_lines s' = dc_lines s"
    and "sale_ids_ok s'"
proof -
  have ids: "sale_ids_ok s" and pos: "\<forall>l \<in> set (dc_lines s). 0 < qty_dispatched l" using ok by (simp_all add: sales_ok_def)
  from locked_so_cases [OF so] have w: "dc_so d = Some (sales_order_id w)" "w \<in> set (sales_orders s)" "so_org w = org"
      "so_status w \<notin> {SalesOrderStatus.CANCELLED, SalesOrderStatus.DRAFT}"
    and cap: "\<forall>item \<in> dcl_item ` set (lines_of_dc (delivery_challan_id d) s).
       item_dispatched w (Some (delivery_challan_id d)) s item +
         this_by_item (map (\<lambda>l. (dcl_item l, qty_dispatched l)) (lines_of_dc (delivery_challan_id d) s)) item
       \<le> ordered_by_item (sales_order_id w) s item" by auto
  show "w \<in> set (sales_orders s)" by (rule w)
  have lw: "left_ok w s" using ok w(2) by (simp add: sales_ok_def)
  show st: "so_status w \<in> {CONFIRMED, PARTIAL_DC, FULLY_DISPATCHED}"
    using w(4) lw by (cases "so_status w") (auto simp: left_ok_def)
  let ?t = "s\<lparr>sale_stock := st\<rparr>" and ?d = "d\<lparr>dc_status := ISSUED\<rparr>"
  let ?s1 = "put_dc ?d ?t"
  have ids': "sale_ids_ok ?t" using ids by (simp add: sale_ids_ok_def sale_ids_def)
  have same: "item_dispatched v ex ?t = item_dispatched v ex s" "carried d ?t = carried d s" for v ex
    by (simp_all add: item_dispatched_def issued_challans_def carried_def lines_of_dc_def fun_eq_iff)
  have step: "item_dispatched v None ?s1 item = item_dispatched v None s item +
      (if dc_so d = Some (sales_order_id v) \<and> dc_org d = so_org v then carried d s item else 0)" for v item
    using item_dispatched_put_dc [OF ids', of d ?d v item] d by (simp add: same)
  have dw: "item_dispatched w None ?s1 = disp" using w(1,3) d(4) by (simp add: step disp_def fun_eq_iff)
  define s2 where "s2 = ?s1\<lparr>so_lines := update_where (\<lambda>l. sol_so l = sales_order_id w)
      (\<lambda>l. l\<lparr>sol_dispatched := disp (sol_item l)\<rparr>) (so_lines ?s1)\<rparr>"
  have l1: "lines_of_so i ?s1 = lines_of_so i s" "lines_of_so i ?t = lines_of_so i s" for i by (simp_all add: lines_of_so_def)
  have s'2: "s' = put_so (w\<lparr>so_status := advanced w disp ls\<rparr>) s2"
    using st unfolding s' advance_so_status_after_dc_def Let_def dw l1 s2_def advanced_def ls_def not_less by auto
  have i2: "item_dispatched v None s2 = item_dispatched v None ?s1" for v
    by (simp add: s2_def item_dispatched_def issued_challans_def fun_eq_iff)
  show "sales_orders s' = sales_orders (put_so (w\<lparr>so_status := advanced w disp ls\<rparr>) s)" by (simp add: s'2 s2_def put_so_def put_dc_def)
  show "item_dispatched w None s' = disp" by (simp add: s'2 i2 dw)
  show "lines_of_so (sales_order_id w) s' = map (\<lambda>l. l\<lparr>sol_dispatched := disp (sol_item l)\<rparr>) ls"
    unfolding s'2 same_tables s2_def lines_of_so_update by (simp add: l1 ls_def)
  show "\<forall>item. disp item \<le> ordered_by_item (sales_order_id w) s item"
  proof
    fix item show "disp item \<le> ordered_by_item (sales_order_id w) s item"
    proof (cases "item \<in> dcl_item ` set (lines_of_dc (delivery_challan_id d) s)")
      case True
      have "item_dispatched w (Some (delivery_challan_id d)) s = item_dispatched w None s"
        using issued_ids_put_dc(3) [OF ids d(1,2), of d w] by (simp add: item_dispatched_def fun_eq_iff)
      then show ?thesis using bspec [OF cap True] carried_le(2) [OF pos, of d item] by (simp add: disp_def)
    next
      case False
      then have "filter (\<lambda>l. dcl_item l = item \<and> \<not> dcl_deleted l) (lines_of_dc (delivery_challan_id d) s) = []"
        by (auto simp: filter_empty_conv)
      then have "carried d s item = 0" by (simp add: carried_def)
      then show ?thesis using lw by (simp add: disp_def left_ok_def)
    qed
  qed
  show "\<forall>v \<in> set (sales_orders s). v \<noteq> w \<longrightarrow>
      lines_of_so (sales_order_id v) s' = lines_of_so (sales_order_id v) s \<and> item_dispatched v None s' = item_dispatched v None s"
  proof (intro ballI impI)
    fix v assume v: "v \<in> set (sales_orders s)" "v \<noteq> w"
    then have ne: "sales_order_id v \<noteq> sales_order_id w" using so_row_by_id [OF ids] w(2) by blast
    have "item_dispatched v None s' = item_dispatched v None s" using ne w(1) by (simp add: s'2 i2 step fun_eq_iff)
    moreover have "lines_of_so (sales_order_id v) s' = lines_of_so (sales_order_id v) s"
      unfolding s'2 same_tables s2_def lines_of_so_update using ne by (simp add: l1)
    ultimately show "lines_of_so (sales_order_id v) s' = lines_of_so (sales_order_id v) s \<and> item_dispatched v None s' = item_dispatched v None s" by simp
  qed
  show "challans s' = challans (put_dc ?d s)" "sale_stock s' = st" "dc_lines s' = dc_lines s" by (simp_all add: s'2 s2_def put_dc_def)
  have "map sol_so (so_lines s2) = map sol_so (so_lines s)" unfolding s2_def by simp (rule map_update_where, simp)
  then have "sol_so ` set (so_lines s2) = sol_so ` set (so_lines s)" by (metis list.set_map)
  then have "sale_ids_ok s2" using put_dc_ids [OF ids', of d ?d] d by (simp add: sale_ids_ok_def sale_ids_def s2_def)
  then show "sale_ids_ok s'" by (simp add: s'2 put_so_ids)
qed

lemma ordered_by_item_map:
  "lines_of_so i s' = map (\<lambda>l. l\<lparr>sol_dispatched := f l\<rparr>) (lines_of_so i s) \<Longrightarrow> ordered_by_item i s' = ordered_by_item i s"
  by (simp add: ordered_by_item_def filter_map o_def fun_eq_iff)

lemma issue_dc_stock:
  assumes "issue_dc today org i s = Inr s'" and "inv_ok (sale_stock s)"
  obtains d so st where "get_dc org i s = Inr d" and "dc_status d = DCStatus.DRAFT" and "locked_so org d s = Inr so"
    and "sale_stock s' = st" and "inv_ok st"
    and "\<forall>it. held (item_key org (dc_firm d) it) st
      = held (item_key org (dc_firm d) it) (sale_stock s) - goods org (sale_stock s) (lines_of_dc i s) it"
    and "s' = (case so of None \<Rightarrow> put_dc (d\<lparr>dc_status := ISSUED\<rparr>) (s\<lparr>sale_stock := st\<rparr>)
               | Some w \<Rightarrow> advance_so_status_after_dc w (put_dc (d\<lparr>dc_status := ISSUED\<rparr>) (s\<lparr>sale_stock := st\<rparr>)))"
proof -
  from assms(1) obtain d so st loc st' where d: "get_dc org i s = Inr d" "dc_status d = DCStatus.DRAFT" "locked_so org d s = Inr so"
    and loc: "get_or_create_default_location org (dc_firm d) (sale_stock s) = Inr (st, loc)"
    and go: "foldE (dispatch_line today org d (location_id loc)) (lines_of_dc i s) st = Inr st'"
    and s': "s' = (case so of None \<Rightarrow> put_dc (d\<lparr>dc_status := ISSUED\<rparr>) (s\<lparr>sale_stock := st'\<rparr>)
               | Some w \<Rightarrow> advance_so_status_after_dc w (put_dc (d\<lparr>dc_status := ISSUED\<rparr>) (s\<lparr>sale_stock := st'\<rparr>)))"
    by (rule issue_dc_cases)
  have st': "sale_stock s' = st'"
    by (simp add: s' advance_so_status_after_dc_def Let_def split: option.split)
  note e = dispatch_effect [OF go default_location_ok [OF loc assms(2)]]
  have "held P st = held P (sale_stock s)" for P using table_frames(2) [OF loc] by (auto intro: held_same)
  moreover have "goods org st = goods org (sale_stock s)"
    using default_location_items [OF loc] by (simp add: goods_def is_service_def fun_eq_iff)
  ultimately have "\<forall>it. held (item_key org (dc_firm d) it) st'
      = held (item_key org (dc_firm d) it) (sale_stock s) - goods org (sale_stock s) (lines_of_dc i s) it"
    using e by simp
  with that [OF d st' conjunct1 [OF e] _ s'] show thesis .
qed

text \<open>The linked order keeps its invariant.\<close>

lemma linked_left_ok:
  assumes ok: "sales_ok s" and d: "d \<in> set (challans s)" "dc_status d = DCStatus.DRAFT" "\<not> dc_deleted d" "dc_org d = org"
    and so: "locked_so org d s = Inr (Some w)"
    and s': "s' = advance_so_status_after_dc w (put_dc (d\<lparr>dc_status := ISSUED\<rparr>) (s\<lparr>sale_stock := st\<rparr>))"
  defines "disp \<equiv> \<lambda>item. item_dispatched w None s item + carried d s item"
    and "ls \<equiv> lines_of_so (sales_order_id w) s"
  shows "left_ok (w\<lparr>so_status := advanced w disp ls\<rparr>) s'"
proof -
  note io = issue_on_order [OF ok d so s', folded disp_def ls_def]
  let ?w = "w\<lparr>so_status := advanced w disp ls\<rparr>"
  have pos: "\<forall>l \<in> set (dc_lines s). 0 < qty_dispatched l" and lw: "left_ok w s" using ok io(1) by (simp_all add: sales_ok_def)
  have nn: "item_dispatched w None s item \<le> disp item" "0 \<le> disp item" for item
    using carried_le(1) [OF pos, of d item] item_dispatched_nonneg [OF pos, of w None item] by (simp_all add: disp_def)
  have off: "disp item = 0" if "item \<notin> sol_item ` set ls" for item
  proof -
    have "filter (\<lambda>l. sol_item l = item) ls = []" using that by (auto simp: filter_empty_conv)
    then have "ordered_by_item (sales_order_id w) s item = 0" by (simp add: ordered_by_item_def ls_def)
    moreover have "disp item \<le> ordered_by_item (sales_order_id w) s item" using io(6) by (simp add: disp_def)
    ultimately show ?thesis using nn(2) [of item] by simp
  qed
  have disp': "item_dispatched ?w None s' = disp" and ord: "ordered_by_item (sales_order_id ?w) s' = ordered_by_item (sales_order_id w) s"
    using io(4) ordered_by_item_map [OF io(5) [unfolded ls_def]] by simp_all
  have any: "\<exists>l \<in> set ls. 0 < disp (sol_item l)" if "so_status w = FULLY_DISPATCHED"
  proof -
    from that lw obtain l where "l \<in> set ls" "0 < item_dispatched w None s (sol_item l)" by (auto simp: left_ok_def ls_def)
    then show ?thesis using nn(1) less_le_trans by blast
  qed
  show ?thesis
    unfolding left_ok_def disp' ord
  proof (intro conjI)
    show "\<forall>item. disp item \<le> ordered_by_item (sales_order_id w) s item" using io(6) by (simp add: disp_def)
    show "\<forall>l \<in> set (lines_of_so (sales_order_id ?w) s'). sol_dispatched l = disp (sol_item l)"
      by (auto simp: io(5)) (simp add: disp_def)
    have "disp item = 0" if "\<not> (\<exists>l \<in> set ls. 0 < disp (sol_item l))" for item
      using that nn(2) [of item] off [of item] by (cases "item \<in> sol_item ` set ls") (force simp: not_less)+
    then show "so_status ?w \<in> {SalesOrderStatus.DRAFT, CONFIRMED, SalesOrderStatus.CANCELLED} \<longrightarrow> (\<forall>item. disp item = 0)"
      by (auto simp: advanced_def split: if_splits)
    show "so_status ?w = FULLY_DISPATCHED \<longrightarrow>
        (\<forall>l \<in> set (lines_of_so (sales_order_id ?w) s'). qty_ordered l \<le> disp (sol_item l)) \<and>
        (\<exists>l \<in> set (lines_of_so (sales_order_id ?w) s'). 0 < disp (sol_item l))"
      using any by (auto simp: io(5) advanced_def split: if_splits)
    show "so_status ?w \<noteq> INVOICED" using io(2) by (auto simp: advanced_def)
  qed
qed

text \<open>A challan without an order leaves all orders as they are.\<close>

lemma issue_unlinked_ok:
  assumes "sales_ok s" and d: "d \<in> set (challans s)" "dc_status d = DCStatus.DRAFT" "dc_so d = None" and "inv_ok st"
  shows "sales_ok (put_dc (d\<lparr>dc_status := ISSUED\<rparr>) (s\<lparr>sale_stock := st\<rparr>))"
proof -
  let ?t = "s\<lparr>sale_stock := st\<rparr>" and ?d = "d\<lparr>dc_status := ISSUED\<rparr>"
  have ids: "sale_ids_ok ?t" using assms(1) by (simp add: sales_ok_def sale_ids_ok_def sale_ids_def)
  have same: "item_dispatched v None ?t = item_dispatched v None s" "lines_of_so j ?t = lines_of_so j s" for v j
    by (simp_all add: item_dispatched_def issued_challans_def lines_of_so_def fun_eq_iff)
  have "item_dispatched v None (put_dc ?d ?t) = item_dispatched v None s" for v
    using item_dispatched_put_dc [OF ids, of d ?d v] d by (simp add: same fun_eq_iff)
  then have "left_ok v (put_dc ?d ?t) \<longleftrightarrow> left_ok v s" for v using left_ok_cong [of v v "put_dc ?d ?t" s] by (simp add: same)
  moreover have "sale_ids_ok (put_dc ?d ?t)" using put_dc_ids [OF ids, of d ?d] d by simp
  ultimately show ?thesis using assms(1,5) by (simp add: sales_ok_def)
qed

lemma issue_dc_ok:
  assumes "issue_dc today org i s = Inr s'" and "sales_ok s"
  shows "sales_ok s'"
proof -
  have ids: "sale_ids_ok s" and st: "inv_ok (sale_stock s)" using assms(2) by (simp_all add: sales_ok_def)
  obtain d so st' where d: "get_dc org i s = Inr d" "dc_status d = DCStatus.DRAFT" and so: "locked_so org d s = Inr so"
    and st': "sale_stock s' = st'" "inv_ok st'"
    and s': "s' = (case so of None \<Rightarrow> put_dc (d\<lparr>dc_status := ISSUED\<rparr>) (s\<lparr>sale_stock := st'\<rparr>)
               | Some w \<Rightarrow> advance_so_status_after_dc w (put_dc (d\<lparr>dc_status := ISSUED\<rparr>) (s\<lparr>sale_stock := st'\<rparr>)))"
    by (rule issue_dc_stock [OF assms(1) st])
  from get_dc_mem [OF d(1)] have dm: "d \<in> set (challans s)" "\<not> dc_deleted d" "dc_org d = org" by simp_all
  show ?thesis
  proof (cases so)
    case None
    with locked_so_cases [OF so] have "dc_so d = None" by auto
    from issue_unlinked_ok [OF assms(2) dm(1) d(2) this st'(2)] show ?thesis by (simp add: s' None)
  next
    case (Some w)
    with so s' have 2: "locked_so org d s = Inr (Some w)"
      "s' = advance_so_status_after_dc w (put_dc (d\<lparr>dc_status := ISSUED\<rparr>) (s\<lparr>sale_stock := st'\<rparr>))" by simp_all
    note io = issue_on_order [OF assms(2) dm(1) d(2) dm(2,3) 2]
    let ?w = "w\<lparr>so_status := advanced w (\<lambda>item. item_dispatched w None s item + carried d s item) (lines_of_so (sales_order_id w) s)\<rparr>"
    have "left_ok v s'" if "v \<in> set (sales_orders s)" "v \<noteq> w" for v
      using that assms(2) io(7) left_ok_cong [of v v s' s] by (simp add: sales_ok_def)
    moreover have "set (sales_orders s') = insert ?w (set (sales_orders s) - {w})"
      using set_put_so [OF ids io(1), of ?w] io(3) by simp
    ultimately show ?thesis
      using linked_left_ok [OF assms(2) dm(1) d(2) dm(2,3) 2] io(10,11) assms(2) st' by (auto simp: sales_ok_def)
  qed
qed

section \<open>Calls\<close>

text \<open>The calls of the sales API and, beside them, every movement of the stock engine. The request body
  of an order is validated before the service runs.\<close>

datatype sales_call =
    CreateSo uuid uuid uuid date string "so_request list"
  | ConfirmSo uuid uuid
  | CancelSo uuid uuid
  | DeleteSo uuid uuid
  | CreateDc uuid uuid uuid date string "dc_request list" "uuid option"
  | IssueDc date uuid uuid
  | DeleteDc uuid uuid
  | StockCall stock_op

definition so_body :: "so_request list \<Rightarrow> error + unit" where
  "so_body rs = guardE (\<forall>r \<in> set rs. 0 < rq_qty r \<and> 0 \<le> rq_price r) (ValueError ''Input should be greater than 0'')"

definition sales_of :: "error + sales \<times> 'r \<Rightarrow> error + sales" where
  "sales_of r = bindE r (\<lambda>(s, _). Inr s)"

lemma sales_of_Inr [simp]: "sales_of r = Inr s \<longleftrightarrow> (\<exists>x. r = Inr (s, x))"
  by (auto simp: sales_of_def bindE_Inr_iff)

fun sales_step :: "sales_call \<Rightarrow> sales \<Rightarrow> error + sales" where
  "sales_step (CreateSo org firm party d series rs) s = bindE (so_body rs) (\<lambda>_. sales_of (create_so org firm party d series rs s))"
| "sales_step (ConfirmSo org i) s = confirm_so org i s"
| "sales_step (CancelSo org i) s = cancel_so org i s"
| "sales_step (DeleteSo org i) s = soft_delete_so org i s"
| "sales_step (CreateDc org firm party d series rs so) s = sales_of (create_dc org firm party d series rs so s)"
| "sales_step (IssueDc today org i) s = issue_dc today org i s"
| "sales_step (DeleteDc org i) s = soft_delete_dc org i s"
| "sales_step (StockCall op) s = bindE (stock_step op (sale_stock s)) (\<lambda>st. Inr (s\<lparr>sale_stock := st\<rparr>))"

lemma sale_stock_ok:
  assumes "sales_ok s" and "inv_ok st"
  shows "sales_ok (s\<lparr>sale_stock := st\<rparr>)"
proof -
  let ?t = "s\<lparr>sale_stock := st\<rparr>"
  have "left_ok v ?t \<longleftrightarrow> left_ok v s" for v
    by (rule left_ok_cong) (simp_all add: item_dispatched_def issued_challans_def lines_of_so_def fun_eq_iff)
  then show ?thesis using assms by (simp add: sales_ok_def sale_ids_ok_def sale_ids_def)
qed

lemma sales_step_ok: "sales_step c s = Inr s' \<Longrightarrow> sales_ok s \<Longrightarrow> sales_ok s'"
proof (induction c s rule: sales_step.induct)
  case (1 org firm party d series rs s)
  then obtain w where "create_so org firm party d series rs s = Inr (s', w)" "\<forall>r \<in> set rs. 0 \<le> rq_qty r"
    by (auto simp: so_body_def) (meson less_imp_le)
  with 1 show ?case by (auto intro: create_so_ok)
next
  case (8 op s)
  then obtain st where st: "stock_step op (sale_stock s) = Inr st" and s': "s' = s\<lparr>sale_stock := st\<rparr>" by auto
  from 8(2) have "inv_ok st" using stock_step_ok [OF st] by (simp add: sales_ok_def)
  with 8(2) show ?case unfolding s' by (rule sale_stock_ok)
qed (auto intro: confirm_so_ok cancel_so_ok soft_delete_so_ok create_dc_ok issue_dc_ok soft_delete_dc_ok)

interpretation sale: transactional sales_step sales_ok
  by unfold_locales (rule sales_step_ok)

section \<open>The life of an order\<close>

inductive so_step :: "SalesOrderStatus \<Rightarrow> SalesOrderStatus \<Rightarrow> bool" where
  confirm: "so_step SalesOrderStatus.DRAFT CONFIRMED"
| cancel_draft: "so_step SalesOrderStatus.DRAFT SalesOrderStatus.CANCELLED"
| cancel_confirmed: "so_step CONFIRMED SalesOrderStatus.CANCELLED"
| first_part: "so_step CONFIRMED PARTIAL_DC"
| at_once: "so_step CONFIRMED FULLY_DISPATCHED"
| rest: "so_step PARTIAL_DC FULLY_DISPATCHED"

inductive_cases so_stepE: "so_step a b"
inductive_simps so_step_final: "so_step SalesOrderStatus.CANCELLED b" "so_step FULLY_DISPATCHED b"

lemma so_steps_final: "so_step\<^sup>*\<^sup>* a b \<Longrightarrow> a \<in> {SalesOrderStatus.CANCELLED, FULLY_DISPATCHED} \<Longrightarrow> b = a"
  by (induction rule: converse_rtranclp_induct) (auto simp: so_step_final)

text \<open>What one call does to one order.\<close>

definition so_moves :: "so_row \<Rightarrow> sales \<Rightarrow> bool" where
  "so_moves w s' \<longleftrightarrow> (\<exists>w' \<in> set (sales_orders s'). sales_order_id w' = sales_order_id w \<and>
     (so_status w' = so_status w \<or> so_step (so_status w) (so_status w')))"

lemma so_moves_same: "w \<in> set (sales_orders s') \<Longrightarrow> so_moves w s'"
  by (auto simp: so_moves_def)

lemma so_moves_put:
  assumes "sale_ids_ok s" and "v \<in> set (sales_orders s)" and "w \<in> set (sales_orders s)" and "sales_order_id v' = sales_order_id v"
    and "so_status v' = so_status v \<or> so_step (so_status v) (so_status v')"
  shows "so_moves w (put_so v' s)"
  using assms set_put_so [OF assms(1,2,4)] by (cases "w = v") (auto simp: so_moves_def)

lemma advanced_step:
  assumes "left_ok w s" and "so_status w \<in> {CONFIRMED, PARTIAL_DC, FULLY_DISPATCHED}" and "\<And>item. item_dispatched w None s item \<le> disp item"
  shows "so_status w = advanced w disp (lines_of_so (sales_order_id w) s) \<or> so_step (so_status w) (advanced w disp (lines_of_so (sales_order_id w) s))"
proof (cases "so_status w = FULLY_DISPATCHED")
  case True
  with assms(1) have "\<forall>l \<in> set (lines_of_so (sales_order_id w) s). qty_ordered l \<le> item_dispatched w None s (sol_item l)"
    "\<exists>l \<in> set (lines_of_so (sales_order_id w) s). 0 < item_dispatched w None s (sol_item l)" by (simp_all add: left_ok_def)
  then have "\<forall>l \<in> set (lines_of_so (sales_order_id w) s). qty_ordered l \<le> disp (sol_item l)"
    "\<exists>l \<in> set (lines_of_so (sales_order_id w) s). 0 < disp (sol_item l)"
    using assms(3) by (meson order_trans, meson less_le_trans)
  then show ?thesis using True by (simp add: advanced_def)
qed (use assms(2) in \<open>auto simp: advanced_def intro: so_step.intros\<close>)

lemma issue_so_moves:
  assumes "issue_dc today org i s = Inr s'" and "sales_ok s" and "v \<in> set (sales_orders s)"
  shows "so_moves v s'"
proof -
  have ids: "sale_ids_ok s" and st: "inv_ok (sale_stock s)" and pos: "\<forall>l \<in> set (dc_lines s). 0 < qty_dispatched l"
    using assms(2) by (simp_all add: sales_ok_def)
  obtain d so st' where d: "get_dc org i s = Inr d" "dc_status d = DCStatus.DRAFT" and so: "locked_so org d s = Inr so"
    and s': "s' = (case so of None \<Rightarrow> put_dc (d\<lparr>dc_status := ISSUED\<rparr>) (s\<lparr>sale_stock := st'\<rparr>)
               | Some w \<Rightarrow> advance_so_status_after_dc w (put_dc (d\<lparr>dc_status := ISSUED\<rparr>) (s\<lparr>sale_stock := st'\<rparr>)))"
    by (rule issue_dc_stock [OF assms(1) st])
  from get_dc_mem [OF d(1)] have dm: "d \<in> set (challans s)" "\<not> dc_deleted d" "dc_org d = org" by simp_all
  show ?thesis
  proof (cases so)
    case None
    with assms(3) show ?thesis by (simp add: s' so_moves_same)
  next
    case (Some w)
    with so s' have 2: "locked_so org d s = Inr (Some w)"
      "s' = advance_so_status_after_dc w (put_dc (d\<lparr>dc_status := ISSUED\<rparr>) (s\<lparr>sale_stock := st'\<rparr>))" by simp_all
    note io = issue_on_order [OF assms(2) dm(1) d(2) dm(2,3) 2]
    have "left_ok w s" using assms(2) io(1) by (simp add: sales_ok_def)
    from advanced_step [OF this io(2), of "\<lambda>item. item_dispatched w None s item + carried d s item"] carried_le(1) [OF pos]
      so_moves_put [OF ids io(1) assms(3)] io(3)
    show ?thesis by (auto simp: so_moves_def)
  qed
qed

lemma so_call_moves:
  assumes "sales_step c s = Inr s'" and "sales_ok s" and "v \<in> set (sales_orders s)"
  shows "so_moves v s'"
proof -
  have ids: "sale_ids_ok s" using assms(2) by (simp add: sales_ok_def)
  show ?thesis
  proof (cases c)
    case (CreateSo org firm party d series rs)
    with assms(1,3) show ?thesis
      by (auto simp: create_so_def insert_so_def sale_mint_def Let_def so_moves_same split: if_splits)
  next
    case (ConfirmSo org i)
    with assms(1) show ?thesis
      by (auto simp: confirm_so_def dest!: get_so_mem intro!: so_moves_put [OF ids _ assms(3)] so_step.intros)
  next
    case (CancelSo org i)
    with assms(1) obtain w where w: "get_so org i s = Inr w" "so_status w \<notin> {PARTIAL_DC, FULLY_DISPATCHED, INVOICED}"
      and s': "s' = s \<or> s' = put_so (w\<lparr>so_status := SalesOrderStatus.CANCELLED\<rparr>) s"
      by (auto simp: cancel_so_def split: if_splits)
    from w(2) have "so_status w = SalesOrderStatus.CANCELLED \<or> so_step (so_status w) SalesOrderStatus.CANCELLED"
      by (cases "so_status w") (auto intro: so_step.intros)
    then show ?thesis using s' assms(3) get_so_mem [OF w(1)] so_moves_put [OF ids _ assms(3), of w "w\<lparr>so_status := SalesOrderStatus.CANCELLED\<rparr>"]
      by (auto simp: so_moves_same)
  next
    case (DeleteSo org i)
    with assms(1,3) show ?thesis
      by (auto simp: soft_delete_so_def scalar_one_or_none_Some so_moves_same split: option.splits if_splits
          dest!: filter_oneD intro!: so_moves_put [OF ids _ assms(3)])
  next
    case (CreateDc org firm party d series rs so)
    with assms(1,3) show ?thesis by (auto elim!: create_dc_cases simp: so_moves_same)
  next
    case (IssueDc today org i)
    with assms show ?thesis by (auto intro: issue_so_moves)
  next
    case (DeleteDc org i)
    with assms(1,3) show ?thesis
      by (auto simp: soft_delete_dc_def so_moves_same split: option.splits if_splits)
  next
    case (StockCall op)
    with assms(1,3) show ?thesis by (auto simp: so_moves_same)
  qed
qed

section \<open>Properties\<close>

text \<open>A customer, an order of ten units of item 3 confirmed, a challan of six issued, a second challan
  of six refused, then four more.\<close>

definition demo_desk :: sales where
  "demo_desk = \<lparr>sale_stock = demo_inv,
     customers = [\<lparr>cust_id = 5, cust_org = 1, is_customer = True, cust_state = Some ''MH'', cust_gstin = None, cust_sez = False,
                  cust_export = False, cust_deleted = False\<rparr>],
     sales_orders = [], so_lines = [], challans = [], dc_lines = [], sale_supply = (\<lambda>n. 500 + n), sale_count = 0\<rparr>"

definition demo_want :: "decimal \<Rightarrow> so_request" where
  "demo_want q = \<lparr>rq_item = 3, rq_qty = q, rq_price = 90, rq_gst_rate = None, rq_sequence = None\<rparr>"

definition demo_carry :: "decimal \<Rightarrow> dc_request" where
  "demo_carry q = \<lparr>dq_item = 3, dq_qty = q, dq_price = None, dq_lot = None, dq_sequence = None\<rparr>"

definition demo_sales_calls :: "sales_call list" where
  "demo_sales_calls = [CreateSo 1 2 5 (Date 2026 5 2) ''SO'' [demo_want 10], ConfirmSo 1 500,
     CreateDc 1 2 5 (Date 2026 5 3) ''DC'' [demo_carry 6] (Some 500), CreateDc 1 2 5 (Date 2026 5 3) ''DC2'' [demo_carry 6] (Some 500),
     IssueDc (Date 2026 5 3) 1 501, IssueDc (Date 2026 5 3) 1 502]"

lemma demo_desk_ok: "sales_ok demo_desk"
  by (simp add: sales_ok_def sale_ids_ok_def sale_ids_def demo_desk_def demo_ok inj_def)

text \<open>C6: Whatever calls the sales desk and the stock engine serve, in whatever order and with whatever
  failures: no order is over-dispatched in any item, each line of an order shows what has left for
  its item, and nothing has left for an order that is a draft, only confirmed, or cancelled.\<close>

theorem never_over_dispatched:
  assumes "sales_ok s" and "w \<in> set (sales_orders (fold (commit sales_step) calls s))"
  shows "item_dispatched w None (fold (commit sales_step) calls s) item
      \<le> ordered_by_item (sales_order_id w) (fold (commit sales_step) calls s) item \<and>
    (\<forall>l \<in> set (lines_of_so (sales_order_id w) (fold (commit sales_step) calls s)).
       sol_dispatched l = item_dispatched w None (fold (commit sales_step) calls s) (sol_item l)) \<and>
    (so_status w \<in> {SalesOrderStatus.DRAFT, CONFIRMED, SalesOrderStatus.CANCELLED} \<longrightarrow>
       item_dispatched w None (fold (commit sales_step) calls s) item = 0)"
  using sale.run_inv [OF assms(1), of calls] assms(2) by (simp add: sales_ok_def left_ok_def)

lemma demo_sales_eval:
  "map (\<lambda>t. (map (\<lambda>w. (sales_order_id w, so_status w, item_dispatched w None t 3)) (sales_orders t), ordered_by_item 500 t 3,
      map (\<lambda>l. (sol_item l, sol_dispatched l)) (so_lines t), map (\<lambda>d. (dc_so d, dc_status d)) (challans t), item_on_hand 1 2 3 None (sale_stock t)))
     [fold (commit sales_step) demo_sales_calls demo_desk]
   = [([(500, PARTIAL_DC, 6)], 10, [(3, 6)], [(Some 500, ISSUED), (Some 500, DCStatus.DRAFT)], 11)]"
  by code_simp

lemma never_over_dispatched_witness:
  "\<exists>w. sales_orders (fold (commit sales_step) demo_sales_calls demo_desk) = [w] \<and> so_status w = PARTIAL_DC \<and>
     item_dispatched w None (fold (commit sales_step) demo_sales_calls demo_desk) 3 = 6 \<and>
     item_dispatched w None (fold (commit sales_step) demo_sales_calls demo_desk) 3
       \<le> ordered_by_item 500 (fold (commit sales_step) demo_sales_calls demo_desk) 3"
proof -
  let ?t = "fold (commit sales_step) demo_sales_calls demo_desk"
  from demo_sales_eval obtain w where w: "sales_orders ?t = [w]" "sales_order_id w = 500" "so_status w = PARTIAL_DC"
      "item_dispatched w None ?t 3 = 6"
    by (auto simp: map_eq_Cons_conv)
  with never_over_dispatched [OF demo_desk_ok, of w demo_sales_calls 3] show ?thesis by simp
qed

text \<open>C37: The status of an order only moves along the chain draft, confirmed, partly dispatched, fully
  dispatched, or from draft or confirmed to cancelled, however the calls are mixed; a cancelled or
  fully dispatched order stays so, and an order never disappears.\<close>

theorem so_status_advances:
  assumes "sales_ok s" and "w \<in> set (sales_orders s)"
  shows "\<exists>w' \<in> set (sales_orders (fold (commit sales_step) calls s)). sales_order_id w' = sales_order_id w \<and>
    so_step\<^sup>*\<^sup>* (so_status w) (so_status w') \<and> so_status w' \<noteq> INVOICED \<and>
    (so_status w \<in> {SalesOrderStatus.CANCELLED, FULLY_DISPATCHED} \<longrightarrow> so_status w' = so_status w)"
proof -
  have "\<exists>w' \<in> set (sales_orders (fold (commit sales_step) calls s)). sales_order_id w' = sales_order_id w \<and>
      so_step\<^sup>*\<^sup>* (so_status w) (so_status w')"
    using assms
  proof (induction calls arbitrary: s w)
    case (Cons c calls)
    have "so_moves w (commit sales_step c s)"
      using so_call_moves [OF _ Cons.prems] Cons.prems(2) by (auto simp: commit_def so_moves_same split: sum.split)
    then obtain v where v: "v \<in> set (sales_orders (commit sales_step c s))" "sales_order_id v = sales_order_id w"
      "so_step\<^sup>*\<^sup>* (so_status w) (so_status v)" by (auto simp: so_moves_def)
    from Cons.IH [OF sale.commit_inv [OF Cons.prems(1)] v(1)] v(2,3) show ?case by (auto intro: rtranclp_trans)
  qed auto
  then obtain w' where w': "w' \<in> set (sales_orders (fold (commit sales_step) calls s))" "sales_order_id w' = sales_order_id w"
    "so_step\<^sup>*\<^sup>* (so_status w) (so_status w')" by blast
  moreover have "so_status w' \<noteq> INVOICED" using sale.run_inv [OF assms(1), of calls] w'(1) by (auto simp: sales_ok_def left_ok_def)
  ultimately show ?thesis using so_steps_final by blast
qed

lemma so_status_advances_witness:
  "\<exists>w w'. sales_orders (fold (commit sales_step) [CreateSo 1 2 5 (Date 2026 5 2) ''SO'' [demo_want 10], CancelSo 1 500] demo_desk) = [w] \<and>
     sales_orders (fold (commit sales_step) [ConfirmSo 1 500] (fold (commit sales_step)
       [CreateSo 1 2 5 (Date 2026 5 2) ''SO'' [demo_want 10], CancelSo 1 500] demo_desk)) = [w'] \<and>
     so_status w' = SalesOrderStatus.CANCELLED"
proof -
  let ?s = "fold (commit sales_step) [CreateSo 1 2 5 (Date 2026 5 2) ''SO'' [demo_want 10], CancelSo 1 500] demo_desk"
  have "map (\<lambda>s. (map so_status (sales_orders s), length (sales_orders (fold (commit sales_step) [ConfirmSo 1 500] s)))) [?s]
      = [([SalesOrderStatus.CANCELLED], 1)]" by code_simp
  then obtain w w' where w: "sales_orders ?s = [w]" "so_status w = SalesOrderStatus.CANCELLED"
    and w': "sales_orders (fold (commit sales_step) [ConfirmSo 1 500] ?s) = [w']"
    by (auto simp: map_eq_Cons_conv length_Suc_conv)
  have "w \<in> set (sales_orders ?s)" unfolding w(1) by simp
  from so_status_advances [OF sale.run_inv [OF demo_desk_ok] this, of "[ConfirmSo 1 500]"]
  have "so_status w' = SalesOrderStatus.CANCELLED" unfolding w' using w(2) by simp
  with w(1) w' show ?thesis by (intro exI conjI)
qed

text \<open>C38: Issuing a challan takes exactly its stockable lines out of the firm's stock, item by item,
  turns it from draft to issued, and cannot be repeated.\<close>

theorem issue_dc_moves_goods:
  assumes "issue_dc today org i s = Inr s'" and "sales_ok s"
  shows "\<exists>d. get_dc org i s = Inr d \<and> get_dc org i s' = Inr (d\<lparr>dc_status := ISSUED\<rparr>) \<and> inv_ok (sale_stock s') \<and>
    (\<forall>it. item_on_hand org (dc_firm d) it None (sale_stock s')
       = item_on_hand org (dc_firm d) it None (sale_stock s) - goods org (sale_stock s) (lines_of_dc i s) it) \<and>
    issue_dc today' org i s' = Inl (InvoiceStateError ''Cannot issue DC'')"
proof -
  have st: "inv_ok (sale_stock s)" using assms(2) by (simp add: sales_ok_def)
  obtain d so st' where d: "get_dc org i s = Inr d" and "dc_status d = DCStatus.DRAFT" and "locked_so org d s = Inr so"
    and st': "sale_stock s' = st'" "inv_ok st'"
    and held: "\<forall>it. held (item_key org (dc_firm d) it) st'
      = held (item_key org (dc_firm d) it) (sale_stock s) - goods org (sale_stock s) (lines_of_dc i s) it"
    and s': "s' = (case so of None \<Rightarrow> put_dc (d\<lparr>dc_status := ISSUED\<rparr>) (s\<lparr>sale_stock := st'\<rparr>)
               | Some w \<Rightarrow> advance_so_status_after_dc w (put_dc (d\<lparr>dc_status := ISSUED\<rparr>) (s\<lparr>sale_stock := st'\<rparr>)))"
    by (rule issue_dc_stock [OF assms(1) st])
  have cs: "challans s' = update_where (\<lambda>c. delivery_challan_id c = i) (\<lambda>_. d\<lparr>dc_status := ISSUED\<rparr>) (challans s)"
    using get_dc_mem [OF d] by (simp add: s' advance_so_status_after_dc_def Let_def put_so_def put_dc_def split: option.split)
  have "get_dc org i s' = Inr (d\<lparr>dc_status := ISSUED\<rparr>)"
    using d get_dc_mem [OF d] assms(2) unfolding get_dc_Inr cs
    by (intro filter_put_row) (simp_all add: sales_ok_def sale_ids_ok_def)
  then show ?thesis
    using d st' held item_on_hand_held [OF inv_ok_parts(1)] st by (auto simp: issue_dc_def guardE_def)
qed

lemma issue_dc_moves_goods_witness:
  "\<exists>s'. issue_dc (Date 2026 5 3) 1 501 (fold (commit sales_step) (take 4 demo_sales_calls) demo_desk) = Inr s' \<and>
     item_on_hand 1 2 3 None (sale_stock (fold (commit sales_step) (take 4 demo_sales_calls) demo_desk)) = 17 \<and>
     item_on_hand 1 2 3 None (sale_stock s') = 11 \<and>
     issue_dc (Date 2026 5 4) 1 501 s' = Inl (InvoiceStateError ''Cannot issue DC'')"
proof -
  let ?t = "fold (commit sales_step) (take 4 demo_sales_calls) demo_desk"
  have "map (\<lambda>t. (isl (issue_dc (Date 2026 5 3) 1 501 t), item_on_hand 1 2 3 None (sale_stock t),
      goods 1 (sale_stock t) (lines_of_dc 501 t) 3, case get_dc 1 501 t of Inl _ \<Rightarrow> 0 | Inr d \<Rightarrow> dc_firm d)) [?t]
    = [(False, 17, 6, 2)]" by code_simp
  then have ev: "\<not> isl (issue_dc (Date 2026 5 3) 1 501 ?t)" "item_on_hand 1 2 3 None (sale_stock ?t) = 17"
    "goods 1 (sale_stock ?t) (lines_of_dc 501 ?t) 3 = 6" "(case get_dc 1 501 ?t of Inl _ \<Rightarrow> 0 | Inr d \<Rightarrow> dc_firm d) = 2"
    by (simp_all only: list.map list.inject prod.inject simp_thms)
  from ev(1) obtain s' where s': "issue_dc (Date 2026 5 3) 1 501 ?t = Inr s'" by (cases "issue_dc (Date 2026 5 3) 1 501 ?t") auto
  from issue_dc_moves_goods [OF s' sale.run_inv [OF demo_desk_ok], of "Date 2026 5 4"] obtain d where
    d: "get_dc 1 501 ?t = Inr d" and st: "\<forall>it. item_on_hand 1 (dc_firm d) it None (sale_stock s')
       = item_on_hand 1 (dc_firm d) it None (sale_stock ?t) - goods 1 (sale_stock ?t) (lines_of_dc 501 ?t) it"
    and again: "issue_dc (Date 2026 5 4) 1 501 s' = Inl (InvoiceStateError ''Cannot issue DC'')" by (elim exE conjE)
  have "dc_firm d = 2" using ev(4) unfolding d by simp
  with spec [OF st, of 3] have "item_on_hand 1 2 3 None (sale_stock s') = 11" unfolding ev(3) by (simp only: ev(2))
  with s' ev(2) again show ?thesis by (intro exI conjI)
qed

text \<open>The check looks at the lines one by one: when an item is on two lines of an order, each line
  is compared with everything that left for the item, so the order counts as fully dispatched while
  part of it is still open.\<close>

theorem duplicate_lines_complete_early:
  assumes "so_status w \<noteq> SalesOrderStatus.CANCELLED" and "lines_of_so (sales_order_id w) s = [a, b]" and "sol_item a = sol_item b"
    and "w \<in> set (sales_orders s)" and "0 < item_dispatched w None s (sol_item a)"
    and "qty_ordered a \<le> item_dispatched w None s (sol_item a)" and "qty_ordered b \<le> item_dispatched w None s (sol_item a)"
    and "item_dispatched w None s (sol_item a) < qty_ordered a + qty_ordered b"
  shows "\<exists>w' \<in> set (sales_orders (advance_so_status_after_dc w s)). sales_order_id w' = sales_order_id w \<and> so_status w' = FULLY_DISPATCHED \<and>
    item_dispatched w' None s (sol_item a) < ordered_by_item (sales_order_id w') s (sol_item a)"
proof -
  have "w\<lparr>so_status := FULLY_DISPATCHED\<rparr> \<in> set (sales_orders (advance_so_status_after_dc w s))"
    using assms by (auto simp: advance_so_status_after_dc_def Let_def put_so_def set_update_where)
  then show ?thesis using assms by (auto simp: ordered_by_item_def intro!: bexI [of _ "w\<lparr>so_status := FULLY_DISPATCHED\<rparr>"])
qed

end
