(* ===== verification/SalesInvoices.thy ===== *)
theory SalesInvoices
  imports SalesOrders AccountingProps
begin

text \<open>
  Sales invoices, the second half of \<^verbatim>\<open>app/service/sales_service.py\<close>, and the link between an
  invoice and a delivery challan, \<^verbatim>\<open>app/service/dc_invoice_link_service.py\<close>: a draft is priced, then
  finalized into the general ledger with the cost of the goods, or discarded; a finalized invoice is
  cancelled by reversing vouchers and a return of the stock. GSTIN columns are read decrypted;
  addresses, notes, due dates and the audit log are not modelled.
\<close>

section \<open>State\<close>

text \<open>The GST columns of a firm row.\<close>

record firm_tax =
  ft_firm :: uuid
  ft_org :: uuid
  has_gst :: bool
  ft_state :: "string option"
  ft_gstin :: "string option"

text \<open>An invoice row: what the postings read, and the columns beside it.\<close>

record invoice_row =
  inv_head :: sales_invoice
  inv_dc :: "uuid option"
  inv_pos :: "string option"
  inv_paid :: decimal
  inv_status :: VoucherStatus
  cancelled_at :: "clock option"
  cancel_reason :: "string option"
  inv_deleted :: bool

record invoice_line =
  il_org :: uuid
  il_invoice :: uuid
  il_item :: uuid
  il_qty :: decimal
  il_price :: decimal
  il_amount :: decimal
  il_rate :: decimal
  il_gst :: decimal
  il_sequence :: "nat option"

record billing =
  sale_desk :: sales
  sale_books :: books
  firm_taxes :: "firm_tax list"
  invoices :: "invoice_row list"
  invoice_lines :: "invoice_line list"

record inv_request =
  vq_item :: uuid
  vq_qty :: decimal
  vq_price :: decimal
  vq_rate :: "decimal option"
  vq_sequence :: "nat option option"

abbreviation inv_id :: "invoice_row \<Rightarrow> uuid" where "inv_id v \<equiv> sales_invoice_id (inv_head v)"
abbreviation lifecycle :: "invoice_row \<Rightarrow> LifecycleStatus" where "lifecycle v \<equiv> lifecycle_status (inv_head v)"

definition tax_value :: "TaxType \<Rightarrow> string" where
  "tax_value t = (case t of CGST_SGST \<Rightarrow> ''CGST_SGST'' | IGST \<Rightarrow> ''IGST'' | NIL_LUT \<Rightarrow> ''NIL_LUT''
     | NIL_NOT_A_SUPPLY \<Rightarrow> ''NIL_NOT_A_SUPPLY'' | NIL \<Rightarrow> ''NIL'')"

definition document_value :: "DocumentType \<Rightarrow> string" where
  "document_value d = (case d of TAX_INVOICE \<Rightarrow> ''TAX_INVOICE'' | BILL_OF_SUPPLY \<Rightarrow> ''BILL_OF_SUPPLY''
     | DELIVERY_CHALLAN \<Rightarrow> ''DELIVERY_CHALLAN'' | CREDIT_NOTE \<Rightarrow> ''CREDIT_NOTE'')"

section \<open>Who is billed\<close>

definition classify_buyer :: "customer_row \<Rightarrow> BuyerStatus" where
  "classify_buyer p =
     (if cust_sez p then SEZ else if cust_export p then EXPORT
      else if cust_gstin p \<noteq> None then REGISTERED else CONSUMER)"

definition truthy :: "string option \<Rightarrow> bool" where
  "truthy x \<longleftrightarrow> x \<noteq> None \<and> x \<noteq> Some []"

definition is_unpriced_registered_nil :: "string option \<Rightarrow> string option \<Rightarrow> string option \<Rightarrow> bool" where
  "is_unpriced_registered_nil tax doc gstin \<longleftrightarrow>
     tax = Some ''NIL_NOT_A_SUPPLY'' \<and> doc \<noteq> Some ''DELIVERY_CHALLAN'' \<and> truthy gstin"

definition refuse_unpriced_registered_draft :: "PlaceOfSupply \<Rightarrow> string option \<Rightarrow> error + unit" where
  "refuse_unpriced_registered_draft p gstin =
     guardE (\<not> is_unpriced_registered_nil (Some (tax_value (ps_tax_type p))) (Some (document_value (ps_document_type p))) gstin)
       (AppValidationError ''Cannot determine the place of supply for party'')"

definition refuse_gst_firm_without_state :: "firm_tax \<Rightarrow> error + unit" where
  "refuse_gst_firm_without_state f =
     guardE (\<not> has_gst f \<or> normalize_state_code (ft_state f) \<noteq> None)
       (AppValidationError ''Firm is GST-registered but the place of supply cannot be determined'')"

text \<open>\<^verbatim>\<open>scalar_one\<close>: exactly one row.\<close>

definition scalar_one :: "'r list \<Rightarrow> error + 'r" where
  "scalar_one rs = bindE (scalar_one_or_none rs) (\<lambda>r. case r of None \<Rightarrow> Inl (NotFoundError ''NoResultFound'') | Some x \<Rightarrow> Inr x)"

definition firm_tax_of :: "uuid \<Rightarrow> uuid \<Rightarrow> billing \<Rightarrow> error + firm_tax" where
  "firm_tax_of org firm s = scalar_one (filter (\<lambda>f. ft_firm f = firm \<and> ft_org f = org) (firm_taxes s))"

section \<open>The link to a challan\<close>

definition RELEASED_INVOICE_STATUSES :: "LifecycleStatus list" where
  "RELEASED_INVOICE_STATUSES = [LifecycleStatus.CANCELLED, DISCARDED]"

definition INVOICEABLE_DC_STATUSES :: "DCStatus list" where
  "INVOICEABLE_DC_STATUSES = [ISSUED, ACKNOWLEDGED]"

definition lock_dc_for_invoicing :: "uuid \<Rightarrow> uuid \<Rightarrow> billing \<Rightarrow> error + dc_row option" where
  "lock_dc_for_invoicing org dc s =
     scalar_one_or_none (filter (\<lambda>d. delivery_challan_id d = dc \<and> dc_org d = org \<and> \<not> dc_deleted d) (challans (sale_desk s)))"

text \<open>An invoice that holds its challan.\<close>

definition bills :: "uuid \<Rightarrow> invoice_row \<Rightarrow> bool" where
  "bills dc v \<longleftrightarrow> inv_dc v = Some dc \<and> \<not> inv_deleted v \<and> lifecycle v \<notin> set RELEASED_INVOICE_STATUSES"

definition find_live_invoice_on_dc :: "uuid \<Rightarrow> uuid \<Rightarrow> uuid option \<Rightarrow> billing \<Rightarrow> invoice_row option" where
  "find_live_invoice_on_dc org dc exclude s =
     find (\<lambda>v. si_org (inv_head v) = org \<and> bills dc v \<and> exclude \<noteq> Some (inv_id v)) (invoices s)"

definition require_dc :: "uuid \<Rightarrow> uuid \<Rightarrow> uuid \<Rightarrow> uuid \<Rightarrow> uuid option \<Rightarrow> billing \<Rightarrow> error + dc_row" where
  "require_dc org firm party dc exclude s =
     bindE (lock_dc_for_invoicing org dc s) (\<lambda>found.
     case found of
       None \<Rightarrow> Inl (AppValidationError ''Delivery challan not found'')
     | Some d \<Rightarrow>
         bindE (guardE (dc_firm d = firm) (AppValidationError ''Delivery challan belongs to a different firm'')) (\<lambda>_.
         bindE (guardE (dc_party d = party) (AppValidationError ''Delivery challan was dispatched to a different customer'')) (\<lambda>_.
         bindE (guardE (dc_status d \<in> set INVOICEABLE_DC_STATUSES)
                  (AppValidationError ''only an ISSUED or ACKNOWLEDGED challan can be invoiced'')) (\<lambda>_.
         bindE (guardE (find_live_invoice_on_dc org dc exclude s = None)
                  (AppValidationError ''Delivery challan is already billed on invoice'')) (\<lambda>_.
         Inr d)))))"

definition stockable :: "uuid \<Rightarrow> inv \<Rightarrow> uuid \<Rightarrow> bool" where
  "stockable org st item \<longleftrightarrow>
     (case find (\<lambda>r. item_id r = item \<and> item_org r = org) (items st) of None \<Rightarrow> False | Some r \<Rightarrow> item_type r \<noteq> SERVICE)"

text \<open>The two dictionaries of stockable quantities.\<close>

definition billed_qtys :: "uuid \<Rightarrow> inv \<Rightarrow> (uuid \<times> decimal) list \<Rightarrow> (uuid \<times> decimal) list" where
  "billed_qtys org st qs = filter (\<lambda>q. stockable org st (fst q)) qs"

definition challan_qtys :: "uuid \<Rightarrow> dc_row \<Rightarrow> sales \<Rightarrow> (uuid \<times> decimal) list" where
  "challan_qtys org d s =
     billed_qtys org (sale_stock s)
       (map (\<lambda>l. (dcl_item l, qty_dispatched l)) (filter (\<lambda>l. \<not> dcl_deleted l) (lines_of_dc (delivery_challan_id d) s)))"

definition check_lines_match_dc :: "uuid \<Rightarrow> dc_row \<Rightarrow> inv_request list \<Rightarrow> billing \<Rightarrow> error + unit" where
  "check_lines_match_dc org d rs s =
     (let billed = billed_qtys org (sale_stock (sale_desk s)) (map (\<lambda>r. (vq_item r, vq_qty r)) rs);
          dispatched = challan_qtys org d (sale_desk s)
      in bindE (mapE (\<lambda>i. guardE (i \<in> fst ` set dispatched) (AppValidationError ''Item is not on delivery challan''))
                  (first_met (map fst billed))) (\<lambda>_.
         bindE (mapE (\<lambda>i. guardE (this_by_item billed i = this_by_item dispatched i)
                        (AppValidationError ''Bill the full challan quantity''))
                  (first_met (map fst dispatched))) (\<lambda>_.
         Inr ())))"

definition validate_link_for_create ::
  "uuid \<Rightarrow> uuid \<Rightarrow> uuid \<Rightarrow> uuid \<Rightarrow> inv_request list \<Rightarrow> billing \<Rightarrow> error + dc_row" where
  "validate_link_for_create org firm party dc rs s =
     bindE (require_dc org firm party dc None s) (\<lambda>d.
     bindE (check_lines_match_dc org d rs s) (\<lambda>_. Inr d))"

definition revalidate_link_for_finalize :: "invoice_row \<Rightarrow> billing \<Rightarrow> error + dc_row" where
  "revalidate_link_for_finalize v s =
     (case inv_dc v of
        None \<Rightarrow> Inl (AppValidationError ''Invoice is not linked to a delivery challan.'')
      | Some dc \<Rightarrow> require_dc (si_org (inv_head v)) (si_firm (inv_head v)) (si_party (inv_head v)) dc (Some (inv_id v)) s)"

section \<open>Pricing a draft\<close>

record draft_line =
  dl_item :: uuid
  dl_qty :: decimal
  dl_price :: decimal
  dl_amount :: decimal
  dl_rate :: decimal
  dl_provisional :: decimal
  dl_sequence :: "nat option"

definition line_rate :: "inv_request \<Rightarrow> decimal" where
  "line_rate r = or_zero (vq_rate r)"

definition line_worth :: "inv_request \<Rightarrow> decimal" where
  "line_worth r = paise (ctx (vq_qty r * vq_price r))"

fun price_line :: "firm_tax \<Rightarrow> nat \<times> inv_request \<Rightarrow> error + draft_line" where
  "price_line f (idx, r) =
     bindE (guardE (is_valid_gst_rate (Some (line_rate r))) (AppValidationError ''GST rate is not a recognised statutory slab rate.'')) (\<lambda>_.
     bindE (guardE (\<not> (\<not> has_gst f \<and> line_rate r > 0)) (AppValidationError ''Firm is not GST-registered'')) (\<lambda>_.
     bindE (ensure_money_in_range (line_worth r)) (\<lambda>_.
     Inr \<lparr>dl_item = vq_item r, dl_qty = vq_qty r, dl_price = vq_price r, dl_amount = line_worth r, dl_rate = line_rate r,
          dl_provisional = paise (ctx (ctx (line_worth r * line_rate r) / 100)),
          dl_sequence = (case vq_sequence r of Some n \<Rightarrow> n | None \<Rightarrow> Some (Suc idx))\<rparr>)))"

definition subtotal_of :: "draft_line list \<Rightarrow> decimal" where
  "subtotal_of ls = (\<Sum>l\<leftarrow>ls. dl_amount l)"

definition ship_state :: "string option \<Rightarrow> string option" where
  "ship_state ship = (if truthy ship then normalize_state_code ship else None)"

definition buyer_state_of :: "customer_row \<Rightarrow> string option" where
  "buyer_state_of p =
     (let b = normalize_state_code (cust_state p) in
      if classify_buyer p \<in> {REGISTERED, SEZ} \<and> b = None \<and> truthy (cust_gstin p)
      then normalize_state_code (map_option (take 2) (cust_gstin p)) else b)"

definition place_of_supply_for ::
  "firm_tax \<Rightarrow> customer_row \<Rightarrow> string option \<Rightarrow> decimal \<Rightarrow> date \<Rightarrow> PlaceOfSupply" where
  "place_of_supply_for f p ship worth d =
     determine_place_of_supply (case normalize_state_code (ft_state f) of Some c \<Rightarrow> c | None \<Rightarrow> []) (ft_gstin f)
       (buyer_state_of p) (cust_gstin p) (classify_buyer p) (or_else (ship_state ship) (buyer_state_of p)) worth False
       (has_gst f) (Some d)"

definition line_tax :: "TaxType \<Rightarrow> draft_line \<Rightarrow> error + decimal" where
  "line_tax t l = bindE (compute_line_gst (dl_amount l) (dl_rate l) t) (\<lambda>g. Inr (tax_total g))"

text \<open>The two passes: the lines, then the place of supply and the final taxes.\<close>

definition price_draft ::
  "firm_tax \<Rightarrow> customer_row \<Rightarrow> string option \<Rightarrow> date \<Rightarrow> inv_request list
   \<Rightarrow> error + PlaceOfSupply \<times> draft_line list \<times> decimal list" where
  "price_draft f p ship d rs =
     bindE (mapE (price_line f) (enumerate 0 rs)) (\<lambda>ls.
     let pos = place_of_supply_for f p ship (subtotal_of ls + (\<Sum>l\<leftarrow>ls. dl_provisional l)) d in
     bindE (refuse_unpriced_registered_draft pos (cust_gstin p)) (\<lambda>_.
     bindE (mapE (line_tax (ps_tax_type pos)) ls) (\<lambda>gs.
     bindE (ensure_money_in_range (subtotal_of ls + sum_list gs)) (\<lambda>_.
     Inr (pos, ls, gs)))))"

text \<open>A state code fits the column; the special destinations are replaced by the state.\<close>

definition stored_pos_state :: "PlaceOfSupply \<Rightarrow> customer_row \<Rightarrow> string option \<Rightarrow> string option" where
  "stored_pos_state pos p ship =
     (case ps_pos_state pos of
        Some c \<Rightarrow> if length c > 2 then or_else (ship_state ship) (buyer_state_of p) else Some c
      | None \<Rightarrow> None)"

definition si_numbers :: "uuid \<Rightarrow> uuid \<Rightarrow> string \<Rightarrow> billing \<Rightarrow> string list" where
  "si_numbers org firm series s =
     map (\<lambda>v. si_number (inv_head v))
       (filter (\<lambda>v. si_org (inv_head v) = org \<and> si_firm (inv_head v) = firm \<and> si_series (inv_head v) = series) (invoices s))"

definition allocate_si_number :: "uuid \<Rightarrow> uuid \<Rightarrow> string \<Rightarrow> billing \<Rightarrow> string" where
  "allocate_si_number org firm series s = next_by_text (si_numbers org firm series s)"

definition SI_NUMBER_KEY :: string where
  "SI_NUMBER_KEY = ''sales_invoice_org_id_firm_id_series_number_key''"

definition LINK_UNIQUE_INDEX :: string where
  "LINK_UNIQUE_INDEX = ''uq_sales_invoice_delivery_challan_live''"

definition insert_invoice :: "invoice_row \<Rightarrow> billing \<Rightarrow> error + billing \<times> invoice_row" where
  "insert_invoice v s =
     (if \<exists>w \<in> set (invoices s). si_org (inv_head w) = si_org (inv_head v) \<and> si_firm (inv_head w) = si_firm (inv_head v) \<and>
           si_series (inv_head w) = si_series (inv_head v) \<and> si_number (inv_head w) = si_number (inv_head v)
      then Inl (IntegrityError SI_NUMBER_KEY)
      else if (case inv_dc v of None \<Rightarrow> False | Some dc \<Rightarrow> \<exists>w \<in> set (invoices s). bills dc w) then Inl (IntegrityError LINK_UNIQUE_INDEX)
      else case sale_mint (sale_desk s) of (dk, i) \<Rightarrow>
             let v' = v\<lparr>inv_head := (inv_head v)\<lparr>sales_invoice_id := i\<rparr>\<rparr>
             in Inr (s\<lparr>sale_desk := dk, invoices := invoices s @ [v']\<rparr>, v'))"

text \<open>Only a violation of the link index on an invoice with a challan becomes a message.\<close>

definition translate_link_integrity_error :: "uuid option \<Rightarrow> error + 'a \<Rightarrow> error + 'a" where
  "translate_link_integrity_error dc m =
     (if dc = None then m
      else translate LINK_UNIQUE_INDEX (AppValidationError ''Delivery challan was billed on another invoice concurrently'') m)"

definition new_invoice ::
  "uuid \<Rightarrow> uuid \<Rightarrow> uuid \<Rightarrow> date \<Rightarrow> string \<Rightarrow> string \<Rightarrow> uuid option \<Rightarrow> PlaceOfSupply \<Rightarrow> string option \<Rightarrow> decimal \<Rightarrow> decimal
   \<Rightarrow> invoice_row" where
  "new_invoice org firm party d series n dc pos stored worth gst =
     \<lparr>inv_head = \<lparr>sales_invoice_id = 0, si_org = org, si_firm = firm, si_party = party, si_series = series, si_number = n,
        invoice_date = d, invoice_type = Some (document_value (ps_document_type pos)), tax_type = Some (tax_value (ps_tax_type pos)),
        si_invoice_amount = Some worth, si_gst_amount = Some gst, lifecycle_status = LC_DRAFT\<rparr>,
      inv_dc = dc, inv_pos = stored, inv_paid = 0, inv_status = VoucherStatus.DRAFT, cancelled_at = None, cancel_reason = None,
      inv_deleted = False\<rparr>"

definition new_invoice_line :: "invoice_row \<Rightarrow> draft_line \<Rightarrow> decimal \<Rightarrow> invoice_line" where
  "new_invoice_line v l g =
     \<lparr>il_org = si_org (inv_head v), il_invoice = inv_id v, il_item = dl_item l, il_qty = dl_qty l, il_price = dl_price l,
      il_amount = dl_amount l, il_rate = dl_rate l, il_gst = g, il_sequence = dl_sequence l\<rparr>"

definition create_draft_invoice ::
  "uuid \<Rightarrow> uuid \<Rightarrow> uuid \<Rightarrow> date \<Rightarrow> inv_request list \<Rightarrow> string \<Rightarrow> string option \<Rightarrow> uuid option \<Rightarrow> billing
   \<Rightarrow> error + billing \<times> invoice_row" where
  "create_draft_invoice org firm party d rs series ship dc s =
     bindE (guardE (rs \<noteq> []) (AppValidationError ''Sales invoice must have at least one line'')) (\<lambda>_.
     bindE (firm_in_org org firm (sale_desk s)) (\<lambda>_.
     bindE (ensure_party_in_org org party (sale_desk s)) (\<lambda>p.
     bindE (items_in_org org (map vq_item rs) (sale_desk s)) (\<lambda>_.
     bindE (case dc of None \<Rightarrow> Inr () | Some c \<Rightarrow> bindE (validate_link_for_create org firm party c rs s) (\<lambda>_. Inr ())) (\<lambda>_.
     bindE (firm_tax_of org firm s) (\<lambda>f.
     bindE (refuse_gst_firm_without_state f) (\<lambda>_.
     bindE (price_draft f p ship d rs) (\<lambda>(pos, ls, gs).
     bindE (translate_link_integrity_error dc
              (insert_invoice (new_invoice org firm party d series (allocate_si_number org firm series s) dc pos
                 (stored_pos_state pos p ship) (subtotal_of ls + sum_list gs) (sum_list gs)) s)) (\<lambda>(s1, v).
     Inr (s1\<lparr>invoice_lines := invoice_lines s1 @ map2 (new_invoice_line v) ls gs\<rparr>, v))))))))))"

section \<open>Finalizing\<close>

definition lock_invoice :: "uuid \<Rightarrow> uuid \<Rightarrow> billing \<Rightarrow> error + invoice_row" where
  "lock_invoice org i s =
     bindE (scalar_one_or_none (filter (\<lambda>v. inv_id v = i \<and> si_org (inv_head v) = org \<and> \<not> inv_deleted v) (invoices s)))
       (\<lambda>r. case r of None \<Rightarrow> Inl (NotFoundError ''Sales invoice not found.'') | Some v \<Rightarrow> Inr v)"

definition put_invoice :: "invoice_row \<Rightarrow> billing \<Rightarrow> billing" where
  "put_invoice v s = s\<lparr>invoices := update_where (\<lambda>w. inv_id w = inv_id v) (\<lambda>_. v) (invoices s)\<rparr>"

definition with_lifecycle :: "LifecycleStatus \<Rightarrow> invoice_row \<Rightarrow> invoice_row" where
  "with_lifecycle st v = v\<lparr>inv_head := (inv_head v)\<lparr>lifecycle_status := st\<rparr>\<rparr>"

definition lines_of_invoice :: "uuid \<Rightarrow> billing \<Rightarrow> invoice_line list" where
  "lines_of_invoice i s = filter (\<lambda>l. il_invoice l = i) (invoice_lines s)"

definition sale_ref :: "string \<Rightarrow> uuid \<Rightarrow> date \<Rightarrow> movement_ref" where
  "sale_ref ty i d = \<lparr>mv_type = ty, mv_id = i, mv_date = Some d, mv_notes = None\<rparr>"

text \<open>The average cost of what was consumed.\<close>

definition consumed_cost :: "ledger_row list \<Rightarrow> decimal" where
  "consumed_cost rows =
     (let q = ctx_sum (map qty_out rows); c = ctx_sum (map (\<lambda>r. ctx (qty_out r * or_zero (unit_cost r))) rows)
      in if q > 0 then ctx (c / q) else 0)"

fun sell_line ::
  "date \<Rightarrow> sales_invoice \<Rightarrow> uuid \<Rightarrow> invoice_line \<Rightarrow> inv \<times> (uuid \<times> decimal \<times> decimal option) list
   \<Rightarrow> error + inv \<times> (uuid \<times> decimal \<times> decimal option) list" where
  "sell_line today si loc l (st, consumed) =
     (case find (\<lambda>r. item_id r = il_item l \<and> item_org r = si_org si \<and> \<not> item_deleted r) (items st) of
       None \<Rightarrow> Inr (st, consumed)
     | Some r \<Rightarrow>
         if item_type r = SERVICE then Inr (st, consumed)
         else if il_qty l \<le> 0 then Inr (st, consumed)
         else if get_total_on_hand (si_org si) (si_firm si) (il_item l) loc st \<le> 0 then Inr (st, consumed)
         else bindE (remove_stock_fifo today (si_org si) (si_firm si) (il_item l) loc (il_qty l)
                       (sale_ref ''sales_invoice'' (sales_invoice_id si) (invoice_date si)) st) (\<lambda>(st', rows).
              Inr (st', consumed @ [(il_item l, il_qty l, Some (consumed_cost rows))])))"

text \<open>The three stages of the cost of a direct invoice: the location, the lines, the voucher.\<close>

fun post_consumed ::
  "clock \<Rightarrow> sales_invoice \<Rightarrow> billing \<Rightarrow> inv \<times> (uuid \<times> decimal \<times> decimal option) list \<Rightarrow> error + billing" where
  "post_consumed now si s (st, consumed) =
     bindE (post_cogs_voucher now (si_org si) (si_firm si) ''sales_invoice'' (sales_invoice_id si) consumed
              (Some (invoice_date si)) (sale_books s)) (\<lambda>(b, _).
     Inr (s\<lparr>sale_desk := (sale_desk s)\<lparr>sale_stock := st\<rparr>, sale_books := b\<rparr>))"

fun relieve_lines :: "clock \<Rightarrow> sales_invoice \<Rightarrow> billing \<Rightarrow> inv \<times> location_row \<Rightarrow> error + billing" where
  "relieve_lines now si s (st, loc) =
     (if lines_of_invoice (sales_invoice_id si) s = [] then Inr (s\<lparr>sale_desk := (sale_desk s)\<lparr>sale_stock := st\<rparr>\<rparr>)
      else bindE (foldE (sell_line (fst now) si (location_id loc)) (lines_of_invoice (sales_invoice_id si) s) (st, []))
             (post_consumed now si s))"

definition post_cogs_for_invoice :: "clock \<Rightarrow> sales_invoice \<Rightarrow> billing \<Rightarrow> error + billing" where
  "post_cogs_for_invoice now si s =
     bindE (get_or_create_default_location (si_org si) (si_firm si) (sale_stock (sale_desk s))) (relieve_lines now si s)"

text \<open>What a document took out of the stock.\<close>

definition outbound_rows :: "uuid \<Rightarrow> string \<Rightarrow> uuid \<Rightarrow> inv \<Rightarrow> ledger_row list" where
  "outbound_rows org ty i st =
     filter (\<lambda>r. k_org (sl_key r) = org \<and> Inventory.ledger_row.reference_type r = ty \<and> Inventory.ledger_row.reference_id r = i \<and>
                 qty_out r > 0) (stock_ledger st)"

definition post_cogs_for_dc_invoice :: "clock \<Rightarrow> sales_invoice \<Rightarrow> uuid \<Rightarrow> billing \<Rightarrow> error + billing" where
  "post_cogs_for_dc_invoice now si dc s =
     bindE (post_cogs_voucher now (si_org si) (si_firm si) ''sales_invoice'' (sales_invoice_id si)
              (map (\<lambda>r. (k_item (sl_key r), qty_out r, Some (or_zero (unit_cost r))))
                 (outbound_rows (si_org si) ''DC'' dc (sale_stock (sale_desk s))))
              (Some (invoice_date si)) (sale_books s)) (\<lambda>(b, _). Inr (s\<lparr>sale_books := b\<rparr>))"

text \<open>The guards of a finalization.\<close>

definition finalize_checks :: "uuid \<Rightarrow> uuid \<Rightarrow> billing \<Rightarrow> error + invoice_row" where
  "finalize_checks org i s =
     bindE (lock_invoice org i s) (\<lambda>v.
     bindE (guardE (lifecycle v = LC_DRAFT) (InvoiceStateError ''Invoice already finalized'')) (\<lambda>_.
     bindE (bindE (firm_tax_of org (si_firm (inv_head v)) s) refuse_gst_firm_without_state) (\<lambda>_.
     bindE (if tax_type (inv_head v) = Some ''NIL_NOT_A_SUPPLY''
            then bindE (scalar_one (filter (\<lambda>p. cust_id p = si_party (inv_head v) \<and> cust_org p = org) (customers (sale_desk s)))) (\<lambda>p.
                 guardE (\<not> is_unpriced_registered_nil (tax_type (inv_head v)) (invoice_type (inv_head v)) (cust_gstin p))
                   (AppValidationError ''Cannot finalize invoice: this draft was priced with 0 GST''))
            else Inr ()) (\<lambda>_.
     bindE (if inv_dc v = None then Inr () else bindE (revalidate_link_for_finalize v s) (\<lambda>_. Inr ())) (\<lambda>_.
     Inr v)))))"

text \<open>The invoice is FINALIZED, posted, and its cost recognised.\<close>

fun post_cost :: "clock \<Rightarrow> invoice_row \<Rightarrow> billing \<Rightarrow> books \<times> voucher \<Rightarrow> error + billing" where
  "post_cost now v s (b, w) =
     (case inv_dc v of
        None \<Rightarrow> post_cogs_for_invoice now (inv_head v) (s\<lparr>sale_books := b\<rparr>)
      | Some dc \<Rightarrow> post_cogs_for_dc_invoice now (inv_head v) dc (s\<lparr>sale_books := b\<rparr>))"

definition post_finalized :: "clock \<Rightarrow> billing \<Rightarrow> invoice_row \<Rightarrow> error + billing" where
  "post_finalized now s v =
     bindE (post_invoice_to_gl now (inv_head (with_lifecycle FINALIZED v)) (sale_books s))
       (post_cost now (with_lifecycle FINALIZED v) (put_invoice (with_lifecycle FINALIZED v) s))"

definition finalize_invoice :: "clock \<Rightarrow> uuid \<Rightarrow> uuid \<Rightarrow> billing \<Rightarrow> error + billing" where
  "finalize_invoice now org i s = bindE (finalize_checks org i s) (post_finalized now s)"

section \<open>Discarding and cancelling\<close>

definition DISCARDABLE_LIFECYCLE :: "LifecycleStatus list" where
  "DISCARDABLE_LIFECYCLE = [LC_DRAFT, LifecycleStatus.CONFIRMED]"

definition CANCELLABLE_LIFECYCLE :: "LifecycleStatus list" where
  "CANCELLABLE_LIFECYCLE = [FINALIZED, LC_POSTED, OVERDUE]"

definition discard_invoice :: "uuid \<Rightarrow> uuid \<Rightarrow> billing \<Rightarrow> error + billing" where
  "discard_invoice org i s =
     bindE (lock_invoice org i s) (\<lambda>v.
     if lifecycle v = DISCARDED then Inr s
     else bindE (guardE (lifecycle v \<in> set DISCARDABLE_LIFECYCLE) (InvoiceStateError ''Invoice cannot be discarded'')) (\<lambda>_.
          Inr (put_invoice (with_lifecycle DISCARDED v) s)))"

definition restore_row :: "date \<Rightarrow> sales_invoice \<Rightarrow> uuid \<Rightarrow> date \<Rightarrow> ledger_row \<Rightarrow> inv \<Rightarrow> error + inv" where
  "restore_row today si org d r st =
     bindE (add_stock today ((sl_key r)\<lparr>k_org := org, k_firm := si_firm si\<rparr>) (qty_out r) (or_zero (unit_cost r))
              (sale_ref ''sales_invoice_cancel'' (sales_invoice_id si) d) st)
       (\<lambda>(st', _). Inr st')"

definition restore_stock_for_cancel :: "date \<Rightarrow> sales_invoice \<Rightarrow> uuid \<Rightarrow> date \<Rightarrow> inv \<Rightarrow> error + inv" where
  "restore_stock_for_cancel today si org d st =
     foldE (restore_row today si org d) (outbound_rows org ''sales_invoice'' (sales_invoice_id si) st) st"

text \<open>The guards of a cancellation end with the date of the reversal.\<close>

definition cancel_checks :: "clock \<Rightarrow> invoice_row \<Rightarrow> error + date" where
  "cancel_checks now v =
     bindE (guardE (lifecycle v \<in> set CANCELLABLE_LIFECYCLE) (InvoiceStateError ''Invoice cannot be cancelled'')) (\<lambda>_.
     bindE (guardE (\<not> inv_paid v > 0) (InvoiceStateError ''Invoice cannot be cancelled: already received'')) (\<lambda>_.
     let on = gst_local_date now; d = invoice_date (inv_head v) in
     bindE (guardE (\<not> (is_later_gst_period on d \<and> on > credit_note_deadline d))
              (InvoiceStateError ''Credit-note time limit (s.34) has passed'')) (\<lambda>_.
     Inr (max on d))))"

text \<open>The two reversals, the return of the stock, then the row.\<close>

definition close_cancelled :: "clock \<Rightarrow> string \<Rightarrow> invoice_row \<Rightarrow> books \<Rightarrow> billing \<Rightarrow> inv \<Rightarrow> error + billing" where
  "close_cancelled now reason v b s st =
     Inr (put_invoice ((with_lifecycle LifecycleStatus.CANCELLED v)
            \<lparr>inv_status := VOIDED, cancelled_at := Some now, cancel_reason := Some (strip reason)\<rparr>)
            (s\<lparr>sale_books := b, sale_desk := (sale_desk s)\<lparr>sale_stock := st\<rparr>\<rparr>))"

fun return_goods ::
  "clock \<Rightarrow> uuid \<Rightarrow> string \<Rightarrow> invoice_row \<Rightarrow> billing \<Rightarrow> date \<Rightarrow> books \<times> voucher option \<Rightarrow> error + billing" where
  "return_goods now org reason v s d (b, r) =
     bindE (restore_stock_for_cancel (fst now) (inv_head v) org d (sale_stock (sale_desk s))) (close_cancelled now reason v b s)"

fun reverse_cost ::
  "clock \<Rightarrow> uuid \<Rightarrow> string \<Rightarrow> invoice_row \<Rightarrow> billing \<Rightarrow> date \<Rightarrow> books \<times> voucher list \<Rightarrow> error + billing" where
  "reverse_cost now org reason v s d (b, rs) =
     bindE (reverse_cogs_sale_gl now (inv_head v) (Some d) b) (return_goods now org reason v s d)"

definition reverse_sale :: "clock \<Rightarrow> uuid \<Rightarrow> string \<Rightarrow> invoice_row \<Rightarrow> billing \<Rightarrow> date \<Rightarrow> error + billing" where
  "reverse_sale now org reason v s d =
     bindE (reverse_sales_invoice_gl now (inv_head v) (Some d) (sale_books s)) (reverse_cost now org reason v s d)"

definition cancel_locked :: "clock \<Rightarrow> uuid \<Rightarrow> string \<Rightarrow> billing \<Rightarrow> invoice_row \<Rightarrow> error + billing" where
  "cancel_locked now org reason s v =
     (if lifecycle v = LifecycleStatus.CANCELLED then Inr s
      else bindE (cancel_checks now v) (reverse_sale now org reason v s))"

definition cancel_invoice :: "clock \<Rightarrow> uuid \<Rightarrow> uuid \<Rightarrow> string \<Rightarrow> billing \<Rightarrow> error + billing" where
  "cancel_invoice now org i reason s =
     bindE (guardE (strip reason \<noteq> []) (AppValidationError ''A cancellation reason is required.'')) (\<lambda>_.
     bindE (lock_invoice org i s) (cancel_locked now org reason s))"

end
