(* ===== verification/SalesLedger.thy ===== *)
theory SalesLedger
  imports AccountingProps
begin

text \<open>
  An invoice and its vouchers. \<open>refs x b\<close> are the vouchers that refer to \<open>x\<close>; \<open>ledger_agrees\<close>
  says what the books hold for an invoice in each state of its life. The postings of a
  finalization and the reversals of a cancellation move an invoice from one state to the next and
  touch nothing that belongs to another.
\<close>

section \<open>References\<close>

definition refs :: "uuid \<Rightarrow> books \<Rightarrow> voucher list" where
  "refs x b = filter (\<lambda>w. v_reference_id w = Some x) (vouchers b)"

definition on_account :: "uuid \<Rightarrow> voucher \<Rightarrow> books \<Rightarrow> decimal" where
  "on_account a w b = (\<Sum>l\<leftarrow>filter (\<lambda>l. vl_ledger l = a) (lines_of (voucher_id w) b). signed l)"

definition posted_sale :: "sales_invoice \<Rightarrow> books \<Rightarrow> bool" where
  "posted_sale si b \<longleftrightarrow>
     (\<exists>w cs. refs (sales_invoice_id si) b = w # cs \<and> voucher_type w = SALES_INVOICE \<and>
        total_debit w = or_zero (si_invoice_amount si) \<and> length cs \<le> 1 \<and>
        (\<forall>c \<in> set cs. voucher_type c = COGS_SALE) \<and>
        (\<forall>x \<in> set (w # cs). v_org x = si_org si \<and> reference_type x = Some ''sales_invoice''))"

definition reversed_by :: "voucher \<Rightarrow> voucher \<Rightarrow> books \<Rightarrow> bool" where
  "reversed_by x r b \<longleftrightarrow>
     refs (voucher_id x) b = [r] \<and> reference_type r = Some SALES_REVERSAL_REF_TYPE \<and>
     total_debit r = total_debit x \<and> (\<forall>a. on_account a r b = - on_account a x b)"

text \<open>The states of an invoice whose sale stands: unpaid, partly paid and paid.\<close>

abbreviation standing :: "LifecycleStatus set" where
  "standing \<equiv> {FINALIZED, PARTIALLY_PAID, PAID}"

definition ledger_agrees :: "sales_invoice \<Rightarrow> books \<Rightarrow> bool" where
  "ledger_agrees si b \<longleftrightarrow>
     (if lifecycle_status si \<in> {LC_DRAFT, DISCARDED} then refs (sales_invoice_id si) b = []
      else if lifecycle_status si \<in> standing
      then posted_sale si b \<and> (\<forall>x \<in> set (refs (sales_invoice_id si) b). refs (voucher_id x) b = [])
      else lifecycle_status si = CANCELLED \<and> posted_sale si b \<and>
           (\<forall>x \<in> set (refs (sales_invoice_id si) b). \<exists>r. reversed_by x r b))"

section \<open>Books that only grow\<close>

text \<open>\<open>grows X b b'\<close>: vouchers were added that refer to \<open>X\<close>, and the others kept their lines.\<close>

definition grows :: "uuid set \<Rightarrow> books \<Rightarrow> books \<Rightarrow> bool" where
  "grows X b b' \<longleftrightarrow> gl_ok b' \<and> voucher_supply b' = voucher_supply b \<and> ledger_accounts b' = ledger_accounts b \<and>
     (\<exists>vs. vouchers b' = vouchers b @ vs \<and> (\<forall>v \<in> set vs. v_reference_id v \<in> insert None (Some ` X) \<and> \<not> v_deleted v)) \<and>
     (\<forall>w \<in> set (vouchers b). lines_of (voucher_id w) b' = lines_of (voucher_id w) b)"

lemma grows_refl [simp]: "gl_ok b \<Longrightarrow> grows X b b"
  by (simp add: grows_def)

lemma grows_trans: "grows X b b' \<Longrightarrow> grows X b' b'' \<Longrightarrow> grows X b b''"
  unfolding grows_def by auto

lemma grows_mono: "grows X b b' \<Longrightarrow> X \<subseteq> Y \<Longrightarrow> grows Y b b'"
  unfolding grows_def by blast

lemma grows_ok: "grows X b b' \<Longrightarrow> gl_ok b'"
  by (simp add: grows_def)

lemma posts_grow:
  assumes "posts_balanced b b' v legs" and "gl_ok b" and "v_reference_id v = Some x" and "\<not> v_deleted v"
  shows "grows {x} b b'"
proof -
  have p: "posted b b' v legs" using assms(1) by (simp add: posts_balanced_def)
  then have "vouchers b' = vouchers b @ [v]" "voucher_supply b' = voucher_supply b" "ledger_accounts b' = ledger_accounts b"
    by (simp_all add: posted_def)
  with posts_balanced_ok [OF assms(1,2)] lines_of_posted(2) [OF assms(2) p] assms(3,4) show ?thesis
    by (simp add: grows_def)
qed

lemma refs_grow:
  assumes "grows X b b'" and "x \<notin> X"
  shows "refs x b' = refs x b"
proof -
  from assms(1) obtain vs where vs: "vouchers b' = vouchers b @ vs" "\<forall>v \<in> set vs. v_reference_id v \<in> insert None (Some ` X)"
    by (auto simp: grows_def)
  have "v_reference_id v \<noteq> Some x" if "v \<in> set vs" for v using bspec [OF vs(2) that] assms(2) by auto
  then show ?thesis by (simp add: refs_def vs(1) filter_empty_conv)
qed

lemma refs_posts: "posts_balanced b b' v legs \<Longrightarrow> refs x b' = refs x b @ (if v_reference_id v = Some x then [v] else [])"
  by (simp add: refs_def posts_vouchers)

lemma on_account_grow: "grows X b b' \<Longrightarrow> w \<in> set (vouchers b) \<Longrightarrow> on_account a w b' = on_account a w b"
  by (simp add: grows_def on_account_def)

lemma refs_mem: "w \<in> set (refs x b) \<longleftrightarrow> w \<in> set (vouchers b) \<and> v_reference_id w = Some x"
  by (auto simp: refs_def)

lemma posted_sale_refs:
  "refs (sales_invoice_id si) b' = refs (sales_invoice_id si) b \<Longrightarrow> posted_sale si b' = posted_sale si b"
  by (simp add: posted_sale_def)

lemma reversed_by_grow:
  assumes "reversed_by x r b" and "x \<in> set (vouchers b)" and "grows X b b'" and "voucher_id x \<notin> X"
  shows "reversed_by x r b'"
proof -
  have "r \<in> set (vouchers b)" using assms(1) refs_mem [of r "voucher_id x" b] by (simp add: reversed_by_def)
  then show ?thesis
    using assms(1,2) refs_grow [OF assms(3,4)] on_account_grow [OF assms(3)] by (simp add: reversed_by_def)
qed

lemma ledger_agrees_grow:
  assumes "ledger_agrees si b" and g: "grows X b b'" and "sales_invoice_id si \<notin> X"
    and out: "\<forall>x \<in> set (refs (sales_invoice_id si) b). voucher_id x \<notin> X"
  shows "ledger_agrees si b'"
proof -
  have own: "refs (sales_invoice_id si) b' = refs (sales_invoice_id si) b" by (rule refs_grow [OF g assms(3)])
  have "\<exists>r. reversed_by x r b'" if x: "x \<in> set (refs (sales_invoice_id si) b)" and r: "\<exists>r. reversed_by x r b" for x
  proof -
    have "x \<in> set (vouchers b)" "voucher_id x \<notin> X" using x out by (simp_all add: refs_mem)
    with r reversed_by_grow [OF _ _ g] show ?thesis by blast
  qed
  moreover have "refs (voucher_id x) b' = refs (voucher_id x) b" if "x \<in> set (refs (sales_invoice_id si) b)" for x
    using bspec [OF out that] by (rule refs_grow [OF g])
  ultimately show ?thesis
    using assms(1) by (simp add: ledger_agrees_def own posted_sale_refs [OF own] split: if_splits)
qed

text \<open>\<open>refs_ok S b\<close>: every voucher is live and refers to a document of \<open>S\<close> or to a voucher.\<close>

definition refs_ok :: "uuid set \<Rightarrow> books \<Rightarrow> bool" where
  "refs_ok S b \<longleftrightarrow> S \<inter> range (voucher_supply b) = {} \<and>
     (\<forall>w \<in> set (vouchers b). \<not> v_deleted w \<and> v_reference_id w \<in> insert None (Some ` (S \<union> voucher_id ` set (vouchers b))))"

lemma refs_ok_grow:
  assumes "refs_ok S b" and "grows X b b'" and "X \<subseteq> S \<union> voucher_id ` set (vouchers b')"
  shows "refs_ok S b'"
proof -
  from assms(2) obtain vs where vs: "vouchers b' = vouchers b @ vs" "voucher_supply b' = voucher_supply b"
    and new: "\<forall>v \<in> set vs. v_reference_id v \<in> insert None (Some ` X) \<and> \<not> v_deleted v"
    by (auto simp: grows_def)
  let ?T = "S \<union> voucher_id ` set (vouchers b')"
  have "\<not> v_deleted w \<and> v_reference_id w \<in> insert None (Some ` ?T)" if "w \<in> set (vouchers b')" for w
  proof (cases "w \<in> set vs")
    case True
    with new have "v_reference_id w \<in> insert None (Some ` X)" "\<not> v_deleted w" by simp_all
    with image_mono [OF assms(3), of Some] show ?thesis by blast
  next
    case False
    with that vs(1) have "w \<in> set (vouchers b)" by simp
    moreover have "Some ` (S \<union> voucher_id ` set (vouchers b)) \<subseteq> Some ` ?T" unfolding vs(1) by auto
    ultimately show ?thesis using assms(1) unfolding refs_ok_def by blast
  qed
  with assms(1) vs(2) show ?thesis by (simp add: refs_ok_def)
qed

lemma refs_ok_mono: "refs_ok S b \<Longrightarrow> S \<subseteq> T \<Longrightarrow> T \<inter> range (voucher_supply b) = {} \<Longrightarrow> refs_ok T b"
  unfolding refs_ok_def by blast

lemma refs_ok_id:
  assumes "refs_ok S b" and "gl_ok b" and "x \<in> set (vouchers b)"
  shows "voucher_id x \<notin> S"
proof -
  have "voucher_id x \<in> range (voucher_supply b)" using assms(2,3) by (auto simp: gl_ok_def)
  with assms(1) show ?thesis by (auto simp: refs_ok_def)
qed

lemma refs_unknown:
  assumes "refs_ok S b" and "x \<notin> S" and "x \<notin> voucher_id ` set (vouchers b)"
  shows "refs x b = []"
proof -
  have "v_reference_id w \<noteq> Some x" if "w \<in> set (vouchers b)" for w
  proof
    assume "v_reference_id w = Some x"
    moreover have "v_reference_id w \<in> insert None (Some ` (S \<union> voucher_id ` set (vouchers b)))" using assms(1) that by (simp add: refs_ok_def)
    ultimately have "x \<in> S \<union> voucher_id ` set (vouchers b)" by auto
    with assms(2,3) show False by blast
  qed
  then show ?thesis by (simp add: refs_def filter_empty_conv)
qed

lemma voucher_id_range: "gl_ok b \<Longrightarrow> voucher_id ` set (vouchers b) \<subseteq> range (voucher_supply b)"
  by (auto simp: gl_ok_def)

lemma refs_fresh:
  assumes "refs_ok S b" and "gl_ok b" and "posts_balanced b b' v legs"
  shows "refs (voucher_id v) b = []"
proof -
  have v: "voucher_id v = voucher_supply b (voucher_count b)" using assms(3) by (simp add: posts_balanced_def posted_def)
  have "v_reference_id w \<noteq> Some (voucher_id v)" if "w \<in> set (vouchers b)" for w
    using assms(1) that fresh_id [OF assms(2)] unfolding v refs_ok_def by force
  then show ?thesis by (simp add: refs_def filter_empty_conv)
qed

section \<open>Finalizing\<close>

lemma finalize_agrees:
  assumes ok: "gl_ok b" "refs_ok S b" "sales_invoice_id si \<in> S" and draft: "refs (sales_invoice_id si) b = []"
    and state: "lifecycle_status si = FINALIZED" and p: "post_invoice_to_gl now si b = Inr (b1, v)"
    and c: "post_cogs_voucher now (si_org si) firm ''sales_invoice'' (sales_invoice_id si) consumed d b1 = Inr (b2, r)"
  shows "ledger_agrees si b2" and "grows {sales_invoice_id si} b b2"
    and "account_balance b2 a = account_balance b a + (\<Sum>x\<leftarrow>refs (sales_invoice_id si) b2. on_account a x b2)"
proof -
  let ?i = "sales_invoice_id si"
  obtain legs where pb: "posts_balanced b b1 v legs" and amt: "leg_debits legs = or_zero (si_invoice_amount si)"
    and v: "v_reference_id v = Some ?i" "voucher_type v = SALES_INVOICE" "v_org v = si_org si"
      "reference_type v = Some ''sales_invoice''" "\<not> v_deleted v"
    by (rule post_invoice_posts [OF p ok(1)]) auto
  note g1 = posts_grow [OF pb ok(1) v(1,5)]
  have r1: "refs ?i b1 = [v]" using refs_posts [OF pb, of ?i] draft v(1) by simp
  have tot: "total_debit v = or_zero (si_invoice_amount si)" using pb amt by (simp add: posts_balanced_def)
  have iv: "?i \<notin> range (voucher_supply b)" using ok(2,3) by (auto simp: refs_ok_def)
  have none: "refs (voucher_id v) b = []" by (rule refs_fresh [OF ok(2,1) pb])
  have vi: "voucher_id v \<noteq> ?i" using iv pb by (metis posts_balanced_def posted_def rangeI)
  have none1: "refs (voucher_id v) b1 = []" using none refs_posts [OF pb, of "voucher_id v"] v(1) vi by simp
  have agree1: "ledger_agrees si b1"
    using r1 v tot none1 by (simp add: ledger_agrees_def state posted_sale_def)
  note ok1 = grows_ok [OF g1]
  have bal1: "account_balance b1 a = account_balance b a + on_account a v b1"
    using posts_balance [OF pb] lines_on_posted [OF ok(1) pb] by (simp add: on_account_def)
  have "ledger_agrees si b2 \<and> grows {?i} b b2 \<and>
      account_balance b2 a = account_balance b a + (\<Sum>x\<leftarrow>refs ?i b2. on_account a x b2)"
  proof (cases rule: post_cogs_cases [OF c ok1])
    case (2 w)
    then have "w \<in> set (refs ?i b1)" "voucher_type w = COGS_SALE" using live_posting_Some [OF 2(2)] by (auto simp: refs_mem)
    with r1 v(2) show ?thesis by simp
  next
    case (3 w cogs stock)
    have ok2: "refs_ok S b1" by (rule refs_ok_grow [OF ok(2) g1]) (use ok(3) in simp)
    have r2: "refs ?i b2 = [v, w]" using refs_posts [OF 3(6), of ?i] r1 3(9) by simp
    have "voucher_id w \<noteq> ?i" using ok2 ok(3) 3(6)
      unfolding refs_ok_def by (metis posts_balanced_def posted_def rangeI disjoint_iff)
    then have "refs (voucher_id w) b2 = []" "refs (voucher_id v) b2 = []"
      using refs_fresh [OF ok2 ok1 3(6)] refs_posts [OF 3(6)] 3(9) none1 vi by simp_all
    then have "ledger_agrees si b2"
      using r2 v tot 3(7,8,11) by (simp add: ledger_agrees_def state posted_sale_def)
    moreover note g2 = posts_grow [OF 3(6) ok1 3(9,10)]
    moreover have "on_account a v b2 = on_account a v b1"
      using on_account_grow [OF g2, of v] posts_vouchers [OF pb] by simp
    moreover have "account_balance b2 a = account_balance b1 a + on_account a w b2"
      using posts_balance [OF 3(6)] lines_on_posted [OF ok1 3(6)] by (simp add: on_account_def)
    ultimately show ?thesis using grows_trans [OF g1 g2] bal1 r2 by simp
  qed (use agree1 g1 bal1 r1 in simp_all)
  then show "ledger_agrees si b2" "grows {?i} b b2"
    "account_balance b2 a = account_balance b a + (\<Sum>x\<leftarrow>refs ?i b2. on_account a x b2)" by blast+
qed

section \<open>Cancelling\<close>

lemma reversal_step:
  assumes ok: "gl_ok b" and x: "x \<in> set (vouchers b)" and none: "refs (voucher_id x) b = []"
    and p: "post_reversal_of now x ty series party narr d b = Inr (b', r)"
  shows "reversed_by x r b'" and "grows {voucher_id x} b b'" and "account_balance b' a = account_balance b a - on_account a x b"
proof -
  have "reversed_by x r b' \<and> grows {voucher_id x} b b' \<and> account_balance b' a = account_balance b a - on_account a x b"
  proof (cases rule: post_reversal_cases [OF p ok x])
    case 1
    then have "r \<in> set (refs (voucher_id x) b)"
      by (auto simp: find_existing_reversal_def refs_mem dest!: scalar_one_or_none_mem)
    with none show ?thesis by simp
  next
    case 2
    note g = posts_grow [OF 2(2) ok 2(5,6)]
    have "refs (voucher_id x) b' = [r]" using refs_posts [OF 2(2)] none 2(5) by simp
    moreover have "total_debit r = total_debit x"
      using 2(2) mirror_balanced(1) [OF ok x] by (simp add: posts_balanced_def)
    moreover have "on_account a r b' = - on_account a x b'" for a
      using lines_on_posted [OF ok 2(2), of a] mirror_on [of a "voucher_id x" b] on_account_grow [OF g x]
      by (simp add: on_account_def)
    moreover have "account_balance b' a = account_balance b a - on_account a x b"
      using posts_balance [OF 2(2)] by (simp add: mirror_on on_account_def)
    ultimately show ?thesis using 2(4) g by (simp add: reversed_by_def)
  qed
  then show "reversed_by x r b'" "grows {voucher_id x} b b'" "account_balance b' a = account_balance b a - on_account a x b"
    by blast+
qed

lemma filter_refs: "filter (\<lambda>w. P w \<and> Q w \<and> R w \<and> v_reference_id w = Some x \<and> D w) (vouchers b)
    = filter (\<lambda>w. P w \<and> Q w \<and> R w \<and> D w) (refs x b)"
  by (simp add: refs_def conj_ac)

lemma cancel_agrees:
  assumes ok: "gl_ok b" "refs_ok S b" "sales_invoice_id si \<in> S"
    and agree: "ledger_agrees si b" and state: "lifecycle_status si = FINALIZED"
    and rs: "reverse_sales_invoice_gl now si d b = Inr (b1, rs)" and rc: "reverse_cogs_sale_gl now si d b1 = Inr (b2, r)"
  shows "ledger_agrees (si\<lparr>lifecycle_status := CANCELLED\<rparr>) b2"
    and "grows (voucher_id ` set (refs (sales_invoice_id si) b)) b b2"
    and "account_balance b2 a = account_balance b a - (\<Sum>x\<leftarrow>refs (sales_invoice_id si) b. on_account a x b)"
proof -
  let ?i = "sales_invoice_id si"
  from agree state obtain w cs where own: "refs ?i b = w # cs" and w: "voucher_type w = SALES_INVOICE"
    "total_debit w = or_zero (si_invoice_amount si)" and cs: "length cs \<le> 1" "\<forall>c \<in> set cs. voucher_type c = COGS_SALE"
    and org: "\<forall>x \<in> set (w # cs). v_org x = si_org si \<and> reference_type x = Some ''sales_invoice''"
    and none: "\<forall>x \<in> set (w # cs). refs (voucher_id x) b = []"
    by (auto simp: ledger_agrees_def posted_sale_def)
  have mem: "\<forall>x \<in> set (w # cs). x \<in> set (vouchers b)" using own refs_mem [of _ ?i b] by metis
  then have live: "\<forall>x \<in> set (w # cs). \<not> v_deleted x" using ok(2) by (auto simp: refs_ok_def)
  have "filter (\<lambda>x. v_org x = si_org si \<and> voucher_type x = SALES_INVOICE \<and> reference_type x = Some ''sales_invoice'' \<and>
      \<not> v_deleted x) (w # cs) = [w]"
    using w cs org live by (auto simp: filter_empty_conv)
  then have mine: "sales_vouchers_of si b = [w]"
    by (simp only: sales_vouchers_of_def filter_refs own) simp
  from rs obtain series narr dt r1 where p1: "post_reversal_of now w CREDIT_NOTE_VOUCHER series (Some (si_party si)) narr (Some dt) b = Inr (b1, r1)"
    by (auto simp: reverse_sales_invoice_gl_def Let_def mine split: prod.splits)
  note s1 = reversal_step [OF ok(1) _ _ p1]
  have g1: "grows {voucher_id w} b b1" and v1: "reversed_by w r1 b1" using s1 mem none by simp_all
  have idi: "voucher_id x \<noteq> ?i" if "x \<in> set (vouchers b)" for x using refs_ok_id [OF ok(2,1) that] ok(3) by auto
  have idw: "?i \<notin> {voucher_id w}" "?i \<notin> voucher_id ` set cs" using idi mem by (force, force)
  have own1: "refs ?i b1 = w # cs" using refs_grow [OF g1 idw(1)] own by simp
  have dist: "distinct (map voucher_id (w # cs))"
    using ok(1) unfolding own [symmetric] refs_def by (simp add: gl_ok_def distinct_map_filter)
  have "filter (\<lambda>x. v_org x = si_org si \<and> voucher_type x = COGS_SALE \<and> reference_type x = Some ''sales_invoice'' \<and>
      \<not> v_deleted x) (w # cs) = cs"
    using w cs org live by (simp add: filter_id_conv)
  then have cogs: "filter (\<lambda>v. v_org v = si_org si \<and> voucher_type v = COGS_SALE \<and> reference_type v = Some ''sales_invoice'' \<and>
      v_reference_id v = Some ?i \<and> \<not> v_deleted v) (vouchers b1) = cs"
    by (simp only: filter_refs own1)
  have bal1: "account_balance b1 a = account_balance b a - on_account a w b" by (rule s1(3)) (use mem none in simp_all)
  have step2: "(\<forall>x \<in> set cs. \<exists>r. reversed_by x r b2) \<and> grows (voucher_id ` set cs) b1 b2 \<and>
      account_balance b2 a = account_balance b1 a - (\<Sum>x\<leftarrow>cs. on_account a x b)"
  proof (cases cs)
    case Nil
    with rc cogs show ?thesis using grows_ok [OF g1] by (simp add: reverse_cogs_sale_gl_def scalar_one_or_none_def)
  next
    case (Cons c cs')
    with cs(1) have c: "cs = [c]" by simp
    with rc cogs obtain r2 where p2: "post_reversal_of now c COGS_SALE (v_series c) None ''Reversal of COGS for invoice '' d b1 = Inr (b2, r2)"
      by (auto simp: reverse_cogs_sale_gl_def scalar_one_or_none_def)
    have "c \<in> set (vouchers b1)" using mem c g1 by (auto simp: grows_def)
    moreover have "refs (voucher_id c) b1 = []" using refs_grow [OF g1, of "voucher_id c"] none c dist by auto
    moreover have "on_account a c b1 = on_account a c b" by (rule on_account_grow [OF g1]) (use mem c in simp)
    ultimately show ?thesis using reversal_step [OF grows_ok [OF g1] _ _ p2] c by auto
  qed
  have g2: "grows (voucher_id ` set cs) b1 b2" using step2 by blast
  have w1: "w \<in> set (vouchers b1)" using mem g1 by (auto simp: grows_def)
  have v2: "reversed_by w r1 b2" using reversed_by_grow [OF v1 w1 g2] dist by simp
  have own2: "refs ?i b2 = w # cs" using refs_grow [OF g2 idw(2)] own1 by simp
  show "ledger_agrees (si\<lparr>lifecycle_status := CANCELLED\<rparr>) b2"
    using own2 w cs org v2 step2 by (auto simp: ledger_agrees_def posted_sale_def)
  show "grows (voucher_id ` set (refs ?i b)) b b2"
    unfolding own by (rule grows_trans [OF grows_mono [OF g1] grows_mono [OF g2]]) auto
  show "account_balance b2 a = account_balance b a - (\<Sum>x\<leftarrow>refs ?i b. on_account a x b)"
    using step2 bal1 by (simp add: own)
qed

end
