(* ===== verification/InvoiceStock.thy ===== *)
theory InvoiceStock
  imports SalesInvoices SalesOrderProps
begin

text \<open>
  The stock an invoice moves: what the lines of a direct invoice take at its finalization, and what
  its cancellation puts back, position by position.
\<close>

section \<open>Totals at a location\<close>

lemma total_on_hand_held:
  assumes "keyed s"
  shows "get_total_on_hand org firm item loc s = held (key_at org firm item loc) s"
proof -
  let ?ks = "filter (key_at org firm item loc) (map pos_key (positions s))"
  have "distinct ?ks" using assms by simp
  moreover have "set ?ks = {k. k \<in> pos_key ` set (positions s) \<and> key_at org firm item loc k}" by auto
  ultimately show ?thesis
    unfolding total_on_hand_keys [OF assms] held_def by (metis sum_list_distinct_conv_sum_set)
qed

lemma total_on_hand_nonneg: "inv_ok s \<Longrightarrow> 0 \<le> get_total_on_hand org firm item loc s"
  using inv_ok_nonneg [of s] by (auto simp: total_on_hand_held [OF inv_ok_parts(1)] held_def intro!: sum_nonneg)

definition row_of :: "movement_ref \<Rightarrow> (stock_key \<Rightarrow> bool) \<Rightarrow> ledger_row \<Rightarrow> bool" where
  "row_of ref P r \<longleftrightarrow> P (sl_key r) \<and> qty_in r = 0 \<and> 0 < qty_out r \<and>
     Inventory.ledger_row.reference_type r = mv_type ref \<and> Inventory.ledger_row.reference_id r = mv_id ref"

lemma fifo_moves:
  assumes "remove_stock_fifo today org firm item loc qty ref s = Inr (s', rows)" and ok: "inv_ok s"
  shows "\<forall>r \<in> set rows. row_of ref (key_at org firm item loc) r" and "items s' = items s"
    and "get_total_on_hand org firm it loc s' = get_total_on_hand org firm it loc s - (if it = item then qty else 0)"
proof -
  from assms(1) obtain d where loop: "fifo_loop d ref (fifo_order org firm item loc s) qty s [] = (s', rows)"
    by (auto simp: remove_stock_fifo_Inr)
  have rows: "rows = fifo_rows d ref qty (fifo_order org firm item loc s)" using fifo_loop_rows [OF loop] by simp
  then show r: "\<forall>r \<in> set rows. row_of ref (key_at org firm item loc) r"
    using fifo_order_props(1) [of org firm item loc s]
    by (auto simp: fifo_rows_def at_location_def key_at_def row_of_def fifo_row_def dest!: set_zip_leftD)
  have "take_at today org firm item loc None qty ref s = Inr (s', rows)" using assms(1) by (simp add: take_at_def)
  then show "items s' = items s" by (rule take_at_items)
  show "get_total_on_hand org firm it loc s' = get_total_on_hand org firm it loc s - (if it = item then qty else 0)"
  proof (cases "it = item")
    case True
    then show ?thesis using fifo_total_on_hand [OF assms] by simp
  next
    case False
    have "\<forall>k. on_hand s' k = on_hand s k + net rows k" using fifo_effect(3) [OF assms] by simp
    from held_net [OF this, of "key_at org firm it loc"]
    have "held (key_at org firm it loc) s' = held (key_at org firm it loc) s
        + (\<Sum>r\<leftarrow>rows. if key_at org firm it loc (sl_key r) then qty_in r - qty_out r else 0)" .
    moreover have "(\<Sum>r\<leftarrow>rows. if key_at org firm it loc (sl_key r) then qty_in r - qty_out r else 0) = (\<Sum>r\<leftarrow>rows. 0)"
      using r False by (intro arg_cong [of _ _ sum_list] map_cong) (auto simp: row_of_def key_at_def)
    ultimately show ?thesis
      using False total_on_hand_held [OF fifo_effect(1) [OF assms]] total_on_hand_held [OF inv_ok_parts(1) [OF ok]] by simp
  qed
qed

section \<open>Selling\<close>

text \<open>The items an invoice takes from the stock: known, not deleted, not a service.\<close>

definition keeps_stock :: "uuid \<Rightarrow> inv \<Rightarrow> uuid \<Rightarrow> bool" where
  "keeps_stock org st item \<longleftrightarrow>
     (case find (\<lambda>r. item_id r = item \<and> item_org r = org \<and> \<not> item_deleted r) (items st) of
        None \<Rightarrow> False | Some r \<Rightarrow> item_type r \<noteq> SERVICE)"

definition billed_qty :: "invoice_line list \<Rightarrow> uuid \<Rightarrow> decimal" where
  "billed_qty ls item = (\<Sum>l\<leftarrow>filter (\<lambda>l. il_item l = item) ls. max 0 (il_qty l))"

lemma billed_qty_simps [simp]:
  "billed_qty [] it = 0" "billed_qty (l # ls) it = (if il_item l = it then max 0 (il_qty l) else 0) + billed_qty ls it"
  by (simp_all add: billed_qty_def)

lemma billed_qty_nonneg: "0 \<le> billed_qty ls it"
  by (induction ls) auto

abbreviation inv_ref :: "sales_invoice \<Rightarrow> movement_ref" where
  "inv_ref si \<equiv> sale_ref ''sales_invoice'' (sales_invoice_id si) (invoice_date si)"

definition sold :: "sales_invoice \<Rightarrow> inv \<Rightarrow> inv \<Rightarrow> ledger_row list \<Rightarrow> bool" where
  "sold si s s' rows \<longleftrightarrow> inv_ok s' \<and> items s' = items s \<and> stock_ledger s' = stock_ledger s @ rows \<and>
     (\<forall>k. on_hand s' k = on_hand s k + net rows k) \<and>
     (\<forall>r \<in> set rows. row_of (inv_ref si) (\<lambda>k. k_org k = si_org si \<and> k_firm k = si_firm si) r)"

lemma net_append [simp]: "net (as @ bs) k = net as k + net bs k"
  by (simp add: net_def)

lemma sold_trans: "sold si s s1 as \<Longrightarrow> sold si s1 s2 bs \<Longrightarrow> sold si s s2 (as @ bs)"
  by (auto simp: sold_def)

lemma sell_line_cases:
  assumes "sell_line today si loc l (s, cs) = Inr (s', cs')" and "inv_ok s"
  obtains (skip) "s' = s" and "cs' = cs"
      and "\<not> keeps_stock (si_org si) s (il_item l) \<or> il_qty l \<le> 0 \<or> get_total_on_hand (si_org si) (si_firm si) (il_item l) loc s \<le> 0"
    | (sell) rows where "keeps_stock (si_org si) s (il_item l)" and "0 < il_qty l"
      and "remove_stock_fifo today (si_org si) (si_firm si) (il_item l) loc (il_qty l) (inv_ref si) s = Inr (s', rows)"
      and "sold si s s' rows" and "cs' = cs @ [(il_item l, il_qty l, Some (consumed_cost rows))]"
proof (cases "keeps_stock (si_org si) s (il_item l) \<and> 0 < il_qty l \<and> 0 < get_total_on_hand (si_org si) (si_firm si) (il_item l) loc s")
  case True
  then obtain rows where f: "remove_stock_fifo today (si_org si) (si_firm si) (il_item l) loc (il_qty l) (inv_ref si) s = Inr (s', rows)"
    and cs: "cs' = cs @ [(il_item l, il_qty l, Some (consumed_cost rows))]"
    using assms(1) by (auto simp: keeps_stock_def split: option.splits if_splits)
  have "sold si s s' rows"
    unfolding sold_def
    using remove_stock_fifo_ok [OF f assms(2)] fifo_moves(1,2) [OF f assms(2)] fifo_effect(2,3) [OF f assms(2)]
    by (auto simp: row_of_def key_at_def)
  with True f cs show ?thesis by (intro sell) auto
next
  case False
  with assms(1) show ?thesis
    by (intro skip) (auto simp: keeps_stock_def not_less split: option.splits if_splits)
qed

lemma clamp_step:
  fixes x x' b q :: decimal
  assumes "0 \<le> x" and "0 \<le> b" and "x' = (if e \<and> 0 < q \<and> 0 < x then x - q else x)"
  shows "max 0 (x' - b) = max 0 (x - ((if e then max 0 q else 0) + b))"
proof -
  consider "\<not> e" | "e" "q \<le> 0" | "e" "0 < q" "x = 0" | "e" "0 < q" "0 < x" using assms(1) by linarith
  then show ?thesis
  proof cases
    case 3
    with assms have "x' - b \<le> 0" "x - ((if e then max 0 q else 0) + b) \<le> 0" by simp_all
    then show ?thesis by (simp only: max_absorb1)
  qed (use assms(3) in \<open>simp_all add: diff_diff_eq\<close>)
qed

lemma sell_effect:
  assumes "foldE (sell_line today si loc) ls (s, cs) = Inr (s', cs')" and "inv_ok s"
  shows "\<exists>rows. sold si s s' rows \<and>
    (\<forall>it. get_total_on_hand (si_org si) (si_firm si) it loc s'
       = (if keeps_stock (si_org si) s it then max 0 (get_total_on_hand (si_org si) (si_firm si) it loc s - billed_qty ls it)
          else get_total_on_hand (si_org si) (si_firm si) it loc s))"
  using assms
proof (induction ls arbitrary: s cs)
  case Nil
  then have "sold si s s' []" by (auto simp: sold_def)
  moreover have "max 0 (get_total_on_hand org firm it loc s') = get_total_on_hand org firm it loc s'" for org firm it
    using Nil total_on_hand_nonneg by (intro max_absorb2) auto
  ultimately show ?case using Nil by auto
next
  case (Cons l ls)
  let ?T = "\<lambda>it s. get_total_on_hand (si_org si) (si_firm si) it loc s"
  from Cons.prems(1) obtain s1 cs1 where l: "sell_line today si loc l (s, cs) = Inr (s1, cs1)"
    and rest: "foldE (sell_line today si loc) ls (s1, cs1) = Inr (s', cs')" by auto
  obtain rows1 where s1: "sold si s s1 rows1"
    and t1: "\<forall>it. ?T it s1 = (if keeps_stock (si_org si) s it \<and> il_item l = it \<and> 0 < il_qty l \<and> 0 < ?T it s
        then ?T it s - il_qty l else ?T it s)"
  proof (cases rule: sell_line_cases [OF l Cons.prems(2)])
    case 1
    then have "sold si s s1 []" using Cons.prems(2) by (simp add: sold_def)
    moreover have "\<forall>it. ?T it s1 = (if keeps_stock (si_org si) s it \<and> il_item l = it \<and> 0 < il_qty l \<and> 0 < ?T it s
        then ?T it s - il_qty l else ?T it s)" using 1 by auto
    ultimately show ?thesis by (rule that)
  next
    case (2 rows)
    have "\<not> ?T (il_item l) s < il_qty l" using 2(3) by (auto simp: remove_stock_fifo_Inr)
    with 2 fifo_moves(3) [OF 2(3) Cons.prems(2)] show ?thesis by (intro that [of rows]) auto
  qed
  have keep: "keeps_stock (si_org si) s1 = keeps_stock (si_org si) s" using s1 by (simp add: keeps_stock_def sold_def fun_eq_iff)
  have ok1: "inv_ok s1" using s1 by (simp add: sold_def)
  from Cons.IH [OF rest ok1] obtain rows2 where s2: "sold si s1 s' rows2"
    and t2: "\<forall>it. ?T it s' = (if keeps_stock (si_org si) s1 it then max 0 (?T it s1 - billed_qty ls it) else ?T it s1)" by blast
  have "?T it s' = (if keeps_stock (si_org si) s it then max 0 (?T it s - billed_qty (l # ls) it) else ?T it s)" for it
  proof (cases "keeps_stock (si_org si) s it")
    case True
    have nn: "0 \<le> ?T it s" "0 \<le> ?T it s1" "0 \<le> billed_qty ls it"
      using total_on_hand_nonneg [OF Cons.prems(2)] total_on_hand_nonneg [OF ok1] billed_qty_nonneg by auto
    have "?T it s1 = (if il_item l = it \<and> 0 < il_qty l \<and> 0 < ?T it s then ?T it s - il_qty l else ?T it s)"
      using t1 True by simp
    from clamp_step [OF nn(1,3) this] True t2 show ?thesis by (simp add: keep)
  qed (use t1 t2 in \<open>simp add: keep\<close>)
  with sold_trans [OF s1 s2] show ?case by blast
qed

section \<open>Putting back\<close>

lemma row_key: "k_org (sl_key r) = org \<Longrightarrow> k_firm (sl_key r) = firm \<Longrightarrow> (sl_key r)\<lparr>k_org := org, k_firm := firm\<rparr> = sl_key r"
  by (cases r) (auto intro: stock_key.equality)

lemma restore_effect:
  assumes "foldE (restore_row today si org d) rows s = Inr s'" and "inv_ok s"
    and "\<forall>r \<in> set rows. k_org (sl_key r) = org \<and> k_firm (sl_key r) = si_firm si \<and> qty_in r = 0"
  shows "inv_ok s' \<and> (\<forall>k. on_hand s' k = on_hand s k - net rows k)"
  using assms
proof (induction rows arbitrary: s)
  case (Cons r rows)
  have k: "(sl_key r)\<lparr>k_org := org, k_firm := si_firm si\<rparr> = sl_key r" by (rule row_key) (use Cons.prems(3) in auto)
  from Cons.prems(1) obtain s1 where r: "restore_row today si org d r s = Inr s1"
    and rest: "foldE (restore_row today si org d) rows s1 = Inr s'" by auto
  from r obtain row ref c where a: "add_stock today (sl_key r) (qty_out r) c ref s = Inr (s1, row)"
    unfolding restore_row_def k by (auto simp: bindE_Inr_iff)
  note e = add_stock_effect [OF a inv_ok_parts(1) [OF Cons.prems(2)]]
  have on: "on_hand s1 = (on_hand s)(sl_key r := on_hand s (sl_key r) + qty_out r)" using e(1) by (simp add: booked_def)
  have "\<forall>r \<in> set rows. k_org (sl_key r) = org \<and> k_firm (sl_key r) = si_firm si \<and> qty_in r = 0" "qty_in r = 0"
    using Cons.prems(3) by simp_all
  with Cons.IH [OF rest add_stock_ok [OF a Cons.prems(2)]] on show ?case by simp
qed simp

text \<open>Whatever is restored, the stock stays in order.\<close>

lemma restore_ok: "foldE (restore_row today si org d) rows s = Inr s' \<Longrightarrow> inv_ok s \<Longrightarrow> inv_ok s'"
  by (induction rows arbitrary: s) (auto simp: restore_row_def bindE_Inr_iff dest: add_stock_ok)

lemma outbound_rows_sold:
  assumes "sold si s s' rows" and "outbound_rows (si_org si) ''sales_invoice'' (sales_invoice_id si) s = []"
  shows "outbound_rows (si_org si) ''sales_invoice'' (sales_invoice_id si) s' = rows"
  using assms by (auto simp: outbound_rows_def sold_def row_of_def sale_ref_def)

lemma outbound_rows_in: "r \<in> set (outbound_rows org ty i st) \<Longrightarrow> k_org (sl_key r) = org \<and> 0 < qty_out r"
  by (simp add: outbound_rows_def)

end
