(* ===== verification/SalesInvoiceProps.thy ===== *)
theory SalesInvoiceProps
  imports InvoiceStock SalesLedger
begin

text \<open>
  What invoicing guarantees, with the sales desk, the stock and the ledger running beside it: one
  live invoice per challan, a ledger that always agrees with the invoices, drafts priced by the
  statutory rules, and a cancellation that undoes a finalization in the books and in the stock.
\<close>

section \<open>The invariant\<close>

definition line_total :: "uuid \<Rightarrow> (invoice_line \<Rightarrow> decimal) \<Rightarrow> billing \<Rightarrow> decimal" where
  "line_total i f s = (\<Sum>l\<leftarrow>lines_of_invoice i s. f l)"

definition amounts_ok :: "invoice_row \<Rightarrow> billing \<Rightarrow> bool" where
  "amounts_ok v s \<longleftrightarrow>
     si_gst_amount (inv_head v) = Some (line_total (inv_id v) il_gst s) \<and>
     si_invoice_amount (inv_head v) = Some (line_total (inv_id v) il_amount s + line_total (inv_id v) il_gst s)"

definition challan_ok :: "invoice_row \<Rightarrow> sales \<Rightarrow> bool" where
  "challan_ok v k \<longleftrightarrow>
     (\<forall>dc. bills dc v \<longrightarrow> (\<exists>d \<in> set (challans k). delivery_challan_id d = dc \<and> dc_org d = si_org (inv_head v) \<and>
        dc_firm d = si_firm (inv_head v) \<and> dc_party d = si_party (inv_head v) \<and> dc_status d \<in> {ISSUED, ACKNOWLEDGED}))"

definition invoice_ok :: "invoice_row \<Rightarrow> billing \<Rightarrow> bool" where
  "invoice_ok v s \<longleftrightarrow> ledger_agrees (inv_head v) (sale_books s) \<and> amounts_ok v s \<and> challan_ok v (sale_desk s) \<and> \<not> inv_deleted v"

definition bill_ids_ok :: "billing \<Rightarrow> bool" where
  "bill_ids_ok s \<longleftrightarrow> distinct (map inv_id (invoices s)) \<and> inv_id ` set (invoices s) \<subseteq> sale_ids (sale_desk s) \<and>
     il_invoice ` set (invoice_lines s) \<subseteq> inv_id ` set (invoices s) \<and>
     range (sale_supply (sale_desk s)) \<inter> range (voucher_supply (sale_books s)) = {}"

definition billing_ok :: "billing \<Rightarrow> bool" where
  "billing_ok s \<longleftrightarrow> sales_ok (sale_desk s) \<and> gl_ok (sale_books s) \<and> bill_ids_ok s \<and>
     refs_ok (sale_ids (sale_desk s)) (sale_books s) \<and> (\<forall>v \<in> set (invoices s). invoice_ok v s) \<and>
     (\<forall>v \<in> set (invoices s). \<forall>w \<in> set (invoices s). \<forall>dc. bills dc v \<longrightarrow> bills dc w \<longrightarrow> v = w)"

lemma put_invoice_frame [simp]:
  "sale_desk (put_invoice v s) = sale_desk s" "sale_books (put_invoice v s) = sale_books s"
  "invoice_lines (put_invoice v s) = invoice_lines s" "firm_taxes (put_invoice v s) = firm_taxes s"
  "map inv_id (invoices (put_invoice v s)) = map inv_id (invoices s)"
  by (simp_all add: put_invoice_def) (rule map_update_where, simp)

lemma inv_row_by_id:
  "bill_ids_ok s \<Longrightarrow> v \<in> set (invoices s) \<Longrightarrow> w \<in> set (invoices s) \<Longrightarrow> inv_id v = inv_id w \<Longrightarrow> v = w"
  by (auto simp: bill_ids_ok_def distinct_map dest: inj_onD)

lemma set_put_invoice:
  assumes "bill_ids_ok s" and "v \<in> set (invoices s)" and "inv_id v' = inv_id v"
  shows "set (invoices (put_invoice v' s)) = insert v' (set (invoices s) - {v})"
  using assms by (auto simp: put_invoice_def set_update_where dest: inv_row_by_id)

lemma inv_ids_put: "inv_id ` set (invoices (put_invoice v s)) = inv_id ` set (invoices s)"
  by (metis put_invoice_frame(5) list.set_map)

text \<open>One invoice changes its state, with postings of its own and movements of stock.\<close>

lemma row_changes:
  assumes ok: "billing_ok s" and v: "v \<in> set (invoices s)"
    and g: "grows X (sale_books s) b" "X \<subseteq> insert (inv_id v) (voucher_id ` set (refs (inv_id v) (sale_books s)))"
    and st: "inv_ok st" and agree: "ledger_agrees (inv_head v') b"
    and same: "inv_id v' = inv_id v" "si_org (inv_head v') = si_org (inv_head v)" "si_firm (inv_head v') = si_firm (inv_head v)"
      "si_party (inv_head v') = si_party (inv_head v)" "si_invoice_amount (inv_head v') = si_invoice_amount (inv_head v)"
      "si_gst_amount (inv_head v') = si_gst_amount (inv_head v)" "inv_deleted v' = inv_deleted v"
    and held: "\<And>dc. bills dc v' \<Longrightarrow> bills dc v"
  shows "billing_ok (put_invoice v' (s\<lparr>sale_books := b, sale_desk := (sale_desk s)\<lparr>sale_stock := st\<rparr>\<rparr>))"
proof -
  let ?s = "s\<lparr>sale_books := b, sale_desk := (sale_desk s)\<lparr>sale_stock := st\<rparr>\<rparr>"
  let ?t = "put_invoice v' ?s"
  have parts: "sales_ok (sale_desk s)" "gl_ok (sale_books s)" "bill_ids_ok s" "refs_ok (sale_ids (sale_desk s)) (sale_books s)"
    "\<forall>v \<in> set (invoices s). invoice_ok v s"
    and uniq: "\<forall>v \<in> set (invoices s). \<forall>w \<in> set (invoices s). \<forall>dc. bills dc v \<longrightarrow> bills dc w \<longrightarrow> v = w"
    using ok by (simp_all add: billing_ok_def)
  have ids: "sale_ids (sale_desk ?t) = sale_ids (sale_desk s)" by (simp add: sale_ids_def)
  have sup: "voucher_supply b = voucher_supply (sale_books s)" using g(1) by (simp add: grows_def)
  have bi: "bill_ids_ok ?s" using parts(3) ids by (simp add: bill_ids_ok_def sup)
  have rows: "set (invoices ?t) = insert v' (set (invoices s) - {v})"
    using set_put_invoice [OF bi, of v v'] v same(1) by simp
  have "bill_ids_ok ?t" using bi inv_ids_put [of v' ?s] unfolding bill_ids_ok_def by (simp del: list.set_map)
  moreover have "refs_ok (sale_ids (sale_desk ?t)) (sale_books ?t)"
  proof -
    have "inv_id v \<in> sale_ids (sale_desk s)" using parts(3) v by (auto simp: bill_ids_ok_def)
    moreover have "voucher_id ` set (refs (inv_id v) (sale_books s)) \<subseteq> voucher_id ` set (vouchers b)"
      using g(1) by (auto simp: grows_def refs_mem)
    ultimately have "X \<subseteq> sale_ids (sale_desk s) \<union> voucher_id ` set (vouchers b)" using g(2) by blast
    then show ?thesis using refs_ok_grow [OF parts(4) g(1)] by (simp add: sale_ids_def)
  qed
  moreover have "invoice_ok w ?t" if "w \<in> set (invoices ?t)" for w
  proof (cases "w = v'")
    case True
    have "challan_ok v (sale_desk s)" "amounts_ok v s" "\<not> inv_deleted v" using parts(5) v by (simp_all add: invoice_ok_def)
    then have "challan_ok v' (sale_desk s)" "amounts_ok v' s" "\<not> inv_deleted v'"
      using same held by (simp_all add: challan_ok_def amounts_ok_def line_total_def)
    with True agree show ?thesis
      by (simp add: invoice_ok_def challan_ok_def amounts_ok_def line_total_def lines_of_invoice_def)
  next
    case False
    with that rows have w: "w \<in> set (invoices s)" "w \<noteq> v" by auto
    then have ne: "inv_id w \<noteq> inv_id v" using inv_row_by_id [OF parts(3)] v by blast
    have wid: "inv_id w \<in> sale_ids (sale_desk s)" using parts(3) w by (auto simp: bill_ids_ok_def)
    have vid: "inv_id v \<in> sale_ids (sale_desk s)" using parts(3) v by (auto simp: bill_ids_ok_def)
    note nid = refs_ok_id [OF parts(4,2)]
    have "inv_id w \<notin> X" using g(2) ne nid wid by (fastforce simp: refs_mem)
    moreover have "voucher_id x \<notin> X" if x: "x \<in> set (refs (inv_id w) (sale_books s))" for x
    proof
      assume "voucher_id x \<in> X"
      moreover have xm: "x \<in> set (vouchers (sale_books s))" "v_reference_id x = Some (inv_id w)" using x by (auto simp: refs_mem)
      ultimately obtain y where y: "y \<in> set (vouchers (sale_books s))" "v_reference_id y = Some (inv_id v)" "voucher_id x = voucher_id y"
        using subsetD [OF g(2), of "voucher_id x"] nid [OF xm(1)] vid that by (auto simp: refs_mem)
      then have "x = y" using parts(2) xm(1) by (auto simp: gl_ok_def distinct_map dest: inj_onD)
      with xm(2) y(2) ne show False by simp
    qed
    moreover have "ledger_agrees (inv_head w) (sale_books s)" using parts(5) w by (simp add: invoice_ok_def)
    ultimately have "ledger_agrees (inv_head w) b" using ledger_agrees_grow [OF _ g(1)] by blast
    then show ?thesis using parts(5) w
      by (simp add: invoice_ok_def challan_ok_def amounts_ok_def line_total_def lines_of_invoice_def)
  qed
  moreover have "u = w" if "u \<in> set (invoices ?t)" "w \<in> set (invoices ?t)" "bills dc u" "bills dc w" for u w dc
    using that uniq held v unfolding rows by blast
  ultimately show ?thesis
    using sale_stock_ok [OF parts(1) st] grows_ok [OF g(1)] by (simp add: billing_ok_def)
qed

section \<open>Finalizing, discarding and cancelling\<close>

lemma lock_invoice_mem:
  "lock_invoice org i s = Inr v \<Longrightarrow> v \<in> set (invoices s) \<and> inv_id v = i \<and> si_org (inv_head v) = org \<and> \<not> inv_deleted v"
  by (auto simp: lock_invoice_def bindE_Inr_iff scalar_one_or_none_Some dest: filter_oneD split: option.splits)

lemma with_lifecycle_fields [simp]:
  "inv_head (with_lifecycle l v) = (inv_head v)\<lparr>lifecycle_status := l\<rparr>" "inv_dc (with_lifecycle l v) = inv_dc v"
  "inv_paid (with_lifecycle l v) = inv_paid v" "inv_deleted (with_lifecycle l v) = inv_deleted v"
  by (simp_all add: with_lifecycle_def)

lemma cogs_nothing: "post_cogs_voucher now org firm rt ref [] d b = Inr (b, None)"
  by (simp add: post_cogs_voucher_def cogs_total_def Let_def ctx_sum_def)

lemma finalize_cases:
  assumes "finalize_invoice now org i s = Inr s'"
  obtains v h st loc st' consumed b1 w b2 r where "finalize_checks org i s = Inr v" and "lock_invoice org i s = Inr v"
    and "lifecycle v = LC_DRAFT" and "h = inv_head (with_lifecycle FINALIZED v)"
    and "post_invoice_to_gl now h (sale_books s) = Inr (b1, w)"
    and "post_cogs_voucher now (si_org h) (si_firm h) ''sales_invoice'' i consumed (Some (invoice_date h)) b1 = Inr (b2, r)"
    and "s' = put_invoice (with_lifecycle FINALIZED v) (s\<lparr>sale_books := b2, sale_desk := (sale_desk s)\<lparr>sale_stock := st'\<rparr>\<rparr>)"
    and "inv_dc v = None \<longrightarrow> get_or_create_default_location (si_org h) (si_firm h) (sale_stock (sale_desk s)) = Inr (st, loc) \<and>
      foldE (sell_line (fst now) h (location_id loc)) (lines_of_invoice i s) (st, []) = Inr (st', consumed)"
    and "inv_dc v \<noteq> None \<longrightarrow> st' = sale_stock (sale_desk s)"
proof -
  from assms obtain v b1 w where v: "finalize_checks org i s = Inr v"
    and p: "post_invoice_to_gl now (inv_head (with_lifecycle FINALIZED v)) (sale_books s) = Inr (b1, w)"
    and rest: "(case inv_dc v of
       None \<Rightarrow> post_cogs_for_invoice now (inv_head (with_lifecycle FINALIZED v)) ((put_invoice (with_lifecycle FINALIZED v) s)\<lparr>sale_books := b1\<rparr>)
     | Some dc \<Rightarrow> post_cogs_for_dc_invoice now (inv_head (with_lifecycle FINALIZED v)) dc ((put_invoice (with_lifecycle FINALIZED v) s)\<lparr>sale_books := b1\<rparr>))
       = Inr s'"
    by (auto simp: finalize_invoice_def post_finalized_def bindE_Inr_iff)
  have lock: "lock_invoice org i s = Inr v" "lifecycle v = LC_DRAFT" using v by (auto simp: finalize_checks_def bindE_Inr_iff)
  have i: "inv_id v = i" using lock_invoice_mem [OF lock(1)] by simp
  show thesis
  proof (cases "inv_dc v")
    case (Some dc)
    with rest i obtain consumed b2 r where
      "post_cogs_voucher now (si_org (inv_head v)) (si_firm (inv_head v)) ''sales_invoice'' i consumed (Some (invoice_date (inv_head v))) b1 = Inr (b2, r)"
      "s' = put_invoice (with_lifecycle FINALIZED v) (s\<lparr>sale_books := b2, sale_desk := (sale_desk s)\<lparr>sale_stock := sale_stock (sale_desk s)\<rparr>\<rparr>)"
      by (auto simp: post_cogs_for_dc_invoice_def bindE_Inr_iff put_invoice_def)
    with Some show ?thesis by (intro that [OF v lock refl p]) auto
  next
    case None
    with rest obtain st loc where loc: "get_or_create_default_location (si_org (inv_head v)) (si_firm (inv_head v)) (sale_stock (sale_desk s)) = Inr (st, loc)"
      by (auto simp: post_cogs_for_invoice_def bindE_Inr_iff)
    show ?thesis
    proof (cases "lines_of_invoice i s")
      case Nil
      with rest None loc i show ?thesis
        by (intro that [OF v lock refl p cogs_nothing, of st st loc])
          (auto simp: post_cogs_for_invoice_def lines_of_invoice_def put_invoice_def)
    next
      case (Cons l ls)
      with rest None loc i obtain st' consumed b2 r where
        "foldE (sell_line (fst now) (inv_head (with_lifecycle FINALIZED v)) (location_id loc)) (lines_of_invoice i s) (st, []) = Inr (st', consumed)"
        "post_cogs_voucher now (si_org (inv_head v)) (si_firm (inv_head v)) ''sales_invoice'' i consumed (Some (invoice_date (inv_head v))) b1 = Inr (b2, r)"
        "s' = put_invoice (with_lifecycle FINALIZED v) (s\<lparr>sale_books := b2, sale_desk := (sale_desk s)\<lparr>sale_stock := st'\<rparr>\<rparr>)"
        by (auto simp: post_cogs_for_invoice_def lines_of_invoice_def put_invoice_def bindE_Inr_iff)
      with None loc show ?thesis by (intro that [OF v lock refl p]) auto
    qed
  qed
qed

lemma bills_lifecycle: "bills dc (with_lifecycle l v) \<Longrightarrow> lifecycle v \<notin> {LifecycleStatus.CANCELLED, DISCARDED} \<Longrightarrow> bills dc v"
  by (auto simp: bills_def RELEASED_INVOICE_STATUSES_def)

lemma invoice_minted: "billing_ok s \<Longrightarrow> v \<in> set (invoices s) \<Longrightarrow> inv_id v \<in> sale_ids (sale_desk s)"
  by (auto simp: billing_ok_def bill_ids_ok_def)

lemma draft_unposted:
  assumes "billing_ok s" and "v \<in> set (invoices s)" and "lifecycle v \<in> {LC_DRAFT, DISCARDED}"
  shows "refs (inv_id v) (sale_books s) = []"
  using assms by (auto simp: billing_ok_def invoice_ok_def ledger_agrees_def)

lemma stock_inv_ok: "billing_ok s \<Longrightarrow> inv_ok (sale_stock (sale_desk s))"
  by (simp add: billing_ok_def sales_ok_def)

lemma finalize_invoice_ok:
  assumes "finalize_invoice now org i s = Inr s'" and ok: "billing_ok s"
  shows "billing_ok s'"
proof -
  obtain v h st loc st' consumed b1 w b2 r where "finalize_checks org i s = Inr v" and lock: "lock_invoice org i s = Inr v"
    and draft: "lifecycle v = LC_DRAFT" and h: "h = inv_head (with_lifecycle FINALIZED v)"
    and p: "post_invoice_to_gl now h (sale_books s) = Inr (b1, w)"
    and c: "post_cogs_voucher now (si_org h) (si_firm h) ''sales_invoice'' i consumed (Some (invoice_date h)) b1 = Inr (b2, r)"
    and s': "s' = put_invoice (with_lifecycle FINALIZED v) (s\<lparr>sale_books := b2, sale_desk := (sale_desk s)\<lparr>sale_stock := st'\<rparr>\<rparr>)"
    and direct: "inv_dc v = None \<longrightarrow> get_or_create_default_location (si_org h) (si_firm h) (sale_stock (sale_desk s)) = Inr (st, loc) \<and>
      foldE (sell_line (fst now) h (location_id loc)) (lines_of_invoice i s) (st, []) = Inr (st', consumed)"
    and linked: "inv_dc v \<noteq> None \<longrightarrow> st' = sale_stock (sale_desk s)"
    by (rule finalize_cases [OF assms(1)])
  from lock_invoice_mem [OF lock] have v: "v \<in> set (invoices s)" "inv_id v = i" by simp_all
  have gl: "gl_ok (sale_books s)" "refs_ok (sale_ids (sale_desk s)) (sale_books s)" using ok by (simp_all add: billing_ok_def)
  have "inv_ok st'"
  proof (cases "inv_dc v")
    case None
    with direct have "inv_ok st" using default_location_ok stock_inv_ok [OF ok] by blast
    with direct None show ?thesis using sell_effect by (metis sold_def)
  qed (use linked stock_inv_ok [OF ok] in simp)
  note f = finalize_agrees [OF gl _ _ _ p, of _ consumed _ b2 r]
  have agree: "ledger_agrees h b2" "grows {i} (sale_books s) b2"
    using f c h v invoice_minted [OF ok v(1)] draft_unposted [OF ok v(1)] draft by auto
  show ?thesis unfolding s'
    by (rule row_changes [OF ok v(1) agree(2) _ \<open>inv_ok st'\<close>])
      (use v(2) agree(1) h draft bills_lifecycle [of _ FINALIZED v] in auto)
qed

lemma discard_invoice_ok:
  assumes "discard_invoice org i s = Inr s'" and ok: "billing_ok s"
  shows "billing_ok s'"
proof -
  from assms(1) obtain v where lock: "lock_invoice org i s = Inr v"
    and c: "lifecycle v = DISCARDED \<and> s' = s \<or>
      lifecycle v \<in> {LC_DRAFT, LifecycleStatus.CONFIRMED} \<and> s' = put_invoice (with_lifecycle DISCARDED v) s"
    by (auto simp: discard_invoice_def bindE_Inr_iff DISCARDABLE_LIFECYCLE_def split: if_splits)
  from lock_invoice_mem [OF lock] have v: "v \<in> set (invoices s)" by simp
  have agree: "ledger_agrees (inv_head v) (sale_books s)" using ok v by (simp add: billing_ok_def invoice_ok_def)
  from c show ?thesis
  proof
    assume d: "lifecycle v \<in> {LC_DRAFT, LifecycleStatus.CONFIRMED} \<and> s' = put_invoice (with_lifecycle DISCARDED v) s"
    with agree have draft: "lifecycle v = LC_DRAFT" by (auto simp: ledger_agrees_def)
    have "billing_ok (put_invoice (with_lifecycle DISCARDED v)
        (s\<lparr>sale_books := sale_books s, sale_desk := (sale_desk s)\<lparr>sale_stock := sale_stock (sale_desk s)\<rparr>\<rparr>))"
      by (rule row_changes [OF ok v grows_refl, of "{}"])
        (use ok draft stock_inv_ok [OF ok] draft_unposted [OF ok v] bills_lifecycle [of _ DISCARDED v] in
          \<open>auto simp: billing_ok_def ledger_agrees_def\<close>)
    with d show ?thesis by simp
  qed (use ok in simp)
qed

lemma cancel_cases:
  assumes "cancel_invoice now org i reason s = Inr s'" and ok: "billing_ok s"
  obtains (again) v where "lock_invoice org i s = Inr v" and "lifecycle v = LifecycleStatus.CANCELLED" and "s' = s"
    | (cancel) v d b1 rs b2 r st' v' where "lock_invoice org i s = Inr v" and "lifecycle v = FINALIZED"
      and "\<not> inv_paid v > 0" and "cancel_checks now v = Inr d"
      and "reverse_sales_invoice_gl now (inv_head v) (Some d) (sale_books s) = Inr (b1, rs)"
      and "reverse_cogs_sale_gl now (inv_head v) (Some d) b1 = Inr (b2, r)"
      and "restore_stock_for_cancel (fst now) (inv_head v) org d (sale_stock (sale_desk s)) = Inr st'"
      and "s' = put_invoice v' (s\<lparr>sale_books := b2, sale_desk := (sale_desk s)\<lparr>sale_stock := st'\<rparr>\<rparr>)"
      and "inv_head v' = (inv_head v)\<lparr>lifecycle_status := LifecycleStatus.CANCELLED\<rparr>" and "inv_deleted v' = inv_deleted v"
      and "inv_dc v' = inv_dc v" and "inv_paid v' = inv_paid v"
proof -
  from assms(1) obtain v where lock: "lock_invoice org i s = Inr v"
    by (auto simp: cancel_invoice_def cancel_locked_def reverse_sale_def close_cancelled_def bindE_Inr_iff)
  show thesis
  proof (cases "lifecycle v = LifecycleStatus.CANCELLED")
    case True
    with assms(1) lock show ?thesis by (intro again [of v]) (auto simp: cancel_invoice_def cancel_locked_def)
  next
    case False
    with assms(1) lock obtain d b1 rs b2 r st' where c: "cancel_checks now v = Inr d"
      "reverse_sales_invoice_gl now (inv_head v) (Some d) (sale_books s) = Inr (b1, rs)"
      "reverse_cogs_sale_gl now (inv_head v) (Some d) b1 = Inr (b2, r)"
      "restore_stock_for_cancel (fst now) (inv_head v) org d (sale_stock (sale_desk s)) = Inr st'"
      and s': "s' = put_invoice ((with_lifecycle LifecycleStatus.CANCELLED v)
              \<lparr>inv_status := VOIDED, cancelled_at := Some now, cancel_reason := Some (strip reason)\<rparr>)
          (s\<lparr>sale_books := b2, sale_desk := (sale_desk s)\<lparr>sale_stock := st'\<rparr>\<rparr>)"
      by (auto simp: cancel_invoice_def cancel_locked_def reverse_sale_def close_cancelled_def bindE_Inr_iff)
    from c(1) have live: "lifecycle v \<in> {FINALIZED, LC_POSTED, OVERDUE}" "\<not> inv_paid v > 0"
      by (auto simp: cancel_checks_def bindE_Inr_iff CANCELLABLE_LIFECYCLE_def Let_def)
    have "ledger_agrees (inv_head v) (sale_books s)" using lock_invoice_mem [OF lock] ok by (simp add: billing_ok_def invoice_ok_def)
    with live have "lifecycle v = FINALIZED" by (auto simp: ledger_agrees_def)
    from cancel [OF lock this live(2) c s'] show ?thesis by simp
  qed
qed

lemma cancel_invoice_ok:
  assumes "cancel_invoice now org i reason s = Inr s'" and ok: "billing_ok s"
  shows "billing_ok s'"
  using assms(1) ok
proof (cases rule: cancel_cases)
  case (cancel v d b1 rs b2 r st' v')
  from lock_invoice_mem [OF cancel(1)] have v: "v \<in> set (invoices s)" by simp
  have gl: "gl_ok (sale_books s)" "refs_ok (sale_ids (sale_desk s)) (sale_books s)"
    "ledger_agrees (inv_head v) (sale_books s)" using ok v by (simp_all add: billing_ok_def invoice_ok_def)
  note c = cancel_agrees [OF gl(1,2) invoice_minted [OF ok v] gl(3) cancel(2,5,6)]
  have st: "inv_ok st'" using cancel(7) stock_inv_ok [OF ok] restore_ok by (auto simp: restore_stock_for_cancel_def)
  show ?thesis unfolding cancel(8)
    by (rule row_changes [OF ok v c(2) _ st])
      (use c(1) cancel(2,9-11) in \<open>auto simp: bills_def RELEASED_INVOICE_STATUSES_def\<close>)
qed (use ok in simp)

section \<open>The desk\<close>

text \<open>The calls of the sales desk never take an id or an issued challan away.\<close>

definition desk_grows :: "sales \<Rightarrow> sales \<Rightarrow> bool" where
  "desk_grows k k' \<longleftrightarrow> sale_supply k' = sale_supply k \<and> sale_count k \<le> sale_count k' \<and>
     (\<forall>d \<in> set (challans k). dc_status d \<noteq> DCStatus.DRAFT \<longrightarrow> d \<in> set (challans k'))"

lemma put_so_desk: "desk_grows k (put_so w k)"
  by (simp add: desk_grows_def)

lemma put_dc_desk:
  "sale_ids_ok k \<Longrightarrow> d \<in> set (challans k) \<Longrightarrow> dc_status d = DCStatus.DRAFT \<Longrightarrow>
   delivery_challan_id d' = delivery_challan_id d \<Longrightarrow> desk_grows k (put_dc d' k)"
  using set_put_dc [of k d d'] by (auto simp: desk_grows_def)

lemma issue_dc_desk:
  assumes "issue_dc today org i k = Inr k'" and "sales_ok k"
  shows "desk_grows k k'"
proof -
  have ids: "sale_ids_ok k" using assms(2) by (simp add: sales_ok_def)
  obtain d so st loc st' where d: "get_dc org i k = Inr d" "dc_status d = DCStatus.DRAFT"
    and k': "k' = (case so of None \<Rightarrow> put_dc (d\<lparr>dc_status := ISSUED\<rparr>) (k\<lparr>sale_stock := st'\<rparr>)
               | Some w \<Rightarrow> advance_so_status_after_dc w (put_dc (d\<lparr>dc_status := ISSUED\<rparr>) (k\<lparr>sale_stock := st'\<rparr>)))"
    by (rule issue_dc_cases [OF assms(1)])
  have "desk_grows k (put_dc (d\<lparr>dc_status := ISSUED\<rparr>) k)"
    by (rule put_dc_desk [OF ids]) (use get_dc_mem [OF d(1)] d(2) in auto)
  moreover have "challans k' = challans (put_dc (d\<lparr>dc_status := ISSUED\<rparr>) k)" "sale_supply k' = sale_supply k" "sale_count k' = sale_count k"
    by (simp_all add: k' advance_so_status_after_dc_def Let_def put_dc_def put_so_def split: option.split)
  ultimately show ?thesis by (simp add: desk_grows_def)
qed

lemma sales_step_desk:
  assumes "sales_step c k = Inr k'" and ok: "sales_ok k"
  shows "desk_grows k k'"
proof (cases c)
  case (CreateSo org firm party d series rs)
  with assms(1) obtain w where "create_so org firm party d series rs k = Inr (k', w)" by auto
  then show ?thesis
    by (auto simp: create_so_def insert_so_def sale_mint_def Let_def desk_grows_def split: if_splits)
next
  case (ConfirmSo org i)
  with assms(1) show ?thesis by (auto simp: confirm_so_def put_so_desk)
next
  case (CancelSo org i)
  with assms(1) show ?thesis by (auto simp: cancel_so_def put_so_desk desk_grows_def split: if_splits)
next
  case (DeleteSo org i)
  with assms(1) show ?thesis
    by (auto simp: soft_delete_so_def put_so_desk desk_grows_def split: if_splits option.splits)
next
  case (CreateDc org firm party d series rs so)
  with assms(1) obtain w where "create_dc org firm party d series rs so k = Inr (k', w)" by auto
  then show ?thesis by (rule create_dc_cases) (auto simp: desk_grows_def)
next
  case (IssueDc today org i)
  with assms show ?thesis by (auto intro: issue_dc_desk)
next
  case (DeleteDc org i)
  with assms(1) obtain r where r: "scalar_one_or_none (filter (\<lambda>d. delivery_challan_id d = i \<and> dc_org d = org) (challans k)) = Inr r"
    by (auto simp: soft_delete_dc_def)
  with assms(1) DeleteDc obtain d where "r = Some d" by (cases r) (auto simp: soft_delete_dc_def)
  with r have d: "d \<in> set (challans k)" by (auto simp: scalar_one_or_none_Some dest: filter_oneD)
  have "sale_ids_ok k" using ok by (simp add: sales_ok_def)
  with assms(1) DeleteDc r \<open>r = Some d\<close> d show ?thesis
    by (auto simp: soft_delete_dc_def split: if_splits intro: put_dc_desk) (simp add: desk_grows_def)
next
  case (StockCall op)
  with assms(1) show ?thesis by (auto simp: desk_grows_def)
qed

lemma sale_ids_desk: "desk_grows k k' \<Longrightarrow> sale_ids k \<subseteq> sale_ids k'"
  unfolding desk_grows_def sale_ids_def by (metis image_mono lessThan_subset_iff)

lemma challan_ok_desk: "challan_ok v k \<Longrightarrow> desk_grows k k' \<Longrightarrow> challan_ok v k'"
  unfolding challan_ok_def desk_grows_def by (metis DCStatus.distinct(1,3) insert_iff singletonD)

text \<open>The desk moves on: everything the invoices rely on is still there.\<close>

lemma desk_ok:
  assumes "billing_ok s" and "sales_ok k" and "desk_grows (sale_desk s) k"
  shows "billing_ok (s\<lparr>sale_desk := k\<rparr>)"
proof -
  have sup: "sale_supply k = sale_supply (sale_desk s)" using assms(3) by (simp add: desk_grows_def)
  have "range (sale_supply k) \<inter> range (voucher_supply (sale_books s)) = {}"
    using assms(1) by (simp add: billing_ok_def bill_ids_ok_def sup)
  then have "sale_ids k \<inter> range (voucher_supply (sale_books s)) = {}" by (auto simp: sale_ids_def)
  then have "refs_ok (sale_ids k) (sale_books s)"
    using assms(1) refs_ok_mono [OF _ sale_ids_desk [OF assms(3)]] by (simp add: billing_ok_def)
  moreover have "bill_ids_ok (s\<lparr>sale_desk := k\<rparr>)"
    using assms(1) sale_ids_desk [OF assms(3)] sup by (auto simp: billing_ok_def bill_ids_ok_def)
  moreover have "invoice_ok v (s\<lparr>sale_desk := k\<rparr>)" if "v \<in> set (invoices s)" for v
    using assms(1) that challan_ok_desk [OF _ assms(3)]
    by (auto simp: billing_ok_def invoice_ok_def amounts_ok_def line_total_def lines_of_invoice_def)
  ultimately show ?thesis using assms(1,2) by (simp add: billing_ok_def)
qed

section \<open>A new draft\<close>

lemma lock_dc_Some:
  "lock_dc_for_invoicing org dc s = Inr (Some d) \<Longrightarrow>
   d \<in> set (challans (sale_desk s)) \<and> delivery_challan_id d = dc \<and> dc_org d = org \<and> \<not> dc_deleted d"
  by (auto simp: lock_dc_for_invoicing_def scalar_one_or_none_Some dest: filter_oneD)

lemma require_dc_Inr:
  assumes "require_dc org firm party dc ex s = Inr d"
  shows "d \<in> set (challans (sale_desk s)) \<and> delivery_challan_id d = dc \<and> dc_org d = org \<and> dc_firm d = firm \<and> dc_party d = party \<and>
    dc_status d \<in> {ISSUED, ACKNOWLEDGED} \<and> find_live_invoice_on_dc org dc ex s = None"
proof -
  from assms obtain r where r: "lock_dc_for_invoicing org dc s = Inr r" by (auto simp: require_dc_def bindE_Inr_iff)
  with assms obtain d' where d': "r = Some d'" by (cases r) (simp_all add: require_dc_def)
  have "d' = d" "dc_firm d = firm" "dc_party d = party" "dc_status d \<in> {ISSUED, ACKNOWLEDGED}" "find_live_invoice_on_dc org dc ex s = None"
    using assms by (auto simp: require_dc_def r d' bindE_Inr_iff INVOICEABLE_DC_STATUSES_def)
  with lock_dc_Some [OF r [unfolded d']] show ?thesis by simp
qed

lemma price_draft_Inr:
  assumes "price_draft f p ship d rs = Inr (pos, ls, gs)"
  shows "mapE (price_line f) (enumerate 0 rs) = Inr ls" and "mapE (line_tax (ps_tax_type pos)) ls = Inr gs"
    and "pos = place_of_supply_for f p ship (subtotal_of ls + (\<Sum>l\<leftarrow>ls. dl_provisional l)) d"
    and "\<not> is_unpriced_registered_nil (Some (tax_value (ps_tax_type pos))) (Some (document_value (ps_document_type pos))) (cust_gstin p)"
    and "\<not> isl (ensure_money_in_range (subtotal_of ls + sum_list gs))"
  using assms by (auto simp: price_draft_def bindE_Inr_iff Let_def refuse_unpriced_registered_draft_def)

lemma translate_link_Inr [simp]: "translate_link_integrity_error dc m = Inr x \<longleftrightarrow> m = Inr x"
  by (simp add: translate_link_integrity_error_def)

lemma link_checked:
  "(case dc of None \<Rightarrow> Inr () | Some c \<Rightarrow> bindE (validate_link_for_create org firm party c rs s) (\<lambda>_. Inr ())) = Inr u \<longleftrightarrow>
   (\<forall>c. dc = Some c \<longrightarrow> (\<exists>x. validate_link_for_create org firm party c rs s = Inr x))"
  by (cases dc) (auto simp: bindE_Inr_iff)

lemma insert_invoice_Inr:
  assumes "insert_invoice w s = Inr (s1, v)"
  shows "\<forall>c. inv_dc w = Some c \<longrightarrow> (\<forall>u \<in> set (invoices s). \<not> bills c u)"
    and "v = w\<lparr>inv_head := (inv_head w)\<lparr>sales_invoice_id := sale_supply (sale_desk s) (sale_count (sale_desk s))\<rparr>\<rparr>"
    and "s1 = s\<lparr>sale_desk := (sale_desk s)\<lparr>sale_count := Suc (sale_count (sale_desk s))\<rparr>, invoices := invoices s @ [v]\<rparr>"
  using assms by (auto simp: insert_invoice_def sale_mint_def Let_def split: if_splits option.splits)

lemma create_draft_cases:
  assumes "create_draft_invoice org firm party d rs series ship dc s = Inr (s', v)"
  obtains p f pos ls gs n where "ensure_party_in_org org party (sale_desk s) = Inr p" and "firm_tax_of org firm s = Inr f"
    and "refuse_gst_firm_without_state f = Inr ()"
    and "\<forall>c. dc = Some c \<longrightarrow> (\<exists>x. validate_link_for_create org firm party c rs s = Inr x)"
    and "price_draft f p ship d rs = Inr (pos, ls, gs)"
    and "\<forall>c. dc = Some c \<longrightarrow> (\<forall>w \<in> set (invoices s). \<not> bills c w)"
    and "inv_head v = (inv_head (new_invoice org firm party d series n dc pos (stored_pos_state pos p ship)
        (subtotal_of ls + sum_list gs) (sum_list gs)))\<lparr>sales_invoice_id := sale_supply (sale_desk s) (sale_count (sale_desk s))\<rparr>"
    and "inv_dc v = dc" and "inv_deleted v = False" and "inv_paid v = 0"
    and "s' = s\<lparr>sale_desk := (sale_desk s)\<lparr>sale_count := Suc (sale_count (sale_desk s))\<rparr>, invoices := invoices s @ [v],
        invoice_lines := invoice_lines s @ map2 (new_invoice_line v) ls gs\<rparr>"
proof -
  from assms obtain p f r where c: "ensure_party_in_org org party (sale_desk s) = Inr p" "firm_tax_of org firm s = Inr f"
    "refuse_gst_firm_without_state f = Inr ()" "\<forall>c. dc = Some c \<longrightarrow> (\<exists>x. validate_link_for_create org firm party c rs s = Inr x)"
    and r: "price_draft f p ship d rs = Inr r"
    and rest: "(case r of (pos, ls, gs) \<Rightarrow> bindE (insert_invoice (new_invoice org firm party d series (allocate_si_number org firm series s) dc pos
                 (stored_pos_state pos p ship) (subtotal_of ls + sum_list gs) (sum_list gs)) s)
             (\<lambda>(s1, v). Inr (s1\<lparr>invoice_lines := invoice_lines s1 @ map2 (new_invoice_line v) ls gs\<rparr>, v))) = Inr (s', v)"
    unfolding create_draft_invoice_def bindE_Inr_iff link_checked by (auto simp: bindE_Inr_iff split: prod.splits)
  obtain pos ls gs where rp: "r = (pos, ls, gs)" by (cases r) auto
  from rest obtain s1 where ins: "insert_invoice (new_invoice org firm party d series (allocate_si_number org firm series s) dc pos
                 (stored_pos_state pos p ship) (subtotal_of ls + sum_list gs) (sum_list gs)) s = Inr (s1, v)"
    and s': "s' = s1\<lparr>invoice_lines := invoice_lines s1 @ map2 (new_invoice_line v) ls gs\<rparr>"
    by (auto simp: rp bindE_Inr_iff)
  note i = insert_invoice_Inr [OF ins]
  show thesis
    by (rule that [OF c r [unfolded rp]]) (use i(1) s' in \<open>simp_all add: i(2,3) new_invoice_def\<close>)
qed


lemma sales_ok_mint:
  assumes "sales_ok k"
  shows "sales_ok (k\<lparr>sale_count := Suc (sale_count k)\<rparr>)"
proof -
  let ?k = "k\<lparr>sale_count := Suc (sale_count k)\<rparr>"
  have "left_ok w ?k \<longleftrightarrow> left_ok w k" for w
    by (rule left_ok_cong) (simp_all add: item_dispatched_def issued_challans_def lines_of_so_def fun_eq_iff)
  then show ?thesis using assms by (auto simp: sales_ok_def sale_ids_ok_def)
qed

lemma sum_map2:
  "length xs = length ys \<Longrightarrow> (\<Sum>l\<leftarrow>map2 (new_invoice_line v) xs ys. il_gst l) = sum_list ys"
  "length xs = length ys \<Longrightarrow> (\<Sum>l\<leftarrow>map2 (new_invoice_line v) xs ys. il_amount l) = (\<Sum>x\<leftarrow>xs. dl_amount x)"
  by (induction xs ys rule: list_induct2) (simp_all add: new_invoice_line_def)

lemma new_invoice_line_invoice: "l \<in> set (map2 (new_invoice_line v) xs ys) \<Longrightarrow> il_invoice l = inv_id v"
  by (auto simp: new_invoice_line_def dest!: set_zip_leftD)

text \<open>The lines of the new draft, and only they, are under its id.\<close>

lemma new_draft_lines:
  assumes "bill_ids_ok s" and "inv_id v \<notin> sale_ids (sale_desk s)" and "invoice_lines s' = invoice_lines s @ map2 (new_invoice_line v) ls gs"
  shows "lines_of_invoice (inv_id v) s' = map2 (new_invoice_line v) ls gs"
    and "i \<noteq> inv_id v \<Longrightarrow> lines_of_invoice i s' = lines_of_invoice i s"
proof -
  have "il_invoice l \<noteq> inv_id v" if "l \<in> set (invoice_lines s)" for l using assms(1,2) that by (force simp: bill_ids_ok_def)
  then have "filter (\<lambda>l. il_invoice l = inv_id v) (invoice_lines s) = []" by (simp add: filter_empty_conv)
  moreover have "filter (\<lambda>l. il_invoice l = inv_id v) (map2 (new_invoice_line v) ls gs) = map2 (new_invoice_line v) ls gs"
    using new_invoice_line_invoice by (intro filter_True ballI) blast
  moreover have "filter (\<lambda>l. il_invoice l = i) (map2 (new_invoice_line v) ls gs) = []" if "i \<noteq> inv_id v"
    using new_invoice_line_invoice that unfolding filter_empty_conv by blast
  ultimately show "lines_of_invoice (inv_id v) s' = map2 (new_invoice_line v) ls gs"
    "i \<noteq> inv_id v \<Longrightarrow> lines_of_invoice i s' = lines_of_invoice i s"
    by (simp_all add: lines_of_invoice_def assms(3))
qed

lemma create_draft_ok:
  assumes "create_draft_invoice org firm party d rs series ship dc s = Inr (s', v)" and ok: "billing_ok s"
  shows "billing_ok s' \<and> inv_id v \<notin> sale_ids (sale_desk s)"
proof -
  let ?k = "(sale_desk s)\<lparr>sale_count := Suc (sale_count (sale_desk s))\<rparr>"
  obtain p f pos ls gs n where link: "\<forall>c. dc = Some c \<longrightarrow> (\<exists>x. validate_link_for_create org firm party c rs s = Inr x)"
    and price: "price_draft f p ship d rs = Inr (pos, ls, gs)"
    and free: "\<forall>c. dc = Some c \<longrightarrow> (\<forall>w \<in> set (invoices s). \<not> bills c w)"
    and v: "inv_head v = (inv_head (new_invoice org firm party d series n dc pos (stored_pos_state pos p ship)
        (subtotal_of ls + sum_list gs) (sum_list gs)))\<lparr>sales_invoice_id := sale_supply (sale_desk s) (sale_count (sale_desk s))\<rparr>"
      "inv_dc v = dc" "inv_deleted v = False"
    and s': "s' = s\<lparr>sale_desk := ?k, invoices := invoices s @ [v], invoice_lines := invoice_lines s @ map2 (new_invoice_line v) ls gs\<rparr>"
    by (rule create_draft_cases [OF assms(1)])
  let ?t = "s\<lparr>sale_desk := ?k\<rparr>"
  have sales: "sales_ok (sale_desk s)" using ok by (simp add: billing_ok_def)
  have "desk_grows (sale_desk s) ?k" by (simp add: desk_grows_def)
  from desk_ok [OF ok sales_ok_mint [OF sales] this] have t: "billing_ok ?t" .
  have id: "inv_id v = sale_supply (sale_desk s) (sale_count (sale_desk s))" by (simp add: v)
  have "inv_id v \<notin> sale_ids (sale_desk s)" unfolding id using sales by (intro sale_mint_fresh) (simp add: sales_ok_def)
  then have fresh: "inv_id v \<notin> sale_ids (sale_desk s)" "inv_id v \<notin> inv_id ` set (invoices s)"
    using ok by (auto simp: billing_ok_def bill_ids_ok_def)
  have len: "length ls = length gs" using price_draft_Inr(2) [OF price] by (auto simp: mapE_Inr dest: list_all2_lengthD)
  have lines: "invoice_lines s' = invoice_lines s @ map2 (new_invoice_line v) ls gs" by (simp add: s')
  have bi: "bill_ids_ok s" using ok by (simp add: billing_ok_def)
  note nl = new_draft_lines [OF bi fresh(1) lines]
  have "bill_ids_ok s'"
  proof -
    have "il_invoice ` set (map2 (new_invoice_line v) ls gs) \<subseteq> {inv_id v}" using new_invoice_line_invoice by blast
    then show ?thesis using t fresh(2) id unfolding billing_ok_def bill_ids_ok_def s' by auto
  qed
  moreover have "invoice_ok w s'" if w: "w \<in> set (invoices s)" for w
  proof -
    have "inv_id w \<noteq> inv_id v" using fresh(2) w by (metis imageI)
    then show ?thesis
      using t w nl(2) by (simp add: billing_ok_def invoice_ok_def amounts_ok_def line_total_def)
        (simp add: s' lines_of_invoice_def)
  qed
  moreover have "invoice_ok v s'"
  proof -
    have "refs (inv_id v) (sale_books s) = []"
    proof -
      have sup: "range (sale_supply (sale_desk s)) \<inter> range (voucher_supply (sale_books s)) = {}"
        and r: "refs_ok (sale_ids (sale_desk s)) (sale_books s)" and gl: "gl_ok (sale_books s)"
        using ok by (simp_all add: billing_ok_def bill_ids_ok_def)
      have "inv_id v \<in> range (sale_supply (sale_desk s))" by (simp add: id)
      with sup voucher_id_range [OF gl] have "inv_id v \<notin> voucher_id ` set (vouchers (sale_books s))" by blast
      with refs_unknown [OF r fresh(1)] show ?thesis .
    qed
    then have "ledger_agrees (inv_head v) (sale_books s')" by (simp add: ledger_agrees_def v s' new_invoice_def)
    moreover have "amounts_ok v s'"
      using sum_map2 [OF len] nl(1) by (simp add: amounts_ok_def line_total_def v new_invoice_def subtotal_of_def)
    moreover have "challan_ok v (sale_desk s')"
    proof -
      have "\<exists>d \<in> set (challans (sale_desk s)). delivery_challan_id d = c \<and> dc_org d = org \<and> dc_firm d = firm \<and> dc_party d = party \<and>
          dc_status d \<in> {ISSUED, ACKNOWLEDGED}" if "dc = Some c" for c
      proof -
        from link that obtain x where "validate_link_for_create org firm party c rs s = Inr x" by blast
        then have "require_dc org firm party c None s = Inr x" by (auto simp: validate_link_for_create_def bindE_Inr_iff)
        from require_dc_Inr [OF this] show ?thesis by blast
      qed
      then show ?thesis by (auto simp: challan_ok_def bills_def v new_invoice_def s')
    qed
    ultimately show ?thesis using v(3) by (simp add: invoice_ok_def)
  qed
  moreover have "u = w" if "u \<in> set (invoices s')" "w \<in> set (invoices s')" "bills c u" "bills c w" for u w c
  proof -
    have "dc = Some c" if "bills c v" using that v(2) by (simp add: bills_def)
    then show ?thesis using that free ok by (auto simp: s' billing_ok_def)
  qed
  moreover have "sales_ok (sale_desk s')" "gl_ok (sale_books s')" "refs_ok (sale_ids (sale_desk s')) (sale_books s')"
    using t by (simp_all add: billing_ok_def s')
  ultimately show ?thesis using fresh(1) by (auto simp: billing_ok_def s')
qed

section \<open>Calls\<close>

text \<open>The calls of the sales desk and of the invoice API. The body of an invoice is validated before the
  service runs.\<close>

datatype bill_call =
    Desk sales_call
  | CreateInvoice uuid uuid uuid date "inv_request list" string "string option" "uuid option"
  | FinalizeInvoice clock uuid uuid
  | DiscardInvoice uuid uuid
  | CancelInvoice clock uuid uuid string

definition invoice_body :: "inv_request list \<Rightarrow> error + unit" where
  "invoice_body rs =
     guardE (rs \<noteq> [] \<and> (\<forall>r \<in> set rs. 0 < vq_qty r \<and> vq_qty r \<le> 1000000000 \<and> 0 \<le> vq_price r \<and> vq_price r \<le> 1000000000 \<and>
                              is_valid_gst_rate (vq_rate r)))
       (ValueError ''Input should be greater than 0'')"

fun bill_step :: "bill_call \<Rightarrow> billing \<Rightarrow> error + billing" where
  "bill_step (Desk c) s = bindE (sales_step c (sale_desk s)) (\<lambda>k. Inr (s\<lparr>sale_desk := k\<rparr>))"
| "bill_step (CreateInvoice org firm party d rs series ship dc) s =
     bindE (invoice_body rs) (\<lambda>_. bindE (create_draft_invoice org firm party d rs series ship dc s) (\<lambda>(s', _). Inr s'))"
| "bill_step (FinalizeInvoice now org i) s = finalize_invoice now org i s"
| "bill_step (DiscardInvoice org i) s = discard_invoice org i s"
| "bill_step (CancelInvoice now org i reason) s = cancel_invoice now org i reason s"

lemma bill_step_ok: "bill_step c s = Inr s' \<Longrightarrow> billing_ok s \<Longrightarrow> billing_ok s'"
proof (induction c s rule: bill_step.induct)
  case (1 c s)
  then obtain k where k: "sales_step c (sale_desk s) = Inr k" and s': "s' = s\<lparr>sale_desk := k\<rparr>" by auto
  have "sales_ok (sale_desk s)" using 1(2) by (simp add: billing_ok_def)
  then show ?case unfolding s' using desk_ok [OF 1(2)] sales_step_ok [OF k] sales_step_desk [OF k] by blast
next
  case (2 org firm party d rs series ship dc s)
  then obtain v where "create_draft_invoice org firm party d rs series ship dc s = Inr (s', v)" by auto
  with create_draft_ok 2(2) show ?case by blast
qed (auto intro: finalize_invoice_ok discard_invoice_ok cancel_invoice_ok)

interpretation bill: transactional bill_step billing_ok
  by unfold_locales (rule bill_step_ok)

end
