(* ===== verification/Settlement.thy ===== *)
theory Settlement
  imports Accounting
begin

text \<open>
  What receipts and payments share: the ledger account a settlement moves
  (\<^verbatim>\<open>banking_service.resolve_settlement_ledger\<close>), the rows that allocate a voucher to invoices, and
  the first-in first-out loop both services write out. The loop is a function of the amount due on
  a row, so that it serves sales invoices and purchase invoices.
\<close>

section \<open>Where the money goes\<close>

record bank_account =
  bank_account_id :: uuid
  ba_org :: uuid
  ba_firm :: uuid
  ba_ledger :: uuid
  ba_deleted :: bool

definition CASH_LEDGER_CODE :: string where "CASH_LEDGER_CODE = ''1000''"
definition BANK_CONTROL_LEDGER_CODE :: string where "BANK_CONTROL_LEDGER_CODE = ''1100''"

definition settlement_account :: "uuid \<Rightarrow> uuid \<Rightarrow> uuid \<Rightarrow> bank_account list \<Rightarrow> books \<Rightarrow> error + ledger_account" where
  "settlement_account org firm bank bas b =
     bindE (scalar_one_or_none (filter (\<lambda>x. bank_account_id x = bank \<and> ba_org x = org \<and> ba_firm x = firm \<and> \<not> ba_deleted x) bas))
       (\<lambda>x. case x of None \<Rightarrow> Inl (AppValidationError ''BankAccount not found in this firm.'')
        | Some acc \<Rightarrow>
     bindE (scalar_one_or_none (filter (\<lambda>l. ledger_id l = ba_ledger acc \<and> ledger_org l = org \<and> \<not> ledger_deleted l) (ledger_accounts b)))
       (\<lambda>x. case x of None \<Rightarrow> Inl (AppValidationError ''Bank sub-ledger is not in this org'')
        | Some l \<Rightarrow> if is_control_account l = Some True then Inl (AppValidationError ''BankAccount is linked to a control ledger'')
                    else Inr l))"

definition resolve_settlement_ledger ::
  "uuid \<Rightarrow> uuid \<Rightarrow> string \<Rightarrow> uuid option \<Rightarrow> bank_account list \<Rightarrow> books \<Rightarrow> error + ledger_account" where
  "resolve_settlement_ledger org firm mode bank bas b =
     (if mode = ''CASH''
      then if bank \<noteq> None then Inl (AppValidationError ''CASH mode must not carry a bank_account_id'')
           else resolve_ledger org CASH_LEDGER_CODE b
      else if mode \<noteq> ''BANK'' \<and> mode \<noteq> ''UPI'' then Inl (AppValidationError ''Unknown settlement mode'')
      else case bank of
          Some x \<Rightarrow> settlement_account org firm x bas b
        | None \<Rightarrow> if filter (\<lambda>x. ba_org x = org \<and> ba_firm x = firm \<and> \<not> ba_deleted x) bas \<noteq> []
                  then Inl (AppValidationError ''mode requires bank_account_id'')
                  else resolve_ledger org BANK_CONTROL_LEDGER_CODE b)"

record payment_allocation =
  pa_org :: uuid
  pa_firm :: uuid
  pa_voucher :: uuid
  pa_sales :: "uuid option"
  pa_purchase :: "uuid option"
  pa_amount :: decimal

section \<open>First in, first out\<close>

text \<open>The rows that get a share, with it, and what remains. The loop stops when nothing remains and skips
  rows with nothing due.\<close>

fun allocate_fifo :: "('r \<Rightarrow> decimal) \<Rightarrow> decimal \<Rightarrow> 'r list \<Rightarrow> ('r \<times> decimal) list \<times> decimal" where
  "allocate_fifo due remaining [] = ([], remaining)"
| "allocate_fifo due remaining (r # rs) =
     (if remaining \<le> 0 then ([], remaining)
      else if due r \<le> 0 then allocate_fifo due remaining rs
      else case allocate_fifo due (remaining - min remaining (due r)) rs of
             (xs, rest) \<Rightarrow> ((r, min remaining (due r)) # xs, rest))"

text \<open>What is due on a list of rows, and what the row behind a list of older ones gets.\<close>

definition due_on :: "('r \<Rightarrow> decimal) \<Rightarrow> 'r list \<Rightarrow> decimal" where
  "due_on due rs = (\<Sum>r\<leftarrow>rs. max 0 (due r))"

definition share :: "decimal \<Rightarrow> decimal \<Rightarrow> decimal \<Rightarrow> decimal" where
  "share m older own = max 0 (min own (m - older))"

lemma due_on_simps [simp]: "due_on due [] = 0" "due_on due (r # rs) = max 0 (due r) + due_on due rs"
  "due_on due (rs @ qs) = due_on due rs + due_on due qs"
  by (simp_all add: due_on_def)

lemma due_on_nonneg: "0 \<le> due_on due rs"
  by (induction rs) simp_all

lemma allocate_fifo_rest: "0 \<le> m \<Longrightarrow> allocate_fifo due m rs = (xs, rest) \<Longrightarrow> rest = max 0 (m - due_on due rs)"
proof (induction rs arbitrary: m xs)
  case (Cons r rs)
  show ?case
  proof (cases "m \<le> 0")
    case True
    with Cons.prems have "m = 0" "rest = 0" by auto
    with due_on_nonneg [of due "r # rs"] show ?thesis by (simp del: due_on_simps)
  next
    case pos: False
    show ?thesis
    proof (cases "due r \<le> 0")
      case True
      with pos Cons.prems Cons.IH [of m xs] show ?thesis by simp
    next
      case False
      with pos Cons.prems(2) obtain ys where "allocate_fifo due (m - min m (due r)) rs = (ys, rest)" by (auto split: prod.splits)
    with False Cons.IH [of "m - min m (due r)" ys] due_on_nonneg [of due rs] show ?thesis by (auto simp: max_def min_def)
    qed
  qed
qed simp

lemma allocate_fifo_sum: "allocate_fifo due m rs = (xs, rest) \<Longrightarrow> (\<Sum>x\<leftarrow>xs. snd x) + rest = m"
  by (induction due m rs arbitrary: xs rest rule: allocate_fifo.induct) (force split: if_splits prod.splits)+

text \<open>Each row gets what is due on it, as far as the amount goes after the rows before it.\<close>

lemma allocate_fifo_shares:
  "0 \<le> m \<Longrightarrow> allocate_fifo due m rs = (xs, rest) \<Longrightarrow>
   xs = filter (\<lambda>x. 0 < snd x) (map (\<lambda>i. (rs ! i, share m (due_on due (take i rs)) (due (rs ! i)))) [0..<length rs])"
proof (induction rs arbitrary: m xs)
  case (Cons r rs)
  have idx: "[0..<length (r # rs)] = 0 # map Suc [0..<length rs]" by (simp add: upt_conv_Cons map_Suc_upt del: upt_Suc)
  show ?case
  proof (cases "m \<le> 0")
    case True
    with Cons.prems have m: "m = 0" "xs = []" by auto
    have "share 0 (due_on due ts) d = 0" for ts d using due_on_nonneg [of due ts] by (auto simp: share_def max_def min_def)
    then show ?thesis by (simp add: m filter_empty_conv)
  next
    case False
    define a where "a = max 0 (min m (due r))"
    from Cons.prems(2) False obtain ys where ys: "allocate_fifo due (m - a) rs = (ys, rest)"
      and xs: "xs = (if 0 < a then (r, a) # ys else ys)"
      by (auto simp: a_def max_def min_def split: if_splits prod.splits)
    have a: "0 \<le> m - a" "share m 0 (due r) = a" using False by (auto simp: a_def share_def)
    have "share m (max 0 (due r) + due_on due (take i rs)) (due (rs ! i)) = share (m - a) (due_on due (take i rs)) (due (rs ! i))" for i
      using due_on_nonneg [of due "take i rs"] by (auto simp: share_def a_def max_def min_def)
    then show ?thesis unfolding idx using Cons.IH [OF a(1) ys] xs a(2) by (simp add: o_def)
  qed
qed simp

lemma map_fst_shares:
  "map fst (filter Q (map (\<lambda>i. (rs ! i, f i)) is)) = map (\<lambda>i. rs ! i) (filter (\<lambda>i. Q (rs ! i, f i)) is)"
  by (simp add: filter_map o_def)

lemma allocate_fifo_mem:
  assumes "0 \<le> m" and "allocate_fifo due m rs = (xs, rest)" and "(r, a) \<in> set xs"
  shows "r \<in> set rs" and "0 < a" and "a \<le> due r"
  using assms(3) unfolding allocate_fifo_shares [OF assms(1,2)] by (auto simp: share_def)

lemma allocate_fifo_distinct:
  assumes "0 \<le> m" and "allocate_fifo due m rs = (xs, rest)" and "distinct (map f rs)"
  shows "distinct (map (\<lambda>x. f (fst x)) xs)"
proof -
  have "map (\<lambda>x. f (fst x)) xs = map (\<lambda>i. map f rs ! i)
      (filter (\<lambda>i. 0 < share m (due_on due (take i rs)) (due (rs ! i))) [0..<length rs])"
    unfolding allocate_fifo_shares [OF assms(1,2)] by (simp add: filter_map o_def)
  moreover have "inj_on (\<lambda>i. map f rs ! i) {0..<length rs}"
    using assms(3) by (intro inj_onI) (metis atLeastLessThan_iff length_map nth_eq_iff_index_eq)
  ultimately show ?thesis by (auto simp: distinct_map intro: inj_on_subset)
qed

end
