(* ===== verification/Receipts.thy ===== *)
theory Receipts
  imports SalesInvoiceProps Settlement "HOL-Library.Char_ord" "HOL-Library.List_Lexorder"
begin

text \<open>
  Customer receipts, \<^verbatim>\<open>app/service/receipt_service.py\<close>: a receipt is a voucher; it is allocated to
  the open invoices of the customer, oldest first, and what is left is booked as an advance. The
  state is the invoices with the bank accounts and the allocation rows. The listings, the audit log
  and the display words of a narration are left out.
\<close>

section \<open>State and lookups\<close>

record till =
  till_billing :: billing
  bank_accounts :: "bank_account list"
  allocations :: "payment_allocation list"

definition ADVANCES_LEDGER_CODE :: string where "ADVANCES_LEDGER_CODE = ''2500''"

definition OPEN_AR_LIFECYCLES :: "LifecycleStatus list" where
  "OPEN_AR_LIFECYCLES = [FINALIZED, LC_POSTED, PARTIALLY_PAID, OVERDUE]"

definition RECEIPT_MODES :: "string list" where
  "RECEIPT_MODES = [''CASH'', ''BANK'', ''UPI'']"

definition payer_in_org :: "uuid \<Rightarrow> uuid \<Rightarrow> sales \<Rightarrow> error + customer_row" where
  "payer_in_org org party k =
     bindE (scalar_one_or_none (filter (\<lambda>p. cust_id p = party \<and> cust_org p = org \<and> \<not> cust_deleted p) (customers k)))
       (\<lambda>r. case r of None \<Rightarrow> Inl (AppValidationError ''Party not found in org'') | Some p \<Rightarrow> Inr p)"

definition open_invoice :: "uuid \<Rightarrow> uuid \<Rightarrow> uuid \<Rightarrow> invoice_row \<Rightarrow> bool" where
  "open_invoice org firm party v \<longleftrightarrow>
     si_org (inv_head v) = org \<and> si_firm (inv_head v) = firm \<and> si_party (inv_head v) = party \<and> \<not> inv_deleted v \<and>
     lifecycle v \<in> set OPEN_AR_LIFECYCLES \<and>
     (case si_invoice_amount (inv_head v) of None \<Rightarrow> False | Some x \<Rightarrow> x > inv_paid v)"

definition open_invoices_fifo :: "uuid \<Rightarrow> uuid \<Rightarrow> uuid \<Rightarrow> billing \<Rightarrow> invoice_row list" where
  "open_invoices_fifo org firm party s =
     sort_key (\<lambda>v. (invoice_date (inv_head v), si_number (inv_head v))) (filter (open_invoice org firm party) (invoices s))"

definition outstanding :: "invoice_row \<Rightarrow> decimal" where
  "outstanding v = or_zero (si_invoice_amount (inv_head v)) - inv_paid v"

section \<open>Posting a receipt\<close>

definition received :: "decimal \<Rightarrow> invoice_row \<Rightarrow> invoice_row" where
  "received a v = with_lifecycle (if inv_paid v + a \<ge> or_zero (si_invoice_amount (inv_head v)) then PAID else PARTIALLY_PAID)
     (v\<lparr>inv_paid := inv_paid v + a\<rparr>)"

definition allocation_row :: "uuid \<Rightarrow> uuid \<Rightarrow> voucher \<Rightarrow> invoice_row \<times> decimal \<Rightarrow> payment_allocation" where
  "allocation_row org firm w x =
     \<lparr>pa_org = org, pa_firm = firm, pa_voucher = voucher_id w, pa_sales = Some (inv_id (fst x)), pa_purchase = None,
      pa_amount = snd x\<rparr>"

fun receive_row :: "invoice_row \<times> decimal \<Rightarrow> billing \<Rightarrow> billing" where
  "receive_row (v, a) s = put_invoice (received a v) s"

text \<open>From the FIFO loop to the end: the rows, then the legs, then the check of the balance. The
  assertions between the two never fire, by \<open>allocate_fifo_rest\<close> and \<open>allocate_fifo_sum\<close>.\<close>

fun close_receipt ::
  "uuid \<Rightarrow> uuid \<Rightarrow> decimal \<Rightarrow> ledger_account \<Rightarrow> (invoice_row \<times> decimal) list \<times> decimal \<Rightarrow> till \<Rightarrow> books \<times> voucher
   \<Rightarrow> error + till \<times> voucher" where
  "close_receipt org firm amt cash (xs, rest) s (b, w) =
     bindE (optional_ledger (amt - rest > 0) org AR_LEDGER_CODE b) (\<lambda>ar.
     bindE (optional_ledger (rest > 0) org ADVANCES_LEDGER_CODE b) (\<lambda>advances.
     bindE (post_lines w ([(ledger_id cash, DR, amt)] @ leg_if ar CR (amt - rest) @ leg_if advances CR rest) b) (\<lambda>(b', w').
       Inr (s\<lparr>till_billing := (fold receive_row xs (till_billing s))\<lparr>sale_books := b'\<rparr>,
             allocations := allocations s @ map (allocation_row org firm w) xs\<rparr>, w'))))"

definition receipt_header :: "clock \<Rightarrow> uuid \<Rightarrow> uuid \<Rightarrow> uuid \<Rightarrow> decimal \<Rightarrow> date \<Rightarrow> string \<Rightarrow> books \<Rightarrow> error + books \<times> voucher" where
  "receipt_header now org firm party amt d series b =
     bindE (allocate_voucher_number org firm RECEIPT series b) (\<lambda>n.
       insert_voucher (new_voucher org firm RECEIPT series n d ''receipt'' None (Some ''Receipt from '') (Some party) amt amt now) b)"

definition post_receipt ::
  "clock \<Rightarrow> uuid \<Rightarrow> uuid \<Rightarrow> uuid \<Rightarrow> decimal \<Rightarrow> date \<Rightarrow> string \<Rightarrow> uuid option \<Rightarrow> string \<Rightarrow> till \<Rightarrow> error + till \<times> voucher" where
  "post_receipt now org firm party amt d mode bank series s =
     bindE (guardE (amt > 0) (AppValidationError ''Receipt amount must be positive'')) (\<lambda>_.
     bindE (ensure_money_in_range amt) (\<lambda>_.
     bindE (guardE (mode \<in> set RECEIPT_MODES) (AppValidationError ''Unknown receipt mode'')) (\<lambda>_.
     bindE (payer_in_org org party (sale_desk (till_billing s))) (\<lambda>_.
     bindE (resolve_settlement_ledger org firm mode bank (bank_accounts s) (sale_books (till_billing s))) (\<lambda>cash.
     bindE (receipt_header now org firm party amt d series (sale_books (till_billing s)))
       (close_receipt org firm amt cash (allocate_fifo outstanding amt (open_invoices_fifo org firm party (till_billing s))) s))))))"

section \<open>What a receipt does\<close>

lemma received_fields [simp]:
  "inv_id (received a v) = inv_id v" "inv_paid (received a v) = inv_paid v + a" "inv_dc (received a v) = inv_dc v"
  "inv_deleted (received a v) = inv_deleted v" "lifecycle (received a v) \<in> {PARTIALLY_PAID, PAID}"
  "si_invoice_amount (inv_head (received a v)) = si_invoice_amount (inv_head v)"
  "si_org (inv_head (received a v)) = si_org (inv_head v)"
  by (simp_all add: received_def)

lemma open_invoices_set: "set (open_invoices_fifo org firm party s) = {v \<in> set (invoices s). open_invoice org firm party v}"
  by (auto simp: open_invoices_fifo_def)

lemma open_invoices_distinct:
  assumes "distinct (map inv_id (invoices s))"
  shows "distinct (map inv_id (open_invoices_fifo org firm party s))"
  using assms by (auto simp: open_invoices_fifo_def distinct_map intro: inj_on_subset)

text \<open>A row of the loop, looked up by its id.\<close>

definition receipt_of :: "(invoice_row \<times> decimal) list \<Rightarrow> invoice_row \<Rightarrow> invoice_row" where
  "receipt_of xs v = (case map_of (map (\<lambda>x. (inv_id (fst x), snd x)) xs) (inv_id v) of None \<Rightarrow> v | Some a \<Rightarrow> received a v)"

lemma receive_rows:
  assumes "distinct (map (\<lambda>x. inv_id (fst x)) xs)" and "fst ` set xs \<subseteq> set (invoices s)" and "distinct (map inv_id (invoices s))"
  shows "fold receive_row xs s = s\<lparr>invoices := map (receipt_of xs) (invoices s)\<rparr>"
  using assms
proof (induction xs arbitrary: s)
  case Nil
  then show ?case by (simp add: receipt_of_def)
next
  case (Cons x xs)
  obtain v a where x: "x = (v, a)" by (cases x)
  let ?t = "put_invoice (received a v) s"
  have v: "v \<in> set (invoices s)" using Cons.prems(2) x by auto
  have row: "w = v" if "w \<in> set (invoices s)" "inv_id w = inv_id v" for w
    using that v Cons.prems(3) by (auto simp: distinct_map dest: inj_onD)
  have rows: "invoices ?t = map (\<lambda>w. if inv_id w = inv_id v then received a v else w) (invoices s)"
    by (simp add: put_invoice_def update_where_def)
  have ids: "map inv_id (invoices ?t) = map inv_id (invoices s)" by (simp add: rows)
  have "fst ` set xs \<subseteq> set (invoices ?t)"
  proof
    fix u assume u: "u \<in> fst ` set xs"
    then have "inv_id u \<in> (\<lambda>x. inv_id (fst x)) ` set xs" by force
    moreover from Cons.prems(1) x have "inv_id v \<notin> (\<lambda>x. inv_id (fst x)) ` set xs" by simp
    ultimately have "inv_id u \<noteq> inv_id v" by metis
    moreover have "u \<in> set (invoices s)" using Cons.prems(2) u by auto
    ultimately show "u \<in> set (invoices ?t)" unfolding rows by force
  qed
  then have "fold receive_row xs ?t = ?t\<lparr>invoices := map (receipt_of xs) (invoices ?t)\<rparr>"
    using Cons.prems(1,3) by (intro Cons.IH) (simp_all add: ids del: put_invoice_frame)
  moreover have "map (receipt_of xs) (invoices ?t) = map (receipt_of (x # xs)) (invoices s)"
  proof -
    have "map_of (map (\<lambda>x. (inv_id (fst x), snd x)) xs) (inv_id v) = None"
      using Cons.prems(1) x by (force simp: map_of_eq_None_iff)
    then show ?thesis unfolding rows using row by (auto simp: receipt_of_def x)
  qed
  ultimately show ?case by (simp add: x put_invoice_def)
qed

lemma resolved_org: "resolve_settlement_ledger org firm mode bank bas b = Inr l \<Longrightarrow> l \<in> set (ledger_accounts b)"
  by (auto simp: resolve_settlement_ledger_def settlement_account_def bindE_Inr_iff dest: resolve_ledger_Inr
      dest!: scalar_one_or_none_mem split: if_splits option.splits)

text \<open>A receipt that returns: its shares, its rows, and one balanced voucher.\<close>

lemma post_receipt_cases:
  assumes "post_receipt now org firm party amt d mode bank series s = Inr (s', w)" and ok: "distinct (map inv_id (invoices (till_billing s)))"
  obtains cash xs rest ar advances b legs where "amt > 0"
    and "resolve_settlement_ledger org firm mode bank (bank_accounts s) (sale_books (till_billing s)) = Inr cash"
    and "allocate_fifo outstanding amt (open_invoices_fifo org firm party (till_billing s)) = (xs, rest)"
    and "optional_ledger (amt - rest > 0) org AR_LEDGER_CODE (sale_books (till_billing s)) = Inr ar"
    and "optional_ledger (rest > 0) org ADVANCES_LEDGER_CODE (sale_books (till_billing s)) = Inr advances"
    and "legs = [(ledger_id cash, DR, amt)] @ leg_if ar CR (amt - rest) @ leg_if advances CR rest"
    and "posts_balanced (sale_books (till_billing s)) b w legs"
    and "v_reference_id w = None" and "\<not> v_deleted w" and "voucher_type w = RECEIPT" and "v_org w = org"
    and "s' = s\<lparr>till_billing := (till_billing s)\<lparr>sale_books := b, invoices := map (receipt_of xs) (invoices (till_billing s))\<rparr>,
          allocations := allocations s @ map (allocation_row org firm w) xs\<rparr>"
proof -
  let ?b = "sale_books (till_billing s)"
  obtain xs rest where f: "allocate_fifo outstanding amt (open_invoices_fifo org firm party (till_billing s)) = (xs, rest)"
    by (cases "allocate_fifo outstanding amt (open_invoices_fifo org firm party (till_billing s))")
  from assms(1) obtain cash b1 w1 where pos: "amt > 0"
    and cash: "resolve_settlement_ledger org firm mode bank (bank_accounts s) ?b = Inr cash"
    and hd: "receipt_header now org firm party amt d series ?b = Inr (b1, w1)"
    and cl: "close_receipt org firm amt cash (xs, rest) s (b1, w1) = Inr (s', w)"
    by (auto simp: post_receipt_def f bindE_Inr_iff)
  obtain n where ins: "insert_voucher (new_voucher org firm RECEIPT series n d ''receipt'' None (Some ''Receipt from '') (Some party) amt amt now) ?b
      = Inr (b1, w1)" using hd by (auto simp: receipt_header_def bindE_Inr_iff)
  note i = insert_voucher_Inr [OF ins]
  have led: "optional_ledger c org code b1 = optional_ledger c org code ?b" for c code
    by (simp add: optional_ledger_def resolve_ledger_def i(2))
  from cl obtain ar advances b where ar: "optional_ledger (amt - rest > 0) org AR_LEDGER_CODE ?b = Inr ar"
    and adv: "optional_ledger (rest > 0) org ADVANCES_LEDGER_CODE ?b = Inr advances"
    and pl: "post_lines w1 ([(ledger_id cash, DR, amt)] @ leg_if ar CR (amt - rest) @ leg_if advances CR rest) b1 = Inr (b, w)"
    and s': "s' = s\<lparr>till_billing := (fold receive_row xs (till_billing s))\<lparr>sale_books := b\<rparr>,
             allocations := allocations s @ map (allocation_row org firm w1) xs\<rparr>"
    by (auto simp: bindE_Inr_iff led)
  let ?legs = "[(ledger_id cash, DR, amt)] @ leg_if ar CR (amt - rest) @ leg_if advances CR rest"
  have w: "w = w1" using pl by (simp add: post_lines_Inr)
  have pv: "post_voucher None (new_voucher org firm RECEIPT series n d ''receipt'' None (Some ''Receipt from '') (Some party) amt amt now) ?legs ?b
      = Inr (b, w)" using ins pl by (simp add: post_voucher_def)
  note p = post_voucher_Inr [OF pv]
  have nonneg: "0 \<le> amt" using pos by simp
  have rest: "rest = max 0 (amt - due_on outstanding (open_invoices_fifo org firm party (till_billing s)))"
    by (rule allocate_fifo_rest [OF nonneg f])
  have le: "0 \<le> rest" "rest \<le> amt" using rest pos due_on_nonneg [of outstanding] by (auto simp: max_def)
  have "leg_credits (leg_if ar CR (amt - rest)) = amt - rest" "leg_debits (leg_if ar CR (amt - rest)) = 0"
    using ar le by (auto simp: optional_ledger_def leg_if_def bindE_Inr_iff split: if_splits option.splits)
  moreover have "leg_credits (leg_if advances CR rest) = rest" "leg_debits (leg_if advances CR rest) = 0"
    using adv le by (auto simp: optional_ledger_def leg_if_def bindE_Inr_iff split: if_splits option.splits)
  ultimately have pb: "posts_balanced ?b b w ?legs" using p(1,2) by (simp add: posts_balanced_def)
  have "distinct (map (\<lambda>x. inv_id (fst x)) xs)" by (rule allocate_fifo_distinct [OF nonneg f open_invoices_distinct [OF ok]])
  moreover have "fst ` set xs \<subseteq> set (invoices (till_billing s))"
    using allocate_fifo_mem(1) [OF nonneg f] by (force simp: open_invoices_set)
  ultimately have rows: "fold receive_row xs (till_billing s) = (till_billing s)\<lparr>invoices := map (receipt_of xs) (invoices (till_billing s))\<rparr>"
    using ok by (rule receive_rows)
  show thesis
    by (rule that [OF pos cash f ar adv refl pb]) (use p(2) in \<open>simp_all add: s' rows w\<close>)
qed

text \<open>The rows one by one.\<close>

lemma receipt_of_cases:
  assumes "distinct (map (\<lambda>x. inv_id (fst x)) xs)" and "\<forall>x \<in> set xs. \<forall>u \<in> S. inv_id u = inv_id (fst x) \<longrightarrow> u = fst x" and "v \<in> S"
  shows "(v, a) \<in> set xs \<Longrightarrow> receipt_of xs v = received a v" and "v \<notin> fst ` set xs \<Longrightarrow> receipt_of xs v = v"
proof -
  have d: "distinct (map fst (map (\<lambda>x. (inv_id (fst x), snd x)) xs))" using assms(1) by (simp add: o_def)
  show "receipt_of xs v = received a v" if "(v, a) \<in> set xs"
  proof -
    have "(inv_id v, a) \<in> set (map (\<lambda>x. (inv_id (fst x), snd x)) xs)" using that by force
    with d have "map_of (map (\<lambda>x. (inv_id (fst x), snd x)) xs) (inv_id v) = Some a" by (rule map_of_is_SomeI)
    then show ?thesis by (simp add: receipt_of_def)
  qed
  show "receipt_of xs v = v" if "v \<notin> fst ` set xs"
  proof -
    have "map_of (map (\<lambda>x. (inv_id (fst x), snd x)) xs) (inv_id v) = None"
      using that assms(2,3) by (force simp: map_of_eq_None_iff)
    then show ?thesis by (simp add: receipt_of_def)
  qed
qed

lemma receipt_of_id [simp]: "inv_id (receipt_of xs v) = inv_id v" "inv_dc (receipt_of xs v) = inv_dc v"
  "si_invoice_amount (inv_head (receipt_of xs v)) = si_invoice_amount (inv_head v)" "si_org (inv_head (receipt_of xs v)) = si_org (inv_head v)"
  by (simp_all add: receipt_of_def split: option.split)

section \<open>The invariant\<close>

text \<open>What an invoice has been paid and what that says of its state.\<close>

definition allocated_to :: "uuid \<Rightarrow> till \<Rightarrow> decimal" where
  "allocated_to i s = (\<Sum>x\<leftarrow>filter (\<lambda>x. pa_sales x = Some i) (allocations s). pa_amount x)"

definition paid_state :: "invoice_row \<Rightarrow> bool" where
  "paid_state v \<longleftrightarrow>
     (if lifecycle v = PAID then 0 < inv_paid v \<and> inv_paid v = or_zero (si_invoice_amount (inv_head v))
      else if lifecycle v = PARTIALLY_PAID then 0 < inv_paid v \<and> inv_paid v < or_zero (si_invoice_amount (inv_head v))
      else inv_paid v = 0)"

definition till_ok :: "till \<Rightarrow> bool" where
  "till_ok s \<longleftrightarrow> billing_ok (till_billing s) \<and>
     (\<forall>v \<in> set (invoices (till_billing s)). paid_state v \<and> inv_paid v = allocated_to (inv_id v) s) \<and>
     (\<forall>x \<in> set (allocations s). 0 < pa_amount x \<and> pa_sales x \<in> Some ` inv_id ` set (invoices (till_billing s)))"

lemma books_grow_ok:
  assumes ok: "billing_ok s" and g: "grows {} (sale_books s) b"
  shows "billing_ok (s\<lparr>sale_books := b\<rparr>)"
proof -
  have parts: "sales_ok (sale_desk s)" "gl_ok (sale_books s)" "bill_ids_ok s" "refs_ok (sale_ids (sale_desk s)) (sale_books s)"
    "\<forall>v \<in> set (invoices s). invoice_ok v s"
    and uniq: "\<forall>v \<in> set (invoices s). \<forall>w \<in> set (invoices s). \<forall>dc. bills dc v \<longrightarrow> bills dc w \<longrightarrow> v = w"
    using ok by (simp_all add: billing_ok_def)
  have sup: "voucher_supply b = voucher_supply (sale_books s)" using g by (simp add: grows_def)
  have "bill_ids_ok (s\<lparr>sale_books := b\<rparr>)" using parts(3) by (simp add: bill_ids_ok_def sup)
  moreover have "refs_ok (sale_ids (sale_desk s)) b" by (rule refs_ok_grow [OF parts(4) g]) simp
  moreover have "invoice_ok v (s\<lparr>sale_books := b\<rparr>)" if "v \<in> set (invoices s)" for v
  proof -
    have io: "invoice_ok v s" using parts(5) that by blast
    then have "ledger_agrees (inv_head v) b" using ledger_agrees_grow [OF _ g] by (simp add: invoice_ok_def)
    with io show ?thesis by (simp add: invoice_ok_def amounts_ok_def line_total_def lines_of_invoice_def)
  qed
  ultimately show ?thesis using parts(1) uniq grows_ok [OF g] by (simp add: billing_ok_def)
qed

lemma receipt_grows:
  assumes "posts_balanced b b' w legs" and "gl_ok b" and "v_reference_id w = None" and "\<not> v_deleted w"
  shows "grows {} b b'"
proof -
  have p: "posted b b' w legs" using assms(1) by (simp add: posts_balanced_def)
  then have "vouchers b' = vouchers b @ [w]" "voucher_supply b' = voucher_supply b" "ledger_accounts b' = ledger_accounts b"
    by (simp_all add: posted_def)
  with posts_balanced_ok [OF assms(1,2)] lines_of_posted(2) [OF assms(2) p] assms(3,4) show ?thesis
    by (simp add: grows_def)
qed

text \<open>Rows may be replaced by rows of the same document and challan whose sale stands as well.\<close>

definition still_stands :: "invoice_row \<Rightarrow> invoice_row \<Rightarrow> bool" where
  "still_stands v v' \<longleftrightarrow> (inv_head v')\<lparr>lifecycle_status := FINALIZED\<rparr> = (inv_head v)\<lparr>lifecycle_status := FINALIZED\<rparr> \<and>
     inv_dc v' = inv_dc v \<and> inv_deleted v' = inv_deleted v \<and>
     (lifecycle v' = lifecycle v \<or> {lifecycle v, lifecycle v'} \<subseteq> standing)"

lemma still_stands_fields:
  assumes "still_stands v v'"
  shows "inv_id v' = inv_id v" "si_org (inv_head v') = si_org (inv_head v)" "si_firm (inv_head v') = si_firm (inv_head v)"
    "si_party (inv_head v') = si_party (inv_head v)" "si_invoice_amount (inv_head v') = si_invoice_amount (inv_head v)"
    "si_gst_amount (inv_head v') = si_gst_amount (inv_head v)" "bills dc v' \<longleftrightarrow> bills dc v"
proof -
  let ?f = "\<lambda>si. si\<lparr>lifecycle_status := FINALIZED\<rparr>"
  have eq: "f (?f (inv_head v')) = f (?f (inv_head v))" for f :: "sales_invoice \<Rightarrow> 'x" using assms by (simp add: still_stands_def)
  show "inv_id v' = inv_id v" using eq [of sales_invoice_id] by simp
  show "si_org (inv_head v') = si_org (inv_head v)" using eq [of si_org] by simp
  show "si_firm (inv_head v') = si_firm (inv_head v)" using eq [of si_firm] by simp
  show "si_party (inv_head v') = si_party (inv_head v)" using eq [of si_party] by simp
  show "si_invoice_amount (inv_head v') = si_invoice_amount (inv_head v)" using eq [of si_invoice_amount] by simp
  show "si_gst_amount (inv_head v') = si_gst_amount (inv_head v)" using eq [of si_gst_amount] by simp
  show "bills dc v' \<longleftrightarrow> bills dc v" using assms by (auto simp: still_stands_def bills_def RELEASED_INVOICE_STATUSES_def)
qed

lemma rows_stand_ok:
  assumes ok: "billing_ok s" and f: "\<forall>v \<in> set (invoices s). still_stands v (f v)"
  shows "billing_ok (s\<lparr>invoices := map f (invoices s)\<rparr>)"
proof -
  let ?t = "s\<lparr>invoices := map f (invoices s)\<rparr>"
  have io: "invoice_ok v s" if "v \<in> set (invoices s)" for v using ok that by (simp add: billing_ok_def)
  have eq: "inv_id (f v) = inv_id v" if "v \<in> set (invoices s)" for v
    using f that by (intro still_stands_fields(1)) blast
  then have m: "map inv_id (invoices ?t) = map inv_id (invoices s)" by simp
  from arg_cong [OF m, of set] have i: "inv_id ` set (invoices ?t) = inv_id ` set (invoices s)" by (simp only: list.set_map)
  have "bill_ids_ok s" using ok by (simp add: billing_ok_def)
  then have "bill_ids_ok ?t" unfolding bill_ids_ok_def m i by simp
  moreover have "invoice_ok (f v) ?t" if v: "v \<in> set (invoices s)" for v
  proof -
    have st: "still_stands v (f v)" using f v by blast
    note e = still_stands_fields [OF st]
    have "ledger_agrees (inv_head (f v)) (sale_books s)"
      using io [OF v] st e(1,2,5) by (auto simp: invoice_ok_def still_stands_def ledger_agrees_def posted_sale_def)
    with io [OF v] e st show ?thesis
      by (simp add: invoice_ok_def amounts_ok_def line_total_def lines_of_invoice_def challan_ok_def still_stands_def)
  qed
  moreover have "f u = f w" if "u \<in> set (invoices s)" "w \<in> set (invoices s)" "bills dc (f u)" "bills dc (f w)" for u w dc
  proof -
    have "bills dc u" "bills dc w" using that f still_stands_fields(7) by blast+
    then have "u = w" using ok that(1,2) by (auto simp: billing_ok_def)
    then show ?thesis by simp
  qed
  ultimately show ?thesis using ok by (auto simp: billing_ok_def)
qed

section \<open>Receipts keep the invariant\<close>

lemma outstanding_open: "open_invoice org firm party v \<Longrightarrow> 0 < outstanding v \<and> lifecycle v \<in> set OPEN_AR_LIFECYCLES"
  by (auto simp: open_invoice_def outstanding_def or_zero_def split: option.splits)

lemma open_stands:
  assumes "billing_ok s" and "v \<in> set (open_invoices_fifo org firm party s)"
  shows "lifecycle v \<in> {FINALIZED, PARTIALLY_PAID}"
proof -
  have v: "v \<in> set (invoices s)" "open_invoice org firm party v" using assms(2) by (simp_all add: open_invoices_set)
  then have "ledger_agrees (inv_head v) (sale_books s)" using assms(1) by (simp add: billing_ok_def invoice_ok_def)
  with outstanding_open [OF v(2)] show ?thesis by (auto simp: ledger_agrees_def OPEN_AR_LIFECYCLES_def split: if_splits)
qed

lemma received_stands: "lifecycle v \<in> standing \<Longrightarrow> still_stands v (received a v)"
  by (auto simp: still_stands_def received_def)

lemma sum_if_eq: "distinct (map f xs) \<Longrightarrow> x \<in> set xs \<Longrightarrow> (\<Sum>y\<leftarrow>filter (\<lambda>y. f y = f x) xs. g y) = g x"
proof (induction xs)
  case (Cons y xs)
  then show ?case
  proof (cases "x = y")
    case True
    with Cons.prems(1) have "filter (\<lambda>z. f z = f x) xs = []" by (auto simp: filter_empty_conv rev_image_eqI)
    with True show ?thesis by simp
  next
    case False
    with Cons have "f y \<noteq> f x" by (auto simp: rev_image_eqI)
    with Cons False show ?thesis by simp
  qed
qed simp

text \<open>The new allocation rows of one invoice.\<close>

lemma new_allocations:
  assumes "distinct (map (\<lambda>x. inv_id (fst x)) xs)"
  shows "(v, a) \<in> set xs \<Longrightarrow> (\<Sum>x\<leftarrow>filter (\<lambda>x. pa_sales x = Some (inv_id v)) (map (allocation_row org firm w) xs). pa_amount x) = a"
    and "i \<notin> (\<lambda>x. inv_id (fst x)) ` set xs \<Longrightarrow> (\<Sum>x\<leftarrow>filter (\<lambda>x. pa_sales x = Some i) (map (allocation_row org firm w) xs). pa_amount x) = 0"
proof -
  have e: "(\<Sum>x\<leftarrow>filter (\<lambda>x. pa_sales x = Some i) (map (allocation_row org firm w) xs). pa_amount x)
      = (\<Sum>x\<leftarrow>filter (\<lambda>x. inv_id (fst x) = i) xs. snd x)" for i
    by (simp add: filter_map o_def allocation_row_def)
  show "(\<Sum>x\<leftarrow>filter (\<lambda>x. pa_sales x = Some (inv_id v)) (map (allocation_row org firm w) xs). pa_amount x) = a" if "(v, a) \<in> set xs"
    using sum_if_eq [OF assms that, of snd] by (simp add: e)
  show "(\<Sum>x\<leftarrow>filter (\<lambda>x. pa_sales x = Some i) (map (allocation_row org firm w) xs). pa_amount x) = 0"
    if "i \<notin> (\<lambda>x. inv_id (fst x)) ` set xs"
  proof -
    have "filter (\<lambda>x. inv_id (fst x) = i) xs = []" using that by (auto simp: filter_empty_conv)
    then show ?thesis by (simp add: e)
  qed
qed

text \<open>Row by row: what a receipt does to an invoice of the state.\<close>

lemma receipt_rows:
  assumes "allocate_fifo outstanding amt (open_invoices_fifo org firm party s) = (xs, rest)" and "0 < amt" and ok: "billing_ok s"
    and v: "v \<in> set (invoices s)"
  shows "(\<exists>a. (v, a) \<in> set xs \<and> 0 < a \<and> a \<le> outstanding v \<and> v \<in> set (open_invoices_fifo org firm party s) \<and>
        receipt_of xs v = received a v) \<or> v \<notin> fst ` set xs \<and> receipt_of xs v = v \<and> inv_id v \<notin> (\<lambda>x. inv_id (fst x)) ` set xs"
proof -
  have m: "0 \<le> amt" using assms(2) by simp
  have ids: "bill_ids_ok s" using ok by (simp add: billing_ok_def)
  then have di: "distinct (map inv_id (invoices s))" by (simp add: bill_ids_ok_def)
  have d: "distinct (map (\<lambda>x. inv_id (fst x)) xs)" by (rule allocate_fifo_distinct [OF m assms(1) open_invoices_distinct [OF di]])
  have mem: "fst x \<in> set (invoices s)" if "x \<in> set xs" for x
    using allocate_fifo_mem(1) [OF m assms(1), of "fst x" "snd x"] that by (simp add: open_invoices_set)
  have same: "\<forall>x \<in> set xs. \<forall>u \<in> set (invoices s). inv_id u = inv_id (fst x) \<longrightarrow> u = fst x"
    using mem inv_row_by_id [OF ids] by blast
  note c = receipt_of_cases [OF d same v]
  show ?thesis
  proof (cases "v \<in> fst ` set xs")
    case True
    then obtain a where a: "(v, a) \<in> set xs" by force
    with c(1) allocate_fifo_mem [OF m assms(1) a] show ?thesis by blast
  next
    case False
    moreover have "inv_id v \<notin> (\<lambda>x. inv_id (fst x)) ` set xs"
    proof
      assume "inv_id v \<in> (\<lambda>x. inv_id (fst x)) ` set xs"
      then obtain x where x: "x \<in> set xs" "inv_id v = inv_id (fst x)" by auto
      with same v have "v = fst x" by blast
      with x(1) False show False by blast
    qed
    ultimately show ?thesis using c(2) by blast
  qed
qed

lemma receipt_ok:
  assumes "post_receipt now org firm party amt d mode bank series s = Inr (s', w)" and ok: "till_ok s"
  shows "till_ok s'"
proof -
  let ?t = "till_billing s"
  have b: "billing_ok ?t" and paid: "\<And>v. v \<in> set (invoices ?t) \<Longrightarrow> paid_state v \<and> inv_paid v = allocated_to (inv_id v) s"
    and al: "\<forall>x \<in> set (allocations s). 0 < pa_amount x \<and> pa_sales x \<in> Some ` inv_id ` set (invoices ?t)"
    using ok by (simp_all add: till_ok_def)
  have di: "distinct (map inv_id (invoices ?t))" and gl: "gl_ok (sale_books ?t)" using b by (simp_all add: billing_ok_def bill_ids_ok_def)
  obtain cash xs rest ar advances bb legs where pos: "amt > 0"
    and f: "allocate_fifo outstanding amt (open_invoices_fifo org firm party ?t) = (xs, rest)"
    and pb: "posts_balanced (sale_books ?t) bb w legs" and ref: "v_reference_id w = None" "\<not> v_deleted w"
    and s': "s' = s\<lparr>till_billing := ?t\<lparr>sale_books := bb, invoices := map (receipt_of xs) (invoices ?t)\<rparr>,
          allocations := allocations s @ map (allocation_row org firm w) xs\<rparr>"
    by (rule post_receipt_cases [OF assms(1) di])
  have m: "0 \<le> amt" using pos by simp
  note rows = receipt_rows [OF f pos b]
  have d: "distinct (map (\<lambda>x. inv_id (fst x)) xs)" by (rule allocate_fifo_distinct [OF m f open_invoices_distinct [OF di]])
  have st: "still_stands v (receipt_of xs v)" if v: "v \<in> set (invoices ?t)" for v
    using rows [OF v]
  proof (elim disjE exE conjE)
    fix a assume "receipt_of xs v = received a v" and o: "v \<in> set (open_invoices_fifo org firm party ?t)"
    with open_stands [OF b o] show ?thesis by (auto intro: received_stands)
  qed (simp add: still_stands_def)
  have "billing_ok (?t\<lparr>sale_books := bb\<rparr>)" by (rule books_grow_ok [OF b receipt_grows [OF pb gl ref]])
  from rows_stand_ok [OF this, of "receipt_of xs"] st
  have "billing_ok (till_billing s')" by (simp add: s')
  moreover have "paid_state v' \<and> inv_paid v' = allocated_to (inv_id v') s'" if "v' \<in> set (invoices (till_billing s'))" for v'
  proof -
    from that obtain v where v: "v \<in> set (invoices ?t)" "v' = receipt_of xs v" by (auto simp: s')
    have all: "allocated_to i s' = allocated_to i s
        + (\<Sum>x\<leftarrow>filter (\<lambda>x. pa_sales x = Some i) (map (allocation_row org firm w) xs). pa_amount x)" for i
      by (simp add: allocated_to_def s')
    show ?thesis
      using rows [OF v(1)]
    proof (elim disjE exE conjE)
      fix a assume a: "(v, a) \<in> set xs" "0 < a" "a \<le> outstanding v" "receipt_of xs v = received a v"
        and o: "v \<in> set (open_invoices_fifo org firm party ?t)"
      have "lifecycle v \<in> {FINALIZED, PARTIALLY_PAID}" by (rule open_stands [OF b o])
      then have "0 \<le> inv_paid v" using paid [OF v(1)] by (auto simp: paid_state_def)
      with a(2,3) have "paid_state (received a v)" by (auto simp: paid_state_def received_def outstanding_def)
      moreover have "inv_paid (received a v) = allocated_to (inv_id v) s'"
        using paid [OF v(1)] new_allocations(1) [OF d a(1)] by (simp add: all)
      ultimately show ?thesis using v(2) a(4) by simp
    next
      assume n: "receipt_of xs v = v" "inv_id v \<notin> (\<lambda>x. inv_id (fst x)) ` set xs"
      with paid [OF v(1)] new_allocations(2) [OF d n(2)] show ?thesis by (simp add: v(2) all)
    qed
  qed
  moreover have "0 < pa_amount x \<and> pa_sales x \<in> Some ` inv_id ` set (invoices (till_billing s'))" if x: "x \<in> set (allocations s')" for x
  proof -
    have ids: "inv_id ` set (invoices (till_billing s')) = inv_id ` set (invoices ?t)" by (force simp: s' image_comp o_def)
    from x consider "x \<in> set (allocations s)" | y where "y \<in> set xs" "x = allocation_row org firm w y" by (auto simp: s')
    then show ?thesis
    proof cases
      case 2
      with allocate_fifo_mem [OF m f, of "fst y" "snd y"] show ?thesis unfolding ids by (auto simp: allocation_row_def open_invoices_set)
    qed (use al ids in auto)
  qed
  ultimately show ?thesis by (simp add: till_ok_def)
qed

end
