(* ===== verification/Receivables.thy ===== *)
theory Receivables
  imports Receipts
begin

text \<open>
  Invoices and receipts together: the calls of both, and the two invariants that tie them, an invoice is
  paid what has been allocated to it, and the control account of the customers stands at the sum
  of what the invoices have outstanding.
\<close>

section \<open>The control account\<close>

definition chart_ok :: "books \<Rightarrow> bool" where
  "chart_ok b \<longleftrightarrow> distinct (map ledger_id (ledger_accounts b)) \<and>
     (\<forall>l \<in> set (ledger_accounts b). ledger_code l = AR_LEDGER_CODE \<longrightarrow> is_control_account l = Some True)"

definition counts :: "uuid \<Rightarrow> invoice_row \<Rightarrow> bool" where
  "counts org v \<longleftrightarrow> si_org (inv_head v) = org \<and> lifecycle v \<in> standing"

definition owed :: "uuid \<Rightarrow> billing \<Rightarrow> decimal" where
  "owed org s = (\<Sum>v\<leftarrow>filter (counts org) (invoices s). outstanding v)"

definition sale_on :: "uuid \<Rightarrow> uuid \<Rightarrow> books \<Rightarrow> decimal" where
  "sale_on a i b = (\<Sum>x\<leftarrow>refs i b. on_account a x b)"

definition tied :: "uuid \<Rightarrow> ledger_account \<Rightarrow> billing \<Rightarrow> bool" where
  "tied org l s \<longleftrightarrow> account_balance (sale_books s) (ledger_id l) = owed org s \<and>
     (\<forall>v \<in> set (invoices s). lifecycle v \<in> standing \<longrightarrow>
        sale_on (ledger_id l) (inv_id v) (sale_books s)
          = (if si_org (inv_head v) = org then or_zero (si_invoice_amount (inv_head v)) else 0))"

definition receivables_ok :: "till \<Rightarrow> bool" where
  "receivables_ok s \<longleftrightarrow> till_ok s \<and> chart_ok (sale_books (till_billing s)) \<and>
     (\<forall>org l. resolve_ledger org AR_LEDGER_CODE (sale_books (till_billing s)) = Inr l \<longrightarrow> tied org l (till_billing s))"

lemma resolve_same:
  assumes "chart_ok b" and "resolve_ledger org c b = Inr x" and "resolve_ledger org' c' b = Inr y" and "ledger_id x = ledger_id y"
  shows "x = y" and "org = org'" and "c = c'"
proof -
  have "x = y" using assms resolve_ledger_Inr [OF assms(2)] resolve_ledger_Inr [OF assms(3)]
    by (auto simp: chart_ok_def distinct_map dest: inj_onD)
  then show "x = y" "org = org'" "c = c'" using resolve_ledger_Inr [OF assms(2)] resolve_ledger_Inr [OF assms(3)] by auto
qed

lemma resolve_id_iff:
  assumes "chart_ok b" and "resolve_ledger org AR_LEDGER_CODE b = Inr l" and "resolve_ledger org' c b = Inr x"
  shows "ledger_id x = ledger_id l \<longleftrightarrow> org' = org \<and> c = AR_LEDGER_CODE"
  using resolve_same [OF assms(1,3,2)] assms(2,3) by auto

lemma codes_differ: "SALES_LEDGER_CODE \<noteq> AR_LEDGER_CODE" "GST_PAYABLE_LEDGER_CODE \<noteq> AR_LEDGER_CODE"
  "COGS_LEDGER_CODE \<noteq> AR_LEDGER_CODE" "INVENTORY_LEDGER_CODE \<noteq> AR_LEDGER_CODE" "ADVANCES_LEDGER_CODE \<noteq> AR_LEDGER_CODE"
  "CASH_LEDGER_CODE \<noteq> AR_LEDGER_CODE" "BANK_CONTROL_LEDGER_CODE \<noteq> AR_LEDGER_CODE"
  by (simp_all add: SALES_LEDGER_CODE_def AR_LEDGER_CODE_def GST_PAYABLE_LEDGER_CODE_def COGS_LEDGER_CODE_def
      INVENTORY_LEDGER_CODE_def ADVANCES_LEDGER_CODE_def CASH_LEDGER_CODE_def BANK_CONTROL_LEDGER_CODE_def)

lemma leg_if_on: "legs_on a (leg_if l t x) = (case l of None \<Rightarrow> 0 | Some k \<Rightarrow> legs_on a [(ledger_id k, t, x)])"
  by (simp add: leg_if_def split: option.split)

lemma resolve_posts: "posts_balanced b b' v legs \<Longrightarrow> resolve_ledger org c b' = resolve_ledger org c b"
  by (simp add: posts_balanced_def posted_def resolve_ledger_def)

text \<open>A finalization moves the control account by the invoice, and of no other organisation.\<close>

lemma finalize_control:
  assumes gl: "gl_ok b" and ch: "chart_ok b" and l: "resolve_ledger org AR_LEDGER_CODE b = Inr l"
    and p: "post_invoice_to_gl now si b = Inr (b1, v)"
    and c: "post_cogs_voucher now (si_org si) firm rt ref consumed d b1 = Inr (b2, r)"
  shows "account_balance b2 (ledger_id l) = account_balance b (ledger_id l) + (if si_org si = org then or_zero (si_invoice_amount si) else 0)"
proof -
  let ?t = "or_zero (si_invoice_amount si)" and ?g = "or_zero (si_gst_amount si)"
  obtain ar sales gst where r: "resolve_ledger (si_org si) AR_LEDGER_CODE b = Inr ar"
      "resolve_ledger (si_org si) SALES_LEDGER_CODE b = Inr sales"
      "optional_ledger (?g > 0) (si_org si) GST_PAYABLE_LEDGER_CODE b = Inr gst"
    and pb: "posts_balanced b b1 v ([(ledger_id ar, DR, ?t), (ledger_id sales, CR, ?t - ?g)] @ leg_if gst CR ?g)"
    by (rule post_invoice_posts [OF p gl])
  note id = resolve_id_iff [OF ch l]
  have g: "legs_on (ledger_id l) (leg_if gst CR ?g) = 0"
    using r(3) id codes_differ by (auto simp: leg_if_on optional_ledger_Inr split: option.split if_splits)
  have 1: "account_balance b1 (ledger_id l) = account_balance b (ledger_id l) + (if si_org si = org then ?t else 0)"
    using posts_balance [OF pb, of "ledger_id l"] id [OF r(1)] id [OF r(2)] codes_differ g by simp
  have gl1: "gl_ok b1" by (rule posts_balanced_ok [OF pb gl])
  show ?thesis
  proof (cases rule: post_cogs_cases [OF c gl1])
    case (3 w cogs stock)
    have "account_balance b2 (ledger_id l) = account_balance b1 (ledger_id l)"
      using posts_balance [OF 3(6), of "ledger_id l"] 3(4,5) id codes_differ by (simp add: resolve_posts [OF pb])
    with 1 show ?thesis by simp
  qed (use 1 in simp_all)
qed

lemma settlement_not_control:
  assumes "resolve_settlement_ledger org' firm mode bank bas b = Inr cash" and ch: "chart_ok b"
    and l: "resolve_ledger org AR_LEDGER_CODE b = Inr l"
  shows "ledger_id cash \<noteq> ledger_id l"
proof
  assume eq: "ledger_id cash = ledger_id l"
  have lm: "l \<in> set (ledger_accounts b)" "is_control_account l = Some True"
    using resolve_ledger_Inr [OF l] ch by (simp_all add: chart_ok_def)
  have "cash = l" using resolved_org [OF assms(1)] lm(1) eq ch by (auto simp: chart_ok_def distinct_map dest: inj_onD)
  with assms(1) lm(2) show False
    using resolve_id_iff [OF ch l] codes_differ eq
    by (auto simp: resolve_settlement_ledger_def settlement_account_def bindE_Inr_iff split: if_splits option.splits)
qed

section \<open>One row at a time\<close>

lemma sum_row:
  assumes "distinct (map k xs)" and "v \<in> set xs" and "k v' = k v"
  shows "(\<Sum>x\<leftarrow>filter P (update_where (\<lambda>w. k w = k v') (\<lambda>_. v') xs). f x)
    = (\<Sum>x\<leftarrow>filter P xs. f x) - (if P v then f v else 0) + (if P v' then f v' else (0::decimal))"
  using assms
proof (induction xs)
  case (Cons x xs)
  show ?case
  proof (cases "x = v")
    case True
    with Cons.prems have "k w \<noteq> k v'" if "w \<in> set xs" for w using that by (auto simp: rev_image_eqI)
    then have "update_where (\<lambda>w. k w = k v') (\<lambda>_. v') xs = xs" by (rule update_where_none)
    with True Cons.prems(3) show ?thesis by (simp add: update_where_def)
  next
    case False
    with Cons.prems have "v \<in> set xs" "k x \<noteq> k v'" by (auto simp: rev_image_eqI)
    with Cons show ?thesis by (simp add: update_where_def)
  qed
qed simp

lemma other_sale:
  assumes ok: "billing_ok s" and v: "v \<in> set (invoices s)" and w: "w \<in> set (invoices s)" "w \<noteq> v"
    and g: "grows X (sale_books s) b" "X \<subseteq> insert (inv_id v) (voucher_id ` set (refs (inv_id v) (sale_books s)))"
  shows "sale_on a (inv_id w) b = sale_on a (inv_id w) (sale_books s)"
proof -
  have parts: "gl_ok (sale_books s)" "bill_ids_ok s" "refs_ok (sale_ids (sale_desk s)) (sale_books s)"
    using ok by (simp_all add: billing_ok_def)
  have "inv_id w \<noteq> inv_id v" using inv_row_by_id [OF parts(2)] v w by blast
  moreover have "inv_id w \<in> sale_ids (sale_desk s)" by (rule invoice_minted [OF ok w(1)])
  then have "inv_id w \<notin> voucher_id ` set (refs (inv_id v) (sale_books s))"
    using refs_ok_id [OF parts(3,1)] by (force simp: refs_mem)
  ultimately have "inv_id w \<notin> X" using g(2) by blast
  then have r: "refs (inv_id w) b = refs (inv_id w) (sale_books s)" by (rule refs_grow [OF g(1)])
  have "map (\<lambda>x. on_account a x b) (refs (inv_id w) (sale_books s)) = map (\<lambda>x. on_account a x (sale_books s)) (refs (inv_id w) (sale_books s))"
    using on_account_grow [OF g(1)] by (simp add: refs_mem)
  then show ?thesis unfolding sale_on_def r by (rule arg_cong [of _ _ sum_list])
qed

text \<open>One invoice changes its state, with the postings of its own: the account stays tied.\<close>

lemma row_tied:
  assumes ok: "billing_ok s" and v: "v \<in> set (invoices s)" and id: "inv_id v' = inv_id v" and same: "si_org (inv_head v') = si_org (inv_head v)"
    and g: "grows X (sale_books s) b" "X \<subseteq> insert (inv_id v) (voucher_id ` set (refs (inv_id v) (sale_books s)))"
    and t: "tied org l s"
    and bal: "account_balance b (ledger_id l) = account_balance (sale_books s) (ledger_id l)
        - (if counts org v then outstanding v else 0) + (if counts org v' then outstanding v' else 0)"
    and own: "lifecycle v' \<in> standing \<Longrightarrow> sale_on (ledger_id l) (inv_id v) b
        = (if si_org (inv_head v) = org then or_zero (si_invoice_amount (inv_head v')) else 0)"
  shows "tied org l (put_invoice v' (s\<lparr>sale_books := b, sale_desk := k\<rparr>))"
proof -
  have ids: "bill_ids_ok s" using ok by (simp add: billing_ok_def)
  then have d: "distinct (map inv_id (invoices s))" by (simp add: bill_ids_ok_def)
  let ?t = "put_invoice v' (s\<lparr>sale_books := b, sale_desk := k\<rparr>)"
  have inv: "invoices ?t = update_where (\<lambda>w. inv_id w = inv_id v') (\<lambda>_. v') (invoices s)" by (simp add: put_invoice_def)
  have "owed org ?t = owed org s - (if counts org v then outstanding v else 0) + (if counts org v' then outstanding v' else 0)"
    unfolding owed_def inv by (rule sum_row [OF d v id])
  moreover have "sale_on (ledger_id l) (inv_id w) b = (if si_org (inv_head w) = org then or_zero (si_invoice_amount (inv_head w)) else 0)"
    if w: "w \<in> set (invoices ?t)" "lifecycle w \<in> standing" for w
  proof (cases "w = v'")
    case True
    with own w(2) id same show ?thesis by simp
  next
    case False
    have "set (invoices ?t) = insert v' (set (invoices s) - {v})"
      using v id inv_row_by_id [OF ids] unfolding inv by (auto simp: set_update_where)
    with False w have w': "w \<in> set (invoices s)" "w \<noteq> v" by auto
    have "sale_on (ledger_id l) (inv_id w) (sale_books s) = (if si_org (inv_head w) = org then or_zero (si_invoice_amount (inv_head w)) else 0)"
      using t w'(1) w(2) unfolding tied_def by blast
    with other_sale [OF ok v w' g] show ?thesis by simp
  qed
  ultimately show ?thesis using t bal by (simp add: tied_def)
qed

section \<open>Calls\<close>

text \<open>The body of a receipt has two decimals.\<close>

datatype till_call =
    Bill bill_call
  | PostReceipt clock uuid uuid uuid decimal date string "uuid option" string

fun till_step :: "till_call \<Rightarrow> till \<Rightarrow> error + till" where
  "till_step (Bill c) s = bindE (bill_step c (till_billing s)) (\<lambda>t. Inr (s\<lparr>till_billing := t\<rparr>))"
| "till_step (PostReceipt now org firm party amt d mode bank series) s =
     bindE (guardE (quantize round_half_up 2 amt = amt) (ValueError ''decimal_places'')) (\<lambda>_.
     bindE (post_receipt now org firm party amt d mode bank series s) (\<lambda>(s', _). Inr s'))"

text \<open>What a call of the invoice API does to the rows.\<close>

definition row_from :: "billing \<Rightarrow> invoice_row \<Rightarrow> bool" where
  "row_from s v' \<longleftrightarrow> v' \<in> set (invoices s) \<or>
     (\<exists>v \<in> set (invoices s). inv_id v' = inv_id v \<and> inv_paid v' = inv_paid v \<and>
        lifecycle v \<notin> {PARTIALLY_PAID, PAID} \<and> lifecycle v' \<notin> {PARTIALLY_PAID, PAID}) \<or>
     inv_id v' \<notin> sale_ids (sale_desk s) \<and> inv_paid v' = 0 \<and> lifecycle v' = LC_DRAFT"

lemma put_rows:
  assumes "v \<in> set (invoices s)" and "inv_id v' = inv_id v" and "inv_paid v' = inv_paid v"
    and "lifecycle v \<notin> {PARTIALLY_PAID, PAID}" and "lifecycle v' \<notin> {PARTIALLY_PAID, PAID}"
    and s': "s' = put_invoice v' (s\<lparr>sale_books := b, sale_desk := k\<rparr>)"
  shows "(\<forall>u \<in> set (invoices s'). row_from s u) \<and> inv_id ` set (invoices s) \<subseteq> inv_id ` set (invoices s')"
proof -
  have "row_from s u" if "u \<in> set (invoices s')" for u
    using that assms by (auto simp: row_from_def put_invoice_def update_where_def)
  moreover have "inv_id ` set (invoices s) \<subseteq> inv_id ` set (invoices s')" unfolding s' inv_ids_put by simp
  ultimately show ?thesis by blast
qed

lemma bill_rows:
  assumes "bill_step c s = Inr s'" and ok: "billing_ok s"
  shows "(\<forall>u \<in> set (invoices s'). row_from s u) \<and> inv_id ` set (invoices s) \<subseteq> inv_id ` set (invoices s')"
proof (cases c)
  case (Desk x)
  with assms(1) have "invoices s' = invoices s" by auto
  then show ?thesis by (simp add: row_from_def)
next
  case (CreateInvoice org firm party d rs series ship dc)
  with assms(1) obtain v where c: "create_draft_invoice org firm party d rs series ship dc s = Inr (s', v)" by auto
  have "inv_id v \<notin> sale_ids (sale_desk s)" using create_draft_ok [OF c ok] by blast
  moreover from c have "invoices s' = invoices s @ [v] \<and> inv_paid v = 0 \<and> lifecycle v = LC_DRAFT"
    by (rule create_draft_cases) (simp add: new_invoice_def)
  ultimately show ?thesis by (auto simp: row_from_def)
next
  case (FinalizeInvoice now org i)
  with assms(1) have f: "finalize_invoice now org i s = Inr s'" by simp
  show ?thesis
  proof (rule finalize_cases [OF f])
    fix v b2 st'
    assume "lock_invoice org i s = Inr v" and "lifecycle v = LC_DRAFT"
      and "s' = put_invoice (with_lifecycle FINALIZED v) (s\<lparr>sale_books := b2, sale_desk := (sale_desk s)\<lparr>sale_stock := st'\<rparr>\<rparr>)"
    then show ?thesis using lock_invoice_mem by (intro put_rows) auto
  qed
next
  case (DiscardInvoice org i)
  with assms(1) obtain v where lock: "lock_invoice org i s = Inr v"
    and c: "s' = s \<or> lifecycle v \<in> {LC_DRAFT, LifecycleStatus.CONFIRMED} \<and> s' = put_invoice (with_lifecycle DISCARDED v) s"
    by (auto simp: discard_invoice_def bindE_Inr_iff DISCARDABLE_LIFECYCLE_def split: if_splits)
  from c show ?thesis
  proof
    assume d: "lifecycle v \<in> {LC_DRAFT, LifecycleStatus.CONFIRMED} \<and> s' = put_invoice (with_lifecycle DISCARDED v) s"
    show ?thesis
      by (rule put_rows [where v = v and v' = "with_lifecycle DISCARDED v" and b = "sale_books s" and k = "sale_desk s"])
        (use d lock_invoice_mem [OF lock] in auto)
  qed (simp add: row_from_def)
next
  case (CancelInvoice now org i reason)
  with assms(1) have f: "cancel_invoice now org i reason s = Inr s'" by simp
  show ?thesis
    using f ok
  proof (cases rule: cancel_cases)
    case again
    then show ?thesis by (simp add: row_from_def)
  next
    case (cancel v d b1 rs b2 r st' v')
    show ?thesis by (rule put_rows [OF _ _ _ _ _ cancel(8)]) (use cancel lock_invoice_mem [OF cancel(1)] in auto)
  qed
qed

lemma bill_till_ok:
  assumes "bill_step c (till_billing s) = Inr t" and ok: "till_ok s"
  shows "till_ok (s\<lparr>till_billing := t\<rparr>)"
proof -
  let ?b = "till_billing s"
  have b: "billing_ok ?b" and paid: "\<forall>v \<in> set (invoices ?b). paid_state v \<and> inv_paid v = allocated_to (inv_id v) s"
    and al: "\<forall>x \<in> set (allocations s). 0 < pa_amount x \<and> pa_sales x \<in> Some ` inv_id ` set (invoices ?b)"
    using ok by (simp_all add: till_ok_def)
  note rows = bill_rows [OF assms(1) b]
  have same: "allocated_to i (s\<lparr>till_billing := t\<rparr>) = allocated_to i s" for i by (simp add: allocated_to_def)
  have "paid_state v' \<and> inv_paid v' = allocated_to (inv_id v') s" if "v' \<in> set (invoices t)" for v'
  proof -
    from rows that consider "v' \<in> set (invoices ?b)"
      | v where "v \<in> set (invoices ?b)" "inv_id v' = inv_id v" "inv_paid v' = inv_paid v"
          "lifecycle v \<notin> {PARTIALLY_PAID, PAID}" "lifecycle v' \<notin> {PARTIALLY_PAID, PAID}"
      | "inv_id v' \<notin> sale_ids (sale_desk ?b)" "inv_paid v' = 0" "lifecycle v' = LC_DRAFT"
      unfolding row_from_def by blast
    then show ?thesis
    proof cases
      case (2 v)
      with paid have "inv_paid v = 0" by (simp add: paid_state_def)
      with 2 paid show ?thesis by (auto simp: paid_state_def)
    next
      case 3
      have "pa_sales x \<noteq> Some (inv_id v')" if "x \<in> set (allocations s)" for x
        using al that 3(1) invoice_minted [OF b] by force
      then have "filter (\<lambda>x. pa_sales x = Some (inv_id v')) (allocations s) = []" by (simp add: filter_empty_conv)
      with 3 show ?thesis by (simp add: allocated_to_def paid_state_def)
    qed (use paid in blast)
  qed
  moreover have "billing_ok t" by (rule bill_step_ok [OF assms(1) b])
  moreover have "Some ` inv_id ` set (invoices ?b) \<subseteq> Some ` inv_id ` set (invoices t)" using rows by blast
  ultimately show ?thesis using al unfolding till_ok_def same by auto
qed

section \<open>The account stays tied\<close>

lemma unpaid: "till_ok s \<Longrightarrow> v \<in> set (invoices (till_billing s)) \<Longrightarrow> lifecycle v \<notin> {PARTIALLY_PAID, PAID} \<Longrightarrow> inv_paid v = 0"
  by (simp add: till_ok_def paid_state_def)

lemma resolve_grow: "grows X b b' \<Longrightarrow> resolve_ledger org c b' = resolve_ledger org c b"
  by (simp add: grows_def resolve_ledger_def)

lemma chart_grow: "grows X b b' \<Longrightarrow> chart_ok b' \<longleftrightarrow> chart_ok b"
  by (simp add: grows_def chart_ok_def)

lemma finalize_tied:
  assumes f: "finalize_invoice now org i s = Inr s'" and ok: "billing_ok s" and ch: "chart_ok (sale_books s)"
    and paid: "\<And>v. v \<in> set (invoices s) \<Longrightarrow> lifecycle v = LC_DRAFT \<Longrightarrow> inv_paid v = 0"
  shows "\<exists>X. grows X (sale_books s) (sale_books s')"
    and "resolve_ledger o' AR_LEDGER_CODE (sale_books s) = Inr l \<Longrightarrow> tied o' l s \<Longrightarrow> tied o' l s'"
proof -
  have gl: "gl_ok (sale_books s)" "refs_ok (sale_ids (sale_desk s)) (sale_books s)" using ok by (simp_all add: billing_ok_def)
  obtain v h st loc st' consumed b1 w b2 r where lock: "lock_invoice org i s = Inr v"
    and draft: "lifecycle v = LC_DRAFT" and h: "h = inv_head (with_lifecycle FINALIZED v)"
    and p: "post_invoice_to_gl now h (sale_books s) = Inr (b1, w)"
    and c: "post_cogs_voucher now (si_org h) (si_firm h) ''sales_invoice'' i consumed (Some (invoice_date h)) b1 = Inr (b2, r)"
    and s': "s' = put_invoice (with_lifecycle FINALIZED v) (s\<lparr>sale_books := b2, sale_desk := (sale_desk s)\<lparr>sale_stock := st'\<rparr>\<rparr>)"
    by (rule finalize_cases [OF f])
  from lock_invoice_mem [OF lock] have v: "v \<in> set (invoices s)" "inv_id v = i" by simp_all
  have hf: "sales_invoice_id h = i" "si_org h = si_org (inv_head v)" "lifecycle_status h = FINALIZED"
    "si_invoice_amount h = si_invoice_amount (inv_head v)" by (simp_all add: h v)
  have un: "refs i (sale_books s) = []" using draft_unposted [OF ok v(1)] draft v(2) by simp
  have mi: "i \<in> sale_ids (sale_desk s)" using invoice_minted [OF ok v(1)] v(2) by simp
  note fa = finalize_agrees [OF gl, of h now b1 w "si_firm h" consumed "Some (invoice_date h)" b2 r, unfolded hf(1,3), OF mi un refl p c]
  show "\<exists>X. grows X (sale_books s) (sale_books s')" using fa(2) by (auto simp: s')
  assume l: "resolve_ledger o' AR_LEDGER_CODE (sale_books s) = Inr l" and t: "tied o' l s"
  note bal = finalize_control [OF gl(1) ch l p c, unfolded hf]
  have own: "sale_on (ledger_id l) i b2 = (if si_org (inv_head v) = o' then or_zero (si_invoice_amount (inv_head v)) else 0)"
    using fa(3) [of "ledger_id l"] bal by (simp add: sale_on_def)
  show "tied o' l s'" unfolding s'
    by (rule row_tied [OF ok v(1) _ _ fa(2) _ t])
      (use bal own draft v paid [OF v(1) draft] in \<open>simp_all add: counts_def outstanding_def\<close>)
qed

lemma cancel_tied:
  assumes f: "cancel_invoice now org i reason s = Inr s'" and ok: "billing_ok s"
    and paid: "\<And>v. v \<in> set (invoices s) \<Longrightarrow> lifecycle v = FINALIZED \<Longrightarrow> inv_paid v = 0"
  shows "\<exists>X. grows X (sale_books s) (sale_books s')" and "tied o' l s \<Longrightarrow> tied o' l s'"
proof -
  have "(\<exists>X. grows X (sale_books s) (sale_books s')) \<and> (tied o' l s \<longrightarrow> tied o' l s')"
    using f ok
  proof (cases rule: cancel_cases)
    case again
    have "gl_ok (sale_books s)" using ok by (simp add: billing_ok_def)
    with again show ?thesis by auto
  next
    case (cancel v d b1 rs b2 r st' v')
    from lock_invoice_mem [OF cancel(1)] have v: "v \<in> set (invoices s)" by simp
    have gl: "gl_ok (sale_books s)" "refs_ok (sale_ids (sale_desk s)) (sale_books s)"
      "ledger_agrees (inv_head v) (sale_books s)" using ok v by (simp_all add: billing_ok_def invoice_ok_def)
    note c = cancel_agrees [OF gl(1,2) invoice_minted [OF ok v] gl(3) cancel(2,5,6)]
    have "tied o' l s'" if t: "tied o' l s"
    proof -
      have own: "sale_on (ledger_id l) (inv_id v) (sale_books s) = (if si_org (inv_head v) = o' then or_zero (si_invoice_amount (inv_head v)) else 0)"
        using t v cancel(2) by (simp add: tied_def)
      show ?thesis unfolding cancel(8)
        by (rule row_tied [OF ok v _ _ c(2) _ t])
          (use own c(3) [of "ledger_id l"] cancel(2,9) paid [OF v cancel(2)] in \<open>auto simp: counts_def outstanding_def sale_on_def\<close>)
    qed
    moreover have "sale_books s' = b2" by (simp add: cancel(8))
    ultimately show ?thesis using c(2) by auto
  qed
  then show "\<exists>X. grows X (sale_books s) (sale_books s')" "tied o' l s \<Longrightarrow> tied o' l s'" by blast+
qed

lemma bill_tied:
  assumes step: "bill_step c (till_billing s) = Inr t" and ok: "till_ok s" and ch: "chart_ok (sale_books (till_billing s))"
  shows "(\<exists>X. grows X (sale_books (till_billing s)) (sale_books t)) \<and>
    (resolve_ledger org AR_LEDGER_CODE (sale_books (till_billing s)) = Inr l \<longrightarrow> tied org l (till_billing s) \<longrightarrow> tied org l t)"
proof -
  let ?b = "till_billing s"
  have b: "billing_ok ?b" using ok by (simp add: till_ok_def)
  then have gl: "gl_ok (sale_books ?b)" by (simp add: billing_ok_def)
  have same: ?thesis if "sale_books t = sale_books ?b" and "tied org l ?b \<Longrightarrow> tied org l t"
    using that gl grows_refl [OF gl] by auto
  have paid: "inv_paid v = 0" if "v \<in> set (invoices ?b)" "lifecycle v \<in> {LC_DRAFT, FINALIZED}" for v
    using unpaid [OF ok that(1)] that(2) by auto
  show ?thesis
  proof (cases c)
    case (Desk x)
    with step have "sale_books t = sale_books ?b" "invoices t = invoices ?b" by auto
    then show ?thesis by (intro same) (simp_all add: tied_def owed_def)
  next
    case (CreateInvoice o' firm party d rs series ship dc)
    with step obtain v where "create_draft_invoice o' firm party d rs series ship dc ?b = Inr (t, v)" by auto
    then have "sale_books t = sale_books ?b \<and> invoices t = invoices ?b @ [v] \<and> lifecycle v = LC_DRAFT"
      by (rule create_draft_cases) (simp add: new_invoice_def)
    then show ?thesis by (intro same) (auto simp: tied_def owed_def counts_def)
  next
    case (FinalizeInvoice now o' i)
    with step have f: "finalize_invoice now o' i ?b = Inr t" by simp
    from finalize_tied [OF f b ch] paid show ?thesis by simp
  next
    case (CancelInvoice now o' i reason)
    with step have f: "cancel_invoice now o' i reason ?b = Inr t" by simp
    from cancel_tied [OF f b] paid show ?thesis by simp
  next
    case (DiscardInvoice o' i)
    with step obtain v where lock: "lock_invoice o' i ?b = Inr v"
      and c: "t = ?b \<or> lifecycle v \<in> {LC_DRAFT, LifecycleStatus.CONFIRMED} \<and> t = put_invoice (with_lifecycle DISCARDED v) ?b"
      by (auto simp: discard_invoice_def bindE_Inr_iff DISCARDABLE_LIFECYCLE_def split: if_splits)
    from lock_invoice_mem [OF lock] have v: "v \<in> set (invoices ?b)" by simp
    show ?thesis
    proof (cases "t = ?b")
      case False
      with c have d: "lifecycle v \<in> {LC_DRAFT, LifecycleStatus.CONFIRMED}" "t = put_invoice (with_lifecycle DISCARDED v) ?b" by auto
      have "tied org l (put_invoice (with_lifecycle DISCARDED v) (?b\<lparr>sale_books := sale_books ?b, sale_desk := sale_desk ?b\<rparr>))" if "tied org l ?b"
        by (rule row_tied [OF b v _ _ grows_refl [OF gl] _ that, of _ "{}"]) (use d(1) in \<open>auto simp: counts_def\<close>)
      then show ?thesis by (intro same) (simp_all add: d(2))
    qed (use same in simp)
  qed
qed

text \<open>A receipt: what it takes off the rows is what it credits to the account.\<close>

definition share_of :: "(invoice_row \<times> decimal) list \<Rightarrow> invoice_row \<Rightarrow> decimal" where
  "share_of xs v = (case map_of (map (\<lambda>x. (inv_id (fst x), snd x)) xs) (inv_id v) of None \<Rightarrow> 0 | Some a \<Rightarrow> a)"

lemma sum_at: "distinct (map k vs) \<Longrightarrow> u \<in> set vs \<Longrightarrow> (\<Sum>v\<leftarrow>vs. if k v = k u then a else 0) = (a::decimal)"
proof (induction vs)
  case (Cons v vs)
  show ?case
  proof (cases "v = u")
    case True
    with Cons.prems(1) have "\<forall>w \<in> set vs. k w \<noteq> k u" by (auto simp: rev_image_eqI)
    then have "(\<Sum>v\<leftarrow>vs. if k v = k u then a else 0) = 0" by (induction vs) simp_all
    with True show ?thesis by simp
  next
    case False
    with Cons show ?thesis by (auto simp: rev_image_eqI)
  qed
qed simp

lemma sum_shares:
  assumes "distinct (map (\<lambda>x. inv_id (fst x)) xs)" and "fst ` set xs \<subseteq> set vs" and d: "distinct (map inv_id vs)"
  shows "(\<Sum>v\<leftarrow>vs. share_of xs v) = (\<Sum>x\<leftarrow>xs. snd x)"
  using assms(1,2)
proof (induction xs)
  case Nil
  then show ?case by (simp add: share_of_def)
next
  case (Cons x xs)
  have "map_of (map (\<lambda>x. (inv_id (fst x), snd x)) xs) (inv_id (fst x)) = None"
    using Cons.prems(1) by (auto simp: map_of_eq_None_iff image_comp o_def)
  then have "share_of (x # xs) v = (if inv_id v = inv_id (fst x) then snd x else 0) + share_of xs v" for v
    by (simp add: share_of_def)
  then have "(\<Sum>v\<leftarrow>vs. share_of (x # xs) v) = (\<Sum>v\<leftarrow>vs. if inv_id v = inv_id (fst x) then snd x else 0) + (\<Sum>v\<leftarrow>vs. share_of xs v)"
    by (simp add: sum_list_addf)
  with Cons sum_at [OF d, of "fst x" "snd x"] show ?case by simp
qed

lemma outstanding_receipt: "outstanding (receipt_of xs v) = outstanding v - share_of xs v"
  by (simp add: receipt_of_def share_of_def outstanding_def split: option.split)

lemma share_of_none: "inv_id v \<notin> (\<lambda>x. inv_id (fst x)) ` set xs \<Longrightarrow> share_of xs v = 0"
proof -
  assume "inv_id v \<notin> (\<lambda>x. inv_id (fst x)) ` set xs"
  then have "map_of (map (\<lambda>x. (inv_id (fst x), snd x)) xs) (inv_id v) = None"
    by (auto simp: map_of_eq_None_iff image_comp o_def)
  then show ?thesis by (simp add: share_of_def)
qed

lemma receipt_tied:
  assumes r: "post_receipt now org firm party amt d mode bank series s = Inr (s', w)" and ok: "till_ok s"
    and ch: "chart_ok (sale_books (till_billing s))"
  shows "grows {} (sale_books (till_billing s)) (sale_books (till_billing s'))"
    and "resolve_ledger o' AR_LEDGER_CODE (sale_books (till_billing s)) = Inr l \<Longrightarrow> tied o' l (till_billing s) \<Longrightarrow> tied o' l (till_billing s')"
proof -
  let ?t = "till_billing s"
  have b: "billing_ok ?t" using ok by (simp add: till_ok_def)
  then have di: "distinct (map inv_id (invoices ?t))" and gl: "gl_ok (sale_books ?t)" by (simp_all add: billing_ok_def bill_ids_ok_def)
  obtain cash xs rest ar advances bb legs where pos: "amt > 0"
    and cash: "resolve_settlement_ledger org firm mode bank (bank_accounts s) (sale_books ?t) = Inr cash"
    and f: "allocate_fifo outstanding amt (open_invoices_fifo org firm party ?t) = (xs, rest)"
    and ar: "optional_ledger (amt - rest > 0) org AR_LEDGER_CODE (sale_books ?t) = Inr ar"
    and adv: "optional_ledger (rest > 0) org ADVANCES_LEDGER_CODE (sale_books ?t) = Inr advances"
    and legs: "legs = [(ledger_id cash, DR, amt)] @ leg_if ar CR (amt - rest) @ leg_if advances CR rest"
    and pb: "posts_balanced (sale_books ?t) bb w legs" and ref: "v_reference_id w = None" "\<not> v_deleted w"
    and s': "s' = s\<lparr>till_billing := ?t\<lparr>sale_books := bb, invoices := map (receipt_of xs) (invoices ?t)\<rparr>,
          allocations := allocations s @ map (allocation_row org firm w) xs\<rparr>"
    by (rule post_receipt_cases [OF r di])
  have m: "0 \<le> amt" using pos by simp
  note rows = receipt_rows [OF f pos b]
  note g = receipt_grows [OF pb gl ref]
  show "grows {} (sale_books ?t) (sale_books (till_billing s'))" using g by (simp add: s')
  assume l: "resolve_ledger o' AR_LEDGER_CODE (sale_books ?t) = Inr l" and t: "tied o' l ?t"
  note id = resolve_id_iff [OF ch l]
  have sum: "(\<Sum>x\<leftarrow>xs. snd x) = amt - rest" using allocate_fifo_sum [OF f] by simp
  have x0: "0 \<le> amt - rest" unfolding sum [symmetric]
    using allocate_fifo_mem(2) [OF m f] by (intro sum_list_nonneg) force
  have "legs_on (ledger_id l) (leg_if ar CR (amt - rest)) = (if org = o' then - (amt - rest) else 0)"
    using ar id [of org AR_LEDGER_CODE] x0 by (auto simp: leg_if_on optional_ledger_Inr split: option.split if_splits)
  moreover have "legs_on (ledger_id l) (leg_if advances CR rest) = 0"
    using adv id codes_differ by (auto simp: leg_if_on optional_ledger_Inr split: option.split if_splits)
  ultimately have bal: "account_balance bb (ledger_id l) = account_balance (sale_books ?t) (ledger_id l) - (if org = o' then amt - rest else 0)"
    using posts_balance [OF pb, of "ledger_id l"] settlement_not_control [OF cash ch l] by (simp add: legs)
  have c: "counts o' (receipt_of xs v) = counts o' v \<and> (lifecycle (receipt_of xs v) \<in> standing \<longrightarrow> lifecycle v \<in> standing)"
    and sh: "share_of xs v \<noteq> 0 \<Longrightarrow> counts org v" if v: "v \<in> set (invoices ?t)" for v
  proof -
    from rows [OF v] consider a where "receipt_of xs v = received a v" "v \<in> set (open_invoices_fifo org firm party ?t)"
      | "receipt_of xs v = v" "inv_id v \<notin> (\<lambda>x. inv_id (fst x)) ` set xs" by blast
    then have "counts o' (receipt_of xs v) = counts o' v \<and> (lifecycle (receipt_of xs v) \<in> standing \<longrightarrow> lifecycle v \<in> standing) \<and>
      (share_of xs v \<noteq> 0 \<longrightarrow> counts org v)"
    proof cases
      case (1 a)
      have "lifecycle v \<in> {FINALIZED, PARTIALLY_PAID}" by (rule open_stands [OF b 1(2)])
      moreover have "lifecycle (received a v) \<in> {PARTIALLY_PAID, PAID}" by (rule received_fields)
      moreover have "si_org (inv_head v) = org" using 1(2) by (simp add: open_invoices_set open_invoice_def)
      ultimately show ?thesis unfolding 1(1) counts_def by (auto simp del: received_fields(5))
    qed (simp add: share_of_none)
    then show "counts o' (receipt_of xs v) = counts o' v \<and> (lifecycle (receipt_of xs v) \<in> standing \<longrightarrow> lifecycle v \<in> standing)"
      "share_of xs v \<noteq> 0 \<Longrightarrow> counts org v" by blast+
  qed
  have "(\<Sum>v\<leftarrow>filter (counts o') (invoices ?t). share_of xs v) = (if org = o' then amt - rest else 0)"
  proof (cases "org = o'")
    case True
    have "fst ` set xs \<subseteq> set (invoices ?t)" using allocate_fifo_mem(1) [OF m f] by (force simp: open_invoices_set)
    from sum_shares [OF allocate_fifo_distinct [OF m f open_invoices_distinct [OF di]] this di] sum
    have all: "(\<Sum>v\<leftarrow>invoices ?t. share_of xs v) = amt - rest" by simp
    have "(\<Sum>v\<leftarrow>vs. share_of xs v) = (\<Sum>v\<leftarrow>filter (counts o') vs. share_of xs v)" if "set vs \<subseteq> set (invoices ?t)" for vs
      using that
    proof (induction vs)
      case (Cons v vs)
      have "\<not> counts o' v \<Longrightarrow> share_of xs v = 0" using sh [of v] Cons.prems True by fastforce
      with Cons show ?case by simp
    qed simp
    from this [OF order_refl] all True show ?thesis by simp
  next
    case False
    have "share_of xs v = 0" if "v \<in> set (filter (counts o') (invoices ?t))" for v
    proof (rule ccontr)
      assume "share_of xs v \<noteq> 0"
      then have "counts org v" using that by (intro sh) simp_all
      with that False show False by (simp add: counts_def)
    qed
    then have "(\<Sum>v\<leftarrow>filter (counts o') (invoices ?t). share_of xs v) = 0" by (intro sum_list_all_zero) auto
    with False show ?thesis by simp
  qed
  moreover have "owed o' (till_billing s') = owed o' ?t - (\<Sum>v\<leftarrow>filter (counts o') (invoices ?t). share_of xs v)"
  proof -
    have "(\<Sum>v\<leftarrow>filter (counts o') (map (receipt_of xs) vs). outstanding v)
        = (\<Sum>v\<leftarrow>filter (counts o') vs. outstanding v) - (\<Sum>v\<leftarrow>filter (counts o') vs. share_of xs v)" if "set vs \<subseteq> set (invoices ?t)" for vs
      using that
    proof (induction vs)
      case (Cons v vs)
      have "counts o' (receipt_of xs v) = counts o' v" using c [of v] Cons.prems by simp
      with Cons show ?case by (simp add: outstanding_receipt)
    qed simp
    then show ?thesis by (simp add: owed_def s')
  qed
  ultimately have total: "account_balance bb (ledger_id l) = owed o' (till_billing s')" using t bal by (simp add: tied_def)
  have son: "sale_on (ledger_id l) (inv_id v) bb = sale_on (ledger_id l) (inv_id v) (sale_books ?t)" for v
  proof -
    have rf: "refs (inv_id v) bb = refs (inv_id v) (sale_books ?t)" by (rule refs_grow [OF g]) simp
    have "map (\<lambda>x. on_account (ledger_id l) x bb) (refs (inv_id v) (sale_books ?t))
        = map (\<lambda>x. on_account (ledger_id l) x (sale_books ?t)) (refs (inv_id v) (sale_books ?t))"
      using on_account_grow [OF g] by (simp add: refs_mem)
    then show ?thesis unfolding sale_on_def rf by (rule arg_cong [of _ _ sum_list])
  qed
  have "sale_on (ledger_id l) (inv_id u) bb = (if si_org (inv_head u) = o' then or_zero (si_invoice_amount (inv_head u)) else 0)"
    if u: "u \<in> set (invoices (till_billing s'))" "lifecycle u \<in> standing" for u
  proof -
    from u(1) obtain v where v: "v \<in> set (invoices ?t)" "u = receipt_of xs v" by (auto simp: s')
    with c [OF v(1)] u(2) have "lifecycle v \<in> standing" by blast
    with t v(1) have "sale_on (ledger_id l) (inv_id v) (sale_books ?t) = (if si_org (inv_head v) = o' then or_zero (si_invoice_amount (inv_head v)) else 0)"
      unfolding tied_def by blast
    then show ?thesis by (simp add: v(2) son)
  qed
  with total show "tied o' l (till_billing s')" by (simp add: tied_def s')
qed

lemma till_step_ok:
  assumes "till_step c s = Inr s'" and ok: "receivables_ok s"
  shows "receivables_ok s'"
proof (cases c)
  case (Bill x)
  with assms(1) obtain t where t: "bill_step x (till_billing s) = Inr t" and s': "s' = s\<lparr>till_billing := t\<rparr>" by auto
  have p: "till_ok s" "chart_ok (sale_books (till_billing s))" using ok by (simp_all add: receivables_ok_def)
  note bt = bill_tied [OF t p]
  then obtain X where g: "grows X (sale_books (till_billing s)) (sale_books t)" by blast
  show ?thesis using bt ok bill_till_ok [OF t p(1)] chart_grow [OF g] resolve_grow [OF g] by (simp add: receivables_ok_def s')
next
  case (PostReceipt now org firm party amt d mode bank series)
  with assms(1) obtain w where r: "post_receipt now org firm party amt d mode bank series s = Inr (s', w)"
    by (auto simp: bindE_Inr_iff)
  have p: "till_ok s" "chart_ok (sale_books (till_billing s))" using ok by (simp_all add: receivables_ok_def)
  note rt = receipt_tied [OF r p]
  show ?thesis using rt(2) ok receipt_ok [OF r p(1)] chart_grow [OF rt(1)] resolve_grow [OF rt(1)] by (simp add: receivables_ok_def)
qed

interpretation till: transactional till_step receivables_ok
  by unfold_locales (rule till_step_ok)

end
