(* ===== verification/InvoiceLife.thy ===== *)
theory InvoiceLife
  imports Receivables
begin

text \<open>
  The properties of invoicing over every run of the sales desk, the stock, the invoice API and the
  receipts that starts with no invoice and empty books: one live invoice per challan, books that agree
  with the invoices, receivables that agree with the control account, invoices that never change.
\<close>

section \<open>Runs\<close>

definition opened :: "till \<Rightarrow> bool" where
  "opened s \<longleftrightarrow> allocations s = [] \<and> chart_ok (sale_books (till_billing s)) \<and>
     sales_ok (sale_desk (till_billing s)) \<and> invoices (till_billing s) = [] \<and> invoice_lines (till_billing s) = [] \<and>
     vouchers (sale_books (till_billing s)) = [] \<and> voucher_lines (sale_books (till_billing s)) = [] \<and>
     inj (voucher_supply (sale_books (till_billing s))) \<and>
     range (sale_supply (sale_desk (till_billing s))) \<inter> range (voucher_supply (sale_books (till_billing s))) = {}"

abbreviation till_run :: "till_call list \<Rightarrow> till \<Rightarrow> till" where
  "till_run calls s \<equiv> fold (commit till_step) calls s"

abbreviation run :: "till_call list \<Rightarrow> till \<Rightarrow> billing" where
  "run calls s \<equiv> till_billing (till_run calls s)"

lemma opened_ok: "opened s \<Longrightarrow> receivables_ok s"
  by (auto simp: opened_def receivables_ok_def till_ok_def tied_def owed_def account_balance_def billing_ok_def gl_ok_def
      bill_ids_ok_def refs_ok_def sale_ids_def)

lemma till_run_ok: "opened s \<Longrightarrow> receivables_ok (till_run calls s)"
  by (rule till.run_inv [OF opened_ok])

lemma run_ok: "opened s \<Longrightarrow> billing_ok (run calls s)"
  using till_run_ok by (simp add: receivables_ok_def till_ok_def)

section \<open>The life of an invoice\<close>

inductive inv_step :: "LifecycleStatus \<Rightarrow> LifecycleStatus \<Rightarrow> bool" where
  finalize: "inv_step LC_DRAFT FINALIZED"
| discard: "inv_step LC_DRAFT DISCARDED"
| cancel: "inv_step FINALIZED LifecycleStatus.CANCELLED"
| pay: "a \<in> {FINALIZED, PARTIALLY_PAID} \<Longrightarrow> b \<in> {PARTIALLY_PAID, PAID} \<Longrightarrow> inv_step a b"

inductive_simps inv_step_from: "inv_step LC_DRAFT b" "inv_step FINALIZED b" "inv_step DISCARDED b"
  "inv_step LifecycleStatus.CANCELLED b" "inv_step PAID b"

lemma inv_steps_final: "inv_step\<^sup>*\<^sup>* a b \<Longrightarrow> a \<in> {LifecycleStatus.CANCELLED, DISCARDED, PAID} \<Longrightarrow> b = a"
  by (induction rule: converse_rtranclp_induct) (auto simp: inv_step_from)

text \<open>The row of an invoice later on: all but its state is fixed.\<close>

definition document :: "invoice_row \<Rightarrow> sales_invoice" where
  "document v = (inv_head v)\<lparr>lifecycle_status := LC_DRAFT\<rparr>"

definition later_row :: "invoice_row \<Rightarrow> invoice_row \<Rightarrow> bool" where
  "later_row v v' \<longleftrightarrow> document v' = document v \<and> inv_dc v' = inv_dc v \<and>
     inv_step\<^sup>*\<^sup>* (lifecycle v) (lifecycle v')"

lemma later_refl [simp]: "later_row v v"
  by (simp add: later_row_def)

lemma kept: "u \<in> set (invoices s) \<Longrightarrow> \<exists>u' \<in> set (invoices s). later_row u u'"
  by (rule bexI, rule later_refl)

lemma later_trans: "later_row u v \<Longrightarrow> later_row v w \<Longrightarrow> later_row u w"
  unfolding later_row_def by (auto intro: rtranclp_trans)

lemma later_id:
  assumes "later_row v v'"
  shows "inv_id v' = inv_id v"
proof -
  from assms have "sales_invoice_id (document v') = sales_invoice_id (document v)" by (simp add: later_row_def)
  then show ?thesis by (simp add: document_def)
qed

lemma row_moves:
  assumes "billing_ok s" and "u \<in> set (invoices s)" and v: "v \<in> set (invoices s)" and "later_row v v'"
  shows "\<exists>u' \<in> set (invoices (put_invoice v' (s\<lparr>sale_books := b, sale_desk := k\<rparr>))). later_row u u'"
proof -
  have id: "inv_id v' = inv_id v" using assms(4) by (rule later_id)
  have ids: "\<And>w. w \<in> set (invoices s) \<Longrightarrow> inv_id w = inv_id v \<Longrightarrow> w = v"
    using assms(1) v inv_row_by_id by (auto simp: billing_ok_def)
  then have "set (invoices (put_invoice v' (s\<lparr>sale_books := b, sale_desk := k\<rparr>))) = insert v' (set (invoices s) - {v})"
    using v id by (auto simp: put_invoice_def set_update_where)
  then show ?thesis using assms(2,4) kept [of u s] later_refl [of u] by (cases "u = v") (auto simp del: later_refl)
qed

lemma call_moves:
  assumes "bill_step c s = Inr s'" and ok: "billing_ok s" and u: "u \<in> set (invoices s)"
  shows "\<exists>u' \<in> set (invoices s'). later_row u u'"
proof (cases c)
  case (Desk x)
  with assms(1) have "invoices s' = invoices s" by auto
  with kept [OF u] show ?thesis by simp
next
  case (CreateInvoice org firm party d rs series ship dc)
  with assms(1) obtain v where "create_draft_invoice org firm party d rs series ship dc s = Inr (s', v)" by auto
  then have "invoices s' = invoices s @ [v]" by (rule create_draft_cases) simp
  with kept [OF u] show ?thesis by auto
next
  case (FinalizeInvoice now org i)
  with assms(1) have f: "finalize_invoice now org i s = Inr s'" by simp
  show ?thesis
  proof (rule finalize_cases [OF f])
    fix v b2 st'
    assume lock: "lock_invoice org i s = Inr v" and "lifecycle v = LC_DRAFT"
      and s': "s' = put_invoice (with_lifecycle FINALIZED v) (s\<lparr>sale_books := b2, sale_desk := (sale_desk s)\<lparr>sale_stock := st'\<rparr>\<rparr>)"
    then have "later_row v (with_lifecycle FINALIZED v)" by (auto simp: later_row_def document_def intro: inv_step.intros)
    then show ?thesis unfolding s' using lock_invoice_mem [OF lock] by (intro row_moves [OF ok u]) auto
  qed
next
  case (DiscardInvoice org i)
  with assms(1) obtain v where lock: "lock_invoice org i s = Inr v"
    and c: "s' = s \<or> lifecycle v \<in> {LC_DRAFT, LifecycleStatus.CONFIRMED} \<and> s' = put_invoice (with_lifecycle DISCARDED v) s"
    by (auto simp: discard_invoice_def bindE_Inr_iff DISCARDABLE_LIFECYCLE_def split: if_splits)
  from lock_invoice_mem [OF lock] have v: "v \<in> set (invoices s)" by simp
  show ?thesis
  proof (cases "s' = s")
    case False
    with c ok v have "lifecycle v = LC_DRAFT" by (auto simp: billing_ok_def invoice_ok_def ledger_agrees_def)
    then have "later_row v (with_lifecycle DISCARDED v)" by (auto simp: later_row_def document_def intro: inv_step.intros)
    from row_moves [OF ok u v this, of "sale_desk s" "sale_books s"] c False show ?thesis by simp
  qed (use kept [OF u] in simp)
next
  case (CancelInvoice now org i reason)
  with assms(1) have f: "cancel_invoice now org i reason s = Inr s'" by simp
  show ?thesis
    using f ok
  proof (cases rule: cancel_cases)
    case again
    with kept [OF u] show ?thesis by simp
  next
    case (cancel v d b1 rs b2 r st' v')
    then have "later_row v v'" by (auto simp: later_row_def document_def intro: inv_step.intros)
    then show ?thesis unfolding cancel(8) using lock_invoice_mem [OF cancel(1)] by (intro row_moves [OF ok u]) auto
  qed
qed

lemma receipt_moves:
  assumes "post_receipt now org firm party amt d mode bank series s = Inr (s', w)" and ok: "billing_ok (till_billing s)"
    and u: "u \<in> set (invoices (till_billing s))"
  shows "\<exists>u' \<in> set (invoices (till_billing s')). later_row u u'"
proof -
  have di: "distinct (map inv_id (invoices (till_billing s)))" using ok by (simp add: billing_ok_def bill_ids_ok_def)
  obtain xs rest b where pos: "amt > 0"
    and f: "allocate_fifo outstanding amt (open_invoices_fifo org firm party (till_billing s)) = (xs, rest)"
    and s': "s' = s\<lparr>till_billing := (till_billing s)\<lparr>sale_books := b, invoices := map (receipt_of xs) (invoices (till_billing s))\<rparr>,
          allocations := allocations s @ map (allocation_row org firm w) xs\<rparr>"
    by (rule post_receipt_cases [OF assms(1) di])
  from receipt_rows [OF f pos ok u] have "later_row u (receipt_of xs u)"
  proof (elim disjE exE conjE)
    fix a assume r: "receipt_of xs u = received a u" and o: "u \<in> set (open_invoices_fifo org firm party (till_billing s))"
    have "lifecycle u \<in> {FINALIZED, PARTIALLY_PAID}" by (rule open_stands [OF ok o])
    then have "inv_step (lifecycle u) (lifecycle (received a u))" using received_fields(5) by (rule pay)
    moreover have "document (received a u) = document u" by (simp add: document_def received_def)
    ultimately show ?thesis unfolding r by (auto simp: later_row_def)
  qed simp
  then show ?thesis using u by (auto simp: s')
qed

lemma step_moves:
  assumes "till_step c s = Inr s'" and ok: "billing_ok (till_billing s)" and u: "u \<in> set (invoices (till_billing s))"
  shows "\<exists>u' \<in> set (invoices (till_billing s')). later_row u u'"
proof (cases c)
  case (Bill x)
  with assms(1) obtain t where "bill_step x (till_billing s) = Inr t" "till_billing s' = t" by auto
  with call_moves [OF _ ok u] show ?thesis by blast
next
  case (PostReceipt now org firm party amt d mode bank series)
  with assms(1) obtain w where "post_receipt now org firm party amt d mode bank series s = Inr (s', w)" by (auto simp: bindE_Inr_iff)
  then show ?thesis by (rule receipt_moves [OF _ ok u])
qed

lemma run_moves:
  "receivables_ok s \<Longrightarrow> u \<in> set (invoices (till_billing s)) \<Longrightarrow> \<exists>u' \<in> set (invoices (run calls s)). later_row u u'"
proof (induction calls arbitrary: s u)
  case (Cons c calls)
  have ok: "billing_ok (till_billing s)" using Cons.prems(1) by (simp add: receivables_ok_def till_ok_def)
  have "\<exists>v \<in> set (invoices (till_billing (commit till_step c s))). later_row u v"
  proof (cases "till_step c s")
    case (Inl e)
    with kept [OF Cons.prems(2)] show ?thesis by (simp add: commit_def)
  qed (use step_moves [OF _ ok Cons.prems(2)] in \<open>simp add: commit_def\<close>)
  then obtain v where v: "v \<in> set (invoices (till_billing (commit till_step c s)))" "later_row u v" by blast
  from Cons.IH [OF till.commit_inv [OF Cons.prems(1)] v(1)] v(2) show ?case by (auto intro: later_trans)
qed (simp add: kept)

section \<open>An example\<close>

text \<open>An unregistered firm sells item 3: a direct invoice of two lines, finalized; a challan of four, billed
  and finalized, then billed a second time; a receipt that pays the first invoice and a part of the second.\<close>

definition demo_billing :: till where
  "demo_billing = \<lparr>till_billing = \<lparr>sale_desk = demo_desk\<lparr>sale_supply := (\<lambda>n. 500 + 2 * n),
       customers := [\<lparr>cust_id = 5, cust_org = 1, is_customer = True, cust_state = None, cust_gstin = None, cust_sez = False,
                     cust_export = False, cust_deleted = False\<rparr>]\<rparr>,
     sale_books = demo_books\<lparr>voucher_supply := (\<lambda>n. 501 + 2 * n), ledger_accounts :=
       [demo_account 20 ''1200''\<lparr>is_control_account := Some True\<rparr>, demo_account 21 ''4000'', demo_account 22 ''2100'',
        demo_account 23 ''1300'', demo_account 26 ''5000'', demo_account 31 ''1000'', demo_account 32 ''2500'']\<rparr>,
     firm_taxes = [\<lparr>ft_firm = 2, ft_org = 1, has_gst = False, ft_state = None, ft_gstin = None\<rparr>],
     invoices = [], invoice_lines = []\<rparr>, bank_accounts = [], allocations = []\<rparr>"

definition demo_bill :: "decimal \<Rightarrow> inv_request" where
  "demo_bill q = \<lparr>vq_item = 3, vq_qty = q, vq_price = 10, vq_rate = None, vq_sequence = None\<rparr>"

definition demo_bill_calls :: "till_call list" where
  "demo_bill_calls =
     map Bill [CreateInvoice 1 2 5 (Date 2026 5 2) [demo_bill 5, demo_bill 1] ''INV'' None None, FinalizeInvoice (Date 2026 5 2, 0) 1 500,
      Desk (CreateDc 1 2 5 (Date 2026 5 3) ''DC'' [demo_carry 4] None), Desk (IssueDc (Date 2026 5 3) 1 502),
      CreateInvoice 1 2 5 (Date 2026 5 4) [demo_bill 4] ''INV'' None (Some 502), FinalizeInvoice (Date 2026 5 4, 0) 1 504,
      CreateInvoice 1 2 5 (Date 2026 5 4) [demo_bill 4] ''INV'' None (Some 502)]
     @ [PostReceipt (Date 2026 5 5, 0) 1 2 5 70 (Date 2026 5 5) ''CASH'' None ''RCT'']"

lemma demo_billing_opened: "opened demo_billing"
proof -
  have "sales_ok (sale_desk (till_billing demo_billing))"
    by (simp add: demo_billing_def sales_ok_def sale_ids_ok_def sale_ids_def demo_desk_def demo_ok inj_def)
  moreover have "range (\<lambda>n. 500 + 2 * n) \<inter> range (\<lambda>n. 501 + 2 * n :: nat) = {}" by (auto) presburger
  ultimately show ?thesis by (simp add: opened_def chart_ok_def AR_LEDGER_CODE_def demo_account_def demo_billing_def demo_books_def inj_def)
qed

lemma demo_bill_eval:
  "map (\<lambda>t. (map (\<lambda>v. (inv_id v, inv_dc v, lifecycle v, si_invoice_amount (inv_head v), inv_paid v)) (invoices t),
      map (\<lambda>v. (voucher_type v, total_debit v)) (refs 500 (sale_books t)), get_total_on_hand 1 2 3 4 (sale_stock (sale_desk t)), account_balance (sale_books t) 20,
      map_sum id ledger_id (resolve_ledger 1 AR_LEDGER_CODE (sale_books t))))
     [run demo_bill_calls demo_billing]
   = [([(500, None, PAID, Some 60, 60), (504, Some 502, PARTIALLY_PAID, Some 40, 10)],
       [(SALES_INVOICE, 60), (COGS_SALE, 210)], 7, 30, Inr 20)]"
  by code_simp

lemma demo_invoices:
  obtains v w where "invoices (run demo_bill_calls demo_billing) = [v, w]" and "inv_id v = 500" and "inv_id w = 504"
    and "lifecycle v = PAID" and "lifecycle w = PARTIALLY_PAID" and "inv_paid v = 60" and "inv_paid w = 10" and "inv_dc w = Some 502" and "si_invoice_amount (inv_head v) = Some 60"
    and "map total_debit (refs 500 (sale_books (run demo_bill_calls demo_billing))) = [60, 210]"
    and "account_balance (sale_books (run demo_bill_calls demo_billing)) 20 = 30"
    and "map_sum id ledger_id (resolve_ledger 1 AR_LEDGER_CODE (sale_books (run demo_bill_calls demo_billing))) = Inr 20"
  using demo_bill_eval by (auto simp: map_eq_Cons_conv)

section \<open>One live invoice per challan\<close>

text \<open>C7: Whatever the sales desk, the stock and the invoice API serve, in whatever order and with whatever
  failures: two invoices of one challan that are neither cancelled nor discarded are the same invoice, and
  the challan it bills has been issued by the same firm to the same customer.\<close>

theorem one_live_invoice_per_challan:
  assumes "opened s" and "v \<in> set (invoices (run calls s))" and "w \<in> set (invoices (run calls s))"
    and "inv_dc v = Some dc" and "inv_dc w = Some dc"
    and "lifecycle v \<notin> {LifecycleStatus.CANCELLED, DISCARDED}" and "lifecycle w \<notin> {LifecycleStatus.CANCELLED, DISCARDED}"
  shows "v = w \<and> (\<exists>d \<in> set (challans (sale_desk (run calls s))). delivery_challan_id d = dc \<and> dc_org d = si_org (inv_head v) \<and>
    dc_firm d = si_firm (inv_head v) \<and> dc_party d = si_party (inv_head v) \<and> dc_status d \<in> {ISSUED, ACKNOWLEDGED})"
proof -
  have ok: "billing_ok (run calls s)" by (rule run_ok [OF assms(1)])
  have "bills dc v" "bills dc w"
    using assms ok by (simp_all add: bills_def RELEASED_INVOICE_STATUSES_def billing_ok_def invoice_ok_def)
  then show ?thesis using ok assms(2,3) unfolding billing_ok_def invoice_ok_def challan_ok_def by blast
qed

lemma one_live_invoice_per_challan_witness:
  "\<exists>v w. invoices (run demo_bill_calls demo_billing) = [v, w] \<and> inv_dc w = Some 502 \<and>
     (\<exists>d \<in> set (challans (sale_desk (run demo_bill_calls demo_billing))). delivery_challan_id d = 502 \<and> dc_status d \<in> {ISSUED, ACKNOWLEDGED})"
proof (rule demo_invoices)
  fix v w
  assume vw: "invoices (run demo_bill_calls demo_billing) = [v, w]" and w: "lifecycle w = PARTIALLY_PAID" "inv_dc w = Some 502"
  have m: "w \<in> set (invoices (run demo_bill_calls demo_billing))" unfolding vw by simp
  from one_live_invoice_per_challan [OF demo_billing_opened m m w(2) w(2)] w(1) vw w(2) show ?thesis by auto
qed

section \<open>Invoices and the ledger\<close>

text \<open>C3: At every moment of every run the books agree with every invoice: a draft or discarded invoice has
  no voucher; a finalized one, paid or not, has one sales voucher for the sum of its lines and their GST and at
  most one cost voucher, none of them reversed; each voucher of a cancelled one has exactly one reversal, and
  the two cancel out in every account.\<close>

theorem invoices_match_ledger:
  fixes s calls defines "t \<equiv> run calls s"
  assumes "opened s" and "v \<in> set (invoices t)"
  shows "lifecycle v \<in> {LC_DRAFT, DISCARDED, FINALIZED, PARTIALLY_PAID, PAID, LifecycleStatus.CANCELLED} \<and>
    (lifecycle v \<in> {LC_DRAFT, DISCARDED} \<longrightarrow> refs (inv_id v) (sale_books t) = []) \<and>
    (lifecycle v \<in> {FINALIZED, PARTIALLY_PAID, PAID, LifecycleStatus.CANCELLED} \<longrightarrow>
       (\<exists>w cs. refs (inv_id v) (sale_books t) = w # cs \<and> voucher_type w = SALES_INVOICE \<and>
          total_debit w = (\<Sum>l\<leftarrow>lines_of_invoice (inv_id v) t. il_amount l) + (\<Sum>l\<leftarrow>lines_of_invoice (inv_id v) t. il_gst l) \<and>
          length cs \<le> 1 \<and> (\<forall>c \<in> set cs. voucher_type c = COGS_SALE))) \<and>
    (\<forall>x \<in> set (refs (inv_id v) (sale_books t)).
       if lifecycle v \<noteq> LifecycleStatus.CANCELLED then refs (voucher_id x) (sale_books t) = []
       else \<exists>r. refs (voucher_id x) (sale_books t) = [r] \<and> (\<forall>a. on_account a x (sale_books t) + on_account a r (sale_books t) = 0))"
proof -
  have "billing_ok t" unfolding t_def by (rule run_ok [OF assms(2)])
  then have agree: "ledger_agrees (inv_head v) (sale_books t)" and amt: "amounts_ok v t"
    using assms(3) by (simp_all add: billing_ok_def invoice_ok_def)
  have life: "lifecycle v \<in> {LC_DRAFT, DISCARDED, FINALIZED, PARTIALLY_PAID, PAID, LifecycleStatus.CANCELLED}"
    using agree by (auto simp: ledger_agrees_def split: if_splits)
  have drafts: "lifecycle v \<in> {LC_DRAFT, DISCARDED} \<longrightarrow> refs (inv_id v) (sale_books t) = []"
    using agree by (simp add: ledger_agrees_def)
  have posted: "posted_sale (inv_head v) (sale_books t)" if "lifecycle v \<in> {FINALIZED, PARTIALLY_PAID, PAID, LifecycleStatus.CANCELLED}"
    using agree that by (auto simp: ledger_agrees_def)
  have total: "or_zero (si_invoice_amount (inv_head v))
      = (\<Sum>l\<leftarrow>lines_of_invoice (inv_id v) t. il_amount l) + (\<Sum>l\<leftarrow>lines_of_invoice (inv_id v) t. il_gst l)"
    using amt by (simp add: amounts_ok_def line_total_def or_zero_def)
  have "if lifecycle v \<noteq> LifecycleStatus.CANCELLED then refs (voucher_id x) (sale_books t) = []
       else \<exists>r. refs (voucher_id x) (sale_books t) = [r] \<and> (\<forall>a. on_account a x (sale_books t) + on_account a r (sale_books t) = 0)"
    if x: "x \<in> set (refs (inv_id v) (sale_books t))" for x
  proof (cases "lifecycle v = LifecycleStatus.CANCELLED")
    case False
    have "refs (inv_id v) (sale_books t) \<noteq> []" using x by auto
    with False drafts life have "lifecycle v \<in> standing" by auto
    with agree x False show ?thesis by (auto simp: ledger_agrees_def)
  next
    case True
    with agree x obtain r where "reversed_by x r (sale_books t)" by (auto simp: ledger_agrees_def)
    with True show ?thesis by (auto simp: reversed_by_def)
  qed
  with life drafts posted total show ?thesis unfolding posted_sale_def by auto
qed

lemma invoices_match_ledger_witness:
  "\<exists>v. v \<in> set (invoices (run demo_bill_calls demo_billing)) \<and> inv_id v = 500 \<and>
     (\<exists>w. refs 500 (sale_books (run demo_bill_calls demo_billing)) ! 0 = w \<and> voucher_type w = SALES_INVOICE \<and> total_debit w = 60)"
proof (rule demo_invoices)
  fix v w
  let ?t = "run demo_bill_calls demo_billing"
  assume vw: "invoices ?t = [v, w]" and v: "inv_id v = 500" "lifecycle v = PAID"
    and amt: "map total_debit (refs 500 (sale_books ?t)) = [60, 210]"
  have m: "v \<in> set (invoices ?t)" unfolding vw by simp
  note p = invoices_match_ledger [OF demo_billing_opened m, unfolded v(1)]
  from p v(2) obtain x cs where "refs 500 (sale_books ?t) = x # cs" "voucher_type x = SALES_INVOICE" by auto
  with m v(1) amt show ?thesis by (intro exI [of _ v]) auto
qed

section \<open>The life of an invoice\<close>

text \<open>C39: An invoice never disappears and never changes its number, date, amounts, tax type, customer or
  challan, all of which it has from its draft on (specs/invoice-lifecycle.md gives the number at
  finalization only); its state only moves along the chain the code has, from draft to finalized or
  discarded (the specification's CONFIRMED and POSTED are never set), from finalized to cancelled or, in one
  or more receipts, to paid; and a cancelled, discarded or paid invoice stays so.\<close>

theorem invoice_never_changes:
  assumes "opened s" and "v \<in> set (invoices (run before s))"
  shows "\<exists>v' \<in> set (invoices (run (before @ after) s)). document v' = document v \<and> inv_dc v' = inv_dc v \<and>
    inv_step\<^sup>*\<^sup>* (lifecycle v) (lifecycle v') \<and>
    (lifecycle v \<in> {LifecycleStatus.CANCELLED, DISCARDED, PAID} \<longrightarrow> lifecycle v' = lifecycle v)"
proof -
  from run_moves [OF till_run_ok [OF assms(1)] assms(2), of after] obtain v' where
    v': "v' \<in> set (invoices (run (before @ after) s))" "later_row v v'" by auto
  have "inv_step\<^sup>*\<^sup>* (lifecycle v) (lifecycle v')" using v'(2) by (simp add: later_row_def)
  with v' show ?thesis by (intro bexI [OF _ v'(1)]) (auto simp: later_row_def dest: inv_steps_final)
qed

lemma invoice_never_changes_witness:
  "\<exists>v v'. v \<in> set (invoices (run demo_bill_calls demo_billing)) \<and> si_invoice_amount (inv_head v) = Some 60 \<and>
     v' \<in> set (invoices (run (demo_bill_calls @ [Bill (DiscardInvoice 1 500)]) demo_billing)) \<and> document v' = document v"
proof (rule demo_invoices)
  fix v w
  let ?t = "run demo_bill_calls demo_billing"
  assume vw: "invoices ?t = [v, w]" and v: "si_invoice_amount (inv_head v) = Some 60"
  have m: "v \<in> set (invoices ?t)" unfolding vw by simp
  from invoice_never_changes [OF demo_billing_opened m, of "[Bill (DiscardInvoice 1 500)]"] m v show ?thesis by blast
qed

end
