(* ===== verification/ReceiptProps.thy ===== *)
theory ReceiptProps
  imports InvoiceLife
begin

text \<open>
  What receipts guarantee over every run: the control account of the customers is the sum of what
  is outstanding, and a receipt settles the oldest invoices first.
\<close>

section \<open>The control account\<close>

text \<open>C4: At every moment of every run of the sales desk, the stock, the invoices and the receipts, the
  balance of the receivables account of an organisation in the general ledger is the sum, over its invoices
  whose sale stands, of the amount less what was paid. What was paid on an invoice is the sum of its
  allocations, never negative and never more than the amount; the invoice is paid exactly when it is all
  there, and nothing was ever paid on an invoice that is a draft, discarded or cancelled.\<close>

theorem receivables_reconcile:
  fixes s calls defines "t \<equiv> till_run calls s"
  assumes "opened s" and "resolve_ledger org AR_LEDGER_CODE (sale_books (till_billing t)) = Inr ar"
    and "v \<in> set (invoices (till_billing t))"
  shows "account_balance (sale_books (till_billing t)) (ledger_id ar)
      = (\<Sum>v\<leftarrow>filter (\<lambda>v. si_org (inv_head v) = org \<and> lifecycle v \<in> {FINALIZED, PARTIALLY_PAID, PAID}) (invoices (till_billing t)).
           or_zero (si_invoice_amount (inv_head v)) - inv_paid v) \<and>
    inv_paid v = (\<Sum>x\<leftarrow>filter (\<lambda>x. pa_sales x = Some (inv_id v)) (allocations t). pa_amount x) \<and>
    0 \<le> inv_paid v \<and>
    (if lifecycle v = PAID then inv_paid v = or_zero (si_invoice_amount (inv_head v))
     else if lifecycle v = PARTIALLY_PAID then 0 < inv_paid v \<and> inv_paid v < or_zero (si_invoice_amount (inv_head v))
     else inv_paid v = 0)"
proof -
  have ok: "receivables_ok t" unfolding t_def by (rule till_run_ok [OF assms(2)])
  then have "tied org ar (till_billing t)" using assms(3) by (simp add: receivables_ok_def)
  then have "account_balance (sale_books (till_billing t)) (ledger_id ar)
      = (\<Sum>v\<leftarrow>filter (\<lambda>v. si_org (inv_head v) = org \<and> lifecycle v \<in> {FINALIZED, PARTIALLY_PAID, PAID}) (invoices (till_billing t)).
           or_zero (si_invoice_amount (inv_head v)) - inv_paid v)"
    unfolding tied_def owed_def counts_def [abs_def] outstanding_def [abs_def] by blast
  moreover have "paid_state v" "inv_paid v = allocated_to (inv_id v) t"
    using ok assms(4) by (simp_all add: receivables_ok_def till_ok_def)
  ultimately show ?thesis by (simp add: paid_state_def allocated_to_def split: if_splits)
qed

lemma receivables_reconcile_witness:
  "\<exists>v \<in> set (invoices (run demo_bill_calls demo_billing)). inv_id v = 504 \<and>
     (\<Sum>x\<leftarrow>filter (\<lambda>x. pa_sales x = Some 504) (allocations (till_run demo_bill_calls demo_billing)). pa_amount x) = 10 \<and>
     (\<Sum>v\<leftarrow>filter (\<lambda>v. si_org (inv_head v) = 1 \<and> lifecycle v \<in> {FINALIZED, PARTIALLY_PAID, PAID}) (invoices (run demo_bill_calls demo_billing)).
         or_zero (si_invoice_amount (inv_head v)) - inv_paid v) = 30"
proof (rule demo_invoices)
  fix v w
  assume vw: "invoices (run demo_bill_calls demo_billing) = [v, w]" and w: "inv_id w = 504" "inv_paid w = 10"
    and bal: "account_balance (sale_books (run demo_bill_calls demo_billing)) 20 = 30"
    and "map_sum id ledger_id (resolve_ledger 1 AR_LEDGER_CODE (sale_books (run demo_bill_calls demo_billing))) = Inr 20"
  then obtain l where l: "resolve_ledger 1 AR_LEDGER_CODE (sale_books (run demo_bill_calls demo_billing)) = Inr l" and id: "ledger_id l = 20"
    by (cases "resolve_ledger 1 AR_LEDGER_CODE (sale_books (run demo_bill_calls demo_billing))") auto
  have m: "w \<in> set (invoices (run demo_bill_calls demo_billing))" unfolding vw by simp
  from receivables_reconcile [OF demo_billing_opened l m, unfolded id bal w] m w(1) show ?thesis by (intro bexI [OF _ m]) metis
qed

section \<open>Oldest first\<close>

lemma older_sum: "set rs \<subseteq> set (open_invoices_fifo org firm party s) \<Longrightarrow> due_on outstanding rs = (\<Sum>u\<leftarrow>rs. outstanding u)"
proof (induction rs)
  case (Cons r rs)
  have "open_invoice org firm party r" using Cons.prems by (auto simp: open_invoices_set)
  with outstanding_open have "0 < outstanding r" by blast
  with Cons show ?case by simp
qed simp

lemma received_state: "lifecycle (received a v) = (if outstanding v \<le> a then PAID else PARTIALLY_PAID)"
  by (auto simp: received_def outstanding_def)

lemma open_invoices_are:
  assumes ok: "billing_ok s"
  shows "set (open_invoices_fifo org firm party s) = {v \<in> set (invoices s). si_org (inv_head v) = org \<and> si_firm (inv_head v) = firm \<and>
    si_party (inv_head v) = party \<and> lifecycle v \<in> {FINALIZED, PARTIALLY_PAID} \<and> 0 < outstanding v}" (is "_ = ?S")
proof
  show "set (open_invoices_fifo org firm party s) \<subseteq> ?S"
  proof
    fix v assume v: "v \<in> set (open_invoices_fifo org firm party s)"
    then have "v \<in> set (invoices s)" "open_invoice org firm party v" by (simp_all add: open_invoices_set)
    with outstanding_open open_stands [OF ok v] show "v \<in> ?S" by (auto simp: open_invoice_def)
  qed
  show "?S \<subseteq> set (open_invoices_fifo org firm party s)"
  proof
    fix v assume v: "v \<in> ?S"
    then have "invoice_ok v s" using ok by (simp add: billing_ok_def)
    with v show "v \<in> set (open_invoices_fifo org firm party s)"
      by (auto simp: open_invoices_set open_invoice_def invoice_ok_def amounts_ok_def outstanding_def or_zero_def OPEN_AR_LIFECYCLES_def)
  qed
qed

text \<open>C8: A receipt, in any state a run can reach, is spread over the invoices on which the customer owes the
  firm something, in the order the code takes, by invoice date and then number (specs/invoice-lifecycle.md
  orders them by due date): each gets what it has outstanding as far as the amount goes after the older ones,
  and is paid or partly paid by it; no other invoice changes; the voucher is for the amount of the receipt,
  balanced, the allocations under it are all positive and add up to the amount or to everything outstanding, whichever is less.\<close>

theorem receipt_settles_oldest_first:
  assumes "opened s" and r: "post_receipt now org firm party amt d mode bank series (till_run calls s) = Inr (s', w)"
    and q: "q = open_invoices_fifo org firm party (run calls s)" and "i < length q"
  shows "sorted (map (\<lambda>v. (invoice_date (inv_head v), si_number (inv_head v))) q) \<and>
    set q = {v \<in> set (invoices (run calls s)). si_org (inv_head v) = org \<and> si_firm (inv_head v) = firm \<and>
       si_party (inv_head v) = party \<and> lifecycle v \<in> {FINALIZED, PARTIALLY_PAID} \<and> 0 < outstanding v} \<and>
    (\<exists>v \<in> set (invoices (till_billing s')). inv_id v = inv_id (q ! i) \<and>
        inv_paid v = inv_paid (q ! i) + max 0 (min (outstanding (q ! i)) (amt - (\<Sum>u\<leftarrow>take i q. outstanding u))) \<and>
        lifecycle v = (if (\<Sum>u\<leftarrow>take (Suc i) q. outstanding u) \<le> amt then PAID
                       else if (\<Sum>u\<leftarrow>take i q. outstanding u) < amt then PARTIALLY_PAID else lifecycle (q ! i))) \<and>
    set (invoices (run calls s)) - set q \<subseteq> set (invoices (till_billing s')) \<and>
    total_debit w = amt \<and> debits (lines_of (voucher_id w) (sale_books (till_billing s'))) = amt \<and>
    credits (lines_of (voucher_id w) (sale_books (till_billing s'))) = amt \<and>
    (\<exists>new. allocations s' = allocations (till_run calls s) @ new \<and> (\<forall>x \<in> set new. pa_voucher x = voucher_id w \<and> 0 < pa_amount x) \<and>
       (\<Sum>x\<leftarrow>new. pa_amount x) = min amt (\<Sum>u\<leftarrow>q. outstanding u))"
proof -
  let ?t = "run calls s"
  have b: "billing_ok ?t" by (rule run_ok [OF assms(1)])
  then have di: "distinct (map inv_id (invoices ?t))" and gl: "gl_ok (sale_books ?t)" and ids: "bill_ids_ok ?t"
    by (simp_all add: billing_ok_def bill_ids_ok_def)
  obtain cash xs rest ar adv bb legs where pos: "amt > 0"
    and "resolve_settlement_ledger org firm mode bank (bank_accounts (till_run calls s)) (sale_books ?t) = Inr cash"
    and f': "allocate_fifo outstanding amt (open_invoices_fifo org firm party ?t) = (xs, rest)"
    and "optional_ledger (amt - rest > 0) org AR_LEDGER_CODE (sale_books ?t) = Inr ar"
    and "optional_ledger (rest > 0) org ADVANCES_LEDGER_CODE (sale_books ?t) = Inr adv"
    and pb: "posts_balanced (sale_books ?t) bb w legs"
    and legs: "legs = [(ledger_id cash, DR, amt)] @ leg_if ar CR (amt - rest) @ leg_if adv CR rest"
    and s': "s' = (till_run calls s)\<lparr>till_billing := ?t\<lparr>sale_books := bb, invoices := map (receipt_of xs) (invoices ?t)\<rparr>,
          allocations := allocations (till_run calls s) @ map (allocation_row org firm w) xs\<rparr>"
    by (rule post_receipt_cases [OF r di])
  note f = f' [folded q]
  have m: "0 \<le> amt" using pos by simp
  note rows = receipt_rows [OF f' pos b]
  have sub: "set (take j q) \<subseteq> set q" for j by (rule set_take_subset)
  have older: "due_on outstanding (take j q) = (\<Sum>u\<leftarrow>take j q. outstanding u)" for j
    using sub [of j] unfolding q by (rule older_sum)
  have v: "q ! i \<in> set (invoices ?t)" "0 < outstanding (q ! i)"
    using assms(4) nth_mem [OF assms(4)] outstanding_open by (auto simp: q open_invoices_set)
  define a where "a = share amt (due_on outstanding (take i q)) (outstanding (q ! i))"
  have a: "a = max 0 (min (outstanding (q ! i)) (amt - (\<Sum>u\<leftarrow>take i q. outstanding u)))" by (simp add: a_def share_def older)
  have mem: "(q ! i, c) \<in> set xs \<longleftrightarrow> 0 < a \<and> c = a" for c
  proof -
    have "distinct q" using open_invoices_distinct [OF di] by (simp add: q distinct_map)
    with assms(4) show ?thesis unfolding allocate_fifo_shares [OF m f] a_def by (auto simp: nth_eq_iff_index_eq)
  qed
  have next_sum: "(\<Sum>u\<leftarrow>take (Suc i) q. outstanding u) = (\<Sum>u\<leftarrow>take i q. outstanding u) + outstanding (q ! i)"
    using assms(4) by (simp add: take_Suc_conv_app_nth)
  have row: "inv_paid (receipt_of xs (q ! i)) = inv_paid (q ! i) + a \<and>
      lifecycle (receipt_of xs (q ! i)) = (if (\<Sum>u\<leftarrow>take (Suc i) q. outstanding u) \<le> amt then PAID
                       else if (\<Sum>u\<leftarrow>take i q. outstanding u) < amt then PARTIALLY_PAID else lifecycle (q ! i))"
  proof (cases "0 < a")
    case True
    with rows [OF v(1)] mem have "receipt_of xs (q ! i) = received a (q ! i)" by force
    with True v(2) show ?thesis unfolding next_sum by (auto simp: a received_state max_def min_def split: if_splits)
  next
    case False
    with rows [OF v(1)] mem have n: "receipt_of xs (q ! i) = q ! i" by blast
    have "amt \<le> (\<Sum>u\<leftarrow>take i q. outstanding u)" "a = 0" using False v(2) by (auto simp: a max_def min_def split: if_splits)
    with n v(2) show ?thesis unfolding next_sum by simp
  qed
  have "\<exists>v \<in> set (invoices (till_billing s')). inv_id v = inv_id (q ! i) \<and>
        inv_paid v = inv_paid (q ! i) + max 0 (min (outstanding (q ! i)) (amt - (\<Sum>u\<leftarrow>take i q. outstanding u))) \<and>
        lifecycle v = (if (\<Sum>u\<leftarrow>take (Suc i) q. outstanding u) \<le> amt then PAID
                       else if (\<Sum>u\<leftarrow>take i q. outstanding u) < amt then PARTIALLY_PAID else lifecycle (q ! i))"
    using row v(1) by (intro bexI [of _ "receipt_of xs (q ! i)"]) (simp_all add: s' a)
  moreover have "set (invoices ?t) - set q \<subseteq> set (invoices (till_billing s'))"
  proof
    fix u assume u: "u \<in> set (invoices ?t) - set q"
    then have "u \<in> set (invoices ?t)" by simp
    from rows [OF this] u have "receipt_of xs u = u" by (auto simp: q)
    with u show "u \<in> set (invoices (till_billing s'))" by (force simp: s')
  qed
  moreover have "debits (lines_of (voucher_id w) bb) = amt \<and> credits (lines_of (voucher_id w) bb) = amt \<and> total_debit w = amt"
  proof -
    have p: "posted (sale_books ?t) bb w legs" using pb by (simp add: posts_balanced_def)
    have "leg_debits legs = amt" by (simp add: legs)
    then show ?thesis using lines_of_posted(1) [OF gl p] posted_balanced [OF gl p] pb by (simp add: posts_balanced_def)
  qed
  moreover have "(\<Sum>x\<leftarrow>map (allocation_row org firm w) xs. pa_amount x) = min amt (\<Sum>u\<leftarrow>q. outstanding u)"
  proof -
    have "(\<Sum>x\<leftarrow>xs. snd x) = amt - rest" using allocate_fifo_sum [OF f] by simp
    moreover have "rest = max 0 (amt - (\<Sum>u\<leftarrow>q. outstanding u))" using allocate_fifo_rest [OF m f] older [of "length q"] by simp
    ultimately show ?thesis by (simp add: o_def allocation_row_def max_def min_def)
  qed
  moreover have "\<forall>x \<in> set (map (allocation_row org firm w) xs). pa_voucher x = voucher_id w \<and> 0 < pa_amount x"
    using allocate_fifo_mem(2) [OF m f] by (fastforce simp: allocation_row_def)
  moreover have "sorted (map (\<lambda>v. (invoice_date (inv_head v), si_number (inv_head v))) q)" by (simp add: q open_invoices_fifo_def)
  moreover note open_invoices_are [OF b, of org firm party, folded q]
  ultimately show ?thesis by (simp add: s')
qed

lemma demo_receipt:
  "map (\<lambda>t. (map inv_id (open_invoices_fifo 1 2 5 (till_billing t)),
      case post_receipt (Date 2026 5 5, 0) 1 2 5 70 (Date 2026 5 5) ''CASH'' None ''RCT'' t of
        Inl e \<Rightarrow> None | Inr (s', w) \<Rightarrow> Some (map pa_amount (allocations s')))) [till_run (take 2 demo_bill_calls) demo_billing]
   = [([500], Some [60])]"
  by code_simp

lemma receipt_settles_oldest_first_witness:
  "\<exists>s' w. post_receipt (Date 2026 5 5, 0) 1 2 5 70 (Date 2026 5 5) ''CASH'' None ''RCT'' (till_run (take 2 demo_bill_calls) demo_billing) = Inr (s', w) \<and>
     total_debit w = 70 \<and> (\<exists>v \<in> set (invoices (till_billing s')). inv_id v = 500)"
proof -
  let ?q = "open_invoices_fifo 1 2 5 (run (take 2 demo_bill_calls) demo_billing)"
  from demo_receipt obtain s' w where
    r: "post_receipt (Date 2026 5 5, 0) 1 2 5 70 (Date 2026 5 5) ''CASH'' None ''RCT'' (till_run (take 2 demo_bill_calls) demo_billing) = Inr (s', w)"
    by (auto split: sum.splits)
  obtain v where q: "?q = [v]" "inv_id v = 500" using demo_receipt by (auto simp: map_eq_Cons_conv)
  from receipt_settles_oldest_first [OF demo_billing_opened r refl, of 0] r q show ?thesis by auto
qed

end
