(* ===== verification/InvoicePricing.thy ===== *)
theory InvoicePricing
  imports InvoiceLife
begin

text \<open>
  The tax of a draft: what the two passes of the pricing and the place-of-supply engine agree on, line
  by line.
\<close>

section \<open>Normal state codes\<close>

lemma normalize_again: "normalize_state_code x = Some c \<Longrightarrow> normalize_state_code (Some c) = Some c"
  by (drule normalize_state_code_valid) simp

lemma ship_state_normal: "ship_state ship = Some c \<Longrightarrow> normalize_state_code (Some c) = Some c"
  by (auto simp: ship_state_def split: if_splits intro: normalize_again)

lemma buyer_state_normal: "buyer_state_of p = Some c \<Longrightarrow> normalize_state_code (Some c) = Some c"
  by (auto simp: buyer_state_of_def Let_def split: if_splits intro: normalize_again)

lemma destination_normal:
  assumes "or_else (ship_state ship) (buyer_state_of p) = Some c"
  shows "destination (or_else (ship_state ship) (buyer_state_of p)) b = Some c"
proof -
  have "normalize_state_code (Some c) = Some c"
    using assms ship_state_normal buyer_state_normal by (auto simp: or_else_def split: option.splits)
  with assms show ?thesis by (simp add: destination_def or_else_def)
qed

section \<open>The lines of a draft\<close>

lemma price_line_Inr:
  assumes "price_line f x = Inr l"
  shows "dl_item l = vq_item (snd x) \<and> dl_qty l = vq_qty (snd x) \<and> dl_amount l = line_worth (snd x) \<and> dl_rate l = line_rate (snd x) \<and>
    line_rate (snd x) \<in> set VALID_GST_SLAB_RATES"
  using assms by (cases x) (auto simp: bindE_Inr_iff is_valid_gst_rate_def)

lemma line_tax_Inr:
  assumes "line_tax t l = Inr g"
  shows "g = (if t = IGST then paise (dl_amount l * dl_rate l / 100)
              else if t = CGST_SGST then 2 * paise (dl_amount l * dl_rate l / 200) else 0)"
  using assms by (auto simp: line_tax_def bindE_Inr_iff compute_line_gst_Inr tax_total_def)

lemma priced_lines:
  assumes "mapE (price_line f) (enumerate n rs) = Inr ls" and "mapE (line_tax t) ls = Inr gs"
  shows "list_all2 (\<lambda>r l. il_item l = vq_item r \<and> il_qty l = vq_qty r \<and> il_amount l = line_worth r \<and> il_rate l = line_rate r \<and>
      line_rate r \<in> set VALID_GST_SLAB_RATES \<and>
      il_gst l = (if t = IGST then paise (line_worth r * line_rate r / 100)
                  else if t = CGST_SGST then 2 * paise (line_worth r * line_rate r / 200) else 0))
    rs (map2 (new_invoice_line v) ls gs)"
  using assms
proof (induction rs arbitrary: n ls gs)
  case (Cons r rs)
  from Cons.prems(1) obtain l ls' where l: "price_line f (n, r) = Inr l" "mapE (price_line f) (enumerate (Suc n) rs) = Inr ls'"
    and ls: "ls = l # ls'" by (auto simp: bindE_Inr_iff simp del: price_line.simps)
  from Cons.prems(2) obtain g gs' where g: "line_tax t l = Inr g" "mapE (line_tax t) ls' = Inr gs'" and gs: "gs = g # gs'"
    by (auto simp: ls bindE_Inr_iff)
  from Cons.IH [OF l(2) g(2)] price_line_Inr [OF l(1)] line_tax_Inr [OF g(1)] show ?case
    by (simp add: ls gs new_invoice_line_def)
qed simp

section \<open>Properties\<close>

text \<open>C16: A draft of a GST-registered firm for an ordinary customer who is not the firm itself: the tax is
  decided by the destination, the ship-to state or else the customer's, CGST and SGST inside the firm's
  state and IGST outside; each line carries its quantity times price and the statutory tax on it at a
  slab rate; the header is the sum of the lines and stays within the money limit; nothing is posted yet.\<close>

theorem draft_taxed_by_destination:
  assumes "opened s" and c: "create_draft_invoice org firm party d rs series ship dc (run calls s) = Inr (s', v)"
    and f: "firm_tax_of org firm (run calls s) = Inr f" and p: "ensure_party_in_org org party (sale_desk (run calls s)) = Inr p"
    and reg: "has_gst f" and home: "normalize_state_code (ft_state f) = Some home"
    and buyer: "classify_buyer p \<in> {REGISTERED, CONSUMER}" "\<not> (ft_gstin f \<noteq> None \<and> ft_gstin f = cust_gstin p)"
    and dest: "or_else (ship_state ship) (buyer_state_of p) = Some dest"
  shows "tax_type (inv_head v) = Some (if dest = home then ''CGST_SGST'' else ''IGST'') \<and>
    list_all2 (\<lambda>r l. il_item l = vq_item r \<and> il_qty l = vq_qty r \<and> il_amount l = line_worth r \<and> il_rate l = line_rate r \<and>
        line_rate r \<in> set VALID_GST_SLAB_RATES \<and>
        il_gst l = (if dest = home then 2 * paise (line_worth r * line_rate r / 200) else paise (line_worth r * line_rate r / 100)))
      rs (lines_of_invoice (inv_id v) s') \<and>
    si_gst_amount (inv_head v) = Some (\<Sum>l\<leftarrow>lines_of_invoice (inv_id v) s'. il_gst l) \<and>
    si_invoice_amount (inv_head v)
      = Some ((\<Sum>l\<leftarrow>lines_of_invoice (inv_id v) s'. il_amount l) + (\<Sum>l\<leftarrow>lines_of_invoice (inv_id v) s'. il_gst l)) \<and>
    \<bar>or_zero (si_invoice_amount (inv_head v))\<bar> \<le> MAX_MONEY \<and> lifecycle v = LC_DRAFT \<and> sale_books s' = sale_books (run calls s)"
proof -
  obtain p' f' pos ls gs n where c': "ensure_party_in_org org party (sale_desk (run calls s)) = Inr p'" "firm_tax_of org firm (run calls s) = Inr f'"
    and price: "price_draft f' p' ship d rs = Inr (pos, ls, gs)"
    and v: "inv_head v = (inv_head (new_invoice org firm party d series n dc pos (stored_pos_state pos p' ship)
        (subtotal_of ls + sum_list gs) (sum_list gs)))\<lparr>sales_invoice_id := sale_supply (sale_desk (run calls s)) (sale_count (sale_desk (run calls s)))\<rparr>"
    and s': "s' = (run calls s)\<lparr>sale_desk := (sale_desk (run calls s))\<lparr>sale_count := Suc (sale_count (sale_desk (run calls s)))\<rparr>,
        invoices := invoices (run calls s) @ [v], invoice_lines := invoice_lines (run calls s) @ map2 (new_invoice_line v) ls gs\<rparr>"
    by (rule create_draft_cases [OF c])
  have same: "p' = p" "f' = f" using c' f p by simp_all
  note pr = price_draft_Inr [OF price [unfolded same]]
  let ?t = "ps_tax_type pos"
  have st: "classify_buyer p \<in> {REGISTERED, CONSUMER, UNREGISTERED}" using buyer(1) by auto
  have gs: "\<not> (ft_gstin f \<noteq> None \<and> ft_gstin f = cust_gstin p)" by (rule buyer(2))
  have t: "?t = (if dest = home then CGST_SGST else IGST)"
    using reg by (simp add: pr(3) place_of_supply_for_def home pos_domestic [OF normalize_again [OF home] st gs] destination_normal [OF dest])
  have ok: "billing_ok (run calls s)" by (rule run_ok [OF assms(1)])
  have bi: "bill_ids_ok (run calls s)" using ok by (simp add: billing_ok_def)
  have lines: "lines_of_invoice (inv_id v) s' = map2 (new_invoice_line v) ls gs"
    by (rule new_draft_lines [OF bi conjunct2 [OF create_draft_ok [OF c ok]]]) (simp add: s')
  have "invoice_ok v s'" using create_draft_ok [OF c ok] by (simp add: billing_ok_def s')
  then have amt: "amounts_ok v s'" by (simp add: invoice_ok_def)
  have max: "\<bar>subtotal_of ls + sum_list gs\<bar> \<le> MAX_MONEY" using pr(5) by (auto simp: ensure_money_in_range_def split: if_splits)
  have "tax_type (inv_head v) = Some (if dest = home then ''CGST_SGST'' else ''IGST'')"
    by (simp add: v new_invoice_def t tax_value_def)
  moreover have "list_all2 (\<lambda>r l. il_item l = vq_item r \<and> il_qty l = vq_qty r \<and> il_amount l = line_worth r \<and> il_rate l = line_rate r \<and>
        line_rate r \<in> set VALID_GST_SLAB_RATES \<and>
        il_gst l = (if dest = home then 2 * paise (line_worth r * line_rate r / 200) else paise (line_worth r * line_rate r / 100)))
      rs (lines_of_invoice (inv_id v) s')"
    unfolding lines by (rule list_all2_mono [OF priced_lines [OF pr(1,2)]]) (simp add: t)
  moreover have "\<bar>or_zero (si_invoice_amount (inv_head v))\<bar> \<le> MAX_MONEY" using max by (simp add: v new_invoice_def or_zero_def)
  moreover have "lifecycle v = LC_DRAFT" by (simp add: v new_invoice_def)
  moreover have "sale_books s' = sale_books (run calls s)" by (simp add: s')
  ultimately show ?thesis using amt by (simp add: amounts_ok_def line_total_def)
qed

text \<open>A firm in Maharashtra bills a customer of Gujarat.\<close>

definition gst_till :: till where
  "gst_till = demo_billing\<lparr>till_billing := (till_billing demo_billing)\<lparr>sale_desk := demo_desk\<lparr>sale_supply := (\<lambda>n. 500 + 2 * n),
       customers := [\<lparr>cust_id = 5, cust_org = 1, is_customer = True, cust_state = Some ''GJ'', cust_gstin = None, cust_sez = False,
                     cust_export = False, cust_deleted = False\<rparr>]\<rparr>,
     firm_taxes := [\<lparr>ft_firm = 2, ft_org = 1, has_gst = True, ft_state = Some ''27'', ft_gstin = None\<rparr>]\<rparr>\<rparr>"

abbreviation gst_billing :: billing where "gst_billing \<equiv> till_billing gst_till"

definition gst_bill :: inv_request where
  "gst_bill = \<lparr>vq_item = 3, vq_qty = 5, vq_price = 10, vq_rate = Some 18, vq_sequence = None\<rparr>"

lemma gst_till_opened: "opened gst_till"
  using demo_billing_opened
  by (simp add: opened_def gst_till_def demo_billing_def sales_ok_def sale_ids_ok_def sale_ids_def demo_desk_def)

lemma gst_draft:
  "(case create_draft_invoice 1 2 5 (Date 2026 5 2) [gst_bill] ''INV'' None None gst_billing of
      Inl e \<Rightarrow> None | Inr (s', v) \<Rightarrow> Some (inv_id v, map il_gst (lines_of_invoice (inv_id v) s'))) = Some (500, [9])"
  by code_simp

lemma gst_worth: "line_rate gst_bill \<in> set VALID_GST_SLAB_RATES \<and> paise (line_worth gst_bill * line_rate gst_bill / 100) = 9"
  by code_simp

lemma draft_taxed_by_destination_witness:
  "\<exists>s' v. create_draft_invoice 1 2 5 (Date 2026 5 2) [gst_bill] ''INV'' None None gst_billing = Inr (s', v) \<and>
     tax_type (inv_head v) = Some ''IGST'' \<and> si_gst_amount (inv_head v) = Some 9 \<and> sale_books s' = sale_books gst_billing"
proof -
  from gst_draft obtain s' v where c: "create_draft_invoice 1 2 5 (Date 2026 5 2) [gst_bill] ''INV'' None None (run [] gst_till) = Inr (s', v)"
    and g: "map il_gst (lines_of_invoice (inv_id v) s') = [9]"
    by (auto split: sum.splits)
  have f: "firm_tax_of 1 2 (run [] gst_till) = Inr (firm_taxes gst_billing ! 0)"
    by (simp add: firm_tax_of_def scalar_one_def scalar_one_or_none_def gst_till_def)
  have p: "ensure_party_in_org 1 5 (sale_desk (run [] gst_till)) = Inr (customers (sale_desk gst_billing) ! 0)" by code_simp
  note w = draft_taxed_by_destination [OF gst_till_opened c f p, of "''MH''" "''GJ''"]
  have "has_gst (firm_taxes gst_billing ! 0)" by code_simp
  moreover have "normalize_state_code (ft_state (firm_taxes gst_billing ! 0)) = Some ''MH''" by code_simp
  moreover have "classify_buyer (customers (sale_desk gst_billing) ! 0) \<in> {REGISTERED, CONSUMER}" by code_simp
  moreover have "\<not> (ft_gstin (firm_taxes gst_billing ! 0) \<noteq> None \<and>
      ft_gstin (firm_taxes gst_billing ! 0) = cust_gstin (customers (sale_desk gst_billing) ! 0))" by code_simp
  moreover have "or_else (ship_state None) (buyer_state_of (customers (sale_desk gst_billing) ! 0)) = Some ''GJ''" by code_simp
  ultimately show ?thesis using w c g by (auto simp: map_eq_Cons_conv)
qed

end
