(* ===== verification/Spec2Isabelle.thy ===== *)
theory Spec2Isabelle
  imports Prelude GstStates Gst Numbering Inventory Ledgers Accounting AccountingProps StockAdj StockAdjProps Dag JobWork JobWorkProps Manufacturing Routing RoutingFlow OperationProgress Inspection Bom Mo MaterialIssue MoCompletion StockMoves SalesOrders SalesOrderProps SalesInvoices SalesLedger InvoiceStock SalesInvoiceProps Settlement Receipts Receivables InvoiceLife ReceiptProps InvoicePricing
begin

text \<open>
  \<^bold>\<open>A verified model of the services of Fabric.\<close> The backend (\<^verbatim>\<open>src/backend/app\<close>) is an
  inventory, accounting and manufacturing system for textile firms: FastAPI routers over service
  modules over a Postgres database. The services are the program's logic and they are what these
  theories model; file names below are relative to \<^verbatim>\<open>src/backend/app\<close>.

  \<^bold>\<open>How the program is put together.\<close> Each service function runs inside one database
  transaction. It reads rows, checks its guards, raises or writes rows, and calls other services
  on the same session. The stock engine (\<^verbatim>\<open>inventory_service\<close>) and the general ledger
  (\<^verbatim>\<open>accounting_service\<close>) are at the bottom: stock adjustments, job work, challans, invoices,
  material issues and completions all move stock through the first and post vouchers through the
  second. The GST engine (\<^verbatim>\<open>gst_service\<close>) is called when an invoice is priced. The
  manufacturing services share one set of tables: a routing is a graph of operations, an order
  materialises one operation per node, the flow engine decides which may start, the progress
  service moves them, material issue and completion connect the order to stock and ledger.

  \<^bold>\<open>How it is modelled.\<close> A table is a list of rows, a row a record with the model's columns,
  a database state a record of tables (\<open>inv\<close>, \<open>books\<close>, \<open>adj_state\<close>, \<open>jobwork\<close>, \<open>plant\<close>,
  \<open>sales\<close>, \<open>billing\<close>, \<open>till\<close>); a richer state contains the poorer ones. A service function is a
  function from its arguments and the state to \<open>error + state\<close> (or \<open>error + state \<times> result\<close>):
  every raise is an \<open>Inl\<close>, and since a raise rolls the transaction back, a run of calls keeps
  the state at an \<open>Inl\<close>. The locale \<open>transactional\<close> of \<open>Prelude\<close> is the interface of such a
  step with an invariant, and gives the invariant over every run; each component interprets it
  for its own calls. The locales \<open>numbering\<close> and \<open>endless_numbering\<close> are what a caller needs of
  a document-number allocator.

  \<^bold>\<open>Theories.\<close>
  \<^item> \<open>Prelude\<close>: identifiers, dates, errors, decimals with Python's rounding modes and the
    28-digit decimal context, tables, runs.
  \<^item> \<open>GstStates\<close> (\<^verbatim>\<open>utils/gst_states.py\<close>) and \<open>Gst\<close> (\<^verbatim>\<open>service/gst_service.py\<close>,
    \<^verbatim>\<open>utils/money.py\<close>): state codes, GSTIN check digit, place of supply, line tax.
  \<^item> \<open>Numbering\<close>: the two ways the services allocate numbers, by the largest integer and by the
    largest text.
  \<^item> \<open>Inventory\<close> (\<^verbatim>\<open>inventory_service.py\<close>) and \<open>StockMoves\<close>: positions, movements, weighted
    average, FIFO, reservations; the invariant \<open>inv_ok\<close> ties positions to movements.
  \<^item> \<open>Ledgers\<close>, \<open>Accounting\<close>, \<open>AccountingProps\<close> (\<^verbatim>\<open>accounting_service.py\<close>): vouchers and
    lines, every posting and reversal; the invariant \<open>gl_ok\<close> is double entry.
  \<^item> \<open>StockAdj\<close>, \<open>StockAdjProps\<close> (\<^verbatim>\<open>stock_service.py\<close>): adjustments, both books together.
  \<^item> \<open>JobWork\<close>, \<open>JobWorkProps\<close> (\<^verbatim>\<open>jobwork_service.py\<close>): goods sent out and received back.
  \<^item> \<open>Dag\<close>, \<open>Manufacturing\<close>, \<open>Routing\<close>, \<open>RoutingFlow\<close>, \<open>Bom\<close>, \<open>Mo\<close>, \<open>OperationProgress\<close>,
    \<open>Inspection\<close> (\<^verbatim>\<open>qc_service.py\<close>), \<open>MaterialIssue\<close>, \<open>MoCompletion\<close> (the others the services of
    the same names): the manufacturing module, from the graph algorithms over the shop floor with its
    inspections and rework clones to the settlement of the work-in-process pool.
  \<^item> \<open>SalesOrders\<close>, \<open>SalesOrderProps\<close> (first half of \<^verbatim>\<open>sales_service.py\<close>): orders, challans,
    the dispatch cap and the order's status.
  \<^item> \<open>SalesInvoices\<close>, \<open>SalesLedger\<close>, \<open>InvoiceStock\<close>, \<open>SalesInvoiceProps\<close>, \<open>InvoicePricing\<close>
    (second half of \<^verbatim>\<open>sales_service.py\<close>, \<^verbatim>\<open>dc_invoice_link_service.py\<close>): drafts and their
    pricing, finalization, discard, cancellation. \<open>SalesLedger\<close> says what the books hold for an
    invoice in each state of its life, \<open>InvoiceStock\<close> what its goods do.
  \<^item> \<open>Settlement\<close>, \<open>Receipts\<close>, \<open>Receivables\<close> (\<^verbatim>\<open>receipt_service.py\<close>, the choice of the
    settlement account of \<^verbatim>\<open>banking_service.py\<close>): the first-in first-out loop, the posting of a
    receipt, and the invariant that ties invoices, allocations and the receivables account.
  \<^item> \<open>InvoiceLife\<close>, \<open>ReceiptProps\<close>: the properties of sales, invoices and receipts over every
    run of all their calls.

  \<^bold>\<open>What the lemmas show.\<close> For each component: the invariant of its tables and that every
  operation keeps it, successful or raising; the effect of the operations on stock and balances, as
  equations over \<open>on_hand\<close> and \<open>on_account\<close>; the states a document moves through and the
  bounds of its tallies. Across components: stock and ledger agree with the documents that moved
  them (\<open>Inventory.positions_match_ledger\<close>, \<open>AccountingProps.books_always_balance\<close>,
  \<open>InvoiceLife.invoices_match_ledger\<close>), what is sent, issued or dispatched never exceeds what was
  planned or ordered, no unit is lost between the shop floor and its inspections, and an order on
  an accepted routing stops only at a partial edge whose source finished short of the threshold.
  Job work is followed location by location: what leaves MAIN is at JOBWORK until it comes home or is
  written off.
  Where the code falls short of its own comments the
  development proves a concrete run that shows it (for example
  \<open>StockAdjProps.fifo_adjustment_posts_first_row\<close>).

  \<^bold>\<open>Bounds and termination.\<close> Every definition is total. The depth-first cycle search recurs on a
  measure, Kahn's loop is a \<open>while_option\<close> shown to return \<open>Some\<close>; the flow engine's walk carries the source's own step cap and
  the lemma \<open>walk_edges_all\<close> shows that it never cuts the walk short. The walk up a chain of rework
  clones stops at the source's cap. The loop down the chain has as much fuel as there are operations;
  \<open>descend_end\<close> shows that it ends at the last clone, as a clone always stands after what it
  reworks. No fuel is used elsewhere.

  \<^bold>\<open>Idealisations.\<close>
  \<^item> A Python \<^verbatim>\<open>Decimal\<close> is a rational; sums and products of column values are exact in Python too
    (lemma \<open>ctx_exact\<close> gives the bound), other results go through \<open>ctx\<close>, and a value
    written to a \<^verbatim>\<open>NUMERIC\<close> column is rounded to its scale where it may have more
    digits. Quantities and thresholds in requests have at most the
    scale of their column, which the request schemas do not enforce: movements, edges of routings and
    tallies keep them as given.
  \<^item> Calls are serialised, as the \<^verbatim>\<open>FOR UPDATE\<close> locks of the code intend; a run is
    a sequence of calls. Unique indexes are modelled as checks at the insertion.
  \<^item> Identifiers are natural numbers drawn from an arbitrary injective supply; where two supplies
    meet (invoices and vouchers) they are disjoint, as random UUIDs are.
  \<^item> Dates are days or year, month and day; the current time is an argument. Narrations and
    messages keep the fixed words, not the display names inside them. Strings are ASCII and compared
    by character code, where the database uses its collation. Encrypted columns are
    read decrypted.

  \<^bold>\<open>Not modelled.\<close> Row security and the request context, audit rows and production events (but for
  the inspection verdicts, which are read back), paging and
  listing, HTTP parsing and permissions, rendering, e-mail and authentication (they rest on third-party
  packages or are pure input and output); the read-only reports; masters, whose rows are inputs of the
  model; karigar send-out of operations,
  the procurement documents (their postings are in \<open>Accounting\<close>), supplier payments (the mirror image of
  receipts on the rows of procurement), and the bank statements and cheques.
\<close>

end
